(* ===== verification/Prelude.thy ===== *)
theory Prelude
  imports Main "HOL-Library.Product_Lexorder" "HOL-Library.Sublist"
begin

text \<open>
  Shared vocabulary of the development.

  \<^item> Go slices: \<open>slice_at\<close> is indexing with the out-of-range panic made explicit,
    \<open>IndexByte\<close> and \<open>SplitOn\<close> are the two functions of the Go \<open>strings\<close> package the
    components share, \<open>Itoa\<close> is \<open>strconv.Itoa\<close> on non-negative numbers.
  \<^item> Effects: a program is a function of a \<open>world\<close> (which statement fails, what the clock
    says at each read), a counter of the effects performed so far and a state. A
    statement may fail without effect, or take effect with its reply lost; a
    transaction restores its snapshot on every error and at a failed commit.
  \<^item> Hoare triples over programs with separate postconditions for normal and error
    returns; the rules are collected in \<open>wp\<close>.
\<close>

section \<open>Collections used by the component theories\<close>

named_theorems wp \<open>Hoare rules for programs\<close>
named_theorems prog_defs \<open>definitions of the basic programs\<close>
named_theorems go_simps \<open>evaluation rules for the Go library functions\<close>

section \<open>Go slices and strings\<close>

definition slice_at :: "'a list \<Rightarrow> nat \<Rightarrow> 'a option" where
  "slice_at xs i = (if i < length xs then Some (xs ! i) else None)"

lemma slice_at_Some [simp]: "i < length xs \<Longrightarrow> slice_at xs i = Some (xs ! i)"
  by (simp add: slice_at_def)

lemma slice_at_None [simp]: "length xs \<le> i \<Longrightarrow> slice_at xs i = None"
  by (simp add: slice_at_def)

lemma slice_at_append_length [simp]: "slice_at (xs @ x # ys) (length xs) = Some x"
  by (simp add: slice_at_def)

abbreviation newline :: char where "newline \<equiv> CHR 0x0A"

fun IndexByte :: "string \<Rightarrow> char \<Rightarrow> nat option" where
  "IndexByte [] c = None"
| "IndexByte (x # xs) c = (if x = c then Some 0 else map_option Suc (IndexByte xs c))"

lemma IndexByte_None: "IndexByte s c = None \<longleftrightarrow> c \<notin> set s"
  by (induction s) auto

lemma IndexByte_Some:
  "IndexByte s c = Some i \<Longrightarrow> i < length s \<and> s ! i = c \<and> c \<notin> set (take i s)"
proof (induction s arbitrary: i)
  case Nil
  then show ?case by simp
next
  case (Cons x s)
  show ?case
  proof (cases "x = c")
    case True
    with Cons.prems show ?thesis by simp
  next
    case False
    with Cons.prems obtain j where "IndexByte s c = Some j" "i = Suc j"
      by auto
    with Cons.IH [of j] False show ?thesis by auto
  qed
qed

lemma IndexByte_append: "c \<notin> set xs \<Longrightarrow> IndexByte (xs @ c # ys) c = Some (length xs)"
  by (induction xs) auto

lemma IndexByte_decomp:
  "IndexByte s c = Some i \<Longrightarrow> s = take i s @ c # drop (Suc i) s"
  using IndexByte_Some [of s c i] by (metis id_take_nth_drop)

text \<open>\<open>strings.Split(s, sep)\<close> for a one-byte separator: it never drops a trailing empty part.\<close>

fun SplitOn :: "char \<Rightarrow> string \<Rightarrow> string list" where
  "SplitOn c [] = [[]]"
| "SplitOn c (x # xs) =
     (if x = c then [] # SplitOn c xs
      else (case SplitOn c xs of [] \<Rightarrow> [[x]] | p # ps \<Rightarrow> (x # p) # ps))"

lemma SplitOn_nonempty [simp]: "SplitOn c s \<noteq> []"
  by (induction s) (auto split: list.splits)

text \<open>Decimal rendering of a count, most significant digit first.\<close>

definition digit_char :: "nat \<Rightarrow> char" where
  "digit_char d = char_of (48 + d)"

fun Itoa :: "nat \<Rightarrow> string" where
  "Itoa n = (if n < 10 then [digit_char n] else Itoa (n div 10) @ [digit_char (n mod 10)])"

declare Itoa.simps [simp del]

lemma digit_char_neq_newline: "d < 10 \<Longrightarrow> digit_char d \<noteq> newline"
proof
  assume d: "d < 10" and "digit_char d = newline"
  then have "of_char (char_of (48 + d) :: char) = (of_char newline :: nat)"
    by (simp add: digit_char_def)
  with d show False by (simp add: of_char_of)
qed

lemma newline_notin_Itoa: "newline \<notin> set (Itoa n)"
proof (induction n rule: Itoa.induct)
  case (1 n)
  show ?case
  proof (cases "n < 10")
    case True
    then show ?thesis
      using digit_char_neq_newline [of n] by (simp add: Itoa.simps [of n])
  next
    case False
    with "1.IH" show ?thesis
      using digit_char_neq_newline [of "n mod 10"] by (simp add: Itoa.simps [of n])
  qed
qed

section \<open>Lists kept sorted by a key\<close>

lemma sort_key_filter_take_subset: "set (take n (sort_key k (filter P xs))) \<subseteq> {x \<in> set xs. P x}"
  by (auto dest!: in_set_takeD)

lemma sorted_rekey:
  "sorted (map f xs) \<Longrightarrow> (\<And>x y. x \<in> set xs \<Longrightarrow> y \<in> set xs \<Longrightarrow> f x \<le> f y \<Longrightarrow> g x \<le> g y) \<Longrightarrow> sorted (map g xs)"
  by (induction xs) auto

lemma filter_map_if:
  assumes "\<And>x. x \<in> set xs \<Longrightarrow> x \<in> B \<Longrightarrow> \<not> P x \<and> \<not> P (g x)"
  shows "filter P (map (\<lambda>x. if x \<in> B then g x else x) xs) = filter P xs"
  using assms by (induction xs) auto

lemma map_if_twice:
  assumes "\<And>x. x \<in> set xs \<Longrightarrow> x \<in> A \<Longrightarrow> g x \<notin> B"
  shows "map (\<lambda>x. if x \<in> B then g x else x) (map (\<lambda>x. if x \<in> A then g x else x) xs) =
     map (\<lambda>x. if x \<in> A \<union> B then g x else x) xs"
  using assms by (induction xs) auto

lemma insort_key_map: "insort_key f (g x) (map g xs) = map g (insort_key (\<lambda>y. f (g y)) x xs)"
  by (induction xs) auto

lemma sort_key_map: "sort_key f (map g xs) = map g (sort_key (\<lambda>y. f (g y)) xs)"
  by (induction xs) (simp_all add: insort_key_map)

lemma sort_key_take_le:
  assumes "x \<in> set (take k (sort_key f xs))" "y \<in> set xs" "y \<notin> set (take k (sort_key f xs))"
  shows "f x \<le> f y"
proof -
  have "y \<in> set (drop k (sort_key f xs))"
    using assms(2,3) by (metis Un_iff append_take_drop_id set_append set_sort)
  moreover have "sorted (map f (take k (sort_key f xs)) @ map f (drop k (sort_key f xs)))"
    by (metis append_take_drop_id map_append sorted_sort_key)
  ultimately show ?thesis using assms(1) by (auto simp: sorted_append)
qed

lemma find_append: "find P (xs @ ys) = (case find P xs of None \<Rightarrow> find P ys | Some x \<Rightarrow> Some x)"
  by (induction xs) auto

lemma length_filter_map_eq:
  "(\<And>x. x \<in> set xs \<Longrightarrow> P (f x) = Q x) \<Longrightarrow> length (filter P (map f xs)) = length (filter Q xs)"
  by (induction xs) auto

lemma distinct_map_filter_key: "distinct (map k xs) \<Longrightarrow> distinct (map k (filter P xs))"
  by (induction xs) auto

lemma map_of_key_unique:
  "distinct (map k xs) \<Longrightarrow> x \<in> set xs \<Longrightarrow> y \<in> set xs \<Longrightarrow> k x = k y \<Longrightarrow> x = y"
  by (auto simp: distinct_map dest: inj_onD)

lemma filter_only: "distinct xs \<Longrightarrow> x \<in> set xs \<Longrightarrow> filter (\<lambda>y. y = x) xs = [x]"
  by (induction xs) (auto simp: filter_empty_conv)

section \<open>Programs with failing statements and a clock\<close>

datatype fault = Fine | Broken | Lost

record world =
  w_fault :: "nat \<Rightarrow> fault"
  w_clock :: "nat \<Rightarrow> int"

type_synonym ('s, 'e, 'a) prog = "world \<Rightarrow> nat \<Rightarrow> 's \<Rightarrow> ('e + 'a) \<times> nat \<times> 's"

definition ret :: "'a \<Rightarrow> ('s, 'e, 'a) prog" where
  [prog_defs]: "ret x = (\<lambda>w n s. (Inr x, n, s))"

definition raise :: "'e \<Rightarrow> ('s, 'e, 'a) prog" where
  [prog_defs]: "raise e = (\<lambda>w n s. (Inl e, n, s))"

definition bindP :: "('s, 'e, 'a) prog \<Rightarrow> ('a \<Rightarrow> ('s, 'e, 'b) prog) \<Rightarrow> ('s, 'e, 'b) prog" where
  [prog_defs]: "bindP m f = (\<lambda>w n s.
     case m w n s of
       (Inl e, n', s') \<Rightarrow> (Inl e, n', s')
     | (Inr a, n', s') \<Rightarrow> f a w n' s')"

text \<open>\<open>tryP m h\<close> inspects an error instead of returning it, as the code does with \<open>errors.Is\<close>.\<close>

definition tryP :: "('s, 'e, 'a) prog \<Rightarrow> ('e \<Rightarrow> ('s, 'e, 'a) prog) \<Rightarrow> ('s, 'e, 'a) prog" where
  [prog_defs]: "tryP m h = (\<lambda>w n s.
     case m w n s of
       (Inl e, n', s') \<Rightarrow> h e w n' s'
     | (Inr a, n', s') \<Rightarrow> (Inr a, n', s'))"

definition get_state :: "('s, 'e, 's) prog" where
  [prog_defs]: "get_state = (\<lambda>w n s. (Inr s, n, s))"

text \<open>\<open>time.Now().Unix()\<close>, or the \<open>UNIX_TIMESTAMP()\<close> of a statement.\<close>

definition time_now :: "('s, 'e, int) prog" where
  [prog_defs]: "time_now = (\<lambda>w n s. (Inr (w_clock w n), Suc n, s))"

text \<open>
  One round trip to a server. \<open>f\<close> is the statement's effect and its own result; the
  world decides whether it runs and whether the reply arrives.
\<close>

definition stmt :: "'e \<Rightarrow> ('s \<Rightarrow> ('e + 'a) \<times> 's) \<Rightarrow> ('s, 'e, 'a) prog" where
  [prog_defs]: "stmt err f = (\<lambda>w n s.
     case w_fault w n of
       Fine \<Rightarrow> (fst (f s), Suc n, snd (f s))
     | Broken \<Rightarrow> (Inl err, Suc n, s)
     | Lost \<Rightarrow> (Inl err, Suc n, snd (f s)))"

text \<open>
  \<open>BeginTx\<close>, a body, \<open>Commit\<close>, with \<open>Rollback\<close> deferred. \<open>restore s0 s\<close> is the state after
  a rollback to the snapshot \<open>s0\<close> from the state \<open>s\<close>: the identity on \<open>s0\<close> except for what
  the engine does not roll back.
\<close>

definition transaction ::
  "'e \<Rightarrow> ('s \<Rightarrow> 's \<Rightarrow> 's) \<Rightarrow> ('s, 'e, 'a) prog \<Rightarrow> ('s, 'e, 'a) prog" where
  [prog_defs]: "transaction err restore body = (\<lambda>w n s0.
     if w_fault w n \<noteq> Fine then (Inl err, Suc n, s0)
     else (case body w (Suc n) s0 of
             (Inl e, n', s) \<Rightarrow> (Inl e, n', restore s0 s)
           | (Inr a, n', s) \<Rightarrow>
               (case w_fault w n' of
                  Fine \<Rightarrow> (Inr a, Suc n', s)
                | Broken \<Rightarrow> (Inl err, Suc n', restore s0 s)
                | Lost \<Rightarrow> (Inl err, Suc n', s))))"

fun forP :: "'a list \<Rightarrow> ('a \<Rightarrow> ('s, 'e, 'b) prog) \<Rightarrow> ('s, 'e, 'b list) prog" where
  "forP [] f = ret []"
| "forP (x # xs) f = bindP (f x) (\<lambda>y. bindP (forP xs f) (\<lambda>ys. ret (y # ys)))"

definition fine :: "world \<Rightarrow> bool" where
  "fine w \<longleftrightarrow> (\<forall>n. w_fault w n = Fine)"

abbreviation calm :: "int \<Rightarrow> world" where
  "calm t \<equiv> \<lparr>w_fault = (\<lambda>_. Fine), w_clock = (\<lambda>_. t)\<rparr>"

lemma fine_fault [simp]: "fine w \<Longrightarrow> w_fault w n = Fine"
  by (simp add: fine_def)

lemma fine_calm [simp]: "fine (calm t)"
  by (simp add: fine_def)

abbreviation result :: "('e + 'a) \<times> nat \<times> 's \<Rightarrow> 'e + 'a" where
  "result r \<equiv> fst r"

abbreviation final :: "('e + 'a) \<times> nat \<times> 's \<Rightarrow> 's" where
  "final r \<equiv> snd (snd r)"

subsection \<open>Running the basic programs\<close>

lemma run_ret [simp]: "ret x w n s = (Inr x, n, s)"
  by (simp add: ret_def)

lemma run_raise [simp]: "raise e w n s = (Inl e, n, s)"
  by (simp add: raise_def)

lemma run_time_now [simp]: "time_now w n s = (Inr (w_clock w n), Suc n, s)"
  by (simp add: time_now_def)

lemma run_get_state [simp]: "get_state w n s = (Inr s, n, s)"
  by (simp add: get_state_def)

lemma run_stmt_fine: "w_fault w n = Fine \<Longrightarrow> stmt err f w n s = (fst (f s), Suc n, snd (f s))"
  by (simp add: stmt_def)

lemma run_bind_Inr: "m w n s = (Inr a, n', s') \<Longrightarrow> bindP m f w n s = f a w n' s'"
  by (simp add: bindP_def)

lemma run_bind_Inl: "m w n s = (Inl e, n', s') \<Longrightarrow> bindP m f w n s = (Inl e, n', s')"
  by (simp add: bindP_def)

lemma bindP_ok:
  assumes "bindP m f w n s = (Inr b, n', s')"
  shows "\<exists>a n1 s1. m w n s = (Inr a, n1, s1) \<and> f a w n1 s1 = (Inr b, n', s')"
  using assms by (auto simp: bindP_def split: prod.splits sum.splits)

lemma tryP_cases:
  assumes "tryP m h w n s = (r, n', s')"
  obtains (ok) a where "m w n s = (Inr a, n', s')" "r = Inr a"
  | (handled) e n1 s1 where "m w n s = (Inl e, n1, s1)" "h e w n1 s1 = (r, n', s')"
  using assms by (auto simp: tryP_def split: prod.splits sum.splits)

lemma bindP_cases:
  assumes "bindP m f w n s = (r, n', s')"
  obtains (err) e where "m w n s = (Inl e, n', s')" "r = Inl e"
  | (ok) a n1 s1 where "m w n s = (Inr a, n1, s1)" "f a w n1 s1 = (r, n', s')"
  using assms by (auto simp: bindP_def split: prod.splits sum.splits)

subsection \<open>Hoare triples\<close>

definition hoare ::
  "('s \<Rightarrow> bool) \<Rightarrow> ('s, 'e, 'a) prog \<Rightarrow> ('a \<Rightarrow> 's \<Rightarrow> bool) \<Rightarrow> ('e \<Rightarrow> 's \<Rightarrow> bool) \<Rightarrow> bool" where
  "hoare P m Q E \<longleftrightarrow>
     (\<forall>w n s. P s \<longrightarrow>
        (case m w n s of (Inl e, n', s') \<Rightarrow> E e s' | (Inr a, n', s') \<Rightarrow> Q a s'))"

lemma hoareI:
  assumes "\<And>w n s a n' s'. P s \<Longrightarrow> m w n s = (Inr a, n', s') \<Longrightarrow> Q a s'"
    and "\<And>w n s e n' s'. P s \<Longrightarrow> m w n s = (Inl e, n', s') \<Longrightarrow> E e s'"
  shows "hoare P m Q E"
  using assms by (fastforce simp: hoare_def split: prod.splits sum.splits)

lemma hoareD_ok: "hoare P m Q E \<Longrightarrow> P s \<Longrightarrow> m w n s = (Inr a, n', s') \<Longrightarrow> Q a s'"
  by (fastforce simp: hoare_def split: prod.splits sum.splits)

lemma hoareD_err: "hoare P m Q E \<Longrightarrow> P s \<Longrightarrow> m w n s = (Inl e, n', s') \<Longrightarrow> E e s'"
  by (fastforce simp: hoare_def split: prod.splits sum.splits)

lemma hoareD_inv:
  "hoare P m (\<lambda>_. I) (\<lambda>_. I) \<Longrightarrow> P s \<Longrightarrow> I (final (m w n s))"
  by (cases "m w n s"; cases "fst (m w n s)") (auto dest: hoareD_ok hoareD_err)

lemma hoare_weaken:
  assumes "hoare P' m Q' E'"
    and "\<And>s. P s \<Longrightarrow> P' s"
    and "\<And>a s. Q' a s \<Longrightarrow> Q a s"
    and "\<And>e s. E' e s \<Longrightarrow> E e s"
  shows "hoare P m Q E"
  using assms by (fastforce simp: hoare_def split: prod.splits sum.splits)

lemma hoare_pre: "hoare P' m Q E \<Longrightarrow> (\<And>s. P s \<Longrightarrow> P' s) \<Longrightarrow> hoare P m Q E"
  by (rule hoare_weaken)

lemma hoare_ret [wp]: "hoare (Q x) (ret x) Q E"
  by (simp add: hoare_def)

lemma hoare_raise [wp]: "hoare (E e) (raise e) Q E"
  by (simp add: hoare_def)

lemma hoare_time_now [wp]: "hoare (\<lambda>s. \<forall>t. Q t s) time_now Q E"
  by (simp add: hoare_def)

lemma hoare_get_state [wp]: "hoare (\<lambda>s. Q s s) get_state Q E"
  by (simp add: hoare_def)

lemma hoare_bind:
  assumes "hoare P m R E" and "\<And>a. hoare (R a) (f a) Q E"
  shows "hoare P (bindP m f) Q E"
  using assms by (fastforce simp: hoare_def bindP_def split: prod.splits sum.splits)

text \<open>The same rule read backwards: the continuation fixes the intermediate assertion.\<close>

lemma hoare_bind_wp:
  "(\<And>a. hoare (R a) (f a) Q E) \<Longrightarrow> hoare P m R E \<Longrightarrow> hoare P (bindP m f) Q E"
  by (rule hoare_bind)

lemma hoare_if [wp]:
  "hoare P f Q E \<Longrightarrow> hoare P' g Q E \<Longrightarrow> hoare (\<lambda>s. if b then P s else P' s) (if b then f else g) Q E"
  by (simp add: hoare_def)

lemma hoare_split_if:
  "(b \<Longrightarrow> hoare P f Q E) \<Longrightarrow> (\<not> b \<Longrightarrow> hoare P g Q E) \<Longrightarrow> hoare P (if b then f else g) Q E"
  by simp

lemma hoare_split_option:
  "(v = None \<Longrightarrow> hoare P f Q E) \<Longrightarrow> (\<And>x. v = Some x \<Longrightarrow> hoare P (g x) Q E) \<Longrightarrow>
   hoare P (case v of None \<Rightarrow> f | Some x \<Rightarrow> g x) Q E"
  by (cases v) simp_all

lemma hoare_case_option [wp]:
  "hoare P f Q E \<Longrightarrow> (\<And>x. hoare (P' x) (g x) Q E) \<Longrightarrow>
   hoare (\<lambda>s. case v of None \<Rightarrow> P s | Some x \<Rightarrow> P' x s) (case v of None \<Rightarrow> f | Some x \<Rightarrow> g x) Q E"
  by (cases v) simp_all

lemma hoare_case_prod [wp]:
  "(\<And>x y. hoare (P x y) (f x y) Q E) \<Longrightarrow>
   hoare (\<lambda>s. case v of (x, y) \<Rightarrow> P x y s) (case v of (x, y) \<Rightarrow> f x y) Q E"
  by (cases v) simp

lemma hoare_conj:
  "hoare P m Q E \<Longrightarrow> hoare P m Q' E' \<Longrightarrow>
   hoare P m (\<lambda>a s. Q a s \<and> Q' a s) (\<lambda>e s. E e s \<and> E' e s)"
  by (fastforce simp: hoare_def split: prod.splits sum.splits)

lemma hoare_assume: "(b \<Longrightarrow> hoare P m Q E) \<Longrightarrow> hoare (\<lambda>s. P s \<and> b) m Q E"
  by (cases b) (simp_all add: hoare_def)

lemma hoare_trivial: "hoare P m (\<lambda>_ _. True) (\<lambda>_ _. True)"
  by (simp add: hoare_def split: prod.splits sum.splits)

lemma hoare_tryP:
  assumes "hoare P m Q R" and "\<And>e. hoare (R e) (h e) Q E"
  shows "hoare P (tryP m h) Q E"
  using assms by (fastforce simp: hoare_def tryP_def split: prod.splits sum.splits)

lemma hoare_stmt [wp]:
  "hoare (\<lambda>s. E err s \<and> E err (snd (f s)) \<and>
              (case fst (f s) of Inl e \<Rightarrow> E e (snd (f s)) | Inr a \<Rightarrow> Q a (snd (f s))))
     (stmt err f) Q E"
  by (auto simp: hoare_def stmt_def split: fault.splits sum.splits)

lemma hoare_forP:
  assumes "\<And>x. x \<in> set xs \<Longrightarrow> hoare I (f x) (\<lambda>_. I) E"
  shows "hoare I (forP xs f) (\<lambda>_. I) E"
  using assms
proof (induction xs)
  case Nil
  show ?case by (simp add: hoare_def)
next
  case (Cons x xs)
  have "hoare I (f x) (\<lambda>_. I) E" and "hoare I (forP xs f) (\<lambda>_. I) E"
    using Cons by auto
  then show ?case
    by (auto intro!: hoare_bind [where R = "\<lambda>_. I"] hoare_ret [where Q = "\<lambda>_. I"])
qed

text \<open>
  The transaction rule: the body is verified against the postcondition alone; on every
  error the caller sees a restored snapshot, or (a commit whose reply was lost) a state
  of the normal postcondition.
\<close>

lemma hoare_transaction:
  assumes body: "\<And>s0. P s0 \<Longrightarrow> hoare (\<lambda>s. s = s0) body (G s0) (\<lambda>_. R s0)"
    and commit: "\<And>a s0 s. P s0 \<Longrightarrow> G s0 a s \<Longrightarrow> Q a s \<and> E err s \<and> E err (restore s0 s)"
    and rolled_back: "\<And>e s0 s. P s0 \<Longrightarrow> R s0 s \<Longrightarrow> E e (restore s0 s)"
    and begin_fails: "\<And>s0. P s0 \<Longrightarrow> E err s0"
  shows "hoare P (transaction err restore body) Q E"
  unfolding hoare_def
proof (intro allI impI)
  fix w n s0
  assume P: "P s0"
  show "case transaction err restore body w n s0 of
          (Inl e, n', s') \<Rightarrow> E e s' | (Inr a, n', s') \<Rightarrow> Q a s'"
  proof (cases "body w (Suc n) s0")
    case (fields r n' s)
    show ?thesis
    proof (cases r)
      case (Inl e)
      with fields have "R s0 s"
        using hoareD_err [OF body [OF P], of s0] by simp
      with fields Inl P show ?thesis
        by (simp add: transaction_def begin_fails rolled_back)
    next
      case (Inr a)
      with fields have "G s0 a s"
        using hoareD_ok [OF body [OF P], of s0] by simp
      with commit [OF P this] fields Inr P show ?thesis
        by (simp add: transaction_def begin_fails split: fault.splits)
    qed
  qed
qed

text \<open>
  Atomicity, for any body: a transaction ends in a rolled-back snapshot, or the body ran
  to its end and its effects were committed.
\<close>

lemma transaction_atomic:
  assumes "transaction err restore body w n s0 = (r, n', s')"
  shows "(\<exists>e. r = Inl e) \<and> (s' = s0 \<or> (\<exists>s. s' = restore s0 s)) \<or>
         (\<exists>a n1. body w (Suc n) s0 = (Inr a, n1, s') \<and> (r = Inr a \<or> r = Inl err))"
  using assms
  by (cases "body w (Suc n) s0")
     (auto simp: transaction_def split: if_splits sum.splits fault.splits)

lemma transaction_committed:
  assumes "transaction err restore body w n s0 = (Inr a, n', s')"
  shows "\<exists>n1. body w (Suc n) s0 = (Inr a, n1, s')"
  using assms
  by (cases "body w (Suc n) s0")
     (auto simp: transaction_def split: if_splits sum.splits fault.splits)

lemma transaction_fine:
  assumes "fine w"
  shows "transaction err restore body w n s0 =
     (case body w (Suc n) s0 of
        (Inl e, n', s) \<Rightarrow> (Inl e, n', restore s0 s)
      | (Inr a, n', s) \<Rightarrow> (Inr a, Suc n', s))"
  using assms by (simp add: transaction_def split: prod.splits sum.splits)

subsection \<open>Invariants of programs\<close>

named_theorems preserves_rules \<open>how programs preserve an invariant\<close>

abbreviation preserves :: "('s \<Rightarrow> bool) \<Rightarrow> ('s, 'e, 'a) prog \<Rightarrow> bool" where
  "preserves I m \<equiv> hoare I m (\<lambda>_. I) (\<lambda>_. I)"

lemma preserves_bind [preserves_rules]:
  "preserves I m \<Longrightarrow> (\<And>a. preserves I (f a)) \<Longrightarrow> preserves I (bindP m f)"
  by (rule hoare_bind)

lemma preserves_basic [preserves_rules]:
  "preserves I (ret x)" "preserves I (raise e)" "preserves I time_now"
  by (simp_all add: hoare_def)

lemma preserves_cases [preserves_rules]:
  "(b \<Longrightarrow> preserves I f) \<Longrightarrow> (\<not> b \<Longrightarrow> preserves I g) \<Longrightarrow> preserves I (if b then f else g)"
  "preserves I f' \<Longrightarrow> (\<And>x. v = Some x \<Longrightarrow> preserves I (g' x)) \<Longrightarrow>
   preserves I (case v of None \<Rightarrow> f' | Some x \<Rightarrow> g' x)"
  "(\<And>x y. p = (x, y) \<Longrightarrow> preserves I (h x y)) \<Longrightarrow> preserves I (case p of (x, y) \<Rightarrow> h x y)"
  by (simp_all split: option.splits prod.splits)

lemma preserves_stmt: "(\<And>s. I s \<Longrightarrow> I (snd (f s))) \<Longrightarrow> preserves I (stmt err f)"
  by (rule hoare_pre [OF hoare_stmt]) (auto split: sum.splits)

lemma preserves_read [preserves_rules]: "preserves I (stmt err (\<lambda>s. (f s, s)))"
  by (rule preserves_stmt) simp

lemma preserves_forP [preserves_rules]: "(\<And>x. x \<in> set xs \<Longrightarrow> preserves I (f x)) \<Longrightarrow> preserves I (forP xs f)"
  by (rule hoare_forP)

lemma preserves_tryP [preserves_rules]:
  "preserves I m \<Longrightarrow> (\<And>e. preserves I (h e)) \<Longrightarrow> preserves I (tryP m h)"
  by (rule hoare_tryP)

lemma preserves_transaction:
  assumes "preserves I body" and "\<And>s0 s. I s0 \<Longrightarrow> I s \<Longrightarrow> I (restore s0 s)"
  shows "preserves I (transaction err restore body)"
proof (rule hoare_transaction [where G = "\<lambda>_ _. I" and R = "\<lambda>_. I"])
  show "hoare (\<lambda>s. s = s0) body (\<lambda>_. I) (\<lambda>_. I)" if "I s0" for s0
    using assms(1) that by (auto intro: hoare_pre)
qed (simp_all add: assms(2))

section \<open>Runs as sequences of steps\<close>

text \<open>
  \<open>H L s\<close> is a history of several processes that has led to the state \<open>s\<close> and left the ledger \<open>L\<close>.
  A program walks along \<open>H\<close> if each of its runs, in any world, extends a history: it starts
  with a ledger in \<open>P\<close>, ends with one in \<open>Q\<close> for its result or in \<open>E\<close> for its error.
\<close>

definition walks ::
  "('l \<Rightarrow> 's \<Rightarrow> bool) \<Rightarrow> ('l \<Rightarrow> bool) \<Rightarrow> ('s, 'e, 'a) prog \<Rightarrow> ('a \<Rightarrow> 'l \<Rightarrow> bool) \<Rightarrow> ('e \<Rightarrow> 'l \<Rightarrow> bool) \<Rightarrow> bool" where
  "walks H P m Q E \<longleftrightarrow> (\<forall>L s w n. H L s \<and> P L \<longrightarrow>
     (\<exists>L'. H L' (final (m w n s)) \<and> (case result (m w n s) of Inl e \<Rightarrow> E e L' | Inr a \<Rightarrow> Q a L')))"

lemma walksI:
  assumes "\<And>L s w n. H L s \<Longrightarrow> P L \<Longrightarrow>
     \<exists>L'. H L' (final (m w n s)) \<and> (case result (m w n s) of Inl e \<Rightarrow> E e L' | Inr a \<Rightarrow> Q a L')"
  shows "walks H P m Q E"
  using assms unfolding walks_def by blast

lemma walksD:
  assumes "walks H P m Q E" "H L s" "P L"
  obtains L' where "H L' (final (m w n s))" "case result (m w n s) of Inl e \<Rightarrow> E e L' | Inr a \<Rightarrow> Q a L'"
  using assms unfolding walks_def by blast

lemma walks_ret: "(\<And>L. P L \<Longrightarrow> Q a L) \<Longrightarrow> walks H P (ret a) Q E"
  by (auto simp: walks_def ret_def)

lemma walks_raise: "(\<And>L. P L \<Longrightarrow> E e L) \<Longrightarrow> walks H P (raise e) Q E"
  by (auto simp: walks_def raise_def)

lemma walks_bind:
  assumes "walks H P m R E" "\<And>a. walks H (R a) (f a) Q E"
  shows "walks H P (bindP m f) Q E"
proof (rule walksI)
  fix L s w n
  assume "H L s" "P L"
  then obtain L1 where L1: "H L1 (final (m w n s))" "case result (m w n s) of Inl e \<Rightarrow> E e L1 | Inr a \<Rightarrow> R a L1"
    by (rule walksD [OF assms(1)])
  obtain r n1 s1 where run: "m w n s = (r, n1, s1)" by (cases "m w n s") auto
  show "\<exists>L'. H L' (final (bindP m f w n s)) \<and> (case result (bindP m f w n s) of Inl e \<Rightarrow> E e L' | Inr a \<Rightarrow> Q a L')"
  proof (cases r)
    case (Inl e)
    then show ?thesis using L1 run by (auto simp: bindP_def)
  next
    case (Inr a)
    then have "bindP m f w n s = f a w n1 s1" "H L1 s1" "R a L1" using L1 run by (simp_all add: bindP_def)
    then show ?thesis using assms(2) [of a] unfolding walks_def by auto
  qed
qed

lemma walks_try:
  assumes "walks H P m Q R" "\<And>e. walks H (R e) (h e) Q E"
  shows "walks H P (tryP m h) Q E"
proof (rule walksI)
  fix L s w n
  assume "H L s" "P L"
  then obtain L1 where L1: "H L1 (final (m w n s))" "case result (m w n s) of Inl e \<Rightarrow> R e L1 | Inr a \<Rightarrow> Q a L1"
    by (rule walksD [OF assms(1)])
  obtain r n1 s1 where run: "m w n s = (r, n1, s1)" by (cases "m w n s") auto
  show "\<exists>L'. H L' (final (tryP m h w n s)) \<and> (case result (tryP m h w n s) of Inl e \<Rightarrow> E e L' | Inr a \<Rightarrow> Q a L')"
  proof (cases r)
    case (Inl e)
    then have "tryP m h w n s = h e w n1 s1" "H L1 s1" "R e L1" using L1 run by (simp_all add: tryP_def)
    then show ?thesis using assms(2) [of e] unfolding walks_def by auto
  next
    case (Inr a)
    then show ?thesis using L1 run by (auto simp: tryP_def)
  qed
qed

lemma walks_if: "(b \<Longrightarrow> walks H P m Q E) \<Longrightarrow> (\<not> b \<Longrightarrow> walks H P m' Q E) \<Longrightarrow> walks H P (if b then m else m') Q E"
  by simp

lemma walks_option:
  "(v = None \<Longrightarrow> walks H P m Q E) \<Longrightarrow> (\<And>x. v = Some x \<Longrightarrow> walks H P (f x) Q E) \<Longrightarrow>
   walks H P (case v of None \<Rightarrow> m | Some x \<Rightarrow> f x) Q E"
  by (cases v) simp_all

lemma walks_sum:
  "(\<And>e. v = Inl e \<Longrightarrow> walks H P (f e) Q E) \<Longrightarrow> (\<And>x. v = Inr x \<Longrightarrow> walks H P (g x) Q E) \<Longrightarrow>
   walks H P (case v of Inl e \<Rightarrow> f e | Inr x \<Rightarrow> g x) Q E"
  by (cases v) simp_all

lemma walks_weaken:
  assumes "walks H P m Q E" "\<And>L. P' L \<Longrightarrow> P L" "\<And>a L. Q a L \<Longrightarrow> Q' a L" "\<And>e L. E e L \<Longrightarrow> E' e L"
  shows "walks H P' m Q' E'"
proof (rule walksI)
  fix L s w n
  assume "H L s" "P' L"
  then obtain L1 where "H L1 (final (m w n s))" "case result (m w n s) of Inl e \<Rightarrow> E e L1 | Inr a \<Rightarrow> Q a L1"
    using walksD [OF assms(1)] assms(2) by metis
  then show "\<exists>L'. H L' (final (m w n s)) \<and> (case result (m w n s) of Inl e \<Rightarrow> E' e L' | Inr a \<Rightarrow> Q' a L')"
    using assms(3,4) by (auto split: sum.splits)
qed

lemma walks_same:
  "walks H (\<lambda>L. L = L0) m (\<lambda>_ L. L = L0) (\<lambda>_ L. L = L0) \<Longrightarrow> H L0 s \<Longrightarrow> H L0 (final (m w n s))"
  unfolding walks_def by (metis (mono_tags, lifting) sum.case_eq_if)

text \<open>A program that reads leaves the state alone.\<close>

lemma walks_read:
  assumes "\<And>w n s. final (m w n s) = s"
  shows "walks H P m (\<lambda>_. P) (\<lambda>_. P)"
  using assms by (auto simp: walks_def split: sum.split)

lemma walks_reading:
  assumes "\<And>w n s. final (m w n s) = s" "\<And>L e. P L \<Longrightarrow> E e L"
  shows "walks H P m (\<lambda>_. P) E"
  using assms by (auto simp: walks_def split: sum.split)

lemma walks_for:
  assumes "\<And>x. x \<in> set xs \<Longrightarrow> walks H P (f x) (\<lambda>_. P) E"
  shows "walks H P (forP xs f) (\<lambda>_. P) E"
  using assms
proof (induction xs)
  case (Cons x xs)
  then show ?case unfolding forP.simps by (intro walks_bind [where R = "\<lambda>_. P"] walks_ret) auto
qed (unfold forP.simps, rule walks_ret)

end
