(* ===== verification/Unified.thy ===== *)
theory Unified
  imports Prelude
begin

text \<open>
  The unified diff engine, \<open>src/go/internal/diff/unified/unified.go\<close>, with its request and
  result structures from \<open>src/go/internal/contracts/diff.go\<close>.

  The engine splits both texts into lines, trims equal edges, fills a dynamic programming
  table over the middles, walks it back into an edit script and renders the script. The
  table is the flat slice of the code, indexed by \<open>i * width + j\<close>; an index the code
  could panic on when it renders is the value \<open>None\<close>.

  The lemmas show that the table holds longest-common-subsequence lengths, that the
  script turns one side into the other and is shortest among all such scripts (the
  trimmed edges lose nothing), that the cell budget bounds the table, and that both texts
  can be read back from the rendered diff.
\<close>

section \<open>Data\<close>

record DiffRequest =
  Old :: string
  New :: string
  OldName :: string
  NewName :: string
  Normalize :: bool

record DiffResult =
  Diff :: string
  Equal :: bool

record line =
  line_text :: string
  hasNewline :: bool

datatype editOp = opEqual | opDelete | opInsert

datatype diff_error = ErrTooLarge | IndexPanic

definition defaultName :: string where
  "defaultName = ''/dev/universe''"

definition nameSuffix :: string where
  "nameSuffix = '' 9999-99-99''"

text \<open>The marker starts with a backslash.\<close>

definition noNewlineMarker :: string where
  "noNewlineMarker = CHR 0x5C # '' No newline at end of file''"

definition maxCells :: nat where
  "maxCells = 4000000"

section \<open>Lines\<close>

definition normalizeText :: "string \<Rightarrow> string" where
  "normalizeText s = filter (\<lambda>c. c \<noteq> CHR '' '' \<and> c \<noteq> CHR 0x09) s"

function splitLines :: "string \<Rightarrow> line list" where
  "splitLines s =
     (if s = [] then []
      else (case IndexByte s newline of
              None \<Rightarrow> [\<lparr>line_text = s, hasNewline = False\<rparr>]
            | Some i \<Rightarrow> \<lparr>line_text = take i s, hasNewline = True\<rparr> # splitLines (drop (i + 1) s)))"
  by pat_completeness auto
termination
  by (relation "measure length") auto

declare splitLines.simps [simp del]

fun linesEqual_from :: "line list \<Rightarrow> line list \<Rightarrow> nat list \<Rightarrow> bool" where
  "linesEqual_from a b [] = True"
| "linesEqual_from a b (i # is) = (if a ! i \<noteq> b ! i then False else linesEqual_from a b is)"

definition linesEqual :: "line list \<Rightarrow> line list \<Rightarrow> bool" where
  "linesEqual a b =
     (if length a \<noteq> length b then False else linesEqual_from a b [0..<length a])"

section \<open>The edit script\<close>

definition lcs_cell :: "'a list \<Rightarrow> 'a list \<Rightarrow> nat \<Rightarrow> nat list \<Rightarrow> nat \<Rightarrow> nat \<Rightarrow> nat" where
  "lcs_cell a b width dp i j =
     (if a ! (i - 1) = b ! (j - 1) then dp ! ((i - 1) * width + j - 1) + 1
      else if dp ! ((i - 1) * width + j) \<ge> dp ! (i * width + j - 1)
      then dp ! ((i - 1) * width + j)
      else dp ! (i * width + j - 1))"

definition lcs_row :: "'a list \<Rightarrow> 'a list \<Rightarrow> nat \<Rightarrow> nat list \<Rightarrow> nat list" where
  "lcs_row a b i dp =
     (let width = length b + 1 in
      fold (\<lambda>j dp. dp[i * width + j := lcs_cell a b width dp i j]) [1..<length b + 1] dp)"

definition lcs_table :: "'a list \<Rightarrow> 'a list \<Rightarrow> nat list" where
  "lcs_table a b =
     fold (lcs_row a b) [1..<length a + 1]
       (replicate ((length a + 1) * (length b + 1)) 0)"

function lcs_backtrack ::
  "'a list \<Rightarrow> 'a list \<Rightarrow> nat \<Rightarrow> nat list \<Rightarrow> nat \<Rightarrow> nat \<Rightarrow> editOp list \<Rightarrow> editOp list" where
  "lcs_backtrack a b width dp i j ops =
     (if i > 0 \<or> j > 0 then
        if i > 0 \<and> j > 0 \<and> a ! (i - 1) = b ! (j - 1)
        then lcs_backtrack a b width dp (i - 1) (j - 1) (ops @ [opEqual])
        else if j > 0 \<and> (i = 0 \<or> dp ! (i * width + j - 1) \<ge> dp ! ((i - 1) * width + j))
        then lcs_backtrack a b width dp i (j - 1) (ops @ [opInsert])
        else lcs_backtrack a b width dp (i - 1) j (ops @ [opDelete])
      else ops)"
  by pat_completeness auto
termination
  by (relation "measure (\<lambda>(a, b, width, dp, i, j, ops). i + j)") auto

declare lcs_backtrack.simps [simp del]

definition lcs :: "'a list \<Rightarrow> 'a list \<Rightarrow> editOp list" where
  "lcs a b =
     (let n = length a; m = length b in
      if n = 0 then replicate m opInsert
      else if m = 0 then replicate n opDelete
      else rev (lcs_backtrack a b (m + 1) (lcs_table a b) n m []))"

function prefix_loop :: "'a list \<Rightarrow> 'a list \<Rightarrow> nat \<Rightarrow> nat" where
  "prefix_loop a b p =
     (if p < length a \<and> p < length b \<and> a ! p = b ! p then prefix_loop a b (p + 1) else p)"
  by pat_completeness auto
termination
  by (relation "measure (\<lambda>(a, b, p). length a - p)") auto

function suffix_loop :: "'a list \<Rightarrow> 'a list \<Rightarrow> nat \<Rightarrow> nat \<Rightarrow> nat" where
  "suffix_loop a b p q =
     (if q < length a - p \<and> q < length b - p \<and> a ! (length a - q - 1) = b ! (length b - q - 1)
      then suffix_loop a b p (q + 1) else q)"
  by pat_completeness auto
termination
  by (relation "measure (\<lambda>(a, b, p, q). length a - p - q)") auto

declare prefix_loop.simps [simp del] suffix_loop.simps [simp del]

definition boundedEdits :: "'a list \<Rightarrow> 'a list \<Rightarrow> diff_error + editOp list" where
  "boundedEdits a b =
     (let p = prefix_loop a b 0;
          q = suffix_loop a b p 0;
          am = take (length a - q - p) (drop p a);
          bm = take (length b - q - p) (drop p b);
          n = length am;
          m = length bm
      in if n > 0 \<and> m > 0 \<and> (n \<ge> maxCells \<or> m \<ge> maxCells \<or> n + 1 > maxCells div (m + 1))
         then Inl ErrTooLarge
         else Inr (replicate p opEqual @ lcs am bm @ replicate q opEqual))"

section \<open>Rendering\<close>

definition writeFileHeader :: "string \<Rightarrow> string \<Rightarrow> string" where
  "writeFileHeader oldName newName =
     ''--- '' @ oldName @ nameSuffix @ [newline] @ ''+++ '' @ newName @ nameSuffix @ [newline]"

definition buildIdenticalDiff :: "string \<Rightarrow> string \<Rightarrow> string \<Rightarrow> string" where
  "buildIdenticalDiff oldName newName txt =
     (let parts = SplitOn newline txt in
      writeFileHeader oldName newName @
      ''@@ -1,'' @ Itoa (length parts) @ '' +1,'' @ Itoa (length parts) @ '' @@'' @ [newline] @
      concat (map (\<lambda>part. CHR '' '' # part @ [newline]) parts))"

definition formatRange :: "nat \<Rightarrow> string" where
  "formatRange count =
     (if count = 0 then ''0,0'' else if count = 1 then ''1'' else ''1,'' @ Itoa count)"

fun count_ops :: "editOp list \<Rightarrow> nat \<Rightarrow> nat \<Rightarrow> nat \<times> nat" where
  "count_ops [] oldCount newCount = (oldCount, newCount)"
| "count_ops (opEqual # ops) oldCount newCount = count_ops ops (oldCount + 1) (newCount + 1)"
| "count_ops (opDelete # ops) oldCount newCount = count_ops ops (oldCount + 1) newCount"
| "count_ops (opInsert # ops) oldCount newCount = count_ops ops oldCount (newCount + 1)"

definition render_line :: "char \<Rightarrow> line \<Rightarrow> string" where
  "render_line sigil l =
     sigil # line_text l @ [newline] @
     (if \<not> hasNewline l then noNewlineMarker @ [newline] else [])"

fun render_ops :: "line list \<Rightarrow> line list \<Rightarrow> editOp list \<Rightarrow> nat \<Rightarrow> nat \<Rightarrow> string option" where
  "render_ops oldLines newLines [] oi ni = Some []"
| "render_ops oldLines newLines (opEqual # ops) oi ni =
     (case slice_at oldLines oi of
        None \<Rightarrow> None
      | Some l \<Rightarrow> map_option ((@) (render_line CHR '' '' l))
                   (render_ops oldLines newLines ops (oi + 1) (ni + 1)))"
| "render_ops oldLines newLines (opDelete # ops) oi ni =
     (case slice_at oldLines oi of
        None \<Rightarrow> None
      | Some l \<Rightarrow> map_option ((@) (render_line CHR ''-'' l))
                   (render_ops oldLines newLines ops (oi + 1) ni))"
| "render_ops oldLines newLines (opInsert # ops) oi ni =
     (case slice_at newLines ni of
        None \<Rightarrow> None
      | Some l \<Rightarrow> map_option ((@) (render_line CHR ''+'' l))
                   (render_ops oldLines newLines ops oi (ni + 1)))"

definition formatUnified ::
  "string \<Rightarrow> string \<Rightarrow> line list \<Rightarrow> line list \<Rightarrow> editOp list \<Rightarrow> string option" where
  "formatUnified oldName newName oldLines newLines ops =
     (let (oldCount, newCount) = count_ops ops 0 0 in
      map_option
        (\<lambda>body. writeFileHeader oldName newName @
           ''@@ -'' @ formatRange oldCount @ '' +'' @ formatRange newCount @ '' @@'' @ [newline] @
           body)
        (render_ops oldLines newLines ops 0 0))"

definition Generate :: "DiffRequest \<Rightarrow> diff_error + DiffResult" where
  "Generate req =
     (let oldName = (if OldName req = [] then defaultName else OldName req);
          newName = (if NewName req = [] then defaultName else NewName req);
          oldText = (if Normalize req then normalizeText (Old req) else Old req);
          newText = (if Normalize req then normalizeText (New req) else New req);
          oldLines = splitLines oldText;
          newLines = splitLines newText
      in if linesEqual oldLines newLines
         then Inr \<lparr>Diff = buildIdenticalDiff oldName newName oldText, Equal = True\<rparr>
         else (case boundedEdits oldLines newLines of
                 Inl e \<Rightarrow> Inl e
               | Inr ops \<Rightarrow>
                   (case formatUnified oldName newName oldLines newLines ops of
                      None \<Rightarrow> Inl IndexPanic
                    | Some d \<Rightarrow> Inr \<lparr>Diff = d, Equal = False\<rparr>)))"

section \<open>What an edit script is\<close>

text \<open>
  \<open>edit_script ops a b\<close>: reading \<open>ops\<close> from the left consumes exactly \<open>a\<close> and produces
  exactly \<open>b\<close>, and a line kept as context is the same on both sides.
\<close>

fun edit_script :: "editOp list \<Rightarrow> 'a list \<Rightarrow> 'a list \<Rightarrow> bool" where
  "edit_script [] a b = (a = [] \<and> b = [])"
| "edit_script (opEqual # ops) a b =
     (case (a, b) of (x # a', y # b') \<Rightarrow> x = y \<and> edit_script ops a' b' | _ \<Rightarrow> False)"
| "edit_script (opDelete # ops) a b =
     (case a of [] \<Rightarrow> False | x # a' \<Rightarrow> edit_script ops a' b)"
| "edit_script (opInsert # ops) a b =
     (case b of [] \<Rightarrow> False | y # b' \<Rightarrow> edit_script ops a b')"

definition kept :: "editOp list \<Rightarrow> nat" where
  "kept ops = count_list ops opEqual"

definition changes :: "editOp list \<Rightarrow> nat" where
  "changes ops = length (filter (\<lambda>x. x \<noteq> opEqual) ops)"

lemma kept_simps [simp]:
  "kept [] = 0" "kept (x # xs) = (if x = opEqual then Suc (kept xs) else kept xs)"
  "kept (xs @ ys) = kept xs + kept ys" "kept (rev xs) = kept xs"
  "kept (replicate n opEqual) = n" "kept (replicate n opInsert) = 0" "kept (replicate n opDelete) = 0"
  by (simp_all add: kept_def count_list_append)
     (induction n; simp)+

lemma edit_script_append:
  "edit_script xs a b \<Longrightarrow> edit_script ys c d \<Longrightarrow> edit_script (xs @ ys) (a @ c) (b @ d)"
  by (induction xs a b rule: edit_script.induct) (auto split: list.splits)

lemma edit_script_equal: "edit_script (replicate (length xs) opEqual) xs xs"
  by (induction xs) auto

lemma edit_script_insert: "edit_script (replicate (length xs) opInsert) [] xs"
  by (induction xs) auto

lemma edit_script_delete: "edit_script (replicate (length xs) opDelete) xs []"
  by (induction xs) auto

lemma edit_script_kept_subseq:
  "edit_script ops a b \<Longrightarrow> \<exists>s. subseq s a \<and> subseq s b \<and> length s = kept ops"
proof (induction ops a b rule: edit_script.induct)
  case (1 a b)
  then show ?case by auto
next
  case (2 ops a b)
  then obtain x a' b' where ab: "a = x # a'" "b = x # b'" and e: "edit_script ops a' b'"
    by (auto split: list.splits)
  with "2.IH" obtain s where "subseq s a'" "subseq s b'" "length s = kept ops"
    by force
  then have "subseq (x # s) a \<and> subseq (x # s) b \<and> length (x # s) = kept (opEqual # ops)"
    using ab by simp
  then show ?case by blast
next
  case (3 ops a b)
  then obtain x a' where "a = x # a'" "edit_script ops a' b"
    by (auto split: list.splits)
  with "3.IH" [of x a'] show ?case by (auto intro: list_emb_Cons)
next
  case (4 ops a b)
  then obtain y b' where "b = y # b'" "edit_script ops a b'"
    by (auto split: list.splits)
  with "4.IH" [of y b'] show ?case by (auto intro: list_emb_Cons)
qed

lemma edit_script_changes:
  "edit_script ops a b \<Longrightarrow> changes ops + 2 * kept ops = length a + length b"
  by (induction ops a b rule: edit_script.induct)
     (auto simp: changes_def split: list.splits)

lemma edit_script_counts:
  "edit_script ops a b \<Longrightarrow> count_ops ops x y = (x + length a, y + length b)"
  by (induction ops a b arbitrary: x y rule: edit_script.induct) (auto split: list.splits)

section \<open>The table holds longest common subsequence lengths\<close>

fun lcs_len :: "'a list \<Rightarrow> 'a list \<Rightarrow> nat \<Rightarrow> nat \<Rightarrow> nat" where
  "lcs_len a b 0 j = 0"
| "lcs_len a b i 0 = 0"
| "lcs_len a b (Suc i) (Suc j) =
     (if a ! i = b ! j then lcs_len a b i j + 1
      else max (lcs_len a b i (Suc j)) (lcs_len a b (Suc i) j))"

lemma lcs_len_0 [simp]: "lcs_len a b i 0 = 0"
  by (cases i) simp_all

lemma subseq_snoc_cases:
  assumes "subseq s (u @ [x])"
  shows "subseq s u \<or> (\<exists>t. s = t @ [x] \<and> subseq t u)"
proof -
  from assms obtain s1 s2 where s: "s = s1 @ s2" "subseq s1 u" "subseq s2 [x]"
    by (metis subseq_appendE)
  from s(3) have "s2 = [] \<or> s2 = [x]"
    by (cases s2) (auto split: if_splits)
  with s show ?thesis by auto
qed

lemma subseq_snoc_butlast: "subseq s (u @ [x]) \<Longrightarrow> subseq (butlast s) u"
  using subseq_snoc_cases [of s u x]
  by (auto intro: subseq_order.order_trans prefix_imp_subseq [OF prefixeq_butlast])

text \<open>No common subsequence of the two prefixes is longer than the cell says.\<close>

lemma lcs_len_upper:
  "subseq s (take i a) \<Longrightarrow> subseq s (take j b) \<Longrightarrow> i \<le> length a \<Longrightarrow> j \<le> length b \<Longrightarrow>
   length s \<le> lcs_len a b i j"
proof (induction a b i j arbitrary: s rule: lcs_len.induct)
  case (1 a b j)
  then show ?case by simp
next
  case (2 a b v)
  then show ?case by simp
next
  case (3 a b i j)
  have ta: "take (Suc i) a = take i a @ [a ! i]" and tb: "take (Suc j) b = take j b @ [b ! j]"
    using "3.prems" by (simp_all add: take_Suc_conv_app_nth)
  show ?case
  proof (cases "a ! i = b ! j")
    case True
    have "length (butlast s) \<le> lcs_len a b i j"
      using "3.IH"(1) [OF True, of "butlast s"] "3.prems" ta tb
      by (auto intro: subseq_snoc_butlast)
    with True show ?thesis by simp
  next
    case False
    then have "subseq s (take i a) \<or> subseq s (take j b)"
      using subseq_snoc_cases [of s "take i a" "a ! i"] subseq_snoc_cases [of s "take j b" "b ! j"]
        "3.prems" ta tb by auto
    with False show ?thesis
      using "3.IH"(2) [OF False, of s] "3.IH"(3) [OF False, of s] "3.prems" by auto
  qed
qed

text \<open>
  The loop invariant: after the rows below \<open>i\<close> and the columns below \<open>j\<close> of row \<open>i\<close>, each
  finished cell of the flat table holds its value, and the rest of the border is zero.
\<close>

definition table_done :: "'a list \<Rightarrow> 'a list \<Rightarrow> nat \<Rightarrow> nat \<Rightarrow> nat list \<Rightarrow> bool" where
  "table_done a b i j dp \<longleftrightarrow>
     length dp = (length a + 1) * (length b + 1) \<and>
     (\<forall>i' j'. i' \<le> length a \<longrightarrow> j' \<le> length b \<longrightarrow> i' < i \<or> i' = i \<and> j' < j \<or> j' = 0 \<longrightarrow>
        dp ! (i' * (length b + 1) + j') = lcs_len a b i' j')"

lemma table_doneD:
  "table_done a b i j dp \<Longrightarrow> i' \<le> length a \<Longrightarrow> j' \<le> length b \<Longrightarrow>
   i' < i \<or> i' = i \<and> j' < j \<or> j' = 0 \<Longrightarrow>
   dp ! (i' * (length b + 1) + j') = lcs_len a b i' j'"
  unfolding table_done_def by blast

lemma table_doneI:
  assumes "length dp = (length a + 1) * (length b + 1)"
    and "\<And>i' j'. i' \<le> length a \<Longrightarrow> j' \<le> length b \<Longrightarrow>
           i' < i \<or> i' = i \<and> j' < j \<or> j' = 0 \<Longrightarrow>
           dp ! (i' * (length b + 1) + j') = lcs_len a b i' j'"
  shows "table_done a b i j dp"
  using assms unfolding table_done_def by blast

lemma table_done_length: "table_done a b i j dp \<Longrightarrow> length dp = (length a + 1) * (length b + 1)"
  unfolding table_done_def by blast

lemma cell_index_less:
  fixes i j n m :: nat
  assumes "i \<le> n" "j \<le> m"
  shows "i * (m + 1) + j < (n + 1) * (m + 1)"
proof -
  have "i * (m + 1) + j < i * (m + 1) + (m + 1)" using assms by simp
  also have "\<dots> = (i + 1) * (m + 1)" by simp
  also have "\<dots> \<le> (n + 1) * (m + 1)" using assms by (intro mult_le_mono) auto
  finally show ?thesis .
qed

lemma row_column_inj:
  fixes i j i' j' w :: nat
  assumes "j < w" "j' < w" "i * w + j = i' * w + j'"
  shows "i = i' \<and> j = j'"
proof -
  have "(i * w + j) div w = i" "(i' * w + j') div w = i'"
    using assms(1,2) by simp_all
  with assms(3) have "i = i'" by metis
  with assms(3) show ?thesis by simp
qed

lemma lcs_cell_correct:
  assumes "table_done a b i j dp" "1 \<le> i" "i \<le> length a" "1 \<le> j" "j \<le> length b"
  shows "lcs_cell a b (length b + 1) dp i j = lcs_len a b i j"
proof -
  obtain i0 j0 where ij: "i = Suc i0" "j = Suc j0"
    using assms by (metis Suc_le_D One_nat_def)
  have diag: "dp ! (i0 * (length b + 1) + j0) = lcs_len a b i0 j0"
    and up: "dp ! (i0 * (length b + 1) + Suc j0) = lcs_len a b i0 (Suc j0)"
    and left: "dp ! (Suc i0 * (length b + 1) + j0) = lcs_len a b (Suc i0) j0"
    by (rule table_doneD [OF assms(1)]; use assms ij in simp)+
  show ?thesis
    using diag up left unfolding lcs_cell_def ij by (auto simp: max_def)
qed

lemma table_done_update:
  assumes "table_done a b i j dp" "1 \<le> i" "i \<le> length a" "1 \<le> j" "j \<le> length b"
  shows "table_done a b i (Suc j)
     (dp[i * (length b + 1) + j := lcs_cell a b (length b + 1) dp i j])"
proof -
  let ?k = "i * (length b + 1) + j"
  have len: "length dp = (length a + 1) * (length b + 1)" and k: "?k < length dp"
    using table_done_length [OF assms(1)] cell_index_less [of i "length a" j "length b"] assms(3,5)
    by metis+
  have "dp[?k := lcs_cell a b (length b + 1) dp i j] ! (i' * (length b + 1) + j') = lcs_len a b i' j'"
    if c: "i' \<le> length a" "j' \<le> length b" "i' < i \<or> i' = i \<and> j' < Suc j \<or> j' = 0" for i' j'
  proof (cases "i' * (length b + 1) + j' = ?k")
    case True
    then have "i' = i" "j' = j"
      using row_column_inj [of j' "length b + 1" j i' i] c assms by simp_all
    with k lcs_cell_correct [OF assms] show ?thesis by simp
  next
    case False
    then have "\<not> (i' = i \<and> j' = j)" by auto
    with c have "i' < i \<or> i' = i \<and> j' < j \<or> j' = 0" by auto
    then have "dp ! (i' * (length b + 1) + j') = lcs_len a b i' j'"
      using c by (intro table_doneD [OF assms(1)])
    with False show ?thesis by (metis nth_list_update_neq)
  qed
  with len show ?thesis by (intro table_doneI) simp_all
qed

lemma table_done_row:
  assumes "table_done a b i 1 dp" "1 \<le> i" "i \<le> length a" "k \<le> length b"
  shows "table_done a b i (Suc k)
     (fold (\<lambda>j dp. dp[i * (length b + 1) + j := lcs_cell a b (length b + 1) dp i j])
       [1..<Suc k] dp)"
  using assms(4)
proof (induction k)
  case 0
  with assms show ?case by simp
next
  case (Suc k)
  then show ?case
    using table_done_update [of a b i "Suc k"] assms by simp
qed

lemma lcs_row_done:
  assumes "table_done a b i 1 dp" "1 \<le> i" "i \<le> length a"
  shows "table_done a b (Suc i) 1 (lcs_row a b i dp)"
proof -
  have row: "table_done a b i (Suc (length b)) (lcs_row a b i dp)"
    using table_done_row [OF assms, of "length b"] by (simp add: lcs_row_def)
  show ?thesis
  proof (rule table_doneI [OF table_done_length [OF row]])
    fix i' j'
    assume "i' \<le> length a" "j' \<le> length b" "i' < Suc i \<or> i' = Suc i \<and> j' < 1 \<or> j' = 0"
    then show "lcs_row a b i dp ! (i' * (length b + 1) + j') = lcs_len a b i' j'"
      by (intro table_doneD [OF row]) auto
  qed
qed

lemma lcs_table_done: "table_done a b (Suc (length a)) 1 (lcs_table a b)"
proof -
  let ?dp0 = "replicate ((length a + 1) * (length b + 1)) (0::nat)"
  have "table_done a b (Suc k) 1 (fold (lcs_row a b) [1..<Suc k] ?dp0)" if "k \<le> length a" for k
    using that
  proof (induction k)
    case 0
    have "?dp0 ! (i * (length b + 1) + j) = 0" if "i \<le> length a" "j \<le> length b" for i j
      using cell_index_less [OF that] by (rule nth_replicate)
    then show ?case
      by (intro table_doneI) (auto simp: less_Suc_eq simp del: replicate_Suc)
  next
    case (Suc k)
    then show ?case
      using lcs_row_done [of a b "Suc k"] by simp
  qed
  then show ?thesis by (simp add: lcs_table_def)
qed

theorem lcs_table_correct:
  assumes "i \<le> length a" "j \<le> length b"
  shows "lcs_table a b ! (i * (length b + 1) + j) = lcs_len a b i j"
  using table_doneD [OF lcs_table_done [of a b] assms] assms(1) by simp

lemma length_lcs_table: "length (lcs_table a b) = (length a + 1) * (length b + 1)"
  using table_done_length [OF lcs_table_done] .

section \<open>The script is correct and shortest\<close>

lemma edit_script_snoc:
  assumes "edit_script ops (take i a) (take j b)"
  shows "i < length a \<Longrightarrow> j < length b \<Longrightarrow> a ! i = b ! j \<Longrightarrow>
           edit_script (ops @ [opEqual]) (take (Suc i) a) (take (Suc j) b)"
    and "j < length b \<Longrightarrow> edit_script (ops @ [opInsert]) (take i a) (take (Suc j) b)"
    and "i < length a \<Longrightarrow> edit_script (ops @ [opDelete]) (take (Suc i) a) (take j b)"
  using edit_script_append [OF assms, of "[opEqual]" "[a ! i]" "[b ! j]"]
    edit_script_append [OF assms, of "[opInsert]" "[]" "[b ! j]"]
    edit_script_append [OF assms, of "[opDelete]" "[a ! i]" "[]"]
  by (simp_all add: take_Suc_conv_app_nth)

text \<open>What one call of the backtracking loop at cell \<open>(i, j)\<close> has to deliver.\<close>

definition backtracked :: "'a list \<Rightarrow> 'a list \<Rightarrow> nat \<Rightarrow> nat \<Rightarrow> editOp list \<Rightarrow> editOp list \<Rightarrow> bool" where
  "backtracked a b i j ops r \<longleftrightarrow>
     (\<exists>ops'. r = ops @ rev ops' \<and> edit_script ops' (take i a) (take j b) \<and>
             kept ops' = lcs_len a b i j)"

lemma backtrackedI:
  "edit_script ops' (take i a) (take j b) \<Longrightarrow> kept ops' = lcs_len a b i j \<Longrightarrow>
   backtracked a b i j ops (ops @ rev ops')"
  by (auto simp: backtracked_def)

lemma backtracked_equal:
  assumes "backtracked a b i j (ops @ [opEqual]) r"
    and "i < length a" "j < length b" "a ! i = b ! j"
  shows "backtracked a b (Suc i) (Suc j) ops r"
proof -
  from assms(1) obtain o' where o': "r = (ops @ [opEqual]) @ rev o'"
      "edit_script o' (take i a) (take j b)" "kept o' = lcs_len a b i j"
    by (auto simp: backtracked_def)
  then show ?thesis
    using backtrackedI [OF edit_script_snoc(1) [OF o'(2) assms(2-4)], of ops] assms(4) by simp
qed

lemma backtracked_insert:
  assumes "backtracked a b i j (ops @ [opInsert]) r"
    and "j < length b" "lcs_len a b i (Suc j) = lcs_len a b i j"
  shows "backtracked a b i (Suc j) ops r"
proof -
  from assms(1) obtain o' where o': "r = (ops @ [opInsert]) @ rev o'"
      "edit_script o' (take i a) (take j b)" "kept o' = lcs_len a b i j"
    by (auto simp: backtracked_def)
  then show ?thesis
    using backtrackedI [OF edit_script_snoc(2) [OF o'(2) assms(2)], of ops] assms(3) by simp
qed

lemma backtracked_delete:
  assumes "backtracked a b i j (ops @ [opDelete]) r"
    and "i < length a" "lcs_len a b (Suc i) j = lcs_len a b i j"
  shows "backtracked a b (Suc i) j ops r"
proof -
  from assms(1) obtain o' where o': "r = (ops @ [opDelete]) @ rev o'"
      "edit_script o' (take i a) (take j b)" "kept o' = lcs_len a b i j"
    by (auto simp: backtracked_def)
  then show ?thesis
    using backtrackedI [OF edit_script_snoc(3) [OF o'(2) assms(2)], of ops] assms(3) by simp
qed

lemma lcs_backtrack_spec:
  assumes cell: "\<And>i j. i \<le> length a \<Longrightarrow> j \<le> length b \<Longrightarrow>
      dp ! (i * width + j) = lcs_len a b i j"
    and "i \<le> length a" "j \<le> length b"
  shows "backtracked a b i j ops (lcs_backtrack a b width dp i j ops)"
  using assms
proof (induction a b width dp i j ops rule: lcs_backtrack.induct)
  case (1 a b width dp i j ops)
  consider (stop) "i = 0" "j = 0"
    | (equal) i0 j0 where "i = Suc i0" "j = Suc j0" "a ! i0 = b ! j0"
    | (insert) j0 where "j = Suc j0" "i = 0 \<or> a ! (i - 1) \<noteq> b ! j0"
        "i = 0 \<or> lcs_len a b i j0 \<ge> lcs_len a b (i - 1) j"
    | (delete) i0 where "i = Suc i0" "j = 0 \<or> a ! i0 \<noteq> b ! (j - 1)"
        "j = 0 \<or> \<not> lcs_len a b i (j - 1) \<ge> lcs_len a b i0 j"
    by (cases i; cases j) (simp_all, metis)
  then show ?case
  proof cases
    case stop
    then show ?thesis
      using backtrackedI [of "[]" 0 a 0 b ops]
      by (simp add: lcs_backtrack.simps [of a b width dp 0 0])
  next
    case equal
    then have "backtracked a b i0 j0 (ops @ [opEqual]) (lcs_backtrack a b width dp i j ops)"
      using "1.IH"(1) "1.prems" by (simp add: lcs_backtrack.simps [of a b width dp "Suc _" "Suc _"])
    with equal "1.prems" show ?thesis by (simp add: backtracked_equal)
  next
    case insert
    then have "lcs_backtrack a b width dp i j ops = lcs_backtrack a b width dp i j0 (ops @ [opInsert])"
      using "1.prems"(1) [of i j0] "1.prems"(1) [of "i - 1" j] "1.prems"(2,3)
      by (cases i) (simp_all add: lcs_backtrack.simps [of a b width dp _ "Suc _"])
    moreover have "backtracked a b i j0 (ops @ [opInsert]) (lcs_backtrack a b width dp i j0 (ops @ [opInsert]))"
      using "1.IH"(2) "1.prems" insert "1.prems"(1) [of i j0] "1.prems"(1) [of "i - 1" j] by (cases i) simp_all
    ultimately show ?thesis
      using insert "1.prems" by (cases i) (simp_all add: backtracked_insert)
  next
    case delete
    then have "lcs_backtrack a b width dp i j ops = lcs_backtrack a b width dp i0 j (ops @ [opDelete])"
      using "1.prems"(1) [of i "j - 1"] "1.prems"(1) [of i0 j] "1.prems"(2,3)
      by (cases j) (simp_all add: lcs_backtrack.simps [of a b width dp "Suc _"])
    moreover have "backtracked a b i0 j (ops @ [opDelete]) (lcs_backtrack a b width dp i0 j (ops @ [opDelete]))"
      using "1.IH"(3) "1.prems" delete "1.prems"(1) [of i "j - 1"] "1.prems"(1) [of i0 j] by (cases j) simp_all
    ultimately show ?thesis
      using delete "1.prems" by (cases j) (simp_all add: backtracked_delete)
  qed
qed

lemma lcs_spec: "edit_script (lcs a b) a b \<and> kept (lcs a b) = lcs_len a b (length a) (length b)"
proof (cases "a = [] \<or> b = []")
  case True
  then show ?thesis
    by (auto simp: lcs_def Let_def edit_script_insert edit_script_delete)
next
  case False
  then show ?thesis
    using lcs_backtrack_spec [of a b "lcs_table a b" "length b + 1" "length a" "length b" "[]"]
      lcs_table_correct [of _ a _ b]
    by (auto simp: lcs_def backtracked_def)
qed

lemma lcs_longest: "subseq s a \<Longrightarrow> subseq s b \<Longrightarrow> length s \<le> kept (lcs a b)"
  using lcs_len_upper [of s "length a" a "length b" b] lcs_spec [of a b] by simp

subsection \<open>Trimming equal edges\<close>

lemma prefix_loop_spec:
  "p \<le> length a \<Longrightarrow> p \<le> length b \<Longrightarrow> take p a = take p b \<Longrightarrow>
   prefix_loop a b p \<le> length a \<and> prefix_loop a b p \<le> length b \<and>
   take (prefix_loop a b p) a = take (prefix_loop a b p) b"
proof (induction a b p rule: prefix_loop.induct)
  case (1 a b p)
  then show ?case
    by (cases "p < length a \<and> p < length b \<and> a ! p = b ! p")
       (auto simp: prefix_loop.simps [of a b p] take_Suc_conv_app_nth)
qed

lemma drop_length_minus_Suc:
  "q < length xs \<Longrightarrow> drop (length xs - Suc q) xs = xs ! (length xs - Suc q) # drop (length xs - q) xs"
  by (metis Cons_nth_drop_Suc Suc_diff_Suc diff_less length_greater_0_conv less_nat_zero_code
      list.size(3) zero_less_Suc)

lemma suffix_loop_spec:
  "q \<le> length a - p \<Longrightarrow> q \<le> length b - p \<Longrightarrow>
   drop (length a - q) a = drop (length b - q) b \<Longrightarrow>
   suffix_loop a b p q \<le> length a - p \<and> suffix_loop a b p q \<le> length b - p \<and>
   drop (length a - suffix_loop a b p q) a = drop (length b - suffix_loop a b p q) b"
proof (induction a b p q rule: suffix_loop.induct)
  case (1 a b p q)
  show ?case
  proof (cases "q < length a - p \<and> q < length b - p \<and> a ! (length a - q - 1) = b ! (length b - q - 1)")
    case True
    then have "q < length a" "q < length b" by auto
    then have "drop (length a - Suc q) a = drop (length b - Suc q) b"
      using drop_length_minus_Suc [of q a] drop_length_minus_Suc [of q b] True "1.prems" by simp
    with True "1.IH" "1.prems" show ?thesis
      by (simp add: suffix_loop.simps [of a b p q])
  next
    case False
    then have "suffix_loop a b p q = q" by (subst suffix_loop.simps) auto
    with "1.prems" show ?thesis by simp
  qed
qed

text \<open>A common subsequence of two lists with a shared edge is, edge aside, one of the middles.\<close>

lemma common_subseq_strip_prefix:
  "subseq s (p @ u) \<Longrightarrow> subseq s (p @ v) \<Longrightarrow>
   \<exists>t. subseq t u \<and> subseq t v \<and> length s \<le> length p + length t"
proof (induction p arbitrary: s)
  case Nil
  then show ?case by auto
next
  case (Cons x p)
  show ?case
  proof (cases s)
    case Nil
    then show ?thesis by (intro exI [of _ "[]"]) simp
  next
    fix y t
    assume s: "s = y # t"
    have "subseq t (p @ u)" "subseq t (p @ v)"
      using Cons.prems s by (auto split: if_splits dest: subseq_Cons')
    with Cons.IH s show ?thesis by force
  qed
qed

lemma subseq_rev_iff: "subseq (rev xs) (rev ys) \<longleftrightarrow> subseq xs ys"
proof -
  have rev_emb: "subseq xs ys \<Longrightarrow> subseq (rev xs) (rev ys)" for xs ys :: "'a list"
    by (induction rule: list_emb.induct)
       (auto intro: list_emb_append_mono subseq_order.order_trans)
  from rev_emb [of xs ys] rev_emb [of "rev xs" "rev ys"] show ?thesis by auto
qed

lemma common_subseq_strip_edges:
  assumes "subseq s (p @ u @ q)" "subseq s (p @ v @ q)"
  shows "\<exists>t. subseq t u \<and> subseq t v \<and> length s \<le> length p + length t + length q"
proof -
  from common_subseq_strip_prefix [OF assms] obtain r
    where r: "subseq r (u @ q)" "subseq r (v @ q)" "length s \<le> length p + length r"
    by blast
  then have "subseq (rev r) (rev q @ rev u)" "subseq (rev r) (rev q @ rev v)"
    by (metis rev_append subseq_rev_iff)+
  from common_subseq_strip_prefix [OF this] obtain t
    where t: "subseq t (rev u)" "subseq t (rev v)" "length (rev r) \<le> length (rev q) + length t"
    by blast
  then have "subseq (rev t) u" "subseq (rev t) v"
    by (metis rev_rev_ident subseq_rev_iff)+
  with r(3) t(3) show ?thesis by (intro exI [of _ "rev t"]) simp
qed

text \<open>The three parts \<open>boundedEdits\<close> cuts the sides into.\<close>

lemma boundedEdits_parts:
  fixes a b :: "'a list"
  defines "p \<equiv> prefix_loop a b 0"
  defines "q \<equiv> suffix_loop a b p 0"
  defines "am \<equiv> take (length a - q - p) (drop p a)"
  defines "bm \<equiv> take (length b - q - p) (drop p b)"
  obtains P Q where "a = P @ am @ Q" "b = P @ bm @ Q" "length P = p" "length Q = q"
proof -
  have p: "p \<le> length a" "p \<le> length b" "take p a = take p b"
    using prefix_loop_spec [of 0 a b] by (simp_all add: p_def)
  have q: "q \<le> length a - p" "q \<le> length b - p" "drop (length a - q) a = drop (length b - q) b"
    using suffix_loop_spec [of 0 a p b] by (simp_all add: q_def)
  have split: "xs = take p xs @ take (length xs - q - p) (drop p xs) @ drop (length xs - q) xs"
    if "p \<le> length xs" "q \<le> length xs - p" for xs :: "'a list"
  proof -
    have "take (length xs - q) xs = take p xs @ take (length xs - q - p) (drop p xs)"
      using that by (metis add.commute le_add_diff_inverse2 take_add diff_diff_left diff_le_mono2
          le_diff_conv2 diff_diff_cancel)
    then show ?thesis by (metis append_assoc append_take_drop_id)
  qed
  show thesis
  proof (rule that [of "take p a" "drop (length a - q) a"])
    show "a = take p a @ am @ drop (length a - q) a"
      using split [of a] p q by (simp add: am_def)
    show "b = take p a @ bm @ drop (length a - q) a"
      using split [of b] p q by (simp add: bm_def)
    show "length (take p a) = p" using p by simp
    show "length (drop (length a - q) a) = q" using q by simp
  qed
qed

lemma boundedEdits_script:
  assumes "boundedEdits a b = Inr ops"
  shows "edit_script ops a b \<and> (\<forall>s. subseq s a \<longrightarrow> subseq s b \<longrightarrow> length s \<le> kept ops)"
proof -
  define p q where pq: "p = prefix_loop a b 0" "q = suffix_loop a b p 0"
  define am bm where mid: "am = take (length a - q - p) (drop p a)" "bm = take (length b - q - p) (drop p b)"
  obtain P Q where parts: "a = P @ am @ Q" "b = P @ bm @ Q" "length P = p" "length Q = q"
    using boundedEdits_parts [of a b] unfolding pq mid by metis
  have ops: "ops = replicate p opEqual @ lcs am bm @ replicate q opEqual"
    using assms by (auto simp: boundedEdits_def Let_def pq mid split: if_splits)
  have "edit_script ops a b"
    using edit_script_append [OF edit_script_equal [of P] edit_script_append [OF conjunct1 [OF lcs_spec [of am bm]] edit_script_equal [of Q]]]
    by (simp add: ops parts(3,4) flip: parts(1,2))
  moreover have "length s \<le> kept ops" if "subseq s a" "subseq s b" for s
  proof -
    from common_subseq_strip_edges [of s P am Q bm] that parts
    obtain t where "subseq t am" "subseq t bm" "length s \<le> p + length t + q"
      by metis
    with lcs_longest [of t am bm] show ?thesis by (simp add: ops)
  qed
  ultimately show ?thesis by blast
qed

section \<open>Lines and their text\<close>

definition line_bytes :: "line \<Rightarrow> string" where
  "line_bytes l = line_text l @ (if hasNewline l then [newline] else [])"

definition joinLines :: "line list \<Rightarrow> string" where
  "joinLines ls = concat (map line_bytes ls)"

lemma joinLines_simps [simp]:
  "joinLines [] = []" "joinLines (l # ls) = line_bytes l @ joinLines ls"
  by (simp_all add: joinLines_def)

lemma splitLines_Nil [simp]: "splitLines [] = []"
  by (simp add: splitLines.simps)

lemma joinLines_splitLines: "joinLines (splitLines s) = s"
proof (induction s rule: splitLines.induct)
  case (1 s)
  show ?case
  proof (cases "IndexByte s newline")
    case None
    then show ?thesis
      by (cases "s = []") (simp_all add: splitLines.simps [of s] line_bytes_def)
  next
    case (Some i)
    then have "s \<noteq> []" by auto
    with Some "1.IH" IndexByte_decomp [OF Some] show ?thesis
      by (simp add: splitLines.simps [of s] line_bytes_def)
  qed
qed

lemma splitLines_no_newline: "l \<in> set (splitLines s) \<Longrightarrow> newline \<notin> set (line_text l)"
proof (induction s rule: splitLines.induct)
  case (1 s)
  show ?case
  proof (cases "IndexByte s newline")
    case None
    moreover from None have "newline \<notin> set s" by (simp add: IndexByte_None)
    ultimately show ?thesis
      using "1.prems" by (auto simp: splitLines.simps [of s] split: if_splits)
  next
    case (Some i)
    with "1.IH" "1.prems" IndexByte_Some [OF Some] show ?thesis
      by (auto simp: splitLines.simps [of s] split: if_splits)
  qed
qed

lemma splitLines_inj: "splitLines s = splitLines t \<longleftrightarrow> s = t"
  by (metis joinLines_splitLines)

lemma linesEqual_from_iff: "linesEqual_from a b is \<longleftrightarrow> (\<forall>i \<in> set is. a ! i = b ! i)"
  by (induction "is") auto

lemma linesEqual_iff: "linesEqual a b \<longleftrightarrow> a = b"
  by (auto simp: linesEqual_def linesEqual_from_iff intro: nth_equalityI)

section \<open>Reading a rendered script back\<close>

text \<open>The script as the list of its records: the sigil and the line it prints.\<close>

fun records :: "editOp list \<Rightarrow> line list \<Rightarrow> line list \<Rightarrow> (char \<times> line) list" where
  "records [] a b = []"
| "records (opEqual # ops) a b = (CHR '' '', hd a) # records ops (tl a) (tl b)"
| "records (opDelete # ops) a b = (CHR ''-'', hd a) # records ops (tl a) b"
| "records (opInsert # ops) a b = (CHR ''+'', hd b) # records ops a (tl b)"

definition render_records :: "(char \<times> line) list \<Rightarrow> string" where
  "render_records rs = concat (map (\<lambda>(c, l). render_line c l) rs)"

lemma slice_at_drop: "drop i xs = x # r \<Longrightarrow> slice_at xs i = Some x \<and> drop (Suc i) xs = r"
  by (metis append_take_drop_id drop_Suc length_take min.absorb2 not_le_imp_less drop_all
      list.discI list.sel(3) slice_at_append_length tl_drop less_imp_le_nat)

lemma render_ops_records:
  "edit_script ops (drop oi a) (drop ni b) \<Longrightarrow>
   render_ops a b ops oi ni = Some (render_records (records ops (drop oi a) (drop ni b)))"
proof (induction ops arbitrary: oi ni)
  case Nil
  then show ?case by (simp add: render_records_def)
next
  case (Cons x ops)
  show ?case
  proof (cases x)
    case opEqual
    with Cons.prems obtain l a' b' where "drop oi a = l # a'" "drop ni b = l # b'" "edit_script ops a' b'"
      by (auto split: list.splits)
    with opEqual Cons.IH [of "Suc oi" "Suc ni"] show ?thesis
      using slice_at_drop [of oi a] slice_at_drop [of ni b] by (simp add: render_records_def)
  next
    case opDelete
    with Cons.prems obtain l a' where "drop oi a = l # a'" "edit_script ops a' (drop ni b)"
      by (auto split: list.splits)
    with opDelete Cons.IH [of "Suc oi" ni] show ?thesis
      using slice_at_drop [of oi a] by (simp add: render_records_def)
  next
    case opInsert
    with Cons.prems obtain l b' where "drop ni b = l # b'" "edit_script ops (drop oi a) b'"
      by (auto split: list.splits)
    with opInsert Cons.IH [of oi "Suc ni"] show ?thesis
      using slice_at_drop [of ni b] by (simp add: render_records_def)
  qed
qed

text \<open>
  The reader of one side: a physical line belongs to the side when its sigil is a space or
  the side's own, and it carried no newline when the marker follows it.
\<close>

fun read_side :: "char \<Rightarrow> string list \<Rightarrow> string" where
  "read_side g [] = []"
| "read_side g [x] = []"
| "read_side g (x # y # rest) =
     (let mine = (x \<noteq> [] \<and> (hd x = CHR '' '' \<or> hd x = g)) in
      if y = noNewlineMarker
      then (if mine then tl x else []) @ read_side g rest
      else (if mine then tl x @ [newline] else []) @ read_side g (y # rest))"

definition read_old :: "string \<Rightarrow> string" where
  "read_old d = read_side CHR ''-'' (drop 3 (SplitOn newline d))"

definition read_new :: "string \<Rightarrow> string" where
  "read_new d = read_side CHR ''+'' (drop 3 (SplitOn newline d))"

lemma SplitOn_line: "c \<notin> set x \<Longrightarrow> SplitOn c (x @ c # ys) = x # SplitOn c ys"
  by (induction x) auto

definition side :: "char \<Rightarrow> (char \<times> line) list \<Rightarrow> string" where
  "side g rs = joinLines (map snd (filter (\<lambda>(c, l). c = CHR '' '' \<or> c = g) rs))"

lemma marker_no_newline: "newline \<notin> set noNewlineMarker"
  by (simp add: noNewlineMarker_def)

lemma split_render_line:
  assumes "c \<in> {CHR '' '', CHR ''-'', CHR ''+''}" "newline \<notin> set (line_text l)"
  shows "SplitOn newline (render_line c l @ ys) =
    (c # line_text l) # (if hasNewline l then SplitOn newline ys else noNewlineMarker # SplitOn newline ys)"
  using assms SplitOn_line [of newline "c # line_text l"] SplitOn_line [OF marker_no_newline, of ys]
  by (auto simp: render_line_def)

definition sound_records :: "(char \<times> line) list \<Rightarrow> bool" where
  "sound_records rs \<longleftrightarrow>
     (\<forall>(c, l) \<in> set rs. c \<in> {CHR '' '', CHR ''-'', CHR ''+''} \<and> newline \<notin> set (line_text l))"

lemma head_not_marker:
  "sound_records rs \<Longrightarrow> \<exists>y ys. SplitOn newline (render_records rs) = y # ys \<and> y \<noteq> noNewlineMarker"
proof (cases rs)
  case Nil
  then show ?thesis by (simp add: render_records_def noNewlineMarker_def)
next
  case (Cons r rs')
  moreover assume "sound_records rs"
  ultimately show ?thesis
    by (auto simp: render_records_def sound_records_def split_render_line noNewlineMarker_def)
qed

lemma read_side_records:
  "sound_records rs \<Longrightarrow> read_side g (SplitOn newline (render_records rs)) = side g rs"
proof (induction rs)
  case Nil
  then show ?case by (simp add: render_records_def side_def)
next
  case (Cons r rs)
  obtain c l where r: "r = (c, l)" by force
  have sound: "sound_records rs" and cl: "c \<in> {CHR '' '', CHR ''-'', CHR ''+''}" "newline \<notin> set (line_text l)"
    using Cons.prems r by (auto simp: sound_records_def)
  obtain y ys where y: "SplitOn newline (render_records rs) = y # ys" "y \<noteq> noNewlineMarker"
    using head_not_marker [OF sound] by blast
  have "SplitOn newline (render_records (r # rs)) =
      (c # line_text l) # (if hasNewline l then y # ys else noNewlineMarker # y # ys)"
    using split_render_line [OF cl, of "render_records rs"] y r by (simp add: render_records_def)
  then show ?case
    using Cons.IH [OF sound] y r by (auto simp: side_def line_bytes_def Let_def)
qed

lemma records_sides:
  assumes "edit_script ops a b"
  shows "side CHR ''-'' (records ops a b) = joinLines a \<and> side CHR ''+'' (records ops a b) = joinLines b"
  using assms
  by (induction ops a b rule: edit_script.induct)
     (auto simp: side_def split: list.splits)

lemma records_member:
  "edit_script ops a b \<Longrightarrow> (c, l) \<in> set (records ops a b) \<Longrightarrow>
   c \<in> {CHR '' '', CHR ''-'', CHR ''+''} \<and> l \<in> set a \<union> set b"
  by (induction ops a b rule: edit_script.induct) (auto split: list.splits)

lemma records_sound:
  assumes "edit_script ops a b" "\<And>l. l \<in> set a \<union> set b \<Longrightarrow> newline \<notin> set (line_text l)"
  shows "sound_records (records ops a b)"
  using assms records_member [OF assms(1)] by (fastforce simp: sound_records_def)

lemma formatRange_no_newline: "newline \<notin> set (formatRange n)"
  by (simp add: formatRange_def newline_notin_Itoa)

lemma drop_header:
  assumes "newline \<notin> set oldName" "newline \<notin> set newName" "newline \<notin> set h"
  shows "drop 3 (SplitOn newline (writeFileHeader oldName newName @ h @ newline # body)) =
     SplitOn newline body"
  using SplitOn_line [of newline "''--- '' @ oldName @ nameSuffix"]
    SplitOn_line [of newline "''+++ '' @ newName @ nameSuffix"] SplitOn_line [of newline h body] assms
  by (simp add: writeFileHeader_def nameSuffix_def)

lemma formatUnified_reads_back:
  assumes "edit_script ops a b" "\<And>l. l \<in> set a \<union> set b \<Longrightarrow> newline \<notin> set (line_text l)"
    and "newline \<notin> set oldName" "newline \<notin> set newName"
  shows "\<exists>d. formatUnified oldName newName a b ops = Some d \<and>
           read_old d = joinLines a \<and> read_new d = joinLines b"
proof -
  let ?h = "''@@ -'' @ formatRange (length a) @ '' +'' @ formatRange (length b) @ '' @@''"
  let ?body = "render_records (records ops a b)"
  let ?d = "writeFileHeader oldName newName @ ?h @ newline # ?body"
  have "formatUnified oldName newName a b ops = Some ?d"
    using render_ops_records [of ops 0 a 0 b] edit_script_counts [OF assms(1), of 0 0] assms(1)
    by (simp add: formatUnified_def)
  moreover have "newline \<notin> set ?h" by (simp add: formatRange_no_newline)
  then have "drop 3 (SplitOn newline ?d) = SplitOn newline ?body"
    by (rule drop_header [OF assms(3,4)])
  then have "read_old ?d = joinLines a" "read_new ?d = joinLines b"
    using read_side_records [OF records_sound [OF assms(1,2)]] records_sides [OF assms(1)]
    by (simp_all add: read_old_def read_new_def)
  ultimately show ?thesis by blast
qed

section \<open>Properties\<close>

lemmas engine_eval =
  boundedEdits_def prefix_loop.simps suffix_loop.simps lcs_def lcs_table_def lcs_row_def lcs_cell_def
  lcs_backtrack.simps splitLines.simps maxCells_def Let_def upt_rec nth_Cons' list_update_code numeral_2_eq_2 [symmetric]

text \<open>The text of a side as the engine compares it.\<close>

definition compared :: "DiffRequest \<Rightarrow> string \<Rightarrow> string" where
  "compared req s = (if Normalize req then normalizeText s else s)"

definition shown_name :: "string \<Rightarrow> string" where
  "shown_name n = (if n = [] then defaultName else n)"

lemma Generate_cases:
  "Generate req =
     (if compared req (Old req) = compared req (New req)
      then Inr \<lparr>Diff = buildIdenticalDiff (shown_name (OldName req)) (shown_name (NewName req))
                      (compared req (Old req)), Equal = True\<rparr>
      else (case boundedEdits (splitLines (compared req (Old req))) (splitLines (compared req (New req))) of
              Inl e \<Rightarrow> Inl e
            | Inr ops \<Rightarrow>
                (case formatUnified (shown_name (OldName req)) (shown_name (NewName req))
                        (splitLines (compared req (Old req))) (splitLines (compared req (New req))) ops of
                   None \<Rightarrow> Inl IndexPanic
                 | Some d \<Rightarrow> Inr \<lparr>Diff = d, Equal = False\<rparr>)))"
  unfolding Generate_def Let_def compared_def [symmetric] shown_name_def [symmetric]
    linesEqual_iff splitLines_inj by (rule refl)

text \<open>
  C8. Whenever \<open>boundedEdits\<close> returns a script, the script turns the old side into the new
  one, keeping only lines equal on both sides, and no other such script makes fewer
  changes: trimming the equal edges before the table is built loses nothing.
\<close>

theorem boundedEdits_minimal:
  assumes "boundedEdits a b = Inr ops" and "edit_script ops' a b"
  shows "edit_script ops a b \<and> changes ops \<le> changes ops'"
proof -
  have ops: "edit_script ops a b" and long: "\<And>s. subseq s a \<Longrightarrow> subseq s b \<Longrightarrow> length s \<le> kept ops"
    using boundedEdits_script [OF assms(1)] by blast+
  obtain s where "subseq s a" "subseq s b" "length s = kept ops'"
    using edit_script_kept_subseq [OF assms(2)] by blast
  with long have "kept ops' \<le> kept ops" by metis
  moreover have "changes ops + 2 * kept ops = changes ops' + 2 * kept ops'"
    using edit_script_changes [OF ops] edit_script_changes [OF assms(2)] by simp
  ultimately show ?thesis using ops by linarith
qed

theorem boundedEdits_minimal_witness:
  "edit_script [opEqual, opDelete, opInsert, opEqual] [1, 2, 3 :: nat] [1, 4, 3] \<and>
   changes [opEqual, opDelete, opInsert, opEqual] \<le>
     changes [opDelete, opDelete, opDelete, opInsert, opInsert, opInsert]"
proof -
  have "boundedEdits [1, 2, 3 :: nat] [1, 4, 3] = Inr [opEqual, opDelete, opInsert, opEqual]"
    by (simp add: engine_eval)
  moreover have "edit_script [opDelete, opDelete, opDelete, opInsert, opInsert, opInsert]
      [1, 2, 3 :: nat] [1, 4, 3]"
    by simp
  ultimately show ?thesis by (rule boundedEdits_minimal)
qed

text \<open>
  The budget guard is exact: \<open>boundedEdits\<close> refuses a comparison if and only if both
  trimmed middles are non-empty and the table over them, border included, would have more
  than \<open>maxCells\<close> cells. The guard's own arithmetic (a quotient, and two tests against the
  limit) never multiplies, and agrees with the product.
\<close>

theorem boundedEdits_budget:
  "boundedEdits a b = Inl ErrTooLarge \<longleftrightarrow>
     (let p = prefix_loop a b 0; q = suffix_loop a b p 0;
          am = take (length a - q - p) (drop p a); bm = take (length b - q - p) (drop p b)
      in am \<noteq> [] \<and> bm \<noteq> [] \<and> length (lcs_table am bm) > maxCells)"
proof -
  have "(n \<ge> c \<or> m \<ge> c \<or> n + 1 > c div (m + 1)) \<longleftrightarrow> (n + 1) * (m + 1) > c" for n m c :: nat
  proof
    assume "n \<ge> c \<or> m \<ge> c \<or> n + 1 > c div (m + 1)"
    moreover have "n + 1 > c div (m + 1) \<Longrightarrow> (n + 1) * (m + 1) > c"
      by (metis div_less_iff_less_mult zero_less_Suc Suc_eq_plus1)
    ultimately show "(n + 1) * (m + 1) > c" by auto
  next
    assume "(n + 1) * (m + 1) > c"
    then have "n + 1 > c div (m + 1)"
      by (metis div_less_iff_less_mult zero_less_Suc Suc_eq_plus1)
    then show "n \<ge> c \<or> m \<ge> c \<or> n + 1 > c div (m + 1)" by blast
  qed
  then show ?thesis
    unfolding boundedEdits_def Let_def length_lcs_table by (auto simp del: length_take)
qed

text \<open>
  \<open>Generate\<close> is total: it never indexes out of range, the only error it returns is
  \<open>ErrTooLarge\<close>, it returns that only for sides that differ, and it reports the sides as
  equal exactly when their texts (normalised, if that was asked for) are the same byte for
  byte.
\<close>

theorem Generate_total:
  "Generate req \<noteq> Inl IndexPanic \<and>
   (case Generate req of
      Inl _ \<Rightarrow> compared req (Old req) \<noteq> compared req (New req)
    | Inr r \<Rightarrow> Equal r = (compared req (Old req) = compared req (New req)))"
proof -
  let ?a = "splitLines (compared req (Old req))" and ?b = "splitLines (compared req (New req))"
  let ?o = "shown_name (OldName req)" and ?n = "shown_name (NewName req)"
  have format: "\<exists>d. formatUnified ?o ?n ?a ?b ops = Some d" if "boundedEdits ?a ?b = Inr ops" for ops
    using render_ops_records [of ops 0 ?a 0 ?b] boundedEdits_script [OF that]
    by (simp add: formatUnified_def split: prod.splits)
  have no_panic: "boundedEdits ?a ?b \<noteq> Inl IndexPanic"
    by (simp add: boundedEdits_def Let_def)
  show ?thesis
  proof (cases "boundedEdits ?a ?b")
    case (Inl e)
    with no_panic show ?thesis by (simp add: Generate_cases)
  next
    case (Inr ops)
    with format [OF Inr] show ?thesis by (auto simp: Generate_cases)
  qed
qed

text \<open>
  C9. Both texts can be read back from the diff of two sides that differ: dropping the
  three header lines, the lines with a space or a minus give the old text, those with a
  space or a plus the new one, and the no-newline marker says which last line was
  unterminated. (A newline inside a file name would break the header.)
\<close>

theorem Generate_reads_back:
  assumes "Generate req = Inr r" and "\<not> Equal r"
    and "newline \<notin> set (OldName req)" and "newline \<notin> set (NewName req)"
  shows "read_old (Diff r) = compared req (Old req) \<and> read_new (Diff r) = compared req (New req)"
proof -
  let ?a = "splitLines (compared req (Old req))" and ?b = "splitLines (compared req (New req))"
  let ?o = "shown_name (OldName req)" and ?n = "shown_name (NewName req)"
  obtain ops where ops: "boundedEdits ?a ?b = Inr ops" "formatUnified ?o ?n ?a ?b ops = Some (Diff r)"
    using assms(1,2) by (auto simp: Generate_cases split: if_splits sum.splits option.splits)
  have "newline \<notin> set ?o" "newline \<notin> set ?n"
    using assms(3,4) by (simp_all add: shown_name_def defaultName_def)
  then show ?thesis
    using formatUnified_reads_back [of ops ?a ?b ?o ?n] boundedEdits_script [OF ops(1)] ops(2)
    by (auto simp: joinLines_splitLines dest: splitLines_no_newline)
qed

definition sample_request :: DiffRequest where
  "sample_request = \<lparr>Old = ''a'' @ newline # ''b'', New = ''a'' @ newline # ''b'' @ [newline],
     OldName = [], NewName = [], Normalize = False\<rparr>"

theorem Generate_reads_back_witness:
  "\<exists>r. Generate sample_request = Inr r \<and> \<not> Equal r \<and>
     read_old (Diff r) = ''a'' @ newline # ''b'' \<and>
     read_new (Diff r) = ''a'' @ newline # ''b'' @ [newline]"
proof -
  have "case Generate sample_request of Inl _ \<Rightarrow> False | Inr r \<Rightarrow> \<not> Equal r"
    by (simp add: sample_request_def Generate_def linesEqual_def formatUnified_def engine_eval)
  then obtain r where r: "Generate sample_request = Inr r" "\<not> Equal r"
    by (cases "Generate sample_request") auto
  with Generate_reads_back [of sample_request r] show ?thesis
    by (simp add: sample_request_def compared_def)
qed

end
