(* ===== verification/Prose.thy ===== *)
theory Prose
  imports Prelude
begin

text \<open>
  The prose engine, \<open>src/go/internal/diff/prose/prose.go\<close>. A Go string is a list of bytes, which is
  what Isabelle's \<open>char\<close> is. The regular expressions are maximal runs of one class of
  ASCII bytes, so a match is described by the class. Indexing a slice out of range panics; the
  one loop whose indices the code does not guard returns \<open>None\<close> then.
\<close>

section \<open>Segments\<close>

datatype part_type = PEq | PDel | PIns

record ProsePart =
  p_type :: part_type
  p_text :: string

record ProseRequest =
  pr_old :: string
  pr_new :: string

abbreviation part :: "part_type \<Rightarrow> string \<Rightarrow> ProsePart" where
  "part ty t \<equiv> \<lparr>p_type = ty, p_text = t\<rparr>"

datatype level = levelParagraph | levelSentence | levelWord | levelChar

fun finer :: "level \<Rightarrow> level" where
  "finer levelParagraph = levelSentence"
| "finer levelSentence = levelWord"
| "finer levelWord = levelChar"
| "finer levelChar = levelChar"

fun rank :: "level \<Rightarrow> nat" where
  "rank levelParagraph = 0"
| "rank levelSentence = 1"
| "rank levelWord = 2"
| "rank levelChar = 3"

definition maxEditDistance :: nat where "maxEditDistance = 128"

section \<open>Splitting\<close>

definition reParagraph :: "char \<Rightarrow> bool" where
  "reParagraph c \<longleftrightarrow> c = CHR 0x0A"

definition reSentence :: "char \<Rightarrow> bool" where
  "reSentence c \<longleftrightarrow> c \<in> {CHR 0x0A, CHR '','', CHR ''!'', CHR '';'', CHR ''?'', CHR ''.''}"

definition reWord :: "char \<Rightarrow> bool" where
  "reWord c \<longleftrightarrow> c \<in> {CHR 0x09, CHR 0x0A, CHR 0x0C, CHR 0x0D, CHR '' ''}"

text \<open>\<open>Split(s, -1)\<close> and \<open>FindAllString(s, -1)\<close> for a class repeated at least once.\<close>

function re_Split :: "(char \<Rightarrow> bool) \<Rightarrow> string \<Rightarrow> string list" where
  "re_Split cls s =
     (let before = takeWhile (\<lambda>c. \<not> cls c) s; rest = dropWhile (\<lambda>c. \<not> cls c) s
      in if rest = [] then [before] else before # re_Split cls (dropWhile cls rest))"
  by pat_completeness auto

function re_FindAll :: "(char \<Rightarrow> bool) \<Rightarrow> string \<Rightarrow> string list" where
  "re_FindAll cls s =
     (let rest = dropWhile (\<lambda>c. \<not> cls c) s
      in if rest = [] then [] else takeWhile cls rest # re_FindAll cls (dropWhile cls rest))"
  by pat_completeness auto

lemma rest_shorter:
  assumes "dropWhile (\<lambda>c. \<not> cls c) s \<noteq> []"
  shows "length (dropWhile cls (dropWhile (\<lambda>c. \<not> cls c) s)) < length s"
proof -
  obtain c r where "dropWhile (\<lambda>c. \<not> cls c) s = c # r" using assms by (cases "dropWhile (\<lambda>c. \<not> cls c) s") auto
  moreover from this have "cls c" by (metis hd_dropWhile list.distinct(1) list.sel(1))
  ultimately show ?thesis
    using length_dropWhile_le [of cls r] length_dropWhile_le [of "\<lambda>c. \<not> cls c" s] by simp
qed

termination re_Split
  by (relation "measure (length \<circ> snd)") (auto simp del: dropWhile_eq_Nil_conv intro: rest_shorter)

termination re_FindAll
  by (relation "measure (length \<circ> snd)") (auto simp del: dropWhile_eq_Nil_conv intro: rest_shorter)

declare re_Split.simps [simp del] re_FindAll.simps [simp del]

definition is_trim :: "char \<Rightarrow> bool" where
  "is_trim c \<longleftrightarrow> c \<in> {CHR '' '', CHR 0x09, CHR 0x0A, CHR 0x0D}"

definition trimApart :: "string \<Rightarrow> string list" where
  "trimApart input =
     (if input = [] then []
      else
        let corpus = dropWhile is_trim input;
            trimmed = rev (dropWhile is_trim (rev corpus))
        in (if length corpus \<noteq> length input then [take (length input - length corpus) input] else []) @
           (if 0 < length trimmed then [trimmed] else []) @
           (if length trimmed \<noteq> length corpus then [drop (length trimmed) corpus] else []))"

fun stitch_loop :: "string list \<Rightarrow> string list \<Rightarrow> level \<Rightarrow> string list" where
  "stitch_loop [] delims l = []"
| "stitch_loop (p # parts) delims l =
     (let piece = p @ (case delims of [] \<Rightarrow> [] | d # _ \<Rightarrow> d)
      in (if rank l < rank levelWord then trimApart piece else [piece]) @ stitch_loop parts (tl delims) l)"

definition stitchPieces :: "string list \<Rightarrow> string list \<Rightarrow> level \<Rightarrow> string list" where
  "stitchPieces parts delims l =
     (let results = stitch_loop parts delims l
      in if results \<noteq> [] \<and> last results = [] then butlast results else results)"

text \<open>
  \<open>utf8.DecodeRuneInString\<close>: the size of the rune a byte string starts with, or \<open>None\<close> where
  the bytes are no encoding; the code then emits the replacement character for one byte.
\<close>

abbreviation byte :: "char \<Rightarrow> nat" where
  "byte c \<equiv> of_char c"

definition continuation :: "char \<Rightarrow> bool" where
  "continuation c \<longleftrightarrow> 0x80 \<le> byte c \<and> byte c \<le> 0xBF"

definition second_ok :: "nat \<Rightarrow> char \<Rightarrow> bool" where
  "second_ok b c \<longleftrightarrow>
     (let lo = (if b = 0xE0 then 0xA0 else if b = 0xF0 then 0x90 else 0x80);
          hi = (if b = 0xED then 0x9F else if b = 0xF4 then 0x8F else 0xBF)
      in lo \<le> byte c \<and> byte c \<le> (hi :: nat))"

definition rune_len :: "char \<Rightarrow> nat" where
  "rune_len c =
     (if byte c < 0x80 then 1
      else if 0xC2 \<le> byte c \<and> byte c \<le> 0xDF then 2
      else if 0xE0 \<le> byte c \<and> byte c \<le> 0xEF then 3
      else if 0xF0 \<le> byte c \<and> byte c \<le> 0xF4 then 4
      else 0)"

definition DecodeRune :: "string \<Rightarrow> nat option" where
  "DecodeRune s =
     (case s of
        [] \<Rightarrow> None
      | c # r \<Rightarrow>
          if rune_len c = 1 then Some 1
          else if rune_len c = 0 \<or> length r < rune_len c - 1 then None
          else if second_ok (byte c) (r ! 0) \<and> (\<forall>k < rune_len c - 2. continuation (r ! Suc k))
          then Some (rune_len c) else None)"

definition replacement :: string where
  "replacement = [CHR 0xEF, CHR 0xBF, CHR 0xBD]"

lemma DecodeRune_pos: "DecodeRune s = Some k \<Longrightarrow> 0 < k \<and> k \<le> length s"
  by (auto simp: DecodeRune_def rune_len_def Suc_le_eq split: list.splits if_splits)

function splitChars :: "string \<Rightarrow> string list" where
  "splitChars s =
     (if s = [] then []
      else (case DecodeRune s of
              None \<Rightarrow> replacement # splitChars (drop 1 s)
            | Some k \<Rightarrow> take k s # splitChars (drop k s)))"
  by pat_completeness auto

termination splitChars
proof (relation "measure length")
  show "(drop k s, s) \<in> measure length" if "s \<noteq> []" "DecodeRune s = Some k" for s k
    using that DecodeRune_pos [OF that(2)] by auto
qed auto

declare splitChars.simps [simp del]

fun splitCorpus :: "string \<Rightarrow> level \<Rightarrow> string list" where
  "splitCorpus corpus levelParagraph = stitchPieces (re_Split reParagraph corpus) (re_FindAll reParagraph corpus) levelParagraph"
| "splitCorpus corpus levelSentence = stitchPieces (re_Split reSentence corpus) (re_FindAll reSentence corpus) levelSentence"
| "splitCorpus corpus levelWord = stitchPieces (re_Split reWord corpus) (re_FindAll reWord corpus) levelWord"
| "splitCorpus corpus levelChar = splitChars corpus"

section \<open>Aligning by content\<close>

definition vIndex :: "string list \<Rightarrow> string \<Rightarrow> nat list" where
  "vIndex v p = filter (\<lambda>i. v ! i = p) [0..<length v]"

fun hash_match :: "string list \<Rightarrow> string list \<Rightarrow> bool list \<Rightarrow> nat \<Rightarrow> nat option list \<times> bool list" where
  "hash_match v [] used cursor = ([], used)"
| "hash_match v (up # us) used cursor =
     (case find (\<lambda>vi. cursor \<le> vi \<and> \<not> used ! vi) (vIndex v up) of
        None \<Rightarrow> (let (ms, used') = hash_match v us used cursor in (None # ms, used'))
      | Some vi \<Rightarrow> (let (ms, used') = hash_match v us (used[vi := True]) (vi + 1) in (Some vi # ms, used')))"

definition unmatched_between :: "string list \<Rightarrow> bool list \<Rightarrow> nat \<Rightarrow> nat \<Rightarrow> ProsePart list" where
  "unmatched_between v used lo hi = map (\<lambda>k. part PIns (v ! k)) (filter (\<lambda>k. \<not> used ! k) [lo..<hi])"

fun hash_emit :: "string list \<Rightarrow> bool list \<Rightarrow> string list \<Rightarrow> nat option list \<Rightarrow> nat \<Rightarrow> ProsePart list" where
  "hash_emit v used (up # us) (None # ms) vi = part PDel up # hash_emit v used us ms vi"
| "hash_emit v used (up # us) (Some mi # ms) vi =
     unmatched_between v used vi mi @ part PEq up # hash_emit v used us ms (mi + 1)"
| "hash_emit v used _ _ vi = unmatched_between v used vi (length v)"

definition hashDiff :: "string list \<Rightarrow> string list \<Rightarrow> ProsePart list" where
  "hashDiff u v =
     (let (ms, used) = hash_match v u (replicate (length v) False) 0
      in hash_emit v used u ms 0)"

section \<open>Aligning by edit distance\<close>

datatype pop = OpS | OpD | OpI | OpX

definition min3 :: "nat \<Rightarrow> nat \<Rightarrow> nat \<Rightarrow> nat" where
  "min3 a b c = (if a \<le> b \<and> a \<le> c then a else if b \<le> c then b else c)"

text \<open>One row of the matrix from the row above; \<open>left\<close> is the cell to the left.\<close>

fun dp_cells :: "string \<Rightarrow> string list \<Rightarrow> nat list \<Rightarrow> nat \<Rightarrow> nat list" where
  "dp_cells x (y # ys) (d # up # prev) left =
     (let c = (if x = y then d else min3 (d + 1) (up + 1) (left + 1))
      in c # dp_cells x ys (up # prev) c)"
| "dp_cells x _ _ left = []"

fun dp_rows :: "nat \<Rightarrow> string list \<Rightarrow> string list \<Rightarrow> nat list \<Rightarrow> nat list list" where
  "dp_rows i [] v prev = []"
| "dp_rows i (x # xs) v prev =
     (let row = i # dp_cells x v prev i in row # dp_rows (Suc i) xs v row)"

definition dp_table :: "string list \<Rightarrow> string list \<Rightarrow> nat list list" where
  "dp_table u v = [0..<length v + 1] # dp_rows 1 u v [0..<length v + 1]"

function backtrack :: "nat list list \<Rightarrow> string list \<Rightarrow> string list \<Rightarrow> nat \<Rightarrow> nat \<Rightarrow> pop list" where
  "backtrack dp u v i j =
     (if i = 0 \<and> j = 0 then []
      else if 0 < i \<and> 0 < j \<and> u ! (i - 1) = v ! (j - 1) then OpS # backtrack dp u v (i - 1) (j - 1)
      else if 0 < i \<and> 0 < j \<and> dp ! i ! j = dp ! (i - 1) ! (j - 1) + 1 then OpX # backtrack dp u v (i - 1) (j - 1)
      else if 0 < j \<and> (i = 0 \<or> dp ! i ! (j - 1) \<le> dp ! (i - 1) ! j) then OpI # backtrack dp u v i (j - 1)
      else OpD # backtrack dp u v (i - 1) j)"
  by pat_completeness auto

termination backtrack
  by (relation "measure (\<lambda>(dp, u, v, i, j). i + j)") auto

declare backtrack.simps [simp del]

text \<open>The loop of \<open>smooth\<close> looks at what it has already rewritten on its left.\<close>

fun smooth_loop :: "pop list \<Rightarrow> nat \<Rightarrow> nat \<Rightarrow> pop list" where
  "smooth_loop ops i 0 = ops"
| "smooth_loop ops i (Suc k) =
     (let prevChange = 0 < i \<and> ops ! (i - 1) \<noteq> OpS;
          nextChange = i < length ops - 1 \<and> ops ! (i + 1) \<noteq> OpS
      in smooth_loop (if ops ! i \<noteq> OpS then ops else if prevChange \<and> nextChange then ops[i := OpX] else ops) (i + 1) k)"

definition smooth :: "pop list \<Rightarrow> pop list" where
  "smooth ops = smooth_loop ops 0 (length ops)"

definition piece_at :: "string list \<Rightarrow> nat \<Rightarrow> string option" where
  "piece_at xs i = (if i < length xs then Some (xs ! i) else None)"

fun apply_ops :: "string list \<Rightarrow> string list \<Rightarrow> pop list \<Rightarrow> nat \<Rightarrow> nat \<Rightarrow> ProsePart list option" where
  "apply_ops u v [] ui vi = Some []"
| "apply_ops u v (OpS # ops) ui vi =
     (case piece_at u ui of
        None \<Rightarrow> None
      | Some p \<Rightarrow> map_option ((#) (part PEq p)) (apply_ops u v ops (ui + 1) (vi + 1)))"
| "apply_ops u v (OpD # ops) ui vi =
     (case piece_at u ui of
        None \<Rightarrow> None
      | Some p \<Rightarrow> map_option ((#) (part PDel p)) (apply_ops u v ops (ui + 1) vi))"
| "apply_ops u v (OpI # ops) ui vi =
     (case piece_at v vi of
        None \<Rightarrow> None
      | Some p \<Rightarrow> map_option ((#) (part PIns p)) (apply_ops u v ops ui (vi + 1)))"
| "apply_ops u v (OpX # ops) ui vi =
     (case (piece_at u ui, piece_at v vi) of
        (Some p, Some q) \<Rightarrow> map_option (\<lambda>ps. part PDel p # part PIns q # ps) (apply_ops u v ops (ui + 1) (vi + 1))
      | _ \<Rightarrow> None)"

definition edit_ops :: "string list \<Rightarrow> string list \<Rightarrow> pop list" where
  "edit_ops u v = rev (backtrack (dp_table u v) u v (length u) (length v))"

definition editDistanceDiff :: "string list \<Rightarrow> string list \<Rightarrow> level \<Rightarrow> (ProsePart list \<times> bool) option" where
  "editDistanceDiff u v l =
     (if maxEditDistance < length u \<or> maxEditDistance < length v
      then Some (map (part PDel) u @ map (part PIns) v, True)
      else
        let ops = edit_ops u v;
            ops = (if rank levelSentence < rank l then smooth ops else ops)
        in map_option (\<lambda>parts. (parts, False)) (apply_ops u v ops 0 0))"

section \<open>Normalising\<close>

definition layoutChars :: "char \<Rightarrow> bool" where
  "layoutChars c \<longleftrightarrow> c \<in> {CHR '' '', CHR 0x0A, CHR ''.'', CHR ''!'', CHR '','', CHR ''?'', CHR '']'', CHR ''['',
     CHR ''('', CHR '')'', CHR ''<'', CHR ''>''}"

definition mergeRunText :: "ProsePart list \<Rightarrow> string" where
  "mergeRunText ps = concat (map p_text ps)"

text \<open>The two scans: how many layout bytes both texts share at the front, within a bound.\<close>

fun shared :: "string \<Rightarrow> string \<Rightarrow> nat \<Rightarrow> nat" where
  "shared (x # xs) (y # ys) (Suc k) = (if x \<noteq> y \<or> \<not> layoutChars x then 0 else Suc (shared xs ys k))"
| "shared _ _ _ = 0"

definition combineRuns :: "ProsePart list \<Rightarrow> ProsePart list \<Rightarrow> ProsePart list" where
  "combineRuns oldRun newRun =
     (let oldText = mergeRunText oldRun; newText = mergeRunText newRun;
          oldLen = length oldText; newLen = length newText; minLen = min oldLen newLen;
          prefixLen = shared oldText newText minLen;
          suffixLen = shared (rev oldText) (rev newText) (minLen - prefixLen)
      in (if 0 < prefixLen then [part PEq (take prefixLen oldText)] else []) @
         (if prefixLen < oldLen then [part PDel (drop prefixLen (take (oldLen - suffixLen) oldText))] else []) @
         (if prefixLen < newLen then [part PIns (drop prefixLen (take (newLen - suffixLen) newText))] else []) @
         (if 0 < suffixLen then [part PEq (drop (oldLen - suffixLen) oldText)] else []))"

definition flush :: "ProsePart list \<Rightarrow> ProsePart list \<Rightarrow> ProsePart list" where
  "flush oldRun newRun = (if oldRun \<noteq> [] \<or> newRun \<noteq> [] then combineRuns oldRun newRun else [])"

fun reorder_loop :: "ProsePart list \<Rightarrow> ProsePart list \<Rightarrow> ProsePart list \<Rightarrow> ProsePart list" where
  "reorder_loop [] oldRun newRun = flush oldRun newRun"
| "reorder_loop (p # ps) oldRun newRun =
     (case p_type p of
        PDel \<Rightarrow> reorder_loop ps (oldRun @ [p]) newRun
      | PIns \<Rightarrow> reorder_loop ps oldRun (newRun @ [p])
      | PEq \<Rightarrow> flush oldRun newRun @ p # reorder_loop ps [] [])"

definition merge_step :: "ProsePart list \<Rightarrow> ProsePart \<Rightarrow> ProsePart list" where
  "merge_step combined p =
     (if combined \<noteq> [] \<and> p_type (last combined) = p_type p
      then butlast combined @ [(last combined)\<lparr>p_text := p_text (last combined) @ p_text p\<rparr>]
      else combined @ [p])"

definition reorderParts :: "ProsePart list \<Rightarrow> ProsePart list" where
  "reorderParts parts = foldl merge_step [] (reorder_loop parts [] [])"

section \<open>The recursion\<close>

datatype block = Unchanged string | Changed string string

text \<open>The pass that groups changes; the open block is an option.\<close>

definition close :: "(string \<times> string) option \<Rightarrow> block list" where
  "close cur = (case cur of None \<Rightarrow> [] | Some (oldText, newText) \<Rightarrow> [Changed oldText newText])"

fun group_blocks :: "ProsePart list \<Rightarrow> (string \<times> string) option \<Rightarrow> block list" where
  "group_blocks [] cur = close cur"
| "group_blocks (p # ps) cur =
     (let (oldText, newText) = (case cur of None \<Rightarrow> ([], []) | Some b \<Rightarrow> b) in
      case p_type p of
        PEq \<Rightarrow> close cur @ Unchanged (p_text p) # group_blocks ps None
      | PDel \<Rightarrow> group_blocks ps (Some (oldText @ p_text p, newText))
      | PIns \<Rightarrow> group_blocks ps (Some (oldText, newText @ p_text p)))"

fun render_block ::
  "bool \<Rightarrow> (string \<Rightarrow> string \<Rightarrow> ProsePart list option) \<Rightarrow> block \<Rightarrow> ProsePart list option" where
  "render_block tooLarge deeper (Unchanged t) = Some [part PEq t]"
| "render_block tooLarge deeper (Changed oldText newText) =
     (if oldText = [] \<and> newText = [] then Some []
      else if oldText = [] then Some [part PIns newText]
      else if newText = [] then Some [part PDel oldText]
      else if tooLarge then Some [part PDel oldText, part PIns newText]
      else deeper oldText newText)"

fun append_all :: "('a \<Rightarrow> 'b list option) \<Rightarrow> 'a list \<Rightarrow> 'b list option" where
  "append_all f [] = Some []"
| "append_all f (x # xs) =
     (case f x of None \<Rightarrow> None | Some y \<Rightarrow> map_option ((@) y) (append_all f xs))"

lemma append_all_cong [fundef_cong]:
  "xs = ys \<Longrightarrow> (\<And>x. x \<in> set ys \<Longrightarrow> f x = g x) \<Longrightarrow> append_all f xs = append_all g ys"
  by (induction ys arbitrary: xs) (auto split: option.splits)

definition align :: "string \<Rightarrow> string \<Rightarrow> level \<Rightarrow> (ProsePart list \<times> bool) option" where
  "align u v l =
     (if l = levelParagraph then Some (hashDiff (splitCorpus u l) (splitCorpus v l), False)
      else editDistanceDiff (splitCorpus u l) (splitCorpus v l) l)"

function buildProseDiff :: "level \<Rightarrow> string \<Rightarrow> string \<Rightarrow> ProsePart list option" where
  "buildProseDiff l u v =
     (case align u v l of
        None \<Rightarrow> None
      | Some (parts, tooLarge) \<Rightarrow>
          let diff = reorderParts parts in
          if l = levelChar then Some diff
          else map_option reorderParts
                 (append_all (render_block tooLarge (\<lambda>x y. buildProseDiff (finer l) x y)) (group_blocks diff None)))"
  by pat_completeness auto

termination buildProseDiff
proof (relation "measure (\<lambda>(l, u, v). 3 - rank l)")
  show "((finer l, x, y), l, u, v) \<in> measure (\<lambda>(l, u, v). 3 - rank l)" if "l \<noteq> levelChar" for l and u v x y :: string
    using that by (cases l) simp_all
qed auto

declare buildProseDiff.simps [simp del]

definition Prose_Generate :: "ProseRequest \<Rightarrow> ProsePart list option" where
  "Prose_Generate req = map_option reorderParts (buildProseDiff levelParagraph (pr_old req) (pr_new req))"

end
