(* ===== verification/Prose_Facts.thy ===== *)
theory Prose_Facts
  imports Prose
begin

text \<open>
  Facts about the prose engine: every split is lossless, every alignment and every pass keeps
  both texts, all texts stay well-formed UTF-8, and the properties built on them.
\<close>

section \<open>The two texts of a segment list\<close>

definition old_text :: "ProsePart list \<Rightarrow> string" where
  "old_text ps = concat (map p_text (filter (\<lambda>p. p_type p \<noteq> PIns) ps))"

definition new_text :: "ProsePart list \<Rightarrow> string" where
  "new_text ps = concat (map p_text (filter (\<lambda>p. p_type p \<noteq> PDel) ps))"

lemma text_simps [simp]:
  "old_text [] = []" "new_text [] = []"
  "old_text (p # ps) = (if p_type p = PIns then [] else p_text p) @ old_text ps"
  "new_text (p # ps) = (if p_type p = PDel then [] else p_text p) @ new_text ps"
  "old_text (ps @ qs) = old_text ps @ old_text qs" "new_text (ps @ qs) = new_text ps @ new_text qs"
  by (simp_all add: old_text_def new_text_def)

lemma text_maps [simp]:
  "old_text (map (part PDel) u) = concat u" "new_text (map (part PDel) u) = []"
  "old_text (map (part PIns) u) = []" "new_text (map (part PIns) u) = concat u"
  by (induction u) simp_all

section \<open>Splitting is lossless\<close>

text \<open>Pieces and delimiters alternate, and there is one piece more.\<close>

fun interleave :: "string list \<Rightarrow> string list \<Rightarrow> string" where
  "interleave [] ds = []"
| "interleave (p # ps) ds = p @ (case ds of [] \<Rightarrow> [] | d # _ \<Rightarrow> d) @ interleave ps (tl ds)"

lemma re_interleave: "interleave (re_Split cls s) (re_FindAll cls s) = s"
proof (induction cls s rule: re_Split.induct)
  case (1 cls s)
  show ?case
  proof (cases "dropWhile (\<lambda>c. \<not> cls c) s = []")
    case True
    then have "takeWhile (\<lambda>c. \<not> cls c) s = s" by simp
    with True show ?thesis by (subst re_Split.simps, subst re_FindAll.simps) simp
  next
    case False
    let ?r = "dropWhile (\<lambda>c. \<not> cls c) s"
    have split: "re_Split cls s = takeWhile (\<lambda>c. \<not> cls c) s # re_Split cls (dropWhile cls ?r)"
      "re_FindAll cls s = takeWhile cls ?r # re_FindAll cls (dropWhile cls ?r)"
      using False by (subst re_Split.simps re_FindAll.simps; simp only: Let_def if_False)+
    have "interleave (re_Split cls s) (re_FindAll cls s) =
        takeWhile (\<lambda>c. \<not> cls c) s @ takeWhile cls ?r @ dropWhile cls ?r"
      unfolding split using "1.IH" [OF refl refl False] by simp
    then show ?thesis by simp
  qed
qed

lemma trimApart_concat: "concat (trimApart s) = s"
proof -
  let ?corpus = "dropWhile is_trim s"
  let ?trimmed = "rev (dropWhile is_trim (rev ?corpus))"
  have lead: "take (length s - length ?corpus) s @ ?corpus = s"
    by (metis append_take_drop_id drop_all dropWhile_eq_drop length_drop takeWhile_dropWhile_id
        append_eq_conv_conj length_append add_diff_cancel_right')
  have "?corpus = ?trimmed @ rev (takeWhile is_trim (rev ?corpus))"
    by (metis rev_append rev_rev_ident takeWhile_dropWhile_id)
  then have trail: "?trimmed @ drop (length ?trimmed) ?corpus = ?corpus"
    by (metis append_eq_conv_conj)
  have "concat (trimApart s) =
      (if length ?corpus \<noteq> length s then take (length s - length ?corpus) s else []) @
      ?trimmed @ (if length ?trimmed \<noteq> length ?corpus then drop (length ?trimmed) ?corpus else [])"
    if "s \<noteq> []" using that by (simp add: trimApart_def Let_def)
  moreover have "length ?corpus \<noteq> length s \<or> take (length s - length ?corpus) s = []" by auto
  moreover have "length ?trimmed \<noteq> length ?corpus \<or> drop (length ?trimmed) ?corpus = []" by auto
  ultimately show ?thesis using lead trail by (cases "s = []") (auto simp: trimApart_def)
qed

lemma stitch_loop_concat: "concat (stitch_loop ps ds l) = interleave ps ds"
  by (induction ps ds l rule: stitch_loop.induct) (simp_all add: Let_def trimApart_concat split: list.splits)

lemma stitchPieces_concat: "concat (stitchPieces ps ds l) = interleave ps ds"
proof -
  have "concat (butlast xs) = concat xs" if "xs \<noteq> []" "last xs = []" for xs :: "string list"
    using append_butlast_last_id [OF that(1)] that(2)
    by (metis append_Nil2 concat.simps concat_append)
  then show ?thesis by (simp add: stitchPieces_def Let_def stitch_loop_concat)
qed

section \<open>Well-formed UTF-8\<close>

function utf8 :: "string \<Rightarrow> bool" where
  "utf8 s = (s = [] \<or> (case DecodeRune s of None \<Rightarrow> False | Some k \<Rightarrow> utf8 (drop k s)))"
  by pat_completeness auto

termination utf8
proof (relation "measure length")
  show "(drop k s, s) \<in> measure length" if "DecodeRune s = Some k" for s k
    using DecodeRune_pos [OF that] by auto
qed auto

declare utf8.simps [simp del]

lemma utf8_Nil [simp]: "utf8 []"
  by (simp add: utf8.simps)

lemma splitChars_concat: "utf8 s \<Longrightarrow> concat (splitChars s) = s"
proof (induction s rule: splitChars.induct)
  case (1 s)
  show ?case
  proof (cases "s = []")
    case False
    with "1.prems" obtain k where "DecodeRune s = Some k" "utf8 (drop k s)"
      by (subst (asm) utf8.simps) (auto split: option.splits)
    with "1.IH" False show ?thesis by (subst splitChars.simps) simp
  qed (simp add: splitChars.simps)
qed

lemma splitCorpus_concat: "utf8 s \<Longrightarrow> concat (splitCorpus s l) = s"
  by (cases l) (simp_all add: stitchPieces_concat re_interleave splitChars_concat)

text \<open>What follows a rune does not matter for reading it.\<close>

lemma DecodeRune_append: "DecodeRune s = Some k \<Longrightarrow> DecodeRune (s @ t) = Some k"
proof (cases s)
  case (Cons c r)
  assume run: "DecodeRune s = Some k"
  show ?thesis
  proof (cases "rune_len c = 1")
    case False
    with run Cons have "rune_len c \<noteq> 0" "rune_len c - 1 \<le> length r" "second_ok (byte c) (r ! 0)"
      "\<forall>m < rune_len c - 2. continuation (r ! Suc m)" "k = rune_len c"
      by (auto simp: DecodeRune_def split: if_splits)
    moreover from this False have "0 < length r" "\<forall>m < rune_len c - 2. Suc m < length r" by linarith+
    ultimately show ?thesis using Cons False by (simp add: DecodeRune_def nth_append)
  qed (use run Cons in \<open>simp add: DecodeRune_def\<close>)
qed (simp add: DecodeRune_def)

lemma utf8_append: "utf8 s \<Longrightarrow> utf8 t \<Longrightarrow> utf8 (s @ t)"
proof (induction s rule: utf8.induct)
  case (1 s)
  show ?case
  proof (cases "s = []")
    case False
    with "1.prems" obtain k where k: "DecodeRune s = Some k" "utf8 (drop k s)"
      by (subst (asm) utf8.simps) (auto split: option.splits)
    with "1.IH" [OF k(1)] "1.prems" have "utf8 (drop k s @ t)" by simp
    moreover have "drop k (s @ t) = drop k s @ t" using DecodeRune_pos [OF k(1)] by simp
    ultimately show ?thesis
      using DecodeRune_append [OF k(1), of t] by (subst utf8.simps) simp
  qed (use 1 in simp)
qed

lemma utf8_concat: "\<forall>x \<in> set xs. utf8 x \<Longrightarrow> utf8 (concat xs)"
  by (induction xs) (auto intro: utf8_append)

text \<open>Cutting before a byte that starts a rune leaves both halves well-formed.\<close>

lemma DecodeRune_start: "DecodeRune (a @ b) = Some k \<Longrightarrow> a \<noteq> [] \<Longrightarrow> b \<noteq> [] \<Longrightarrow> \<not> continuation (hd b) \<Longrightarrow>
  k \<le> length a \<and> DecodeRune a = Some k"
proof -
  assume run: "DecodeRune (a @ b) = Some k" and "a \<noteq> []" "b \<noteq> []" "\<not> continuation (hd b)"
  then obtain c r d b' where a: "a = c # r" and b: "b = d # b'" and d: "\<not> continuation d"
    by (cases a; cases b) auto
  have snd_cont: "second_ok n x \<Longrightarrow> continuation x" for n x
    by (auto simp: second_ok_def continuation_def Let_def split: if_splits)
  have bytes: "continuation ((r @ b) ! m)" if "m < k - 1" for m
    using run a that by (cases m) (auto simp: DecodeRune_def snd_cont split: if_splits)
  have "k \<le> length a"
  proof (rule ccontr)
    assume "\<not> k \<le> length a"
    then have "length r < k - 1" using a by simp
    then show False using bytes [of "length r"] b d by (simp add: nth_append)
  qed
  moreover from this have "DecodeRune a = Some k"
  proof (cases "rune_len c = 1")
    case False
    with run a have c: "rune_len c \<noteq> 0" "second_ok (byte c) ((r @ b) ! 0)"
      "\<forall>m < rune_len c - 2. continuation ((r @ b) ! Suc m)" "k = rune_len c"
      by (auto simp: DecodeRune_def split: if_splits)
    moreover from this False \<open>k \<le> length a\<close> a have "0 < length r" "\<forall>m < rune_len c - 2. Suc m < length r"
      "rune_len c - 1 \<le> length r" by auto
    ultimately show ?thesis using a False by (simp add: DecodeRune_def nth_append)
  qed (use run a in \<open>simp add: DecodeRune_def\<close>)
  ultimately show ?thesis by blast
qed

lemma utf8_cut:
  "utf8 (a @ b) \<Longrightarrow> b = [] \<or> \<not> continuation (hd b) \<Longrightarrow> utf8 a \<and> utf8 b"
proof (induction "length a" arbitrary: a rule: less_induct)
  case less
  show ?case
  proof (cases "a = [] \<or> b = []")
    case False
    with less.prems obtain k where k: "DecodeRune (a @ b) = Some k" "utf8 (drop k (a @ b))"
      by (subst (asm) (1) utf8.simps) (auto split: option.splits)
    from DecodeRune_start [OF k(1)] False less.prems(2) have a: "k \<le> length a" "DecodeRune a = Some k" by auto
    moreover have "utf8 (drop k a) \<and> utf8 b"
      using less.hyps [of "drop k a"] a k(2) DecodeRune_pos [OF a(2)] less.prems(2) by auto
    ultimately show ?thesis by (subst utf8.simps) simp
  qed (use less.prems in auto)
qed

lemma utf8_rest: "utf8 (a @ b) \<Longrightarrow> utf8 a \<Longrightarrow> utf8 b"
proof (induction a rule: utf8.induct)
  case (1 a)
  show ?case
  proof (cases "a = []")
    case False
    with "1.prems"(2) obtain k where k: "DecodeRune a = Some k" "utf8 (drop k a)"
      by (subst (asm) utf8.simps) (auto split: option.splits)
    have "utf8 (drop k a @ b)"
      using "1.prems"(1) False DecodeRune_append [OF k(1), of b] DecodeRune_pos [OF k(1)]
      by (subst (asm) utf8.simps) simp
    then show ?thesis using "1.IH" [OF k(1)] k(2) by blast
  qed (use 1 in simp)
qed

definition ascii :: "char \<Rightarrow> bool" where
  "ascii c \<longleftrightarrow> byte c < 0x80"

lemma ascii_start: "ascii c \<Longrightarrow> \<not> continuation c"
  by (simp add: ascii_def continuation_def)

lemma utf8_ascii: "\<forall>c \<in> set s. ascii c \<Longrightarrow> utf8 s"
proof (induction s)
  case (Cons c s)
  then have "DecodeRune (c # s) = Some 1" by (simp add: DecodeRune_def rune_len_def ascii_def)
  with Cons show ?case by (subst utf8.simps) simp
qed simp

section \<open>Pieces of well-formed text\<close>

lemma cls_ascii: "reParagraph c \<Longrightarrow> ascii c" "reSentence c \<Longrightarrow> ascii c" "reWord c \<Longrightarrow> ascii c" "is_trim c \<Longrightarrow> ascii c"
    "layoutChars c \<Longrightarrow> ascii c"
  by (auto simp: reParagraph_def reSentence_def reWord_def is_trim_def layoutChars_def ascii_def)

lemma utf8_takeWhile:
  assumes "utf8 s" "\<And>c. cls c \<Longrightarrow> ascii c"
  shows "utf8 (takeWhile (\<lambda>c. \<not> cls c) s) \<and> utf8 (dropWhile (\<lambda>c. \<not> cls c) s)"
proof (rule utf8_cut)
  show "utf8 (takeWhile (\<lambda>c. \<not> cls c) s @ dropWhile (\<lambda>c. \<not> cls c) s)" using assms(1) by simp
  show "dropWhile (\<lambda>c. \<not> cls c) s = [] \<or> \<not> continuation (hd (dropWhile (\<lambda>c. \<not> cls c) s))"
    using assms(2) ascii_start hd_dropWhile by metis
qed

lemma utf8_dropWhile:
  assumes "utf8 s" "\<And>c. cls c \<Longrightarrow> ascii c"
  shows "utf8 (takeWhile cls s)" "utf8 (dropWhile cls s)"
proof -
  show *: "utf8 (takeWhile cls s)" using assms(2) by (auto intro!: utf8_ascii dest: set_takeWhileD)
  show "utf8 (dropWhile cls s)" using utf8_rest [of "takeWhile cls s"] * assms(1) by simp
qed

lemma utf8_re:
  assumes "\<And>c. cls c \<Longrightarrow> ascii c"
  shows "utf8 s \<Longrightarrow> (\<forall>p \<in> set (re_Split cls s). utf8 p) \<and> (\<forall>p \<in> set (re_FindAll cls s). utf8 p)"
proof (induction "length s" arbitrary: s rule: less_induct)
  case less
  let ?r = "dropWhile (\<lambda>c. \<not> cls c) s"
  have cut: "utf8 (takeWhile (\<lambda>c. \<not> cls c) s)" "utf8 ?r" using utf8_takeWhile [OF less.prems assms] by auto
  show ?case
  proof (cases "?r = []")
    case True
    with cut(1) show ?thesis by (subst re_Split.simps, subst re_FindAll.simps) (simp only: Let_def if_True, simp)
  next
    case False
    have "utf8 (takeWhile cls ?r)" "utf8 (dropWhile cls ?r)" using utf8_dropWhile [OF cut(2) assms] by auto
    with less.hyps [OF rest_shorter [OF False]] cut(1) False show ?thesis
      by (subst re_Split.simps, subst re_FindAll.simps) (simp only: Let_def if_False, simp)
  qed
qed

lemma utf8_trimApart:
  assumes "utf8 s"
  shows "\<forall>p \<in> set (trimApart s). utf8 p"
proof -
  let ?corpus = "dropWhile is_trim s"
  let ?tail = "rev (takeWhile is_trim (rev ?corpus))"
  let ?trimmed = "rev (dropWhile is_trim (rev ?corpus))"
  have corpus: "utf8 ?corpus" "utf8 (takeWhile is_trim s)" using utf8_dropWhile [OF assms cls_ascii(4)] by auto
  have cut: "?corpus = ?trimmed @ ?tail"
    by (metis rev_append rev_rev_ident takeWhile_dropWhile_id)
  have "\<forall>c \<in> set ?tail. ascii c" using cls_ascii(4) by (auto dest: set_takeWhileD)
  then have "?tail = [] \<or> \<not> continuation (hd ?tail)" by (metis ascii_start hd_in_set)
  with cut corpus(1) have "utf8 ?trimmed" "utf8 ?tail" using utf8_cut [of ?trimmed ?tail] by metis+
  moreover have "drop (length ?trimmed) ?corpus = ?tail" using cut by (metis append_eq_conv_conj)
  moreover have "take (length s - length ?corpus) s = takeWhile is_trim s"
    by (metis add_diff_cancel_right' append_eq_conv_conj length_append takeWhile_dropWhile_id)
  ultimately show ?thesis using corpus by (auto simp: trimApart_def Let_def)
qed

lemma utf8_stitch:
  "\<forall>p \<in> set ps. utf8 p \<Longrightarrow> \<forall>d \<in> set ds. utf8 d \<Longrightarrow> \<forall>p \<in> set (stitch_loop ps ds l). utf8 p"
proof (induction ps ds l rule: stitch_loop.induct)
  case (2 p parts delims l)
  let ?piece = "p @ (case delims of [] \<Rightarrow> [] | d # _ \<Rightarrow> d)"
  have "utf8 ?piece"
    using "2.prems" by (auto intro!: utf8_append split: list.splits)
  from utf8_trimApart [OF this] this
  have "\<forall>q \<in> set (if rank l < rank levelWord then trimApart ?piece else [?piece]). utf8 q" by simp
  moreover have "\<forall>d \<in> set (tl delims). utf8 d" using "2.prems"(2) by (cases delims) auto
  ultimately show ?case
    unfolding stitch_loop.simps Let_def set_append ball_Un
    using "2.IH" [OF refl] "2.prems"(1) by (metis list.set_intros(2))
qed simp

lemma DecodeRune_take:
  assumes run: "DecodeRune s = Some k"
  shows "DecodeRune (take k s) = Some k"
proof (cases s)
  case (Cons c r)
  show ?thesis
  proof (cases "rune_len c = 1")
    case False
    with run Cons have c: "rune_len c \<noteq> 0" "rune_len c - 1 \<le> length r" "second_ok (byte c) (r ! 0)"
      "\<forall>m < rune_len c - 2. continuation (r ! Suc m)" "k = rune_len c"
      by (auto simp: DecodeRune_def split: if_splits)
    moreover from this False have "\<forall>m < rune_len c - 2. Suc m < rune_len c - 1" "0 < rune_len c - 1" by linarith+
    moreover have "take k s = c # take (rune_len c - 1) r" using Cons c by (cases "rune_len c") simp_all
    ultimately show ?thesis using False by (simp add: DecodeRune_def)
  next
    case True
    with run Cons have "k = 1" by (simp add: DecodeRune_def)
    with True Cons show ?thesis by (simp add: DecodeRune_def)
  qed
qed (use run in \<open>simp add: DecodeRune_def\<close>)

lemma utf8_replacement: "utf8 replacement"
  by code_simp

lemma utf8_splitChars: "\<forall>p \<in> set (splitChars s). utf8 p"
proof (induction s rule: splitChars.induct)
  case (1 s)
  show ?case
  proof (cases "s = []")
    case False
    show ?thesis
    proof (cases "DecodeRune s")
      case None
      with "1.IH"(1) False utf8_replacement show ?thesis by (subst splitChars.simps) auto
    next
      case (Some k)
      then have "utf8 (take k s)" using DecodeRune_take [OF Some] by (subst utf8.simps) simp
      with "1.IH"(2) False Some show ?thesis by (subst splitChars.simps) auto
    qed
  qed (simp add: splitChars.simps)
qed

lemma utf8_splitCorpus:
  assumes "utf8 s"
  shows "\<forall>p \<in> set (splitCorpus s l). utf8 p"
proof -
  have stitch: "\<forall>p \<in> set (stitchPieces (re_Split cls s) (re_FindAll cls s) l). utf8 p"
    if "\<And>c. cls c \<Longrightarrow> ascii c" for cls l
  proof -
    have "\<forall>p \<in> set (stitch_loop (re_Split cls s) (re_FindAll cls s) l). utf8 p"
      using utf8_re [OF that assms] by (intro utf8_stitch) auto
    then show ?thesis by (simp add: stitchPieces_def Let_def) (metis in_set_butlastD)
  qed
  show ?thesis
    by (cases l; hypsubst; unfold splitCorpus.simps)
       (rule stitch [OF cls_ascii(1)] stitch [OF cls_ascii(2)] stitch [OF cls_ascii(3)] utf8_splitChars; assumption)+
qed

section \<open>Alignments keep both texts\<close>

subsection \<open>By content\<close>

text \<open>What the matching loop leaves: increasing matches of equal pieces, all marked as used.\<close>

lemma vIndex_iff: "vi \<in> set (vIndex v p) \<longleftrightarrow> vi < length v \<and> v ! vi = p"
  by (auto simp: vIndex_def)

inductive aligned :: "string list \<Rightarrow> string list \<Rightarrow> nat option list \<Rightarrow> nat \<Rightarrow> bool" for v where
  "aligned v [] [] cursor"
| "aligned v us ms cursor \<Longrightarrow> aligned v (up # us) (None # ms) cursor"
| "cursor \<le> vi \<Longrightarrow> vi < length v \<Longrightarrow> v ! vi = up \<Longrightarrow> aligned v us ms (vi + 1) \<Longrightarrow> aligned v (up # us) (Some vi # ms) cursor"

lemma aligned_above: "aligned v us ms cursor \<Longrightarrow> Some k \<in> set ms \<Longrightarrow> cursor \<le> k \<and> k < length v"
  by (induction rule: aligned.induct) auto

lemma hash_match_aligned:
  "hash_match v us used cursor = (ms, used') \<Longrightarrow> length used = length v \<Longrightarrow>
   aligned v us ms cursor \<and> length used' = length v \<and> (\<forall>k < length v. used' ! k = (used ! k \<or> Some k \<in> set ms))"
proof (induction v us used cursor arbitrary: ms used' rule: hash_match.induct)
  case (1 v used cursor)
  then show ?case by (auto intro: aligned.intros)
next
  case (2 v up us used cursor)
  show ?case
  proof (cases "find (\<lambda>vi. cursor \<le> vi \<and> \<not> used ! vi) (vIndex v up)")
    case None
    with 2 show ?thesis by (auto split: prod.splits intro: aligned.intros)
  next
    case (Some vi)
    then have vi: "cursor \<le> vi" "vi < length v" "v ! vi = up"
      using vIndex_iff by (auto simp: find_Some_iff dest: nth_mem)
    obtain ms1 where ms: "ms = Some vi # ms1" and run: "hash_match v us (used[vi := True]) (vi + 1) = (ms1, used')"
      using "2.prems"(1) Some by (auto split: prod.splits)
    have "aligned v us ms1 (vi + 1)" "length used' = length v"
      "\<forall>k < length v. used' ! k = (used[vi := True] ! k \<or> Some k \<in> set ms1)"
      using "2.IH"(2) [OF Some run] "2.prems"(2) by auto
    with vi ms "2.prems"(2) show ?thesis
      by (auto simp: nth_list_update intro: aligned.intros)
  qed
qed

lemma unmatched_text: "old_text (unmatched_between v used lo hi) = []"
  "new_text (unmatched_between v used lo hi) = concat (map ((!) v) (filter (\<lambda>k. \<not> used ! k) [lo..<hi]))"
  by (simp_all add: unmatched_between_def old_text_def new_text_def filter_map o_def)

lemma gap_text:
  assumes "\<And>k. lo \<le> k \<Longrightarrow> k < hi \<Longrightarrow> \<not> used ! k" "hi \<le> length v"
  shows "new_text (unmatched_between v used lo hi) = concat (take (hi - lo) (drop lo v))"
proof -
  have "filter (\<lambda>k. \<not> used ! k) [lo..<hi] = [lo..<hi]" using assms(1) by (auto simp: filter_id_conv)
  moreover have "map ((!) v) [lo..<hi] = take (hi - lo) (drop lo v)"
    using assms(2) by (intro nth_equalityI) auto
  ultimately show ?thesis by (simp add: unmatched_text)
qed

lemma hash_emit_text:
  "aligned v us ms vi \<Longrightarrow> \<forall>k < length v. vi \<le> k \<longrightarrow> used ! k = (Some k \<in> set ms) \<Longrightarrow> vi \<le> length v \<Longrightarrow>
   old_text (hash_emit v used us ms vi) = concat us \<and> new_text (hash_emit v used us ms vi) = concat (drop vi v)"
proof (induction rule: aligned.induct)
  case (1 cursor)
  then show ?case using gap_text [of cursor "length v" used v] by (simp add: unmatched_text)
next
  case (2 us ms cursor up)
  then show ?case by simp
next
  case (3 cursor vi up us ms)
  have used: "\<forall>k < length v. vi + 1 \<le> k \<longrightarrow> used ! k = (Some k \<in> set ms)" using 3 by auto
  have "\<not> used ! k" if "cursor \<le> k" "k < vi" for k
    using 3 that aligned_above [OF "3.hyps"(4), of k] by auto
  then have "new_text (unmatched_between v used cursor vi) = concat (take (vi - cursor) (drop cursor v))"
    using "3.hyps"(2) by (intro gap_text) auto
  moreover have "drop cursor v = take (vi - cursor) (drop cursor v) @ v ! vi # drop (vi + 1) v"
    using "3.hyps"(1,2) by (metis append_take_drop_id Cons_nth_drop_Suc Suc_eq_plus1 drop_drop le_add_diff_inverse2)
  ultimately show ?case
    using "3.IH" used "3.hyps"(2,3) by (simp add: unmatched_text) (metis concat.simps(2) concat_append)
qed

lemma hashDiff_text: "old_text (hashDiff u v) = concat u \<and> new_text (hashDiff u v) = concat v"
proof -
  obtain ms used where run: "hash_match v u (replicate (length v) False) 0 = (ms, used)"
    by (cases "hash_match v u (replicate (length v) False) 0")
  with hash_match_aligned [OF run] hash_emit_text [of v u ms 0 used] show ?thesis
    by (simp add: hashDiff_def)
qed

subsection \<open>By edit distance\<close>

text \<open>\<open>script ops a b\<close>: the operations turn the pieces \<open>a\<close> into the pieces \<open>b\<close>.\<close>

fun script :: "pop list \<Rightarrow> string list \<Rightarrow> string list \<Rightarrow> bool" where
  "script [] a b = (a = [] \<and> b = [])"
| "script (OpS # ops) a b = (case (a, b) of (x # a', y # b') \<Rightarrow> x = y \<and> script ops a' b' | _ \<Rightarrow> False)"
| "script (OpX # ops) a b = (case (a, b) of (x # a', y # b') \<Rightarrow> script ops a' b' | _ \<Rightarrow> False)"
| "script (OpD # ops) a b = (case a of [] \<Rightarrow> False | x # a' \<Rightarrow> script ops a' b)"
| "script (OpI # ops) a b = (case b of [] \<Rightarrow> False | y # b' \<Rightarrow> script ops a b')"

definition cost :: "pop list \<Rightarrow> nat" where
  "cost ops = length (filter (\<lambda>x. x \<noteq> OpS) ops)"

lemma script_append: "script xs a b \<Longrightarrow> script ys c d \<Longrightarrow> script (xs @ ys) (a @ c) (b @ d)"
  by (induction xs a b rule: script.induct) (auto split: list.splits)

lemma backtrack_script:
  "i \<le> length u \<Longrightarrow> j \<le> length v \<Longrightarrow> script (rev (backtrack dp u v i j)) (take i u) (take j v)"
proof (induction dp u v i j rule: backtrack.induct)
  case (1 dp u v i j)
  have snoc: "take k xs = take (k - 1) xs @ [xs ! (k - 1)]" if "0 < k" "k \<le> length xs" for k and xs :: "string list"
    using that by (metis Suc_diff_1 Suc_le_lessD take_Suc_conv_app_nth)
  have tu: "0 < i \<Longrightarrow> take i u = take (i - 1) u @ [u ! (i - 1)]" and tv: "0 < j \<Longrightarrow> take j v = take (j - 1) v @ [v ! (j - 1)]"
    using snoc [of i u] snoc [of j v] 1(5,6) by blast+
  show ?case
  proof (cases "i = 0 \<and> j = 0")
    case False
    consider (s) "0 < i \<and> 0 < j \<and> u ! (i - 1) = v ! (j - 1)"
      | (x) "\<not> (0 < i \<and> 0 < j \<and> u ! (i - 1) = v ! (j - 1))" "0 < i \<and> 0 < j \<and> dp ! i ! j = dp ! (i - 1) ! (j - 1) + 1"
      | (ins) "\<not> (0 < i \<and> 0 < j \<and> u ! (i - 1) = v ! (j - 1))" "\<not> (0 < i \<and> 0 < j \<and> dp ! i ! j = dp ! (i - 1) ! (j - 1) + 1)"
          "0 < j \<and> (i = 0 \<or> dp ! i ! (j - 1) \<le> dp ! (i - 1) ! j)"
      | (del) "\<not> (0 < i \<and> 0 < j \<and> u ! (i - 1) = v ! (j - 1))" "\<not> (0 < i \<and> 0 < j \<and> dp ! i ! j = dp ! (i - 1) ! (j - 1) + 1)"
          "\<not> (0 < j \<and> (i = 0 \<or> dp ! i ! (j - 1) \<le> dp ! (i - 1) ! j))" "0 < i"
    proof -
      have "0 < i \<or> 0 < j \<and> i = 0" using False by auto
      then show thesis using s x ins del by blast
    qed
    then show ?thesis
    proof cases
      case s
      with False 1 have "script (rev (backtrack dp u v (i - 1) (j - 1)) @ [OpS]) (take (i - 1) u @ [u ! (i - 1)]) (take (j - 1) v @ [v ! (j - 1)])"
        by (intro script_append) auto
      with s tu tv show ?thesis by (subst backtrack.simps) simp
    next
      case x
      with False 1 have "script (rev (backtrack dp u v (i - 1) (j - 1)) @ [OpX]) (take (i - 1) u @ [u ! (i - 1)]) (take (j - 1) v @ [v ! (j - 1)])"
        by (intro script_append) auto
      with x False tu tv show ?thesis by (subst backtrack.simps) simp
    next
      case ins
      with False 1 have "script (rev (backtrack dp u v i (j - 1)) @ [OpI]) (take i u @ []) (take (j - 1) v @ [v ! (j - 1)])"
        by (intro script_append) auto
      with ins False tu tv show ?thesis by (subst backtrack.simps) auto
    next
      case del
      with False 1 have "script (rev (backtrack dp u v (i - 1) j) @ [OpD]) (take (i - 1) u @ [u ! (i - 1)]) (take j v @ [])"
        by (intro script_append) auto
      with del False tu tv show ?thesis by (subst backtrack.simps) auto
    qed
  qed (simp add: backtrack.simps)
qed

lemma edit_ops_script: "script (edit_ops u v) u v"
  using backtrack_script [of "length u" u "length v" v "dp_table u v"] by (simp add: edit_ops_def)

text \<open>Rewriting a kept piece as a replacement leaves a script.\<close>

inductive relaxes :: "pop list \<Rightarrow> pop list \<Rightarrow> bool" where
  "relaxes [] []"
| "relaxes xs ys \<Longrightarrow> relaxes (x # xs) (x # ys)"
| "relaxes xs ys \<Longrightarrow> relaxes (OpS # xs) (OpX # ys)"

lemma relaxes_refl: "relaxes xs xs"
  by (induction xs) (auto intro: relaxes.intros)

lemma relaxes_trans: "relaxes xs ys \<Longrightarrow> relaxes ys zs \<Longrightarrow> relaxes xs zs"
proof (induction arbitrary: zs rule: relaxes.induct)
  case (2 xs ys x)
  from "2.prems" show ?case by cases (auto intro: relaxes.intros "2.IH")
next
  case (3 xs ys)
  from "3.prems" show ?case by cases (auto intro: relaxes.intros "3.IH")
qed

lemma relaxes_update: "i < length xs \<Longrightarrow> xs ! i = OpS \<Longrightarrow> relaxes xs (xs[i := OpX])"
proof (induction xs arbitrary: i)
  case (Cons x xs)
  then show ?case by (cases i) (auto intro: relaxes.intros relaxes_refl)
qed simp

lemma smooth_loop_relaxes: "i + k \<le> length ops \<Longrightarrow> relaxes ops (smooth_loop ops i k)"
proof (induction k arbitrary: ops i)
  case 0
  show ?case by (simp add: relaxes_refl)
next
  case (Suc k)
  define ops' where "ops' = (if ops ! i \<noteq> OpS then ops
    else if (0 < i \<and> ops ! (i - 1) \<noteq> OpS) \<and> (i < length ops - 1 \<and> ops ! (i + 1) \<noteq> OpS) then ops[i := OpX] else ops)"
  have "relaxes ops ops'" using Suc.prems unfolding ops'_def by (auto intro: relaxes_update relaxes_refl)
  moreover have "relaxes ops' (smooth_loop ops' (i + 1) k)" using Suc.prems by (intro Suc.IH) (simp add: ops'_def)
  moreover have "smooth_loop ops i (Suc k) = smooth_loop ops' (i + 1) k" unfolding smooth_loop.simps Let_def ops'_def ..
  ultimately show ?case using relaxes_trans by metis
qed

lemma relaxes_script: "relaxes xs ys \<Longrightarrow> script xs a b \<Longrightarrow> script ys a b"
proof (induction arbitrary: a b rule: relaxes.induct)
  case (2 xs ys x)
  then show ?case by (cases x) (auto split: list.splits)
next
  case (3 xs ys)
  then show ?case by (auto split: list.splits)
qed

lemma smooth_script: "script ops a b \<Longrightarrow> script (smooth ops) a b"
  unfolding smooth_def by (rule relaxes_script [OF smooth_loop_relaxes]) simp

text \<open>A script never reads past either list.\<close>

lemma piece_at_drop: "drop i xs = x # r \<Longrightarrow> piece_at xs i = Some x \<and> drop (Suc i) xs = r \<and> x \<in> set xs"
  by (metis Cons_nth_drop_Suc drop_eq_Nil in_set_dropD leI list.distinct(1) list.inject list.set_intros(1) piece_at_def)

lemma apply_ops_script:
  "script ops (drop ui u) (drop vi v) \<Longrightarrow>
   \<exists>ps. apply_ops u v ops ui vi = Some ps \<and> old_text ps = concat (drop ui u) \<and> new_text ps = concat (drop vi v) \<and>
     p_text ` set ps \<subseteq> set u \<union> set v"
proof (induction u v ops ui vi rule: apply_ops.induct)
  case (2 u v ops ui vi)
  then obtain x a' b' where d: "drop ui u = x # a'" "drop vi v = x # b'" "script ops a' b'" by (auto split: list.splits)
  with "2.IH" [of x] show ?case by (auto simp: piece_at_drop [OF d(1)] piece_at_drop [OF d(2)])
next
  case (3 u v ops ui vi)
  then obtain x a' where d: "drop ui u = x # a'" "script ops a' (drop vi v)" by (auto split: list.splits)
  with "3.IH" [of x] show ?case by (auto simp: piece_at_drop [OF d(1)])
next
  case (4 u v ops ui vi)
  then obtain y b' where d: "drop vi v = y # b'" "script ops (drop ui u) b'" by (auto split: list.splits)
  with "4.IH" [of y] show ?case by (auto simp: piece_at_drop [OF d(1)])
next
  case (5 u v ops ui vi)
  then obtain x a' y b' where d: "drop ui u = x # a'" "drop vi v = y # b'" "script ops a' b'" by (auto split: list.splits)
  then have "\<exists>ps. apply_ops u v ops (Suc ui) (Suc vi) = Some ps \<and> old_text ps = concat a' \<and> new_text ps = concat b' \<and>
      p_text ` set ps \<subseteq> set u \<union> set v"
    using "5.IH" by (simp add: piece_at_drop [OF d(1)] piece_at_drop [OF d(2)])
  with d show ?case
    by (auto simp: piece_at_drop [OF d(1)] piece_at_drop [OF d(2)])
qed simp

definition texts_utf8 :: "ProsePart list \<Rightarrow> bool" where
  "texts_utf8 ps \<longleftrightarrow> (\<forall>p \<in> set ps. utf8 (p_text p))"

lemma texts_utf8_simps [simp]:
  "texts_utf8 []" "texts_utf8 (p # ps) \<longleftrightarrow> utf8 (p_text p) \<and> texts_utf8 ps"
  "texts_utf8 (ps @ qs) \<longleftrightarrow> texts_utf8 ps \<and> texts_utf8 qs"
  by (auto simp: texts_utf8_def)

lemma editDistanceDiff_text:
  "\<exists>ps tl. editDistanceDiff u v l = Some (ps, tl) \<and> old_text ps = concat u \<and> new_text ps = concat v \<and>
     p_text ` set ps \<subseteq> set u \<union> set v"
proof (cases "maxEditDistance < length u \<or> maxEditDistance < length v")
  case True
  then show ?thesis by (auto simp: editDistanceDiff_def)
next
  case False
  let ?ops = "if rank levelSentence < rank l then smooth (edit_ops u v) else edit_ops u v"
  have "script ?ops u v"
    using smooth_script edit_ops_script by simp
  then obtain ps where "apply_ops u v ?ops 0 0 = Some ps" "old_text ps = concat u" "new_text ps = concat v"
    "p_text ` set ps \<subseteq> set u \<union> set v"
    using apply_ops_script [of ?ops 0 u 0 v] by auto
  with False show ?thesis
    unfolding editDistanceDiff_def Let_def by auto
qed

lemma hash_emit_pieces: "aligned v us ms vi \<Longrightarrow> p_text ` set (hash_emit v used us ms vi) \<subseteq> set us \<union> set v"
proof (induction rule: aligned.induct)
  case (3 cursor vi up us ms)
  then show ?case by (auto simp: unmatched_between_def)
qed (auto simp: unmatched_between_def)

lemma hashDiff_pieces: "p_text ` set (hashDiff u v) \<subseteq> set u \<union> set v"
proof -
  obtain ms used where run: "hash_match v u (replicate (length v) False) 0 = (ms, used)"
    by (cases "hash_match v u (replicate (length v) False) 0")
  with hash_match_aligned [OF run] hash_emit_pieces [of v u ms 0 used] show ?thesis
    by (simp add: hashDiff_def)
qed

lemma align_text:
  assumes "utf8 u" "utf8 v"
  shows "\<exists>ps tl. align u v l = Some (ps, tl) \<and> old_text ps = u \<and> new_text ps = v \<and> texts_utf8 ps"
proof -
  have pieces: "\<forall>p \<in> set (splitCorpus u l) \<union> set (splitCorpus v l). utf8 p"
    using utf8_splitCorpus assms by blast
  have utf8: "texts_utf8 ps" if "p_text ` set ps \<subseteq> set (splitCorpus u l) \<union> set (splitCorpus v l)" for ps
    using that pieces by (auto simp: texts_utf8_def)
  show ?thesis
  proof (cases "l = levelParagraph")
    case True
    with utf8 [OF hashDiff_pieces] hashDiff_text show ?thesis
      by (auto simp: align_def splitCorpus_concat assms simp del: splitCorpus.simps)
  next
    case False
    with editDistanceDiff_text [of "splitCorpus u l" "splitCorpus v l" l] utf8 show ?thesis
      by (auto simp: align_def splitCorpus_concat assms simp del: splitCorpus.simps)
  qed
qed

section \<open>Normalising keeps both texts\<close>

lemma shared_bounds: "shared x y k \<le> k \<and> shared x y k \<le> length x \<and> shared x y k \<le> length y"
  by (induction x y k rule: shared.induct) auto

lemma shared_take: "take (shared x y k) x = take (shared x y k) y"
  by (induction x y k rule: shared.induct) auto

lemma shared_layout: "\<forall>c \<in> set (take (shared x y k) x). layoutChars c"
  by (induction x y k rule: shared.induct) auto

lemma drop_as_rev: "drop (length x - n) x = rev (take n (rev x))"
  by (simp add: rev_take)

lemma shared_max:
  "shared x y k < k \<Longrightarrow> shared x y k < length x \<Longrightarrow> shared x y k < length y \<Longrightarrow>
   \<not> (x ! shared x y k = y ! shared x y k \<and> layoutChars (x ! shared x y k))"
  by (induction x y k rule: shared.induct) auto

lemma three_parts:
  assumes "p + s \<le> length x"
  shows "x = take p x @ drop p (take (length x - s) x) @ drop (length x - s) x"
proof -
  let ?y = "take (length x - s) x"
  have "take p ?y = take p x" using assms by simp
  then have "take p x @ drop p ?y = ?y" by (metis append_take_drop_id)
  then show ?thesis by (metis append_assoc append_take_drop_id)
qed

text \<open>The parts a merged run is cut into: shared front, two middles, shared back.\<close>

lemma combineRuns_shape:
  fixes oldRun newRun :: "ProsePart list"
  defines "x \<equiv> mergeRunText oldRun" and "y \<equiv> mergeRunText newRun"
  obtains f b x' y' where "x = f @ x' @ b" "y = f @ y' @ b" "\<forall>c \<in> set f \<union> set b. layoutChars c"
    "combineRuns oldRun newRun =
      (if f \<noteq> [] then [part PEq f] else []) @ (if f \<noteq> x then [part PDel x'] else []) @
      (if f \<noteq> y then [part PIns y'] else []) @ (if b \<noteq> [] then [part PEq b] else [])"
    "\<not> (x' \<noteq> [] \<and> y' \<noteq> [] \<and> hd x' = hd y' \<and> layoutChars (hd x'))"
    "\<not> (x' \<noteq> [] \<and> y' \<noteq> [] \<and> last x' = last y' \<and> layoutChars (last x'))"
proof -
  define m p s where "m = min (length x) (length y)" and "p = shared x y m"
    and "s = shared (rev x) (rev y) (m - p)"
  note defs = m_def p_def s_def
  have p: "p \<le> m" "p \<le> length x" "p \<le> length y" using shared_bounds [of x y m] by (simp_all add: p_def)
  have s: "s \<le> m - p" using shared_bounds by (simp add: s_def)
  have ps: "p + s \<le> length x" "p + s \<le> length y" using p s by (auto simp: m_def)
  define f b x' y' where "f = take p x" and "b = drop (length x - s) x"
    and "x' = drop p (take (length x - s) x)" and "y' = drop p (take (length y - s) y)"
  have fy: "f = take p y" unfolding f_def p_def by (rule shared_take)
  have b_y: "b = drop (length y - s) y"
    unfolding b_def drop_as_rev s_def rev_is_rev_conv by (rule shared_take)
  have x: "x = f @ x' @ b" unfolding f_def x'_def b_def by (rule three_parts [OF ps(1)])
  have y: "y = f @ y' @ b" unfolding fy y'_def b_y by (rule three_parts [OF ps(2)])
  have lay: "\<forall>c \<in> set f \<union> set b. layoutChars c"
    using shared_layout [of x y m] shared_layout [of "rev x" "rev y" "m - p"]
    unfolding f_def b_def drop_as_rev p_def s_def by auto
  have comb: "combineRuns oldRun newRun =
      (if f \<noteq> [] then [part PEq f] else []) @ (if f \<noteq> x then [part PDel x'] else []) @
      (if f \<noteq> y then [part PIns y'] else []) @ (if b \<noteq> [] then [part PEq b] else [])"
  proof -
    have "0 < p \<longleftrightarrow> f \<noteq> []" "p < length x \<longleftrightarrow> f \<noteq> x" using p by (auto simp: f_def)
    moreover have "p < length y \<longleftrightarrow> f \<noteq> y" using p by (auto simp: fy)
    moreover have "0 < s \<longleftrightarrow> b \<noteq> []" using ps by (auto simp: b_def)
    ultimately show ?thesis
      unfolding combineRuns_def Let_def x_def [symmetric] y_def [symmetric] m_def [symmetric] p_def [symmetric] s_def [symmetric]
      by (simp add: f_def b_def x'_def y'_def)
  qed
  have front: "\<not> (x' \<noteq> [] \<and> y' \<noteq> [] \<and> hd x' = hd y' \<and> layoutChars (hd x'))"
  proof
    assume a: "x' \<noteq> [] \<and> y' \<noteq> [] \<and> hd x' = hd y' \<and> layoutChars (hd x')"
    then have "p < length x - s" "p < length y - s" by (auto simp: x'_def y'_def)
    then have "hd x' = x ! p" "hd y' = y ! p" by (simp_all add: x'_def y'_def hd_drop_conv_nth)
    moreover have "p < m" "p < length x" "p < length y"
      using \<open>p < length x - s\<close> \<open>p < length y - s\<close> by (auto simp: m_def)
    ultimately show False using a shared_max [of x y m] by (auto simp: p_def)
  qed
  have rear: "\<not> (x' \<noteq> [] \<and> y' \<noteq> [] \<and> last x' = last y' \<and> layoutChars (last x'))"
  proof
    assume a: "x' \<noteq> [] \<and> y' \<noteq> [] \<and> last x' = last y' \<and> layoutChars (last x')"
    then have l: "p < length x - s" "p < length y - s" by (auto simp: x'_def y'_def)
    then have "last x' = rev x ! s" "last y' = rev y ! s"
      using a by (auto simp: x'_def y'_def last_conv_nth rev_nth)
    moreover have "s < m - p" using l by (simp add: m_def)
    ultimately show False
      using a shared_max [of "rev x" "rev y" "m - p"] l by (auto simp: s_def)
  qed
  show thesis by (rule that [OF x y lay comb front rear])
qed

lemma mergeRunText_simps [simp]:
  "mergeRunText [] = []" "mergeRunText (ps @ qs) = mergeRunText ps @ mergeRunText qs"
  "mergeRunText (p # ps) = p_text p @ mergeRunText ps"
  by (simp_all add: mergeRunText_def)

lemma combineRuns_text:
  "old_text (combineRuns os ns) = mergeRunText os \<and> new_text (combineRuns os ns) = mergeRunText ns"
  by (rule combineRuns_shape [of os ns]) auto

lemma combineRuns_utf8:
  assumes "utf8 (mergeRunText os)" "utf8 (mergeRunText ns)"
  shows "texts_utf8 (combineRuns os ns)"
proof (rule combineRuns_shape [of os ns])
  fix f b x' y'
  assume x: "mergeRunText os = f @ x' @ b" and y: "mergeRunText ns = f @ y' @ b"
    and lay: "\<forall>c \<in> set f \<union> set b. layoutChars c"
    and c: "combineRuns os ns =
      (if f \<noteq> [] then [part PEq f] else []) @ (if f \<noteq> mergeRunText os then [part PDel x'] else []) @
      (if f \<noteq> mergeRunText ns then [part PIns y'] else []) @ (if b \<noteq> [] then [part PEq b] else [])"
  have fb: "utf8 f" "utf8 b" "b = [] \<or> \<not> continuation (hd b)"
    using lay cls_ascii(5) ascii_start by (auto intro!: utf8_ascii)
  have "utf8 (x' @ b)" "utf8 (y' @ b)" using utf8_rest fb(1) assms x y by metis+
  then have "utf8 x'" "utf8 y'" using utf8_cut fb(3) by blast+
  with fb show ?thesis unfolding c by simp
qed

lemma reorder_loop_text:
  "old_text (reorder_loop ps os ns) = mergeRunText os @ old_text ps \<and>
   new_text (reorder_loop ps os ns) = mergeRunText ns @ new_text ps"
  by (induction ps os ns rule: reorder_loop.induct) (auto simp: flush_def combineRuns_text split: part_type.splits)

lemma reorder_loop_utf8:
  "texts_utf8 ps \<Longrightarrow> utf8 (mergeRunText os) \<Longrightarrow> utf8 (mergeRunText ns) \<Longrightarrow> texts_utf8 (reorder_loop ps os ns)"
  by (induction ps os ns rule: reorder_loop.induct)
     (auto simp: flush_def intro: combineRuns_utf8 utf8_append split: part_type.splits)

lemma merge_step_text:
  "old_text (merge_step qs p) = old_text (qs @ [p]) \<and> new_text (merge_step qs p) = new_text (qs @ [p])"
  by (cases qs rule: rev_cases) (auto simp: merge_step_def)

lemma merge_text:
  "old_text (foldl merge_step qs ps) = old_text (qs @ ps) \<and> new_text (foldl merge_step qs ps) = new_text (qs @ ps)"
  by (induction ps arbitrary: qs) (auto simp: merge_step_text)

lemma merge_step_utf8: "texts_utf8 qs \<Longrightarrow> utf8 (p_text p) \<Longrightarrow> texts_utf8 (merge_step qs p)"
  by (cases qs rule: rev_cases) (auto simp: merge_step_def intro: utf8_append)

lemma merge_utf8: "texts_utf8 qs \<Longrightarrow> texts_utf8 ps \<Longrightarrow> texts_utf8 (foldl merge_step qs ps)"
  by (induction ps arbitrary: qs) (auto simp: merge_step_utf8)

lemma reorderParts_text: "old_text (reorderParts ps) = old_text ps" "new_text (reorderParts ps) = new_text ps"
  using merge_text [of "[]"] reorder_loop_text by (simp_all add: reorderParts_def)

lemma reorderParts_utf8: "texts_utf8 ps \<Longrightarrow> texts_utf8 (reorderParts ps)"
  by (simp add: reorderParts_def merge_utf8 reorder_loop_utf8)

section \<open>The recursion keeps both texts\<close>

fun block_old :: "block \<Rightarrow> string" where
  "block_old (Unchanged t) = t"
| "block_old (Changed a b) = a"

fun block_new :: "block \<Rightarrow> string" where
  "block_new (Unchanged t) = t"
| "block_new (Changed a b) = b"

lemma group_blocks_text:
  "concat (map block_old (group_blocks ps cur)) = (case cur of None \<Rightarrow> [] | Some (a, b) \<Rightarrow> a) @ old_text ps \<and>
   concat (map block_new (group_blocks ps cur)) = (case cur of None \<Rightarrow> [] | Some (a, b) \<Rightarrow> b) @ new_text ps"
  by (induction ps cur rule: group_blocks.induct)
     (auto simp: close_def split: option.splits part_type.splits)

lemma group_blocks_utf8:
  "texts_utf8 ps \<Longrightarrow> (case cur of None \<Rightarrow> True | Some (a, b) \<Rightarrow> utf8 a \<and> utf8 b) \<Longrightarrow>
   \<forall>b \<in> set (group_blocks ps cur). utf8 (block_old b) \<and> utf8 (block_new b)"
proof (induction ps arbitrary: cur)
  case (Cons p ps)
  show ?case
  proof (cases "p_type p")
    case PDel
    with Cons.prems Cons.IH [of "Some ((case cur of None \<Rightarrow> [] | Some (a, b) \<Rightarrow> a) @ p_text p, case cur of None \<Rightarrow> [] | Some (a, b) \<Rightarrow> b)"]
    show ?thesis by (auto intro: utf8_append split: option.splits)
  next
    case PIns
    with Cons.prems Cons.IH [of "Some (case cur of None \<Rightarrow> [] | Some (a, b) \<Rightarrow> a, (case cur of None \<Rightarrow> [] | Some (a, b) \<Rightarrow> b) @ p_text p)"]
    show ?thesis by (auto intro: utf8_append split: option.splits)
  next
    case PEq
    with Cons.prems Cons.IH [of None] show ?thesis by (auto simp: close_def split: option.splits)
  qed
qed (auto simp: close_def split: option.splits)

lemma append_all_text:
  assumes "\<And>b. b \<in> set bs \<Longrightarrow> \<exists>ps. f b = Some ps \<and> old_text ps = block_old b \<and> new_text ps = block_new b \<and> texts_utf8 ps"
  shows "\<exists>ps. append_all f bs = Some ps \<and> old_text ps = concat (map block_old bs) \<and>
     new_text ps = concat (map block_new bs) \<and> texts_utf8 ps"
  using assms
proof (induction bs)
  case (Cons b bs)
  obtain ps where "f b = Some ps" "old_text ps = block_old b" "new_text ps = block_new b" "texts_utf8 ps"
    using Cons.prems [of b] by auto
  moreover obtain qs where "append_all f bs = Some qs" "old_text qs = concat (map block_old bs)"
     "new_text qs = concat (map block_new bs)" "texts_utf8 qs"
    using Cons.IH Cons.prems by auto
  ultimately show ?case by simp
qed simp

lemma render_block_text:
  assumes "utf8 (block_old b)" "utf8 (block_new b)"
    "\<And>x y. utf8 x \<Longrightarrow> utf8 y \<Longrightarrow> \<exists>ps. deeper x y = Some ps \<and> old_text ps = x \<and> new_text ps = y \<and> texts_utf8 ps"
  shows "\<exists>ps. render_block big deeper b = Some ps \<and> old_text ps = block_old b \<and> new_text ps = block_new b \<and> texts_utf8 ps"
  using assms by (cases b) auto

lemma buildProseDiff_text:
  "utf8 u \<Longrightarrow> utf8 v \<Longrightarrow>
   \<exists>ps. buildProseDiff l u v = Some ps \<and> old_text ps = u \<and> new_text ps = v \<and> texts_utf8 ps"
proof (induction "3 - rank l" arbitrary: l u v rule: less_induct)
  case less
  obtain parts big where al: "align u v l = Some (parts, big)" "old_text parts = u" "new_text parts = v" "texts_utf8 parts"
    using align_text [OF less.prems, of l] by blast
  show ?case
  proof (cases "l = levelChar")
    case True
    with al show ?thesis
      by (subst buildProseDiff.simps) (simp add: reorderParts_text reorderParts_utf8)
  next
    case False
    let ?blocks = "group_blocks (reorderParts parts) None"
    have "3 - rank (finer l) < 3 - rank l" using False by (cases l) simp_all
    then have deeper: "\<exists>ps. buildProseDiff (finer l) x y = Some ps \<and> old_text ps = x \<and> new_text ps = y \<and> texts_utf8 ps"
      if "utf8 x" "utf8 y" for x y using less.hyps that by blast
    have "\<forall>b \<in> set ?blocks. utf8 (block_old b) \<and> utf8 (block_new b)"
      using al(4) by (intro group_blocks_utf8) (simp_all add: reorderParts_utf8)
    then have "\<exists>ps. append_all (render_block big (\<lambda>x y. buildProseDiff (finer l) x y)) ?blocks = Some ps \<and>
        old_text ps = concat (map block_old ?blocks) \<and> new_text ps = concat (map block_new ?blocks) \<and> texts_utf8 ps"
      using deeper by (intro append_all_text render_block_text) auto
    with al False show ?thesis
      using group_blocks_text [of "reorderParts parts" None]
      by (subst buildProseDiff.simps) (auto simp: reorderParts_text reorderParts_utf8)
  qed
qed

section \<open>The normal form of a result\<close>

text \<open>Neighbours: a deletion may be followed by its insertion, and two unchanged parts may touch.\<close>

definition apart :: "string \<Rightarrow> string \<Rightarrow> bool" where
  "apart x y \<longleftrightarrow> \<not> (x \<noteq> [] \<and> y \<noteq> [] \<and> hd x = hd y \<and> layoutChars (hd x)) \<and>
     \<not> (x \<noteq> [] \<and> y \<noteq> [] \<and> last x = last y \<and> layoutChars (last x))"

definition follows :: "ProsePart \<Rightarrow> ProsePart \<Rightarrow> bool" where
  "follows p q \<longleftrightarrow> p_type p = PEq \<or> p_type q = PEq \<or>
     p_type p = PDel \<and> p_type q = PIns \<and> apart (p_text p) (p_text q)"

lemma follows_eq: "p_type p = PEq \<Longrightarrow> follows p q" "p_type p = PEq \<Longrightarrow> follows q p"
  by (simp_all add: follows_def)

definition follows_strictly :: "ProsePart \<Rightarrow> ProsePart \<Rightarrow> bool" where
  "follows_strictly p q \<longleftrightarrow> follows p q \<and> p_type p \<noteq> p_type q"

definition eq_filled :: "ProsePart list \<Rightarrow> bool" where
  "eq_filled ps \<longleftrightarrow> (\<forall>p \<in> set ps. p_type p = PEq \<longrightarrow> p_text p \<noteq> [])"

lemma eq_filled_simps [simp]:
  "eq_filled []" "eq_filled (p # ps) \<longleftrightarrow> (p_type p = PEq \<longrightarrow> p_text p \<noteq> []) \<and> eq_filled ps"
  "eq_filled (ps @ qs) \<longleftrightarrow> eq_filled ps \<and> eq_filled qs"
  by (auto simp: eq_filled_def)

lemma combineRuns_follows: "successively follows (combineRuns os ns)" "eq_filled (combineRuns os ns)"
  by (rule combineRuns_shape [of os ns]; auto simp: follows_def apart_def)+

lemma flush_follows: "successively follows (flush os ns)" "eq_filled (flush os ns)"
  by (simp_all add: flush_def combineRuns_follows)

lemma reorder_loop_follows:
  "eq_filled ps \<Longrightarrow> successively follows (reorder_loop ps os ns) \<and> eq_filled (reorder_loop ps os ns)"
proof (induction ps os ns rule: reorder_loop.induct)
  case (2 p ps os ns)
  then show ?case
    by (auto simp: flush_follows follows_eq successively_append_iff successively_Cons split: part_type.splits)
qed (simp add: flush_follows)

text \<open>Merging only ever joins unchanged parts.\<close>

lemma merge_follows:
  "successively follows_strictly qs \<Longrightarrow> eq_filled qs \<Longrightarrow> successively follows ps \<Longrightarrow> eq_filled ps \<Longrightarrow>
   (qs \<noteq> [] \<longrightarrow> ps \<noteq> [] \<longrightarrow> follows (last qs) (hd ps)) \<Longrightarrow>
   successively follows_strictly (foldl merge_step qs ps) \<and> eq_filled (foldl merge_step qs ps)"
proof (induction ps arbitrary: qs)
  case (Cons p ps)
  have next_p: "ps = [] \<or> follows p (hd ps)" "successively follows ps"
    using Cons.prems(3) by (auto simp: successively_Cons)
  show ?case
  proof (cases "qs \<noteq> [] \<and> p_type (last qs) = p_type p")
    case True
    then have eq: "p_type (last qs) = PEq" "p_type p = PEq" using Cons.prems(5) by (auto simp: follows_def)
    let ?q = "(last qs)\<lparr>p_text := p_text (last qs) @ p_text p\<rparr>"
    have qs: "qs = butlast qs @ [last qs]" using True by simp
    have "successively follows_strictly (butlast qs @ [?q])"
      using Cons.prems(1) eq by (subst (asm) qs) (auto simp: successively_append_iff follows_strictly_def follows_def)
    moreover have "eq_filled (butlast qs @ [?q])" using Cons.prems(2) by (subst (asm) qs) auto
    moreover have "follows ?q (hd ps)" using eq by (simp add: follows_def)
    ultimately show ?thesis using Cons.IH [of "butlast qs @ [?q]"] True next_p Cons.prems(4) by (simp add: merge_step_def)
  next
    case False
    then have "successively follows_strictly (qs @ [p])"
      using Cons.prems(1,5) by (auto simp: successively_append_iff follows_strictly_def)
    with False Cons.IH [of "qs @ [p]"] Cons.prems next_p show ?thesis by (auto simp: merge_step_def)
  qed
qed simp

lemma reorderParts_follows:
  "eq_filled ps \<Longrightarrow> successively follows_strictly (reorderParts ps) \<and> eq_filled (reorderParts ps)"
  using merge_follows [of "[]" "reorder_loop ps [] []"] reorder_loop_follows by (simp add: reorderParts_def)

text \<open>A second pass finds nothing to lift and drops empty segments.\<close>

lemma shared_apart: "\<not> (x \<noteq> [] \<and> y \<noteq> [] \<and> hd x = hd y \<and> layoutChars (hd x)) \<Longrightarrow> shared x y k = 0"
  by (cases x; cases y; cases k) auto

lemma combineRuns_apart:
  assumes "apart (mergeRunText os) (mergeRunText ns)"
  shows "combineRuns os ns =
     filter (\<lambda>p. p_text p \<noteq> []) [part PDel (mergeRunText os), part PIns (mergeRunText ns)]"
proof -
  have "shared (mergeRunText os) (mergeRunText ns) k = 0" "shared (rev (mergeRunText os)) (rev (mergeRunText ns)) k = 0" for k
    using assms by (auto intro!: shared_apart simp: apart_def hd_rev)
  then show ?thesis by (simp add: combineRuns_def Let_def)
qed

lemma apart_Nil [simp]: "apart x []" "apart [] y"
  by (simp_all add: apart_def)

lemma part_eta: "p_type p = ty \<Longrightarrow> part ty (p_text p) = p"
  by (cases p) simp

lemma reorder_loop_again:
  "successively follows_strictly ps \<Longrightarrow> eq_filled ps \<Longrightarrow> reorder_loop ps [] [] = filter (\<lambda>p. p_text p \<noteq> []) ps"
proof (induction ps rule: length_induct)
  case (1 ps)
  show ?case
  proof (cases ps)
    case (Cons p rest)
    then have rest: "successively follows_strictly rest" "eq_filled rest" "rest = [] \<or> follows_strictly p (hd rest)"
      using "1.prems" by (auto simp: successively_Cons)
    have after: "reorder_loop qs os ns = flush os ns @ filter (\<lambda>p. p_text p \<noteq> []) qs"
      if "qs = [] \<or> p_type (hd qs) = PEq" "successively follows_strictly qs" "eq_filled qs" "length qs < length ps" for qs os ns
    proof (cases qs)
      case (Cons q qs')
      then have "reorder_loop qs' [] [] = filter (\<lambda>p. p_text p \<noteq> []) qs'"
        using "1.IH" that by (auto simp: successively_Cons flush_def)
      with Cons that show ?thesis by simp
    qed simp
    show ?thesis
    proof (cases "p_type p")
      case PEq
      with Cons rest "1.IH" "1.prems"(2) show ?thesis by (simp add: flush_def)
    next
      case PIns
      then have "rest = [] \<or> p_type (hd rest) = PEq" using rest(3) by (auto simp: follows_strictly_def follows_def)
      with PIns Cons rest after [of rest "[]" "[p]"] show ?thesis by (auto simp: flush_def combineRuns_apart part_eta)
    next
      case PDel
      show ?thesis
      proof (cases "rest = [] \<or> p_type (hd rest) = PEq")
        case True
        with PDel Cons rest after [of rest "[p]" "[]"] show ?thesis by (auto simp: flush_def combineRuns_apart part_eta)
      next
        case False
        then obtain q qs where q: "rest = q # qs" "p_type q = PIns" "apart (p_text p) (p_text q)"
          using rest(3) PDel by (cases rest) (auto simp: follows_strictly_def follows_def)
        then have "qs = [] \<or> p_type (hd qs) = PEq" "successively follows_strictly qs" "eq_filled qs"
          using rest by (auto simp: successively_Cons follows_strictly_def follows_def)
        with q PDel Cons after [of qs "[p]" "[q]"] show ?thesis by (auto simp: flush_def combineRuns_apart part_eta)
      qed
    qed
  qed (simp add: flush_def)
qed

lemma merge_filled: "\<forall>p \<in> set qs \<union> set ps. p_text p \<noteq> [] \<Longrightarrow> \<forall>p \<in> set (foldl merge_step qs ps). p_text p \<noteq> []"
proof (induction ps arbitrary: qs)
  case (Cons p ps)
  have "\<forall>x \<in> set (merge_step qs p). p_text x \<noteq> []"
    using Cons.prems by (auto simp: merge_step_def dest: in_set_butlastD)
  with Cons.IH [of "merge_step qs p"] Cons.prems show ?case by (simp add: ball_Un)
qed simp

lemma reorderParts_twice_filled:
  assumes "eq_filled ps"
  shows "\<forall>p \<in> set (reorderParts (reorderParts ps)). p_text p \<noteq> []"
proof -
  have "reorder_loop (reorderParts ps) [] [] = filter (\<lambda>p. p_text p \<noteq> []) (reorderParts ps)"
    using reorderParts_follows [OF assms] by (intro reorder_loop_again) auto
  then show ?thesis
    unfolding reorderParts_def [of "reorderParts ps"] by (auto dest: bspec [OF merge_filled, rotated])
qed

text \<open>No piece is empty, so no unchanged segment is.\<close>

lemma trimApart_filled: "[] \<notin> set (trimApart s)"
proof -
  let ?corpus = "dropWhile is_trim s"
  have "length ?corpus \<le> length s" by (rule length_dropWhile_le)
  moreover have "length (dropWhile is_trim (rev ?corpus)) \<le> length ?corpus" by (metis length_dropWhile_le length_rev)
  ultimately show ?thesis by (auto simp: trimApart_def Let_def)
qed

lemma stitch_trim_filled: "rank l < rank levelWord \<Longrightarrow> [] \<notin> set (stitch_loop ps ds l)"
  by (induction ps ds l rule: stitch_loop.induct) (auto simp: Let_def trimApart_filled)

lemma stitch_word_filled: "[] \<notin> set (butlast (stitch_loop (re_Split cls s) (re_FindAll cls s) levelWord))"
proof (induction "length s" arbitrary: s rule: less_induct)
  case less
  let ?r = "dropWhile (\<lambda>c. \<not> cls c) s"
  show ?case
  proof (cases "?r = []")
    case True
    then show ?thesis by (subst re_Split.simps) (simp only: Let_def if_True, simp)
  next
    case False
    then obtain c r where r: "?r = c # r" "cls c" by (metis hd_dropWhile list.exhaust_sel)
    have "stitch_loop (re_Split cls s) (re_FindAll cls s) levelWord =
        (takeWhile (\<lambda>c. \<not> cls c) s @ takeWhile cls ?r) #
        stitch_loop (re_Split cls (dropWhile cls ?r)) (re_FindAll cls (dropWhile cls ?r)) levelWord"
      using False by (subst re_Split.simps, subst re_FindAll.simps) (simp only: Let_def if_False, simp)
    moreover have "takeWhile cls ?r \<noteq> []" using r by simp
    ultimately show ?thesis using less.hyps [OF rest_shorter [OF False]] by simp
  qed
qed

lemma splitChars_filled: "[] \<notin> set (splitChars s)"
proof (induction s rule: splitChars.induct)
  case (1 s)
  show ?case
  proof (cases "s = []")
    case False
    then show ?thesis
      using 1 DecodeRune_pos [of s] by (subst splitChars.simps) (auto simp: replacement_def split: option.splits)
  qed (simp add: splitChars.simps)
qed

lemma splitCorpus_filled: "[] \<notin> set (splitCorpus s l)"
proof -
  have trim: "[] \<notin> set (stitchPieces ps ds l)" if "rank l < rank levelWord" for ps ds l
    using stitch_trim_filled [OF that, of ps ds] by (auto simp: stitchPieces_def Let_def dest: in_set_butlastD)
  have word: "[] \<notin> set (stitchPieces (re_Split cls s) (re_FindAll cls s) levelWord)" for cls
  proof -
    let ?xs = "stitch_loop (re_Split cls s) (re_FindAll cls s) levelWord"
    have "?xs = butlast ?xs @ [last ?xs]" if "?xs \<noteq> []" using that by simp
    then have "set ?xs \<subseteq> insert (last ?xs) (set (butlast ?xs))" by (metis empty_subsetI list.set(1) set_append list.set(2) Un_insert_right sup_bot_right order_refl)
    then show ?thesis using stitch_word_filled [of cls s] by (auto simp: stitchPieces_def Let_def)
  qed
  show ?thesis by (cases l) (auto simp: splitChars_filled trim word dest: trim [THEN notE, rotated])
qed

lemma align_filled: "\<exists>ps big. align u v l = Some (ps, big) \<and> eq_filled ps"
proof -
  have "eq_filled ps" if "p_text ` set ps \<subseteq> set (splitCorpus u l) \<union> set (splitCorpus v l)" for ps
    using that splitCorpus_filled by (force simp: eq_filled_def)
  then show ?thesis
    using hashDiff_pieces [of "splitCorpus u l" "splitCorpus v l"] editDistanceDiff_text [of "splitCorpus u l" "splitCorpus v l" l]
    unfolding align_def by (cases "l = levelParagraph") auto
qed

lemma group_blocks_filled: "eq_filled ps \<Longrightarrow> Unchanged [] \<notin> set (group_blocks ps cur)"
proof (induction ps arbitrary: cur)
  case (Cons p ps)
  then show ?case by (auto simp: close_def Let_def split: option.splits part_type.splits prod.splits)
qed (auto simp: close_def split: option.splits)

lemma append_all_filled:
  "(\<And>b. b \<in> set bs \<Longrightarrow> \<exists>ps. f b = Some ps \<and> eq_filled ps) \<Longrightarrow> \<exists>ps. append_all f bs = Some ps \<and> eq_filled ps"
proof (induction bs)
  case (Cons b bs)
  obtain ps where "f b = Some ps" "eq_filled ps" using Cons.prems [of b] by auto
  moreover obtain qs where "append_all f bs = Some qs" "eq_filled qs" using Cons.IH Cons.prems by auto
  ultimately show ?case by simp
qed simp

lemma render_block_filled:
  "b \<noteq> Unchanged [] \<Longrightarrow> (\<And>x y. \<exists>ps. deeper x y = Some ps \<and> eq_filled ps) \<Longrightarrow>
   \<exists>ps. render_block big deeper b = Some ps \<and> eq_filled ps"
  by (cases b) auto

lemma buildProseDiff_filled:
  "\<exists>ps. buildProseDiff l u v = Some (reorderParts ps) \<and> eq_filled ps"
proof (induction "3 - rank l" arbitrary: l u v rule: less_induct)
  case less
  obtain parts big where al: "align u v l = Some (parts, big)" "eq_filled parts" using align_filled by blast
  show ?case
  proof (cases "l = levelChar")
    case True
    with al show ?thesis by (subst buildProseDiff.simps) auto
  next
    case False
    have "3 - rank (finer l) < 3 - rank l" using False by (cases l) simp_all
    then have "\<exists>ps. buildProseDiff (finer l) x y = Some ps \<and> eq_filled ps" for x y
      using less.hyps reorderParts_follows by metis
    then have "\<exists>ps. append_all (render_block big (\<lambda>x y. buildProseDiff (finer l) x y)) (group_blocks (reorderParts parts) None) =
        Some ps \<and> eq_filled ps"
      using group_blocks_filled [of "reorderParts parts" None] reorderParts_follows [OF al(2)]
      by (intro append_all_filled render_block_filled) auto
    with al False show ?thesis by (subst buildProseDiff.simps) auto
  qed
qed

section \<open>The matrix holds edit distances\<close>

text \<open>The distance of two prefixes, as the textbook defines it.\<close>

fun distance :: "string list \<Rightarrow> string list \<Rightarrow> nat \<Rightarrow> nat \<Rightarrow> nat" where
  "distance a b 0 j = j"
| "distance a b (Suc i) 0 = Suc i"
| "distance a b (Suc i) (Suc j) =
     (if a ! i = b ! j then distance a b i j
      else Suc (min (distance a b i j) (min (distance a b i (Suc j)) (distance a b (Suc i) j))))"

lemma distance_0 [simp]: "distance a b i 0 = i"
  by (cases i) simp_all

lemma min3_Suc: "min3 (a + 1) (b + 1) (c + 1) = Suc (min a (min b c))"
  by (simp add: min3_def min_def)

lemma dp_cells_distance:
  assumes "k \<le> length v"
  shows "dp_cells (u ! i) (drop k v) (map (distance u v i) [k..<length v + 1]) (distance u v (Suc i) k) =
    map (distance u v (Suc i)) [Suc k..<length v + 1]"
  using assms
proof (induction "length v - k" arbitrary: k)
  case 0
  then show ?case by simp
next
  case (Suc n)
  then have k: "k < length v" by simp
  have prev: "map (distance u v i) [k..<length v + 1] =
      distance u v i k # distance u v i (Suc k) # map (distance u v i) [Suc (Suc k)..<length v + 1]"
    using k by (simp add: upt_conv_Cons del: upt_Suc)
  have cell: "(if u ! i = v ! k then distance u v i k
      else min3 (distance u v i k + 1) (distance u v i (Suc k) + 1) (distance u v (Suc i) k + 1)) = distance u v (Suc i) (Suc k)"
    by (simp only: distance.simps min3_Suc)
  have dropk: "drop k v = v ! k # drop (Suc k) v" using k by (simp add: Cons_nth_drop_Suc)
  have prev1: "distance u v i (Suc k) # map (distance u v i) [Suc (Suc k)..<length v + 1] =
      map (distance u v i) [Suc k..<length v + 1]"
    using k by (simp add: upt_conv_Cons del: upt_Suc)
  have "dp_cells (u ! i) (drop k v) (map (distance u v i) [k..<length v + 1]) (distance u v (Suc i) k) =
      distance u v (Suc i) (Suc k) #
      dp_cells (u ! i) (drop (Suc k) v) (map (distance u v i) [Suc k..<length v + 1]) (distance u v (Suc i) (Suc k))"
    unfolding prev1 [symmetric] by (simp only: dropk prev dp_cells.simps Let_def cell)
  also have "dp_cells (u ! i) (drop (Suc k) v) (map (distance u v i) [Suc k..<length v + 1]) (distance u v (Suc i) (Suc k)) =
      map (distance u v (Suc i)) [Suc (Suc k)..<length v + 1]"
    using Suc by (intro Suc.hyps(1)) auto
  also have "distance u v (Suc i) (Suc k) # map (distance u v (Suc i)) [Suc (Suc k)..<length v + 1] =
      map (distance u v (Suc i)) [Suc k..<length v + 1]"
    using k by (simp add: upt_conv_Cons del: upt_Suc distance.simps)
  finally show ?case .
qed

abbreviation distance_row :: "string list \<Rightarrow> string list \<Rightarrow> nat \<Rightarrow> nat list" where
  "distance_row u v i \<equiv> map (distance u v i) [0..<length v + 1]"

lemma dp_rows_distance:
  "i \<le> length u \<Longrightarrow> dp_rows (Suc i) (drop i u) v (distance_row u v i) = map (distance_row u v) [Suc i..<length u + 1]"
proof (induction "length u - i" arbitrary: i)
  case 0
  then show ?case by simp
next
  case (Suc n)
  then have i: "i < length u" by simp
  have row: "Suc i # dp_cells (u ! i) v (distance_row u v i) (Suc i) = distance_row u v (Suc i)"
    using dp_cells_distance [of 0 v u i] by (simp add: upt_conv_Cons del: upt_Suc)
  have "drop i u = u ! i # drop (Suc i) u" using i by (simp add: Cons_nth_drop_Suc)
  then have "dp_rows (Suc i) (drop i u) v (distance_row u v i) =
      distance_row u v (Suc i) # dp_rows (Suc (Suc i)) (drop (Suc i) u) v (distance_row u v (Suc i))"
    by (simp only: dp_rows.simps Let_def row)
  also have "\<dots> = distance_row u v (Suc i) # map (distance_row u v) [Suc (Suc i)..<length u + 1]"
    using Suc by simp
  also have "\<dots> = map (distance_row u v) [Suc i..<length u + 1]" using i by (simp add: upt_conv_Cons del: upt_Suc)
  finally show ?case .
qed

lemma dp_table_distance:
  assumes "i \<le> length u" "j \<le> length v"
  shows "dp_table u v ! i ! j = distance u v i j"
proof -
  have first: "distance_row u v 0 = [0..<length v + 1]" by (intro nth_equalityI) (simp_all del: upt_Suc)
  have "dp_table u v = distance_row u v 0 # dp_rows (Suc 0) (drop 0 u) v (distance_row u v 0)"
    unfolding dp_table_def One_nat_def [symmetric] drop_0 first ..
  also have "\<dots> = map (distance_row u v) [0..<length u + 1]"
    using dp_rows_distance [of 0 u v] by (simp add: upt_conv_Cons del: upt_Suc)
  finally show ?thesis using assms by (simp add: nth_append del: upt_Suc)
qed

text \<open>Neighbouring cells differ by at most one, so matching equal pieces is never worse.\<close>

lemma distance_steps:
  "distance a b i j \<le> Suc (distance a b i (Suc j)) \<and> distance a b i j \<le> Suc (distance a b (Suc i) j) \<and>
   distance a b i (Suc j) \<le> Suc (distance a b i j) \<and> distance a b (Suc i) j \<le> Suc (distance a b i j)"
proof (induction "i + j" arbitrary: i j rule: less_induct)
  case less
  have row: "distance a b i j \<le> Suc (distance a b i (Suc j)) \<and> distance a b i (Suc j) \<le> Suc (distance a b i j)"
  proof (cases i)
    case (Suc i')
    with less [of i' j] show ?thesis by (auto simp: min_def)
  qed simp
  have column: "distance a b i j \<le> Suc (distance a b (Suc i) j) \<and> distance a b (Suc i) j \<le> Suc (distance a b i j)"
  proof (cases j)
    case (Suc j')
    with less [of i j'] show ?thesis by (auto simp: min_def)
  qed simp
  from row column show ?case by blast
qed

text \<open>Hence no script is cheaper: along any script the distance grows at most with the cost.\<close>

lemma cost_simps [simp]: "cost [] = 0" "cost (x # xs) = (if x = OpS then cost xs else Suc (cost xs))"
  "cost (rev xs) = cost xs"
  by (simp_all add: cost_def rev_filter [symmetric])

lemma drop_Suc_le: "drop i xs = x # r \<Longrightarrow> Suc i \<le> length xs"
  by (metis drop_eq_Nil leI list.distinct(1) Suc_leI)

lemma distance_lower:
  "script ops (drop i a) (drop j b) \<Longrightarrow> i \<le> length a \<Longrightarrow> j \<le> length b \<Longrightarrow> distance a b (length a) (length b) \<le> distance a b i j + cost ops"
proof (induction ops arbitrary: i j)
  case Nil
  then have "i = length a" "j = length b" by auto
  then show ?case by simp
next
  case (Cons x ops)
  show ?case
  proof (cases x)
    case OpS
    with Cons.prems obtain p r q where d: "drop i a = p # r" "drop j b = p # q" "script ops r q" by (auto split: list.splits)
    then have "a ! i = b ! j" "script ops (drop (Suc i) a) (drop (Suc j) b)"
      using piece_at_drop [OF d(1)] piece_at_drop [OF d(2)] by (auto simp: piece_at_def split: if_splits)
    with Cons.IH [of "Suc i" "Suc j"] OpS drop_Suc_le [OF d(1)] drop_Suc_le [OF d(2)] show ?thesis by simp
  next
    case OpX
    with Cons.prems obtain p r p' q where d: "drop i a = p # r" "drop j b = p' # q" "script ops r q" by (auto split: list.splits)
    then have "script ops (drop (Suc i) a) (drop (Suc j) b)"
      using piece_at_drop [OF d(1)] piece_at_drop [OF d(2)] by auto
    with Cons.IH [of "Suc i" "Suc j"] OpX drop_Suc_le [OF d(1)] drop_Suc_le [OF d(2)] show ?thesis
      by (auto simp: min_def split: if_splits)
  next
    case OpD
    with Cons.prems obtain p r where d: "drop i a = p # r" "script ops r (drop j b)" by (auto split: list.splits)
    then have "script ops (drop (Suc i) a) (drop j b)" using piece_at_drop [OF d(1)] by auto
    with Cons.IH [of "Suc i" j] OpD Cons.prems(3) drop_Suc_le [OF d(1)] distance_steps [of a b i j] show ?thesis by simp
  next
    case OpI
    with Cons.prems obtain p q where d: "drop j b = p # q" "script ops (drop i a) q" by (auto split: list.splits)
    then have "script ops (drop i a) (drop (Suc j) b)" using piece_at_drop [OF d(1)] by auto
    with Cons.IH [of i "Suc j"] OpI Cons.prems(2) drop_Suc_le [OF d(1)] distance_steps [of a b i j] show ?thesis by simp
  qed
qed

lemma backtrack_cost:
  "i \<le> length u \<Longrightarrow> j \<le> length v \<Longrightarrow> cost (backtrack (dp_table u v) u v i j) = distance u v i j"
proof (induction "i + j" arbitrary: i j rule: less_induct)
  case less
  show ?case
  proof (cases i)
    case 0
    show ?thesis
    proof (cases j)
      case (Suc j')
      with 0 less show ?thesis by (subst backtrack.simps) simp
    qed (use 0 in \<open>simp add: backtrack.simps\<close>)
  next
    case (Suc i')
    show ?thesis
    proof (cases j)
      case 0
      with Suc less show ?thesis by (subst backtrack.simps) simp
    next
      case (Suc j')
      note ij = \<open>i = Suc i'\<close> Suc
      have dp: "dp_table u v ! i ! j = distance u v i j" "dp_table u v ! i' ! j' = distance u v i' j'"
        "dp_table u v ! i ! j' = distance u v i j'" "dp_table u v ! i' ! j = distance u v i' j"
        using less.prems ij by (simp_all add: dp_table_distance)
      have IH: "cost (backtrack (dp_table u v) u v i' j') = distance u v i' j'"
        "cost (backtrack (dp_table u v) u v i j') = distance u v i j'"
        "cost (backtrack (dp_table u v) u v i' j) = distance u v i' j"
        using less ij by auto
      show ?thesis
        using dp IH ij by (subst backtrack.simps) (auto simp: min_def split: if_splits)
    qed
  qed
qed

end
