(* ===== verification/Prose_Properties.thy ===== *)
theory Prose_Properties
  imports Prose_Facts
begin

text \<open>The properties of the prose engine and their instances on small texts.\<close>

definition sample_prose :: ProseRequest where
  "sample_prose = \<lparr>pr_old = ''One, two.'', pr_new = ''One, ten!''\<rparr>"

text \<open>C19. The engine always answers, and its answer loses nothing: for well-formed UTF-8 the unchanged and the
  deleted segments concatenate to the old text and the unchanged and the inserted ones to the new
  text, byte for byte, through all four granularities, and every segment is well-formed UTF-8 again.\<close>

theorem Prose_reassembles:
  assumes "utf8 (pr_old req)" "utf8 (pr_new req)"
  shows "\<exists>ps. Prose_Generate req = Some ps \<and> old_text ps = pr_old req \<and> new_text ps = pr_new req \<and> texts_utf8 ps"
  using buildProseDiff_text [OF assms, of levelParagraph]
  by (auto simp: Prose_Generate_def reorderParts_text reorderParts_utf8)

theorem Prose_reassembles_witness:
  "\<exists>ps. Prose_Generate sample_prose = Some ps \<and> old_text ps = ''One, two.'' \<and> new_text ps = ''One, ten!''"
proof -
  have "utf8 (pr_old sample_prose)" "utf8 (pr_new sample_prose)"
    by (auto intro!: utf8_ascii simp: sample_prose_def ascii_def)
  from Prose_reassembles [OF this] show ?thesis by (auto simp: sample_prose_def)
qed

text \<open>C21. The shape of every answer, for any input bytes: no segment is empty, neighbouring segments have
  different types, and within a run of changes the deletion comes before the insertion.\<close>

theorem Prose_normal_form:
  "\<exists>ps. Prose_Generate req = Some ps \<and> [] \<notin> p_text ` set ps \<and>
     successively (\<lambda>p q. p_type p \<noteq> p_type q \<and> (p_type p, p_type q) \<noteq> (PIns, PDel)) ps"
proof -
  obtain ps where ps: "buildProseDiff levelParagraph (pr_old req) (pr_new req) = Some (reorderParts ps)" "eq_filled ps"
    using buildProseDiff_filled by blast
  let ?out = "reorderParts (reorderParts ps)"
  have "successively follows_strictly ?out"
    using reorderParts_follows reorderParts_follows [OF ps(2)] by blast
  then have "successively (\<lambda>p q. p_type p \<noteq> p_type q \<and> (p_type p, p_type q) \<noteq> (PIns, PDel)) ?out"
    by (rule successively_mono) (auto simp: follows_strictly_def follows_def)
  moreover have "[] \<notin> p_text ` set ?out" using reorderParts_twice_filled [OF ps(2)] by auto
  ultimately show ?thesis using ps(1) by (simp add: Prose_Generate_def)
qed

text \<open>C20. The alignment below the paragraph level is optimal: the dynamic-programming table and its backtrack
  compute the textbook edit distance, and no sequence of kept, replaced, deleted and inserted pieces
  that turns the old pieces into the new ones changes fewer of them.\<close>

theorem edit_ops_optimal:
  "cost (edit_ops u v) = distance u v (length u) (length v) \<and> script (edit_ops u v) u v \<and>
   (\<forall>ops. script ops u v \<longrightarrow> cost (edit_ops u v) \<le> cost ops)"
proof -
  have "cost (edit_ops u v) = distance u v (length u) (length v)"
    unfolding edit_ops_def using backtrack_cost [of "length u" u "length v" v] by simp
  then show ?thesis using distance_lower [of _ 0 u 0 v] edit_ops_script [of u v] by auto
qed

theorem edit_ops_optimal_witness:
  "cost (edit_ops [''a'', ''b''] [''b'']) \<le> 1"
proof -
  have "script [OpD, OpS] [''a'', ''b''] [''b'']" by simp
  with edit_ops_optimal [of "[''a'', ''b'']" "[''b'']"] show ?thesis by fastforce
qed

end
