(* ===== verification/Queue_Contracts.thy ===== *)
theory Queue_Contracts
  imports Prelude
begin

text \<open>
  The wire structures of the task queue, \<open>src/go/internal/contracts/taskqueue.go\<close>,
  \<open>taskqueue_execution.go\<close> and \<open>scheduler.go\<close>. Pointer fields are options. Field names carry
  a prefix per structure because Isabelle record fields share one name space.
\<close>

record Task =
  t_id :: int
  t_taskClass :: string
  t_leaseOwner :: string
  t_leaseExpires :: "int option"
  t_failureCount :: int
  t_dataID :: int
  t_failureTime :: "int option"
  t_priority :: int
  t_objectPHID :: string
  t_containerPHID :: string
  t_dateCreated :: int
  t_dateModified :: int
  t_data :: string

record ArchivedTask =
  at_task :: Task
  at_result :: int
  at_duration :: int
  at_archivedEpoch :: "int option"

record EnqueueRequest =
  er_taskClass :: string
  er_data :: string
  er_priority :: "int option"
  er_objectPHID :: string
  er_containerPHID :: string
  er_delayUntil :: "int option"

record FailRequest =
  fr_taskID :: int
  fr_permanent :: bool
  fr_retryWait :: "int option"
  fr_message :: string

record QueueStats =
  qs_activeCount :: int
  qs_leasedCount :: int
  qs_archivedCount :: int
  qs_failedCount :: int

record ExecutionLease =
  l_taskID :: int
  l_leaseOwner :: string
  l_leaseExpires :: int

record FinalizeRequest =
  fin_lease :: ExecutionLease
  fin_duration :: int
  fin_followups :: "EnqueueRequest list"

record RenewRequest =
  ren_lease :: ExecutionLease
  ren_duration :: int

record ResolveRequest =
  res_lease :: ExecutionLease
  res_outcome :: string
  res_retryWait :: "int option"
  res_duration :: int

record EnqueueEventRequest =
  ev_eventID :: string
  ev_task :: EnqueueRequest

record TriggerPlan =
  tp_protocol :: int
  tp_id :: int
  tp_version :: int
  tp_fire :: bool
  tp_next :: "int option"
  tp_task :: "EnqueueRequest option"

definition ResultSuccess :: int where "ResultSuccess = 0"
definition ResultFailure :: int where "ResultFailure = 1"
definition ResultCancelled :: int where "ResultCancelled = 2"

definition PriorityDefault :: int where "PriorityDefault = 2000"

definition YieldOwner :: string where "YieldOwner = ''(yield)''"

lemmas queue_consts = ResultSuccess_def ResultFailure_def ResultCancelled_def PriorityDefault_def

text \<open>
  The errors a store returns. \<open>DbError\<close> is a driver error with the context the code wraps
  it in; the others are the values the code compares with \<open>errors.Is\<close>.
\<close>

datatype queue_error =
    DbError string
  | ErrNoRows
  | ErrLeaseConflict
  | ErrEventConflict
  | ErrScheduleConflict
  | ErrInvalidOutcome
  | ErrInvalidPlan
  | ErrNotReady

text \<open>\<open>DelayUntil\<close> set and positive becomes the first \<open>leaseExpires\<close>.\<close>

definition initial_expiry :: "EnqueueRequest \<Rightarrow> int option" where
  "initial_expiry req =
     (case er_delayUntil req of None \<Rightarrow> None | Some d \<Rightarrow> if d > 0 then Some d else None)"

definition initial_priority :: "EnqueueRequest \<Rightarrow> int" where
  "initial_priority req = (case er_priority req of None \<Rightarrow> PriorityDefault | Some p \<Rightarrow> p)"

end
