(* ===== verification/MySQL_Store.thy ===== *)
theory MySQL_Store
  imports Queue_Contracts
begin

text \<open>
  The MySQL backend of the task queue: \<open>src/go/internal/taskqueue/mysql_store.go\<close>,
  \<open>execution_mysql.go\<close> and \<open>inbox_mysql.go\<close>.

  A table is the list of its rows; a nullable column is an option and an SQL comparison
  with \<open>NULL\<close> is not true. Each SQL statement is a function on the tables, run through
  \<open>stmt\<close> so that the world can fail it, and each \<open>BeginTx\<close> block is a \<open>transaction\<close>. The
  clock is read where the code reads it. A rollback restores every table but not the
  \<open>AUTO_INCREMENT\<close> position of \<open>worker_taskdata\<close>. Transactions run one after the other;
  string columns compare bytewise. A result set cut short by a lost connection is not
  distinguished from a failing statement: the next statement of the same transaction
  fails on that connection.

  The inbox column \<open>response\<close> holds the JSON of a task; it is modelled by the task itself,
  with \<open>None\<close> for the empty string. The payload digest is a parameter.
\<close>

section \<open>Tables\<close>

record active_row =
  r_id :: int
  r_taskClass :: string
  r_leaseOwner :: "string option"
  r_leaseExpires :: "int option"
  r_failureCount :: int
  r_dataID :: int
  r_failureTime :: "int option"
  r_priority :: int
  r_objectPHID :: "string option"
  r_containerPHID :: "string option"
  r_dateCreated :: int
  r_dateModified :: int

record archive_row =
  a_id :: int
  a_taskClass :: string
  a_leaseOwner :: "string option"
  a_leaseExpires :: "int option"
  a_failureCount :: int
  a_dataID :: int
  a_priority :: int
  a_objectPHID :: "string option"
  a_containerPHID :: "string option"
  a_result :: int
  a_duration :: int
  a_dateCreated :: int
  a_dateModified :: int
  a_archivedEpoch :: int

record inbox_row =
  in_payloadHash :: string
  in_response :: "Task option"

record queue_db =
  activetask :: "active_row list"
  archivetask :: "archive_row list"
  taskdata :: "(int \<times> string) list"
  taskdata_auto :: int
  lisk_counter :: "string \<Rightarrow> int option"
  gorgeinbox :: "string \<Rightarrow> inbox_row option"

text \<open>The fields of \<open>MySQLStore\<close> besides the pool.\<close>

record store_config =
  leaseDuration :: int
  retryWait :: int

type_synonym ('x, 'a) queue_prog = "('x queue_db_scheme, queue_error, 'a) prog"

definition rollback :: "'x queue_db_scheme \<Rightarrow> 'x queue_db_scheme \<Rightarrow> 'x queue_db_scheme" where
  "rollback s0 s = s0\<lparr>taskdata_auto := taskdata_auto s\<rparr>"

abbreviation in_tx :: "('x, 'a) queue_prog \<Rightarrow> ('x, 'a) queue_prog" where
  "in_tx \<equiv> transaction (DbError ''tx'') rollback"

section \<open>SQL pieces\<close>

definition nullStr :: "string \<Rightarrow> string option" where
  "nullStr s = (if s = [] then None else Some s)"

definition lt_null :: "int option \<Rightarrow> int \<Rightarrow> bool" where
  "lt_null a b = (case a of None \<Rightarrow> False | Some x \<Rightarrow> x < b)"

definition gt_null :: "int option \<Rightarrow> int \<Rightarrow> bool" where
  "gt_null a b = (case a of None \<Rightarrow> False | Some x \<Rightarrow> x > b)"

definition order_key :: "active_row \<Rightarrow> int \<times> int" where
  "order_key r = (r_priority r, r_id r)"

text \<open>\<open>taskClassClause\<close>: no clause for an empty filter, else membership.\<close>

definition taskClassClause :: "string list \<Rightarrow> active_row \<Rightarrow> bool" where
  "taskClassClause taskClasses r = (if taskClasses = [] then True else r_taskClass r \<in> set taskClasses)"

definition unleased :: "active_row \<Rightarrow> bool" where
  "unleased r \<longleftrightarrow> r_leaseOwner r = None \<and> r_leaseExpires r = None"

text \<open>\<open>SELECT id ... ORDER BY priority ASC, id ASC LIMIT ?\<close>\<close>

definition select_ids :: "(active_row \<Rightarrow> bool) \<Rightarrow> int \<Rightarrow> 'x queue_db_scheme \<Rightarrow> int list" where
  "select_ids P limit s = map r_id (take (nat limit) (sort_key order_key (filter P (activetask s))))"

text \<open>\<open>UPDATE worker_activetask SET ... WHERE ...\<close>, with the number of rows it matched.\<close>

definition update_rows ::
  "(active_row \<Rightarrow> bool) \<Rightarrow> (active_row \<Rightarrow> active_row) \<Rightarrow> 'x queue_db_scheme \<Rightarrow>
   (queue_error + int) \<times> 'x queue_db_scheme" where
  "update_rows P f s =
     (Inr (int (length (filter P (activetask s)))),
      s\<lparr>activetask := map (\<lambda>r. if P r then f r else r) (activetask s)\<rparr>)"

definition insert_taskdata ::
  "string \<Rightarrow> 'x queue_db_scheme \<Rightarrow> (queue_error + int) \<times> 'x queue_db_scheme" where
  "insert_taskdata d s =
     (Inr (taskdata_auto s),
      s\<lparr>taskdata := taskdata s @ [(taskdata_auto s, d)], taskdata_auto := taskdata_auto s + 1\<rparr>)"

definition insert_activetask ::
  "active_row \<Rightarrow> 'x queue_db_scheme \<Rightarrow> (queue_error + unit) \<times> 'x queue_db_scheme" where
  "insert_activetask r s =
     (if r_id r \<in> r_id ` set (activetask s) then (Inl (DbError ''duplicate key''), s)
      else (Inr (), s\<lparr>activetask := activetask s @ [r]\<rparr>))"

definition insert_archivetask ::
  "archive_row \<Rightarrow> 'x queue_db_scheme \<Rightarrow> (queue_error + unit) \<times> 'x queue_db_scheme" where
  "insert_archivetask r s =
     (if a_id r \<in> a_id ` set (archivetask s) then (Inl (DbError ''duplicate key''), s)
      else (Inr (), s\<lparr>archivetask := archivetask s @ [r]\<rparr>))"

definition delete_activetask ::
  "int \<Rightarrow> 'x queue_db_scheme \<Rightarrow> (queue_error + unit) \<times> 'x queue_db_scheme" where
  "delete_activetask i s = (Inr (), s\<lparr>activetask := filter (\<lambda>r. r_id r \<noteq> i) (activetask s)\<rparr>)"

definition select_active :: "int \<Rightarrow> 'x queue_db_scheme \<Rightarrow> active_row option" where
  "select_active i s = find (\<lambda>r. r_id r = i) (activetask s)"

definition select_archived :: "int \<Rightarrow> 'x queue_db_scheme \<Rightarrow> archive_row option" where
  "select_archived i s = find (\<lambda>r. a_id r = i) (archivetask s)"

text \<open>\<open>LEFT JOIN worker_taskdata ... COALESCE(d.data, '')\<close>\<close>

definition joined_data :: "int \<Rightarrow> 'x queue_db_scheme \<Rightarrow> string" where
  "joined_data i s = (case map_of (taskdata s) i of None \<Rightarrow> [] | Some d \<Rightarrow> d)"

text \<open>A statement that only reads.\<close>

definition query :: "string \<Rightarrow> ('x queue_db_scheme \<Rightarrow> 'a) \<Rightarrow> ('x, 'a) queue_prog" where
  "query ctx f = stmt (DbError ctx) (\<lambda>s. (Inr (f s), s))"

text \<open>\<open>applyNullable\<close> and the scans: \<open>NULL\<close> strings become empty strings.\<close>

definition str_of :: "string option \<Rightarrow> string" where
  "str_of s = (case s of None \<Rightarrow> [] | Some x \<Rightarrow> x)"

definition scanTask :: "active_row \<Rightarrow> string \<Rightarrow> Task" where
  "scanTask r d =
     \<lparr>t_id = r_id r, t_taskClass = r_taskClass r, t_leaseOwner = str_of (r_leaseOwner r),
      t_leaseExpires = r_leaseExpires r, t_failureCount = r_failureCount r,
      t_dataID = r_dataID r, t_failureTime = r_failureTime r, t_priority = r_priority r,
      t_objectPHID = str_of (r_objectPHID r), t_containerPHID = str_of (r_containerPHID r),
      t_dateCreated = r_dateCreated r, t_dateModified = r_dateModified r, t_data = d\<rparr>"

definition scanTaskWithData :: "'x queue_db_scheme \<Rightarrow> active_row \<Rightarrow> Task" where
  "scanTaskWithData s r = scanTask r (joined_data (r_dataID r) s)"

definition scanTaskNoData :: "active_row \<Rightarrow> Task" where
  "scanTaskNoData r = scanTask r []"

section \<open>Enqueue\<close>

definition nextCounterValue :: "string \<Rightarrow> ('x, int) queue_prog" where
  "nextCounterValue name = stmt (DbError ''bump counter'')
     (\<lambda>s. let v = (case lisk_counter s name of None \<Rightarrow> 1 | Some c \<Rightarrow> c + 1)
          in (Inr v, s\<lparr>lisk_counter := (lisk_counter s)(name \<mapsto> v)\<rparr>))"

definition enqueueInTx :: "EnqueueRequest \<Rightarrow> ('x, Task) queue_prog" where
  "enqueueInTx req =
     bindP time_now (\<lambda>now.
     bindP (stmt (DbError ''insert taskdata'') (insert_taskdata (er_data req))) (\<lambda>dataID.
     bindP (nextCounterValue ''worker_activetask'') (\<lambda>taskID.
     bindP (stmt (DbError ''insert activetask'') (insert_activetask
        \<lparr>r_id = taskID, r_taskClass = er_taskClass req, r_leaseOwner = None,
         r_leaseExpires = initial_expiry req, r_failureCount = 0, r_dataID = dataID,
         r_failureTime = None, r_priority = initial_priority req,
         r_objectPHID = nullStr (er_objectPHID req), r_containerPHID = nullStr (er_containerPHID req),
         r_dateCreated = now, r_dateModified = now\<rparr>)) (\<lambda>_.
     ret \<lparr>t_id = taskID, t_taskClass = er_taskClass req, t_leaseOwner = [],
          t_leaseExpires = initial_expiry req, t_failureCount = 0, t_dataID = dataID,
          t_failureTime = None, t_priority = initial_priority req,
          t_objectPHID = er_objectPHID req, t_containerPHID = er_containerPHID req,
          t_dateCreated = now, t_dateModified = now, t_data = []\<rparr>))))"

definition Enqueue :: "EnqueueRequest \<Rightarrow> ('x, Task) queue_prog" where
  "Enqueue req = in_tx (enqueueInTx req)"

section \<open>Lease\<close>

text \<open>Phase 1: unleased rows, best priority first. Returns the row count and the ids.\<close>

definition lease_unleased ::
  "int \<Rightarrow> string \<Rightarrow> string list \<Rightarrow> int \<Rightarrow> ('x, int \<times> int list) queue_prog" where
  "lease_unleased limit owner taskClasses leaseExp =
     bindP (query ''select unleased''
        (select_ids (\<lambda>r. unleased r \<and> taskClassClause taskClasses r) limit)) (\<lambda>ids.
     if ids = [] then ret (0, [])
     else bindP (stmt (DbError ''update unleased'')
             (update_rows (\<lambda>r. unleased r \<and> r_id r \<in> set ids)
               (\<lambda>r. r\<lparr>r_leaseOwner := Some owner, r_leaseExpires := Some leaseExp\<rparr>))) (\<lambda>n.
          ret (n, ids)))"

text \<open>Phase 2: rows whose lease or delay has expired.\<close>

definition lease_expired ::
  "int \<Rightarrow> string \<Rightarrow> string list \<Rightarrow> int \<Rightarrow> int \<Rightarrow> ('x, int list) queue_prog" where
  "lease_expired remaining owner taskClasses now leaseExp =
     (if remaining > 0 then
        bindP (query ''select expired''
           (select_ids (\<lambda>r. lt_null (r_leaseExpires r) now \<and> taskClassClause taskClasses r) remaining))
        (\<lambda>ids.
        if ids = [] then ret []
        else bindP (stmt (DbError ''update expired'')
                (update_rows (\<lambda>r. lt_null (r_leaseExpires r) now \<and> r_id r \<in> set ids)
                  (\<lambda>r. r\<lparr>r_leaseOwner := Some owner, r_leaseExpires := Some leaseExp\<rparr>))) (\<lambda>_.
             ret ids))
      else ret [])"

definition fetch_leased ::
  "int list \<Rightarrow> string \<Rightarrow> int \<Rightarrow> int \<Rightarrow> 'x queue_db_scheme \<Rightarrow> Task list" where
  "fetch_leased ids owner now limit s =
     map (scanTaskWithData s)
       (take (nat limit) (sort_key order_key
          (filter (\<lambda>r. r_id r \<in> set ids \<and> r_leaseOwner r = Some owner \<and> gt_null (r_leaseExpires r) now)
            (activetask s))))"

definition Lease :: "store_config \<Rightarrow> int \<Rightarrow> string \<Rightarrow> string list \<Rightarrow> ('x, Task list) queue_prog" where
  "Lease cfg lim owner taskClasses =
     (let limit = (if lim \<le> 0 then 1 else lim) in
      bindP time_now (\<lambda>now.
      let leaseExp = now + leaseDuration cfg in
      in_tx
        (bindP (lease_unleased limit owner taskClasses leaseExp) (\<lambda>(leased, ids1).
         bindP (lease_expired (limit - leased) owner taskClasses now leaseExp) (\<lambda>ids2.
         let leasedIDs = ids1 @ ids2 in
         if leasedIDs = [] then ret []
         else query ''fetch leased'' (fetch_leased leasedIDs owner now limit))))))"

section \<open>Leaving the active table\<close>

definition archive_of :: "Task \<Rightarrow> int option \<Rightarrow> int \<Rightarrow> int \<Rightarrow> int \<Rightarrow> archive_row" where
  "archive_of t leaseExp res duration now =
     \<lparr>a_id = t_id t, a_taskClass = t_taskClass t, a_leaseOwner = nullStr (t_leaseOwner t),
      a_leaseExpires = leaseExp, a_failureCount = t_failureCount t, a_dataID = t_dataID t,
      a_priority = t_priority t, a_objectPHID = nullStr (t_objectPHID t),
      a_containerPHID = nullStr (t_containerPHID t), a_result = res, a_duration = duration,
      a_dateCreated = t_dateCreated t, a_dateModified = now, a_archivedEpoch = now\<rparr>"

definition archiveTask :: "int \<Rightarrow> int \<Rightarrow> int \<Rightarrow> ('x, ArchivedTask) queue_prog" where
  "archiveTask taskID res duration =
     in_tx
       (bindP (query ''select activetask'' (select_active taskID)) (\<lambda>row.
        case row of
          None \<Rightarrow> raise ErrNoRows
        | Some r \<Rightarrow>
            let t = scanTaskNoData r in
            bindP time_now (\<lambda>now.
            bindP (stmt (DbError ''insert archivetask'')
                (insert_archivetask (archive_of t (r_leaseExpires r) res duration now))) (\<lambda>_.
            bindP (stmt (DbError ''delete activetask'') (delete_activetask taskID)) (\<lambda>_.
            ret \<lparr>at_task = t, at_result = res, at_duration = duration, at_archivedEpoch = Some now\<rparr>)))))"

definition Complete :: "int \<Rightarrow> int \<Rightarrow> ('x, ArchivedTask) queue_prog" where
  "Complete taskID duration = archiveTask taskID ResultSuccess duration"

definition Cancel :: "int \<Rightarrow> ('x, ArchivedTask) queue_prog" where
  "Cancel taskID = archiveTask taskID ResultCancelled 0"

definition retry_row :: "int \<Rightarrow> int \<Rightarrow> active_row \<Rightarrow> active_row" where
  "retry_row now wait r =
     r\<lparr>r_failureCount := r_failureCount r + 1, r_failureTime := Some now, r_leaseOwner := None,
       r_leaseExpires := Some (now + wait), r_dateModified := now\<rparr>"

definition yield_row :: "int \<Rightarrow> int \<Rightarrow> active_row \<Rightarrow> active_row" where
  "yield_row now duration r =
     r\<lparr>r_leaseOwner := Some YieldOwner, r_leaseExpires := Some (now + duration), r_dateModified := now\<rparr>"

definition Fail :: "store_config \<Rightarrow> FailRequest \<Rightarrow> ('x, unit) queue_prog" where
  "Fail cfg req =
     (if fr_permanent req then
        bindP (archiveTask (fr_taskID req) ResultFailure 0) (\<lambda>_. ret ())
      else
        let wait = (case fr_retryWait req of None \<Rightarrow> retryWait cfg | Some x \<Rightarrow> x) in
        bindP time_now (\<lambda>now.
        bindP (stmt (DbError ''fail task'')
            (update_rows (\<lambda>r. r_id r = fr_taskID req) (retry_row now wait))) (\<lambda>_.
        ret ())))"

definition Yield :: "int \<Rightarrow> int \<Rightarrow> ('x, unit) queue_prog" where
  "Yield taskID dur =
     (let duration = (if dur < 5 then 5 else dur) in
      bindP time_now (\<lambda>now.
      bindP (stmt (DbError ''yield task'')
          (update_rows (\<lambda>r. r_id r = taskID) (yield_row now duration))) (\<lambda>_.
      ret ())))"

definition Awaken :: "int list \<Rightarrow> ('x, int) queue_prog" where
  "Awaken taskIDs =
     (if taskIDs = [] then ret 0
      else bindP time_now (\<lambda>now.
        let epochAgo = now - 3600 in
        stmt (DbError ''awaken tasks'')
          (update_rows
            (\<lambda>r. r_id r \<in> set taskIDs \<and> r_leaseOwner r = Some YieldOwner \<and>
                 gt_null (r_leaseExpires r) epochAgo \<and> r_failureCount r = 0)
            (\<lambda>r. r\<lparr>r_leaseExpires := Some epochAgo\<rparr>))))"

section \<open>Reading\<close>

definition count_active :: "(active_row \<Rightarrow> bool) \<Rightarrow> 'x queue_db_scheme \<Rightarrow> int" where
  "count_active P s = int (length (filter P (activetask s)))"

definition Stats :: "('x, QueueStats) queue_prog" where
  "Stats =
     bindP time_now (\<lambda>now.
     bindP (query ''count active'' (count_active (\<lambda>_. True))) (\<lambda>active.
     bindP (query ''count leased''
        (count_active (\<lambda>r. r_leaseOwner r \<noteq> None \<and>
           (case r_leaseExpires r of None \<Rightarrow> False | Some e \<Rightarrow> e \<ge> now)))) (\<lambda>leased.
     bindP (query ''count archived'' (\<lambda>s. int (length (archivetask s)))) (\<lambda>archived.
     bindP (query ''count failed'' (count_active (\<lambda>r. r_failureCount r > 0))) (\<lambda>failed.
     ret \<lparr>qs_activeCount = active, qs_leasedCount = leased,
          qs_archivedCount = archived, qs_failedCount = failed\<rparr>)))))"

definition GetTask :: "int \<Rightarrow> ('x, Task option) queue_prog" where
  "GetTask taskID = query ''scan task''
     (\<lambda>s. map_option (scanTaskWithData s) (select_active taskID s))"

definition ListActive :: "int \<Rightarrow> int \<Rightarrow> ('x, Task list) queue_prog" where
  "ListActive lim offset =
     (let limit = (if lim \<le> 0 then 100 else lim) in
      if offset < 0 then raise (DbError ''list active'')
      else query ''list active''
        (\<lambda>s. map scanTaskNoData
           (take (nat limit) (drop (nat offset) (sort_key order_key (activetask s))))))"

section \<open>Fenced execution: \<open>execution_mysql.go\<close>\<close>

definition lockExecution :: "ExecutionLease \<Rightarrow> ('x, Task) queue_prog" where
  "lockExecution l =
     bindP (query ''lock execution'' (select_active (l_taskID l))) (\<lambda>row.
     case row of
       None \<Rightarrow> raise ErrNoRows
     | Some r \<Rightarrow>
         let t = scanTaskNoData r in
         if t_leaseOwner t \<noteq> l_leaseOwner l then raise ErrLeaseConflict
         else (case t_leaseExpires t of
                 None \<Rightarrow> raise ErrLeaseConflict
               | Some e \<Rightarrow>
                   if e \<noteq> l_leaseExpires l then raise ErrLeaseConflict
                   else bindP time_now (\<lambda>now.
                     if l_leaseExpires l \<le> now then raise ErrLeaseConflict else ret t)))"

text \<open>The archived ownership window as the receipt of an earlier finalization.\<close>

definition check_receipt :: "ExecutionLease \<Rightarrow> ('x, unit) queue_prog" where
  "check_receipt l =
     bindP (query ''select receipt'' (select_archived (l_taskID l))) (\<lambda>row.
     case row of
       None \<Rightarrow> raise ErrLeaseConflict
     | Some a \<Rightarrow>
         (case (a_leaseOwner a, a_leaseExpires a) of
            (Some owner, Some expiry) \<Rightarrow>
              if owner \<noteq> l_leaseOwner l \<or> expiry \<noteq> l_leaseExpires l \<or> a_result a \<noteq> ResultSuccess
              then raise ErrLeaseConflict else ret ()
          | _ \<Rightarrow> raise (DbError ''converting NULL'')))"

definition with_priority :: "int \<Rightarrow> EnqueueRequest \<Rightarrow> EnqueueRequest" where
  "with_priority p child =
     (case er_priority child of None \<Rightarrow> child\<lparr>er_priority := Some p\<rparr> | Some _ \<Rightarrow> child)"

text \<open>The row \<open>Finalize\<close> and a failing \<open>Resolve\<close> archive, under the window of the request.\<close>

definition fenced_archive_of :: "Task \<Rightarrow> ExecutionLease \<Rightarrow> int \<Rightarrow> int \<Rightarrow> int \<Rightarrow> archive_row" where
  "fenced_archive_of t l res duration now =
     (archive_of t (Some (l_leaseExpires l)) res duration now)\<lparr>a_leaseOwner := Some (t_leaseOwner t)\<rparr>"

definition Finalize :: "FinalizeRequest \<Rightarrow> ('x, unit) queue_prog" where
  "Finalize req =
     in_tx
       (bindP (tryP (bindP (lockExecution (fin_lease req)) (\<lambda>t. ret (Some t)))
                 (\<lambda>e. if e = ErrNoRows
                      then bindP (check_receipt (fin_lease req)) (\<lambda>_. ret None)
                      else raise e))
        (\<lambda>locked.
        case locked of
          None \<Rightarrow> ret ()
        | Some t \<Rightarrow>
            bindP (forP (fin_followups req)
                (\<lambda>child. enqueueInTx (with_priority (t_priority t) child))) (\<lambda>_.
            bindP time_now (\<lambda>now.
            bindP (stmt (DbError ''insert archivetask'') (insert_archivetask
                (fenced_archive_of t (fin_lease req) ResultSuccess (fin_duration req) now))) (\<lambda>_.
            bindP (stmt (DbError ''delete activetask'') (delete_activetask (t_id t))) (\<lambda>_.
            ret ()))))))"

definition Renew :: "RenewRequest \<Rightarrow> ('x, Task) queue_prog" where
  "Renew req =
     in_tx
       (bindP (tryP (lockExecution (ren_lease req))
                 (\<lambda>e. raise (if e = ErrNoRows then ErrLeaseConflict else e)))
        (\<lambda>t.
        bindP time_now (\<lambda>now.
        let expiry = max (now + ren_duration req) (l_leaseExpires (ren_lease req)) in
        bindP (stmt (DbError ''renew'')
            (update_rows (\<lambda>r. r_id r = t_id t) (\<lambda>r. r\<lparr>r_leaseExpires := Some expiry\<rparr>))) (\<lambda>_.
        ret (t\<lparr>t_leaseExpires := Some expiry\<rparr>)))))"

definition Resolve :: "store_config \<Rightarrow> ResolveRequest \<Rightarrow> ('x, unit) queue_prog" where
  "Resolve cfg req =
     in_tx
       (bindP (tryP (lockExecution (res_lease req))
                 (\<lambda>e. raise (if e = ErrNoRows then ErrLeaseConflict else e)))
        (\<lambda>t.
        bindP time_now (\<lambda>now.
        if res_outcome req = ''failure'' then
          bindP (stmt (DbError ''insert archivetask'') (insert_archivetask
              (fenced_archive_of t (res_lease req) ResultFailure 0 now))) (\<lambda>_.
          bindP (stmt (DbError ''delete activetask'') (delete_activetask (t_id t))) (\<lambda>_.
          ret ()))
        else if res_outcome req = ''retry'' then
          (let wait = (case res_retryWait req of None \<Rightarrow> retryWait cfg | Some x \<Rightarrow> x) in
           bindP (stmt (DbError ''retry'') (update_rows (\<lambda>r. r_id r = t_id t) (retry_row now wait)))
             (\<lambda>_. ret ()))
        else if res_outcome req = ''yield'' then
          (let duration = (if res_duration req < 5 then 5 else res_duration req) in
           bindP (stmt (DbError ''yield'') (update_rows (\<lambda>r. r_id r = t_id t) (yield_row now duration)))
             (\<lambda>_. ret ()))
        else raise ErrInvalidOutcome)))"

section \<open>The inbox: \<open>inbox_mysql.go\<close>\<close>

definition acquire_receipt ::
  "string \<Rightarrow> string \<Rightarrow> 'x queue_db_scheme \<Rightarrow> (queue_error + unit) \<times> 'x queue_db_scheme" where
  "acquire_receipt eventID hash s =
     (Inr (),
      (case gorgeinbox s eventID of
         None \<Rightarrow> s\<lparr>gorgeinbox := (gorgeinbox s)(eventID \<mapsto> \<lparr>in_payloadHash = hash, in_response = None\<rparr>)\<rparr>
       | Some _ \<Rightarrow> s))"

definition EnqueueEvent :: "(EnqueueRequest \<Rightarrow> string) \<Rightarrow> EnqueueEventRequest \<Rightarrow> ('x, Task) queue_prog" where
  "EnqueueEvent digest req =
     (let hash = digest (ev_task req) in
      in_tx
        (bindP (stmt (DbError ''insert inbox'') (acquire_receipt (ev_eventID req) hash)) (\<lambda>_.
         bindP (query ''select inbox'' (\<lambda>s. gorgeinbox s (ev_eventID req))) (\<lambda>row.
         case row of
           None \<Rightarrow> raise ErrNoRows
         | Some r \<Rightarrow>
             if in_payloadHash r \<noteq> hash then raise ErrEventConflict
             else (case in_response r of
                     Some task \<Rightarrow> ret task
                   | None \<Rightarrow>
                       bindP (enqueueInTx (ev_task req)) (\<lambda>task.
                       bindP (stmt (DbError ''update inbox'')
                          (\<lambda>s. (Inr (), s\<lparr>gorgeinbox :=
                             (gorgeinbox s)(ev_eventID req \<mapsto> r\<lparr>in_response := Some task\<rparr>)\<rparr>)))
                         (\<lambda>_. ret task)))))))"

end
