(* ===== verification/Exactly_Once.thy ===== *)
theory Exactly_Once
  imports Prelude
begin

text \<open>
  The contract of a call that may be repeated: a worker that lost the reply to a request
  sends it again. A provider keeps an answer for the request; an attempt either changes
  nothing, or finds no answer and leaves one. The client's facts, proved once here, are
  that a history has at most one effective attempt and that every reply is the same.
  The MySQL and the Redis stores are instances.
\<close>

section \<open>Histories of one repeated call\<close>

text \<open>
  \<open>calls m others same k rs s0 s\<close>: attempts of \<open>m\<close>, each in a world of its own, interleaved
  with steps of others lead from \<open>s0\<close> to \<open>s\<close>; \<open>k\<close> attempts changed the state and \<open>rs\<close> are
  the replies that arrived.
\<close>

fun reply_of :: "'e + 'a \<Rightarrow> 'a list" where
  "reply_of (Inl e) = []"
| "reply_of (Inr a) = [a]"

inductive calls ::
  "('s, 'e, 'a) prog \<Rightarrow> ('s \<Rightarrow> 's \<Rightarrow> bool) \<Rightarrow> ('s \<Rightarrow> 's \<Rightarrow> bool) \<Rightarrow> nat \<Rightarrow> 'a list \<Rightarrow> 's \<Rightarrow> 's \<Rightarrow> bool"
  for m others same where
  start: "calls m others same 0 [] s s"
| other: "calls m others same k rs s0 s \<Longrightarrow> others s s' \<Longrightarrow> calls m others same k rs s0 s'"
| again: "calls m others same k rs s0 s \<Longrightarrow> m w n s = (r, n', s') \<Longrightarrow> same s s' \<Longrightarrow>
    calls m others same k (rs @ reply_of r) s0 s'"
| effect: "calls m others same k rs s0 s \<Longrightarrow> m w n s = (r, n', s') \<Longrightarrow> \<not> same s s' \<Longrightarrow>
    calls m others same (Suc k) (rs @ reply_of r) s0 s'"

lemma calls_once:
  assumes "m w n s = (r, n', s')"
  shows "\<exists>k. calls m others same k (reply_of r) s s'"
proof (cases "same s s'")
  case True
  from calls.again [where m = m and others = others and same = same, OF calls.start assms True]
  show ?thesis by auto
next
  case False
  from calls.effect [where m = m and others = others and same = same, OF calls.start assms False]
  show ?thesis by auto
qed

lemma calls_mono:
  assumes "calls m others same k rs s0 s" "\<And>s s'. others s s' \<Longrightarrow> others' s s'"
  shows "calls m others' same k rs s0 s"
  using assms(1) by (induction rule: calls.induct) (auto intro: calls.intros assms(2))

locale repeatable =
  fixes attempt :: "('s, 'e, 'a) prog"
    and others :: "'s \<Rightarrow> 's \<Rightarrow> bool"
    and same :: "'s \<Rightarrow> 's \<Rightarrow> bool"
    and inv :: "'s \<Rightarrow> bool"
    and answer :: "'s \<Rightarrow> 'a option"
  assumes inv_attempt: "inv s \<Longrightarrow> attempt w n s = (r, n', s') \<Longrightarrow> inv s'"
    and inv_others: "inv s \<Longrightarrow> others s s' \<Longrightarrow> inv s'"
    and same_answer: "same s s' \<Longrightarrow> answer s' = answer s"
    and others_keep: "inv s \<Longrightarrow> answer s = Some a \<Longrightarrow> others s s' \<Longrightarrow> answer s' = Some a"
    and attempt_cases: "inv s \<Longrightarrow> attempt w n s = (r, n', s') \<Longrightarrow>
      same s s' \<and> (\<forall>a. r = Inr a \<longrightarrow> answer s = Some a) \<or>
      answer s = None \<and> (\<exists>a. answer s' = Some a \<and> (\<forall>b. r = Inr b \<longrightarrow> b = a))"
begin

lemma calls_inv: "calls attempt others same k rs s0 s \<Longrightarrow> inv s0 \<Longrightarrow> inv s"
  by (induction rule: calls.induct) (auto intro: inv_attempt inv_others)

text \<open>Once there is an answer it stays, and no later attempt has an effect.\<close>

lemma answered_stays:
  assumes "inv s" "answer s = Some a" "attempt w n s = (r, n', s')"
  shows "same s s'" "answer s' = Some a" "set (reply_of r) \<subseteq> {a}"
  using attempt_cases [OF assms(1,3)] same_answer assms(2) by (cases r; auto)+

lemma at_most_once:
  "calls attempt others same k rs s0 s \<Longrightarrow> inv s0 \<Longrightarrow> answer s0 = None \<Longrightarrow>
   (k = 0 \<or> k = 1 \<and> answer s \<noteq> None) \<and> (\<forall>a \<in> set rs. answer s = Some a)"
proof (induction rule: calls.induct)
  case (start s)
  then show ?case by simp
next
  case (other k rs s0 s s')
  have "inv s" using calls_inv [OF other.hyps(1) other.prems(1)] .
  then show ?case using other others_keep [of s _ s'] by auto
next
  case (again k rs s0 s w n r n' s')
  have "inv s" using calls_inv [OF again.hyps(1) again.prems(1)] .
  note cases = attempt_cases [OF this again.hyps(2)] same_answer [OF again.hyps(3)]
  then show ?case using again.IH again.prems by (cases r) auto
next
  case (effect k rs s0 s w n r n' s')
  have "inv s" using calls_inv [OF effect.hyps(1) effect.prems(1)] .
  note cases = attempt_cases [OF this effect.hyps(2)]
  then show ?case using effect.IH effect.prems effect.hyps(3) by (cases r) auto
qed

lemma replies_agree:
  "calls attempt others same k rs s0 s \<Longrightarrow> inv s0 \<Longrightarrow> answer s0 = None \<Longrightarrow>
   a \<in> set rs \<Longrightarrow> b \<in> set rs \<Longrightarrow> a = b"
  by (metis at_most_once option.inject)

text \<open>If what the others do in between never answers this request, a reply means that exactly one attempt had its effect.\<close>

lemma exactly_once:
  assumes quiet: "\<And>s s'. quiet s s' \<Longrightarrow> others s s'" "\<And>s s'. quiet s s' \<Longrightarrow> answer s = None \<Longrightarrow> answer s' = None"
  shows "calls attempt quiet same k rs s0 s \<Longrightarrow> inv s0 \<Longrightarrow> answer s0 = None \<Longrightarrow>
   (answer s = None \<longleftrightarrow> k = 0) \<and> (rs \<noteq> [] \<longrightarrow> k = 1)"
proof (induction rule: calls.induct)
  case (start s)
  then show ?case by simp
next
  case (other k rs s0 s s')
  have "inv s" using calls_inv [OF calls_mono [OF other.hyps(1) quiet(1)] other.prems(1)] .
  then show ?case using other quiet [of s s'] others_keep [of s _ s'] by (cases "answer s") auto
next
  case (again k rs s0 s w n r n' s')
  note all = calls_mono [OF again.hyps(1) quiet(1)]
  have "inv s" using calls_inv [OF all again.prems(1)] .
  note cases = attempt_cases [OF this again.hyps(2)] same_answer [OF again.hyps(3)]
  then show ?case
    using again.IH again.prems at_most_once [OF all again.prems] by (cases r) auto
next
  case (effect k rs s0 s w n r n' s')
  have "inv s" using calls_inv [OF calls_mono [OF effect.hyps(1) quiet(1)] effect.prems(1)] .
  note cases = attempt_cases [OF this effect.hyps(2)]
  then show ?case using effect.IH effect.prems effect.hyps(3) by (cases r) auto
qed

end

end
