(* ===== verification/Store_Interface.thy ===== *)
theory Store_Interface
  imports Queue_Contracts Exactly_Once
begin

text \<open>
  The interface of a task store, \<open>src/go/internal/taskqueue/store.go\<close> with the fenced and the
  event operations, as one type of calls, and the contract of leasing that a store gives to
  its workers. \<open>MySQL_Facts\<close> and \<open>Redis_Facts\<close> interpret the contract.
\<close>

section \<open>Calls\<close>

datatype queue_op =
    OpEnqueue EnqueueRequest
  | OpLease int string "string list"
  | OpComplete int int
  | OpFail FailRequest
  | OpYield int int
  | OpCancel int
  | OpAwaken "int list"
  | OpStats
  | OpGetTask int
  | OpListActive int int
  | OpFinalize FinalizeRequest
  | OpRenew RenewRequest
  | OpResolve ResolveRequest
  | OpEnqueueEvent EnqueueEventRequest

definition discard :: "('s, 'e, 'a) prog \<Rightarrow> ('s, 'e, unit) prog" where
  "discard m = bindP m (\<lambda>_. ret ())"

lemma hoare_discard: "hoare P m (\<lambda>_. Q) (\<lambda>_. E) \<Longrightarrow> hoare P (discard m) (\<lambda>_. Q) (\<lambda>_. E)"
  unfolding discard_def by (rule hoare_bind_wp, rule hoare_ret)

lemma discard_final: "final (discard m w n s) = final (m w n s)"
  by (cases "m w n s"; cases "fst (m w n s)") (auto simp: discard_def bindP_def)

text \<open>A sequence of calls, each in its own world from its own tick on.\<close>

fun run_calls :: "(queue_op \<Rightarrow> ('s, 'e, unit) prog) \<Rightarrow> (queue_op \<times> world \<times> nat) list \<Rightarrow> 's \<Rightarrow> 's" where
  "run_calls run [] s = s"
| "run_calls run ((opn, w, n) # cs) s = run_calls run cs (final (run opn w n s))"

text \<open>
  The calls that may end the window \<open>l\<close> while it runs: the fenced calls that present it, the
  unfenced calls that name its task, and \<open>Awaken\<close> if the owner is the yield marker.
\<close>

fun may_end :: "ExecutionLease \<Rightarrow> queue_op \<Rightarrow> bool" where
  "may_end l (OpComplete i _) = (i = l_taskID l)"
| "may_end l (OpFail req) = (fr_taskID req = l_taskID l)"
| "may_end l (OpYield i _) = (i = l_taskID l)"
| "may_end l (OpCancel i) = (i = l_taskID l)"
| "may_end l (OpAwaken is) = (l_taskID l \<in> set is \<and> l_leaseOwner l = YieldOwner)"
| "may_end l (OpFinalize req) = (fin_lease req = l)"
| "may_end l (OpRenew req) = (ren_lease req = l)"
| "may_end l (OpResolve req) = (res_lease req = l)"
| "may_end l _ = False"

text \<open>A window of a worker: its owner is neither nobody nor the yield marker.\<close>

definition proper_lease :: "ExecutionLease \<Rightarrow> bool" where
  "proper_lease l \<longleftrightarrow> l_leaseOwner l \<noteq> [] \<and> l_leaseOwner l \<noteq> YieldOwner"

text \<open>The calls of a sequence are admitted in the states they meet.\<close>

fun admitted ::
  "(queue_op \<Rightarrow> 's \<Rightarrow> bool) \<Rightarrow> (queue_op \<Rightarrow> ('s, 'e, unit) prog) \<Rightarrow> (queue_op \<times> world \<times> nat) list \<Rightarrow> 's \<Rightarrow> bool" where
  "admitted admits run [] s \<longleftrightarrow> True"
| "admitted admits run ((opn, w, n) # cs) s \<longleftrightarrow> admits opn s \<and> admitted admits run cs (final (run opn w n s))"

lemma all_admitted: "admitted (\<lambda>_ _. True) run cs s"
  by (induction cs arbitrary: s) auto

text \<open>Calls of others, made while the window lives.\<close>

definition by_others :: "(ExecutionLease \<Rightarrow> world \<Rightarrow> bool) \<Rightarrow> ExecutionLease \<Rightarrow> (queue_op \<times> world \<times> nat) list \<Rightarrow> bool" where
  "by_others live l cs \<longleftrightarrow> list_all (\<lambda>(opn, w, n). live l w \<and> \<not> may_end l opn) cs"

section \<open>The contract of leasing\<close>

locale leasing_store =
  fixes run :: "queue_op \<Rightarrow> ('s, 'e, unit) prog"
    and inv :: "'s \<Rightarrow> bool"
    and admits :: "queue_op \<Rightarrow> 's \<Rightarrow> bool"
    and owned :: "ExecutionLease \<Rightarrow> 's \<Rightarrow> bool"
    and live :: "ExecutionLease \<Rightarrow> world \<Rightarrow> bool"
  assumes inv_run: "inv s \<Longrightarrow> admits opn s \<Longrightarrow> run opn w n s = (r, n', s') \<Longrightarrow> inv s'"
    and owned_run: "inv s \<Longrightarrow> admits opn s \<Longrightarrow> proper_lease l \<Longrightarrow> owned l s \<Longrightarrow> live l w \<Longrightarrow>
      \<not> may_end l opn \<Longrightarrow> run opn w n s = (r, n', s') \<Longrightarrow> owned l s'"
    and owned_unique: "inv s \<Longrightarrow> owned l s \<Longrightarrow> owned l' s \<Longrightarrow> l_taskID l = l_taskID l' \<Longrightarrow> l = l'"
begin

lemma inv_run_calls: "inv s \<Longrightarrow> admitted admits run cs s \<Longrightarrow> inv (run_calls run cs s)"
proof (induction cs arbitrary: s)
  case (Cons c cs)
  obtain opn w n where c: "c = (opn, w, n)" by (cases c)
  obtain r n' s' where run: "run opn w n s = (r, n', s')" by (cases "run opn w n s")
  with Cons.prems c have "admits opn s" "admitted admits run cs s'" by simp_all
  moreover from this(1) have "inv s'" using inv_run [OF Cons.prems(1) _ run] by simp
  ultimately show ?case using Cons.IH [of s'] c run by simp
qed simp

text \<open>While a window lives, the calls of others leave it alone.\<close>

lemma owned_run_calls:
  "inv s \<Longrightarrow> admitted admits run cs s \<Longrightarrow> proper_lease l \<Longrightarrow> owned l s \<Longrightarrow> by_others live l cs \<Longrightarrow>
   owned l (run_calls run cs s)"
proof (induction cs arbitrary: s)
  case (Cons c cs)
  obtain opn w n where c: "c = (opn, w, n)" by (cases c)
  obtain r n' s' where run: "run opn w n s = (r, n', s')" by (cases "run opn w n s")
  have "live l w" "\<not> may_end l opn" "by_others live l cs" using Cons.prems(5) c by (simp_all add: by_others_def)
  moreover have "admits opn s" "admitted admits run cs s'" using Cons.prems(2) c run by simp_all
  ultimately have "inv s'" "owned l s'" "admitted admits run cs s'" "by_others live l cs"
    using inv_run [OF Cons.prems(1) _ run] owned_run [OF Cons.prems(1) _ Cons.prems(3,4) _ _ run] by simp_all
  with Cons.IH [of s'] Cons.prems(3) c run show ?case by simp
qed simp

text \<open>Hence two workers never both own a task: a takeover needs the first window to end.\<close>

lemma no_takeover:
  assumes "inv s" "admitted admits run cs s" "proper_lease l" "owned l s" "by_others live l cs"
    "l_taskID l' = l_taskID l" "owned l' (run_calls run cs s)"
  shows "l' = l"
  using owned_unique [OF inv_run_calls [OF assms(1,2)] owned_run_calls [OF assms(1-5)] assms(7)] assms(6) by simp

end

end
