(* ===== verification/MySQL_Facts.thy ===== *)
theory MySQL_Facts
  imports MySQL_Store Store_Interface "HOL-Library.Multiset"
begin

text \<open>
  Facts about the MySQL backend: the invariant of the tables and that every call keeps it
  whatever fails, what a repeated \<open>Finalize\<close> or \<open>EnqueueEvent\<close> does, and which rows a
  \<open>Lease\<close> grants.
\<close>

section \<open>The invariant of the tables\<close>

definition active_ids :: "'x queue_db_scheme \<Rightarrow> int set" where
  "active_ids s = r_id ` set (activetask s)"

definition archived_ids :: "'x queue_db_scheme \<Rightarrow> int set" where
  "archived_ids s = a_id ` set (archivetask s)"

definition lease_shape :: "active_row \<Rightarrow> bool" where
  "lease_shape r \<longleftrightarrow> (r_leaseOwner r \<noteq> None \<longrightarrow> r_leaseExpires r \<noteq> None)"

text \<open>
  Ids are unique in each table and shared by none, the counter row is at or above every id
  ever handed out, every payload is present exactly once and below the \<open>AUTO_INCREMENT\<close>
  position, and an owned row has an expiry.
\<close>

definition keys_ok :: "'x queue_db_scheme \<Rightarrow> bool" where
  "keys_ok s \<longleftrightarrow>
     distinct (map r_id (activetask s)) \<and> distinct (map a_id (archivetask s)) \<and>
     (\<forall>i \<in> active_ids s \<union> archived_ids s.
        \<exists>c. lisk_counter s ''worker_activetask'' = Some c \<and> i \<le> c)"

definition data_ok :: "'x queue_db_scheme \<Rightarrow> bool" where
  "data_ok s \<longleftrightarrow>
     distinct (map fst (taskdata s)) \<and> (\<forall>i \<in> fst ` set (taskdata s). i < taskdata_auto s) \<and>
     (\<forall>r \<in> set (activetask s). r_dataID r \<in> fst ` set (taskdata s))"

definition tables_ok :: "'x queue_db_scheme \<Rightarrow> bool" where
  "tables_ok s \<longleftrightarrow> keys_ok s \<and> active_ids s \<inter> archived_ids s = {} \<and> data_ok s \<and>
     (\<forall>r \<in> set (activetask s). lease_shape r)"

text \<open>
  What no operation ever undoes: no id disappears, the archive and the payload table only
  grow at the end, a row that stays keeps its identity and never loses failures, and an
  answered receipt keeps its answer.
\<close>

definition same_task :: "active_row \<Rightarrow> active_row \<Rightarrow> bool" where
  "same_task r r' \<longleftrightarrow>
     r_id r' = r_id r \<and> r_taskClass r' = r_taskClass r \<and> r_dataID r' = r_dataID r \<and>
     r_priority r' = r_priority r \<and> r_objectPHID r' = r_objectPHID r \<and>
     r_containerPHID r' = r_containerPHID r \<and> r_dateCreated r' = r_dateCreated r \<and>
     r_failureCount r \<le> r_failureCount r'"

definition evolves :: "'x queue_db_scheme \<Rightarrow> 'x queue_db_scheme \<Rightarrow> bool" where
  "evolves s s' \<longleftrightarrow>
     active_ids s \<union> archived_ids s \<subseteq> active_ids s' \<union> archived_ids s' \<and>
     (\<exists>xs. archivetask s' = archivetask s @ xs) \<and> (\<exists>ds. taskdata s' = taskdata s @ ds) \<and>
     (\<forall>r \<in> set (activetask s). \<forall>r' \<in> set (activetask s'). r_id r' = r_id r \<longrightarrow> same_task r r') \<and>
     (\<forall>e x. gorgeinbox s e = Some x \<longrightarrow>
        (\<exists>y. gorgeinbox s' e = Some y \<and> in_payloadHash y = in_payloadHash x \<and>
             (in_response x \<noteq> None \<longrightarrow> in_response y = in_response x)))"

definition auto_up :: "'x queue_db_scheme \<Rightarrow> 'x queue_db_scheme \<Rightarrow> bool" where
  "auto_up s0 s \<longleftrightarrow> taskdata_auto s0 \<le> taskdata_auto s"

definition good :: "'x queue_db_scheme \<Rightarrow> 'x queue_db_scheme \<Rightarrow> bool" where
  "good s0 s \<longleftrightarrow> tables_ok s \<and> evolves s0 s \<and> auto_up s0 s"

lemmas table_defs = keys_ok_def data_ok_def active_ids_def archived_ids_def

lemma same_task_refl [simp]: "same_task r r"
  by (simp add: same_task_def)

lemma same_task_trans: "same_task r r' \<Longrightarrow> same_task r' r'' \<Longrightarrow> same_task r r''"
  by (simp add: same_task_def)

lemma same_task_leased [simp]:
  "same_task r (r\<lparr>r_leaseOwner := ow, r_leaseExpires := ex\<rparr>)" "same_task r (r\<lparr>r_leaseExpires := ex\<rparr>)"
  "same_task r (retry_row now wait r)" "same_task r (yield_row now dur r)"
  by (simp_all add: same_task_def retry_row_def yield_row_def)

lemma row_unique: "tables_ok s \<Longrightarrow> r \<in> set (activetask s) \<Longrightarrow> r' \<in> set (activetask s) \<Longrightarrow> r_id r = r_id r' \<Longrightarrow> r = r'"
  using map_of_key_unique [of r_id "activetask s" r r'] by (simp add: tables_ok_def keys_ok_def)

lemma row_unique_same:
  "tables_ok s \<Longrightarrow> r \<in> set (activetask s) \<Longrightarrow> r' \<in> set (activetask s) \<Longrightarrow> r_id r' = r_id r \<Longrightarrow> same_task r r'"
  by (metis row_unique same_task_refl)

lemma evolves_refl: "tables_ok s \<Longrightarrow> evolves s s"
  by (auto simp: evolves_def intro: row_unique_same)

lemma evolves_ids: "evolves s s' \<Longrightarrow> active_ids s \<union> archived_ids s \<subseteq> active_ids s' \<union> archived_ids s'"
  by (simp add: evolves_def)

lemma evolves_rows:
  "evolves s s' \<Longrightarrow> r \<in> set (activetask s) \<Longrightarrow> r' \<in> set (activetask s') \<Longrightarrow> r_id r' = r_id r \<Longrightarrow> same_task r r'"
  by (simp add: evolves_def)

lemma archived_grow: "evolves s s' \<Longrightarrow> archived_ids s \<subseteq> archived_ids s'"
  by (auto simp: evolves_def archived_ids_def)

lemma evolves_trans:
  assumes wf: "tables_ok s" "tables_ok s'" "tables_ok s''" and e: "evolves s s'" "evolves s' s''"
  shows "evolves s s''"
proof -
  have rows: "same_task r r''"
    if "r \<in> set (activetask s)" "r'' \<in> set (activetask s'')" "r_id r'' = r_id r" for r r''
  proof -
    have "r_id r \<in> active_ids s''"
      unfolding active_ids_def using that(2,3) by (metis imageI)
    then have "r_id r \<notin> archived_ids s'"
      using archived_grow [OF e(2)] wf(3) by (auto simp: tables_ok_def)
    moreover have "r_id r \<in> active_ids s' \<union> archived_ids s'"
      using evolves_ids [OF e(1)] that(1) by (auto simp: active_ids_def)
    ultimately obtain r' where r': "r' \<in> set (activetask s')" "r_id r' = r_id r"
      by (auto simp: active_ids_def)
    then show ?thesis
      using evolves_rows [OF e(1) that(1) r'] evolves_rows [OF e(2) r'(1) that(2)] that(3)
      by (auto intro: same_task_trans)
  qed
  have "\<exists>xs. archivetask s'' = archivetask s @ xs" "\<exists>ds. taskdata s'' = taskdata s @ ds"
    using e by (auto simp: evolves_def)
  moreover have "\<exists>z. gorgeinbox s'' i = Some z \<and> in_payloadHash z = in_payloadHash x \<and>
      (in_response x \<noteq> None \<longrightarrow> in_response z = in_response x)" if "gorgeinbox s i = Some x" for i x
    using e that unfolding evolves_def by (metis (no_types, lifting))
  ultimately show ?thesis
    using evolves_ids [OF e(1)] evolves_ids [OF e(2)] rows by (auto simp: evolves_def)
qed

lemma good_refl: "tables_ok s \<Longrightarrow> good s s"
  by (simp add: good_def evolves_refl auto_up_def)

lemma good_trans: "tables_ok s0 \<Longrightarrow> good s0 s \<Longrightarrow> good s s' \<Longrightarrow> good s0 s'"
  by (auto simp: good_def auto_up_def intro: evolves_trans)

lemma good_ok: "good s0 s \<Longrightarrow> tables_ok s"
  by (simp add: good_def)

lemma rollback_simps [simp]:
  "activetask (rollback s0 s) = activetask s0" "archivetask (rollback s0 s) = archivetask s0"
  "taskdata (rollback s0 s) = taskdata s0" "lisk_counter (rollback s0 s) = lisk_counter s0"
  "gorgeinbox (rollback s0 s) = gorgeinbox s0" "taskdata_auto (rollback s0 s) = taskdata_auto s"
  by (simp_all add: rollback_def)

lemma good_rollback:
  assumes "tables_ok s0" "auto_up s0 s"
  shows "good s0 (rollback s0 s)"
proof -
  have "tables_ok (rollback s0 s)"
    using assms by (fastforce simp: tables_ok_def table_defs auto_up_def)
  moreover have "evolves s0 (rollback s0 s)"
    using evolves_refl [OF assms(1)] by (simp add: evolves_def active_ids_def archived_ids_def)
  ultimately show ?thesis using assms(2) by (simp add: good_def auto_up_def)
qed

subsection \<open>Statements and the invariant\<close>

lemma update_rows_good:
  assumes g: "good s0 s" and wf0: "tables_ok s0"
    and same: "\<And>r. P r \<Longrightarrow> same_task r (f r)"
    and shape: "\<And>r. P r \<Longrightarrow> lease_shape r \<Longrightarrow> lease_shape (f r)"
  shows "good s0 (snd (update_rows P f s))"
proof -
  let ?g = "\<lambda>r. if P r then f r else r"
  let ?s = "snd (update_rows P f s)"
  have wfs: "tables_ok s" using g by (rule good_ok)
  have g_same: "same_task r (?g r)" for r using same by simp
  then have keep: "r_id (?g r) = r_id r" "r_dataID (?g r) = r_dataID r" for r
    unfolding same_task_def by metis+
  have data: "P r \<Longrightarrow> r_dataID (f r) = r_dataID r" for r
    using same [of r] by (simp add: same_task_def)
  have rows: "activetask ?s = map ?g (activetask s)" by (simp add: update_rows_def)
  have ids: "map r_id (activetask ?s) = map r_id (activetask s)"
    unfolding rows by (simp add: keep)
  then have aids: "active_ids ?s = active_ids s"
    unfolding active_ids_def by (metis list.set_map)
  have other: "archivetask ?s = archivetask s" "taskdata ?s = taskdata s" "taskdata_auto ?s = taskdata_auto s"
    "lisk_counter ?s = lisk_counter s" "gorgeinbox ?s = gorgeinbox s"
    by (simp_all add: update_rows_def)
  have "keys_ok ?s" "active_ids ?s \<inter> archived_ids ?s = {}"
    using wfs unfolding tables_ok_def keys_ok_def aids archived_ids_def other ids by blast+
  moreover have "data_ok ?s" "\<forall>r \<in> set (activetask ?s). lease_shape r"
    using wfs shape unfolding tables_ok_def data_ok_def rows other by (auto simp: data)
  ultimately have "tables_ok ?s" by (simp add: tables_ok_def)
  moreover have "evolves s ?s"
  proof -
    have "same_task r (?g x)" if "r \<in> set (activetask s)" "x \<in> set (activetask s)" "r_id (?g x) = r_id r" for r x
      using that g_same [of x] row_unique [OF wfs that(1,2)] keep(1) [of x] by metis
    then show ?thesis
      unfolding evolves_def aids archived_ids_def other rows set_map by blast
  qed
  ultimately have "good s ?s" using other by (simp add: good_def auto_up_def)
  with wf0 g show ?thesis by (rule good_trans)
qed

lemma archive_good:
  assumes g: "good s0 s" and wf0: "tables_ok s0"
    and r: "i \<in> active_ids s" and a: "a_id a = i"
  shows "fst (insert_archivetask a s) = Inr ()"
    and "good s0 (snd (delete_activetask i (snd (insert_archivetask a s))))"
proof -
  let ?s = "snd (delete_activetask i (snd (insert_archivetask a s)))"
  have wfs: "tables_ok s" using g by (rule good_ok)
  with r have fresh: "i \<notin> a_id ` set (archivetask s)"
    by (auto simp: tables_ok_def archived_ids_def)
  with a show "fst (insert_archivetask a s) = Inr ()"
    by (simp add: insert_archivetask_def)
  have eqs: "activetask ?s = filter (\<lambda>r. r_id r \<noteq> i) (activetask s)"
    "archivetask ?s = archivetask s @ [a]" "taskdata ?s = taskdata s"
    "taskdata_auto ?s = taskdata_auto s" "lisk_counter ?s = lisk_counter s" "gorgeinbox ?s = gorgeinbox s"
    using fresh a by (simp_all add: insert_archivetask_def delete_activetask_def)
  have ids: "active_ids ?s = active_ids s - {i}" "archived_ids ?s = insert i (archived_ids s)"
    using a by (auto simp: active_ids_def archived_ids_def eqs)
  have "tables_ok ?s"
    using wfs fresh a r unfolding tables_ok_def ids keys_ok_def data_ok_def eqs
    by (auto simp: distinct_map_filter_key)
  moreover have "evolves s ?s"
    using row_unique_same [OF wfs] unfolding evolves_def ids eqs by auto
  ultimately have "good s ?s" by (simp add: good_def auto_up_def eqs)
  with wf0 g show "good s0 ?s" by (rule good_trans)
qed

subsection \<open>The effect of an enqueue\<close>

definition next_id :: "'x queue_db_scheme \<Rightarrow> int" where
  "next_id s = (case lisk_counter s ''worker_activetask'' of None \<Rightarrow> 1 | Some c \<Rightarrow> c + 1)"

definition enqueue_row :: "EnqueueRequest \<Rightarrow> int \<Rightarrow> 'x queue_db_scheme \<Rightarrow> active_row" where
  "enqueue_row req now s =
     \<lparr>r_id = next_id s, r_taskClass = er_taskClass req, r_leaseOwner = None,
      r_leaseExpires = initial_expiry req, r_failureCount = 0, r_dataID = taskdata_auto s,
      r_failureTime = None, r_priority = initial_priority req,
      r_objectPHID = nullStr (er_objectPHID req), r_containerPHID = nullStr (er_containerPHID req),
      r_dateCreated = now, r_dateModified = now\<rparr>"

definition enqueue_effect :: "EnqueueRequest \<Rightarrow> int \<Rightarrow> 'x queue_db_scheme \<Rightarrow> 'x queue_db_scheme" where
  "enqueue_effect req now s =
     s\<lparr>taskdata := taskdata s @ [(taskdata_auto s, er_data req)],
       taskdata_auto := taskdata_auto s + 1,
       lisk_counter := (lisk_counter s)(''worker_activetask'' \<mapsto> next_id s),
       activetask := activetask s @ [enqueue_row req now s]\<rparr>"

lemma counter_above:
  "tables_ok s \<Longrightarrow> i \<in> active_ids s \<union> archived_ids s \<Longrightarrow>
   \<exists>c. lisk_counter s ''worker_activetask'' = Some c \<and> i \<le> c"
  by (simp add: tables_ok_def keys_ok_def)

lemma next_id_fresh:
  assumes "tables_ok s"
  shows "next_id s \<notin> active_ids s \<union> archived_ids s"
proof
  assume "next_id s \<in> active_ids s \<union> archived_ids s"
  then obtain c where "lisk_counter s ''worker_activetask'' = Some c" "next_id s \<le> c"
    using counter_above [OF assms] by blast
  then show False by (simp add: next_id_def)
qed

lemma enqueue_effect_good:
  assumes g: "good s0 s" and wf0: "tables_ok s0"
  shows "good s0 (enqueue_effect req now s)"
proof -
  let ?s = "enqueue_effect req now s"
  have wfs: "tables_ok s" using g by (rule good_ok)
  have fresh: "next_id s \<notin> active_ids s" "next_id s \<notin> archived_ids s"
    using next_id_fresh [OF wfs] by auto
  have ids: "active_ids ?s = insert (next_id s) (active_ids s)" "archived_ids ?s = archived_ids s"
    by (simp_all add: active_ids_def archived_ids_def enqueue_effect_def enqueue_row_def)
  have below: "i \<le> next_id s" if "i \<in> active_ids s \<union> archived_ids s" for i
    using counter_above [OF wfs that] by (auto simp: next_id_def)
  have "keys_ok ?s"
    using wfs fresh below unfolding keys_ok_def ids
    by (auto simp: tables_ok_def keys_ok_def enqueue_effect_def enqueue_row_def active_ids_def)
  moreover have "data_ok ?s"
    using wfs by (auto simp: tables_ok_def data_ok_def enqueue_effect_def enqueue_row_def)
  moreover have "\<forall>r \<in> set (activetask ?s). lease_shape r"
    using wfs by (auto simp: tables_ok_def enqueue_effect_def enqueue_row_def lease_shape_def)
  ultimately have "tables_ok ?s" using wfs fresh unfolding tables_ok_def ids by blast
  moreover have "evolves s ?s"
  proof -
    have "same_task r r'" if "r \<in> set (activetask s)" "r' \<in> set (activetask ?s)" "r_id r' = r_id r" for r r'
    proof -
      have "r_id r \<noteq> next_id s" using that(1) fresh(1) by (metis active_ids_def imageI)
      with that(2,3) have "r' \<in> set (activetask s)" by (auto simp: enqueue_effect_def enqueue_row_def)
      with that show ?thesis by (auto intro: row_unique_same [OF wfs])
    qed
    then show ?thesis
      unfolding evolves_def ids by (auto simp: enqueue_effect_def)
  qed
  ultimately have "good s ?s" by (simp add: good_def auto_up_def enqueue_effect_def)
  with wf0 g show ?thesis by (rule good_trans)
qed

lemma enqueueInTx_ok:
  assumes "enqueueInTx req w n s = (Inr t, n', s')"
  shows "s' = enqueue_effect req (w_clock w n) s \<and> n' = n + 4 \<and> t_id t = next_id s \<and>
     t = scanTask (enqueue_row req (w_clock w n) s) []"
  using assms
  by (auto simp: enqueueInTx_def nextCounterValue_def bindP_def stmt_def insert_taskdata_def
      insert_activetask_def enqueue_effect_def enqueue_row_def next_id_def Let_def scanTask_def
      str_of_def nullStr_def split: fault.splits if_splits option.splits)

lemma enqueueInTx_err:
  assumes "enqueueInTx req w n s = (Inl e, n', s')"
  shows "auto_up s s'"
  using assms
  by (auto simp: enqueueInTx_def nextCounterValue_def bindP_def stmt_def insert_taskdata_def auto_up_def
      insert_activetask_def Let_def split: fault.splits if_splits option.splits)

lemma enqueueInTx_fine:
  assumes "fine w" "tables_ok s"
  shows "enqueueInTx req w n s =
    (Inr (scanTask (enqueue_row req (w_clock w n) s) []), n + 4, enqueue_effect req (w_clock w n) s)"
proof -
  have "next_id s \<notin> r_id ` set (activetask s)"
    using next_id_fresh [OF assms(2)] by (simp add: active_ids_def)
  then show ?thesis
    using assms(1)
    by (auto simp: enqueueInTx_def nextCounterValue_def bindP_def stmt_def insert_taskdata_def
      insert_activetask_def enqueue_effect_def enqueue_row_def next_id_def Let_def scanTask_def
      str_of_def nullStr_def split: option.splits)
qed

lemma auto_up_trans: "auto_up a b \<Longrightarrow> auto_up b c \<Longrightarrow> auto_up a c"
  by (simp add: auto_up_def)

lemma good_auto_up: "good s0 s \<Longrightarrow> auto_up s0 s"
  by (simp add: good_def)

subsection \<open>Every operation keeps the invariant, whatever fails\<close>

lemma hoare_in_tx_good:
  assumes "tables_ok s0" and "\<And>s. tables_ok s \<Longrightarrow> hoare (good s) body (\<lambda>_. good s) (\<lambda>_. auto_up s)"
  shows "hoare (good s0) (in_tx body) (\<lambda>_. good s0) (\<lambda>_. good s0)"
proof (rule hoare_transaction [where R = auto_up and G = "\<lambda>s _. good s"])
  fix s
  assume "good s0 s"
  then have "tables_ok s" by (rule good_ok)
  then show "hoare (\<lambda>s'. s' = s) body (\<lambda>_. good s) (\<lambda>_. auto_up s)"
    by (intro hoare_pre [OF assms(2)]) (auto intro: good_refl)
next
  fix s s' and a :: 'b
  assume "good s0 s" "good s s'"
  then show "good s0 s' \<and> good s0 s' \<and> good s0 (rollback s s')"
    using assms(1) by (auto intro: good_trans good_rollback good_ok good_auto_up)
next
  fix s s' and e :: queue_error
  assume "good s0 s" "auto_up s s'"
  then show "good s0 (rollback s s')"
    using assms(1) by (auto intro: good_trans good_rollback good_ok)
qed

text \<open>
  Backward rules for the statements, relative to the state \<open>s0\<close> the operation started
  from. The precondition of each says what the statement leaves known to its continuation.
\<close>

named_theorems queue_wp \<open>backward rules for the statements of the MySQL store\<close>

lemma hoare_query [queue_wp]:
  "hoare (\<lambda>s. E (DbError ctx) s \<and> Q (f s) s) (query ctx f) Q E"
  by (auto simp: query_def hoare_def stmt_def split: fault.splits)

lemma hoare_enqueueInTx [queue_wp]:
  assumes "tables_ok s0"
  shows "hoare (\<lambda>s. good s0 s \<and> (\<forall>t s'. good s0 s' \<and> active_ids s \<subseteq> active_ids s' \<and>
        gorgeinbox s' = gorgeinbox s \<longrightarrow> Q t s'))
     (enqueueInTx req) Q (\<lambda>_. auto_up s0)"
proof (rule hoareI; elim conjE)
  fix w n s t n' s'
  assume s: "good s0 s" and Q: "\<forall>t s'. good s0 s' \<and> active_ids s \<subseteq> active_ids s' \<and>
        gorgeinbox s' = gorgeinbox s \<longrightarrow> Q t s'"
    and "enqueueInTx req w n s = (Inr t, n', s')"
  then have "s' = enqueue_effect req (w_clock w n) s" by (auto dest!: enqueueInTx_ok)
  then have "good s0 s'" "active_ids s \<subseteq> active_ids s'" "gorgeinbox s' = gorgeinbox s"
    using enqueue_effect_good [OF s assms] by (auto simp: active_ids_def enqueue_effect_def)
  with Q show "Q t s'" by blast
next
  fix w n s e n' s'
  assume "good s0 s" "enqueueInTx req w n s = (Inl e, n', s')"
  then show "auto_up s0 s'"
    by (auto dest!: enqueueInTx_err good_auto_up intro: auto_up_trans)
qed

lemma hoare_followups [queue_wp]:
  assumes "tables_ok s0"
  shows "hoare (\<lambda>s. good s0 s \<and> (\<forall>ts s'. good s0 s' \<and> active_ids s \<subseteq> active_ids s' \<longrightarrow> Q ts s'))
     (forP xs (\<lambda>c. enqueueInTx (g c))) Q (\<lambda>_. auto_up s0)"
proof (induction xs arbitrary: Q)
  case Nil
  show ?case by (simp add: hoare_def)
next
  case (Cons x xs)
  show ?case
    unfolding forP.simps
    by (rule hoare_pre, rule hoare_bind_wp, rule hoare_bind_wp, rule hoare_ret, rule Cons.IH,
        rule hoare_enqueueInTx [OF assms]) blast
qed

lemma hoare_update_rows [queue_wp]:
  assumes E: "\<And>e s. good s0 s \<Longrightarrow> E e s" and wf: "tables_ok s0"
  shows "hoare
     (\<lambda>s. good s0 s \<and> (\<forall>r. P r \<longrightarrow> same_task r (f r) \<and> lease_shape (f r)) \<and>
          (\<forall>k s'. good s0 s' \<and> active_ids s \<subseteq> active_ids s' \<longrightarrow> Q k s'))
     (stmt err (update_rows P f)) Q E"
proof (rule hoare_pre [OF hoare_stmt], elim conjE)
  fix s
  assume g: "good s0 s" and f: "\<forall>r. P r \<longrightarrow> same_task r (f r) \<and> lease_shape (f r)"
    and Q: "\<forall>k s'. good s0 s' \<and> active_ids s \<subseteq> active_ids s' \<longrightarrow> Q k s'"
  let ?s = "snd (update_rows P f s)"
  have g': "good s0 ?s" using update_rows_good [OF g wf] f by blast
  moreover have id: "r_id (if P r then f r else r) = r_id r" for r
    using f by (simp add: same_task_def)
  have "active_ids s \<subseteq> active_ids ?s"
    by (simp add: active_ids_def update_rows_def image_image id del: if_image_distrib)
  ultimately show "E err s \<and> E err ?s \<and>
      (case fst (update_rows P f s) of Inl e \<Rightarrow> E e ?s | Inr k \<Rightarrow> Q k ?s)"
    using Q E [OF g] E [OF g'] by (simp split: sum.splits)
qed

text \<open>Inserting the archive row and deleting the active row, as the pair they always are.\<close>

lemma hoare_archive_pair [queue_wp]:
  assumes wf: "tables_ok s0" and k: "hoare R (k ()) Q (\<lambda>_. auto_up s0)"
  shows "hoare (\<lambda>s. good s0 s \<and> a_id a \<in> active_ids s \<and> i = a_id a \<and> (\<forall>s'. good s0 s' \<longrightarrow> R s'))
     (bindP (stmt e1 (insert_archivetask a)) (\<lambda>_. bindP (stmt e2 (delete_activetask i)) k))
     Q (\<lambda>_. auto_up s0)"
proof (rule hoare_bind [where R = "\<lambda>_ s'. (\<exists>s. good s0 s \<and> a_id a \<in> active_ids s \<and>
      s' = snd (insert_archivetask a s)) \<and> i = a_id a \<and> (\<forall>s'. good s0 s' \<longrightarrow> R s')"])
  have up: "auto_up s0 (snd (insert_archivetask a s))" if "good s0 s" for s
    using good_auto_up [OF that] by (simp add: auto_up_def insert_archivetask_def)
  show "hoare (\<lambda>s. good s0 s \<and> a_id a \<in> active_ids s \<and> i = a_id a \<and> (\<forall>s'. good s0 s' \<longrightarrow> R s'))
     (stmt e1 (insert_archivetask a))
     (\<lambda>_ s'. (\<exists>s. good s0 s \<and> a_id a \<in> active_ids s \<and> s' = snd (insert_archivetask a s)) \<and>
        i = a_id a \<and> (\<forall>s'. good s0 s' \<longrightarrow> R s')) (\<lambda>_. auto_up s0)"
    by (rule hoare_pre [OF hoare_stmt])
       (auto simp: archive_good(1) [OF _ wf] good_auto_up up split: sum.splits)
  show "hoare (\<lambda>s'. (\<exists>s. good s0 s \<and> a_id a \<in> active_ids s \<and> s' = snd (insert_archivetask a s)) \<and>
      i = a_id a \<and> (\<forall>s'. good s0 s' \<longrightarrow> R s')) (bindP (stmt e2 (delete_activetask i)) k) Q (\<lambda>_. auto_up s0)"
  proof (rule hoare_bind_wp)
    show "hoare R (k x) Q (\<lambda>_. auto_up s0)" for x using k by simp
    show "hoare (\<lambda>s'. (\<exists>s. good s0 s \<and> a_id a \<in> active_ids s \<and> s' = snd (insert_archivetask a s)) \<and>
        i = a_id a \<and> (\<forall>s'. good s0 s' \<longrightarrow> R s')) (stmt e2 (delete_activetask i)) (\<lambda>_. R) (\<lambda>_. auto_up s0)"
    proof (rule hoare_pre [OF hoare_stmt], elim conjE exE)
      fix s' s
      assume s: "good s0 s" "a_id a \<in> active_ids s" "s' = snd (insert_archivetask a s)"
        and i: "i = a_id a" and R: "\<forall>s'. good s0 s' \<longrightarrow> R s'"
      have g: "good s0 (snd (delete_activetask i s'))"
        using archive_good(2) [OF s(1) wf s(2) refl] s(3) i by simp
      then show "auto_up s0 s' \<and> auto_up s0 (snd (delete_activetask i s')) \<and>
          (case fst (delete_activetask i s') of
             Inl _ \<Rightarrow> auto_up s0 (snd (delete_activetask i s')) | Inr _ \<Rightarrow> R (snd (delete_activetask i s')))"
        using R up [OF s(1)] s(3) good_auto_up [OF g] by (simp add: delete_activetask_def)
    qed
  qed
qed

subsubsection \<open>Reading the owned row\<close>

definition holds_window :: "ExecutionLease \<Rightarrow> active_row \<Rightarrow> bool" where
  "holds_window l r \<longleftrightarrow>
     str_of (r_leaseOwner r) = l_leaseOwner l \<and> r_leaseExpires r = Some (l_leaseExpires l)"

lemma select_active_Some: "select_active i s = Some r \<Longrightarrow> r \<in> set (activetask s) \<and> r_id r = i"
  by (auto simp: select_active_def find_Some_iff)

lemma select_active_None: "select_active i s = None \<longleftrightarrow> i \<notin> active_ids s"
  by (auto simp: select_active_def find_None_iff active_ids_def)

lemma select_active_ids: "select_active i s = Some r \<Longrightarrow> r_id r \<in> active_ids s"
  by (auto simp: active_ids_def dest: select_active_Some)

lemma scanTask_sel [simp]:
  "t_id (scanTaskNoData r) = r_id r" "t_leaseOwner (scanTaskNoData r) = str_of (r_leaseOwner r)"
  "t_leaseExpires (scanTaskNoData r) = r_leaseExpires r" "t_priority (scanTaskNoData r) = r_priority r"
  by (simp_all add: scanTaskNoData_def scanTask_def)

lemma archive_of_id [simp]:
  "a_id (archive_of t e res dur now) = t_id t" "a_id (fenced_archive_of t l res dur now) = t_id t"
  by (simp_all add: archive_of_def fenced_archive_of_def)

lemma lockExecution_ok:
  assumes "lockExecution l w n s = (Inr t, n', s')"
  shows "s' = s \<and> (\<exists>r. select_active (l_taskID l) s = Some r \<and> holds_window l r \<and>
     t = scanTaskNoData r) \<and> w_clock w (Suc n) < l_leaseExpires l \<and> n' = n + 2"
  using assms
  by (auto simp: lockExecution_def query_def bindP_def stmt_def Let_def holds_window_def
      split: fault.splits option.splits if_splits)

lemma lockExecution_err:
  assumes "lockExecution l w n s = (Inl e, n', s')"
  shows "s' = s"
  using assms
  by (auto simp: lockExecution_def query_def bindP_def stmt_def Let_def
      split: fault.splits option.splits if_splits)

lemma hoare_lockExecution [queue_wp]:
  "hoare (\<lambda>s. (\<forall>e. E e s) \<and>
      (\<forall>r. select_active (l_taskID l) s = Some r \<longrightarrow> holds_window l r \<longrightarrow> Q (scanTaskNoData r) s))
     (lockExecution l) Q E"
  by (rule hoareI) (auto dest!: lockExecution_ok lockExecution_err)

lemma hoare_lock_or_conflict [queue_wp]:
  "hoare (\<lambda>s. (\<forall>e. E e s) \<and>
      (\<forall>r. select_active (l_taskID l) s = Some r \<longrightarrow> holds_window l r \<longrightarrow> Q (scanTaskNoData r) s))
     (tryP (lockExecution l) (\<lambda>e. raise (f e))) Q E"
  by (rule hoareI)
     (auto simp: tryP_def split: prod.splits sum.splits dest!: lockExecution_ok lockExecution_err)

lemma hoare_check_receipt [queue_wp]:
  "hoare (\<lambda>s. (\<forall>e. E e s) \<and> Q () s) (check_receipt l) Q E"
  by (rule hoareI)
     (auto simp: check_receipt_def query_def bindP_def stmt_def
       split: option.splits fault.splits if_splits)

subsubsection \<open>The operations\<close>

lemmas queue_steps =
  queue_wp hoare_ret hoare_raise hoare_time_now hoare_if hoare_case_option hoare_case_prod hoare_bind_wp

lemma lease_shape_kept [simp]:
  "lease_shape (retry_row now wait r)" "lease_shape (yield_row now dur r)"
  "lease_shape (r\<lparr>r_leaseExpires := Some e\<rparr>)"
  "lease_shape (r\<lparr>r_leaseOwner := ow, r_leaseExpires := Some e\<rparr>)"
  by (simp_all add: lease_shape_def retry_row_def yield_row_def)

lemma Enqueue_good: "tables_ok s0 \<Longrightarrow> hoare (good s0) (Enqueue req) (\<lambda>_. good s0) (\<lambda>_. good s0)"
  unfolding Enqueue_def
  by (rule hoare_in_tx_good, assumption, rule hoare_pre, (rule queue_steps | assumption)+) auto

lemma Lease_good: "tables_ok s0 \<Longrightarrow> hoare (good s0) (Lease cfg lim owner classes) (\<lambda>_. good s0) (\<lambda>_. good s0)"
  unfolding Lease_def lease_unleased_def lease_expired_def Let_def
  by (rule hoare_bind [where R = "\<lambda>_. good s0"], rule hoare_pre, rule hoare_time_now, simp,
      rule hoare_in_tx_good, assumption, rule hoare_pre, (rule queue_steps good_auto_up | assumption)+)
     (auto intro: good_auto_up split: if_splits)

lemma archiveTask_good: "tables_ok s0 \<Longrightarrow> hoare (good s0) (archiveTask i res dur) (\<lambda>_. good s0) (\<lambda>_. good s0)"
  unfolding archiveTask_def Let_def
  by (rule hoare_in_tx_good, assumption, rule hoare_pre, (rule queue_steps | assumption)+)
     (auto intro: good_auto_up dest: select_active_ids select_active_Some split: option.splits)

lemma Complete_good: "tables_ok s0 \<Longrightarrow> hoare (good s0) (Complete i dur) (\<lambda>_. good s0) (\<lambda>_. good s0)"
  unfolding Complete_def by (rule archiveTask_good)

lemma Cancel_good: "tables_ok s0 \<Longrightarrow> hoare (good s0) (Cancel i) (\<lambda>_. good s0) (\<lambda>_. good s0)"
  unfolding Cancel_def by (rule archiveTask_good)

lemma Fail_good: "tables_ok s0 \<Longrightarrow> hoare (good s0) (Fail cfg req) (\<lambda>_. good s0) (\<lambda>_. good s0)"
  unfolding Fail_def Let_def
  by (rule hoare_pre, (rule queue_steps archiveTask_good | assumption)+) auto

lemma Yield_good: "tables_ok s0 \<Longrightarrow> hoare (good s0) (Yield i dur) (\<lambda>_. good s0) (\<lambda>_. good s0)"
  unfolding Yield_def Let_def
  by (rule hoare_pre, (rule queue_steps | assumption)+) auto

lemma Awaken_good: "tables_ok s0 \<Longrightarrow> hoare (good s0) (Awaken is) (\<lambda>_. good s0) (\<lambda>_. good s0)"
  unfolding Awaken_def Let_def
  by (rule hoare_pre, (rule queue_steps | assumption)+) auto

lemma Finalize_good: "tables_ok s0 \<Longrightarrow> hoare (good s0) (Finalize req) (\<lambda>_. good s0) (\<lambda>_. good s0)"
  unfolding Finalize_def Let_def
  by (rule hoare_in_tx_good, assumption, rule hoare_pre, (rule queue_steps hoare_tryP | assumption)+)
     (auto intro: good_auto_up dest: select_active_ids select_active_Some split: option.splits)

lemma Renew_good: "tables_ok s0 \<Longrightarrow> hoare (good s0) (Renew req) (\<lambda>_. good s0) (\<lambda>_. good s0)"
  unfolding Renew_def Let_def
  by (rule hoare_in_tx_good, assumption, rule hoare_pre, (rule queue_steps good_auto_up | assumption)+)
     (auto intro: good_auto_up)

lemma Resolve_good: "tables_ok s0 \<Longrightarrow> hoare (good s0) (Resolve cfg req) (\<lambda>_. good s0) (\<lambda>_. good s0)"
  unfolding Resolve_def Let_def
  by (rule hoare_in_tx_good, assumption, rule hoare_pre, (rule queue_steps good_auto_up | assumption)+)
     (auto intro: good_auto_up dest: select_active_ids select_active_Some)

lemma inbox_good:
  assumes "good s0 s" "tables_ok s0"
    and "\<And>x. gorgeinbox s i = Some x \<Longrightarrow> in_payloadHash y = in_payloadHash x \<and>
           (in_response x \<noteq> None \<longrightarrow> in_response y = in_response x)"
  shows "good s0 (s\<lparr>gorgeinbox := (gorgeinbox s)(i \<mapsto> y)\<rparr>)"
proof -
  have "tables_ok s" using assms(1) by (rule good_ok)
  then have "good s (s\<lparr>gorgeinbox := (gorgeinbox s)(i \<mapsto> y)\<rparr>)"
    using evolves_refl [of s] assms(3)
    by (auto simp: good_def tables_ok_def evolves_def auto_up_def table_defs)
  with assms show ?thesis by (blast intro: good_trans)
qed

lemma acquire_receipt_good:
  assumes "good s0 s" "tables_ok s0"
  shows "good s0 (snd (acquire_receipt i h s))"
  using assms inbox_good [OF assms, of i "\<lparr>in_payloadHash = h, in_response = None\<rparr>"]
  by (auto simp: acquire_receipt_def split: option.splits)


lemma fst_acquire_receipt: "fst (acquire_receipt i h s) = Inr ()"
  by (simp add: acquire_receipt_def)

lemma hoare_acquire_receipt:
  assumes "tables_ok s0"
  shows "hoare (\<lambda>s. good s0 s \<and> (\<forall>s'. good s0 s' \<longrightarrow> Q () s'))
     (stmt err (acquire_receipt i h)) Q (\<lambda>_. auto_up s0)"
  by (rule hoare_pre [OF hoare_stmt])
     (auto intro: good_auto_up acquire_receipt_good [OF _ assms] simp: fst_acquire_receipt)

lemma hoare_answer_receipt:
  assumes "tables_ok s0"
  shows "hoare (\<lambda>s. good s0 s \<and>
       (\<forall>x. gorgeinbox s i = Some x \<longrightarrow> in_payloadHash y = in_payloadHash x \<and> in_response x = None) \<and>
       (\<forall>s'. good s0 s' \<longrightarrow> Q () s'))
     (stmt err (\<lambda>s. (Inr (), s\<lparr>gorgeinbox := (gorgeinbox s)(i \<mapsto> y)\<rparr>))) Q (\<lambda>_. auto_up s0)"
proof (rule hoare_pre [OF hoare_stmt], elim conjE)
  fix s
  assume s: "good s0 s"
    and x: "\<forall>x. gorgeinbox s i = Some x \<longrightarrow> in_payloadHash y = in_payloadHash x \<and> in_response x = None"
    and Q: "\<forall>s'. good s0 s' \<longrightarrow> Q () s'"
  have "good s0 (s\<lparr>gorgeinbox := (gorgeinbox s)(i \<mapsto> y)\<rparr>)"
    using x by (intro inbox_good [OF s assms]) auto
  then show "auto_up s0 s \<and> auto_up s0 (snd (Inr (), s\<lparr>gorgeinbox := (gorgeinbox s)(i \<mapsto> y)\<rparr>)) \<and>
     (case fst (Inr (), s\<lparr>gorgeinbox := (gorgeinbox s)(i \<mapsto> y)\<rparr>) of
        Inl e \<Rightarrow> auto_up s0 (snd (Inr (), s\<lparr>gorgeinbox := (gorgeinbox s)(i \<mapsto> y)\<rparr>))
      | Inr a \<Rightarrow> Q a (snd (Inr (), s\<lparr>gorgeinbox := (gorgeinbox s)(i \<mapsto> y)\<rparr>)))"
    using good_auto_up [OF s] good_auto_up Q by simp
qed

lemma EnqueueEvent_good:
  "tables_ok s0 \<Longrightarrow> hoare (good s0) (EnqueueEvent digest req) (\<lambda>_. good s0) (\<lambda>_. good s0)"
  unfolding EnqueueEvent_def Let_def
  by (rule hoare_in_tx_good, assumption, rule hoare_pre,
      (rule hoare_acquire_receipt hoare_answer_receipt queue_steps | assumption)+)
     (auto intro: good_auto_up split: option.splits)

lemma reading_good:
  "hoare (good s0) Stats (\<lambda>_. good s0) (\<lambda>_. good s0)"
  "hoare (good s0) (GetTask i) (\<lambda>_. good s0) (\<lambda>_. good s0)"
  "hoare (good s0) (ListActive lim off) (\<lambda>_. good s0) (\<lambda>_. good s0)"
  unfolding Stats_def GetTask_def ListActive_def Let_def
  by (rule hoare_pre, (rule hoare_query wp hoare_bind_wp)+, simp)+

section \<open>Histories of the store\<close>

fun run_op :: "store_config \<Rightarrow> (EnqueueRequest \<Rightarrow> string) \<Rightarrow> queue_op \<Rightarrow> ('x, unit) queue_prog" where
  "run_op cfg digest (OpEnqueue req) = discard (Enqueue req)"
| "run_op cfg digest (OpLease lim owner classes) = discard (Lease cfg lim owner classes)"
| "run_op cfg digest (OpComplete i dur) = discard (Complete i dur)"
| "run_op cfg digest (OpFail req) = discard (Fail cfg req)"
| "run_op cfg digest (OpYield i dur) = discard (Yield i dur)"
| "run_op cfg digest (OpCancel i) = discard (Cancel i)"
| "run_op cfg digest (OpAwaken is) = discard (Awaken is)"
| "run_op cfg digest OpStats = discard Stats"
| "run_op cfg digest (OpGetTask i) = discard (GetTask i)"
| "run_op cfg digest (OpListActive lim off) = discard (ListActive lim off)"
| "run_op cfg digest (OpFinalize req) = discard (Finalize req)"
| "run_op cfg digest (OpRenew req) = discard (Renew req)"
| "run_op cfg digest (OpResolve req) = discard (Resolve cfg req)"
| "run_op cfg digest (OpEnqueueEvent req) = discard (EnqueueEvent digest req)"

inductive history ::
  "store_config \<Rightarrow> (EnqueueRequest \<Rightarrow> string) \<Rightarrow> 'x queue_db_scheme \<Rightarrow> 'x queue_db_scheme \<Rightarrow> bool"
  for cfg digest s0 where
  start: "history cfg digest s0 s0"
| call: "history cfg digest s0 s \<Longrightarrow> run_op cfg digest opn w n s = (r, n', s') \<Longrightarrow> history cfg digest s0 s'"

lemma run_op_good:
  "tables_ok s0 \<Longrightarrow> hoare (good s0) (run_op cfg digest opn) (\<lambda>_. good s0) (\<lambda>_. good s0)"
  by (cases opn)
     (simp_all add: hoare_discard Enqueue_good Lease_good Complete_good Fail_good Yield_good Cancel_good
       Awaken_good reading_good Finalize_good Renew_good Resolve_good EnqueueEvent_good)

lemma history_good: "history cfg digest s0 s \<Longrightarrow> tables_ok s0 \<Longrightarrow> good s0 s"
proof (induction rule: history.induct)
  case start
  then show ?case by (rule good_refl)
next
  case (call s opn w n r n' s')
  then show ?case
    using hoareD_inv [OF run_op_good [OF call.prems, of cfg digest opn], of s w n] by simp
qed

definition empty_db :: queue_db where
  "empty_db = \<lparr>activetask = [], archivetask = [], taskdata = [], taskdata_auto = 1,
     lisk_counter = (\<lambda>_. None), gorgeinbox = (\<lambda>_. None)\<rparr>"

lemma empty_db_ok: "tables_ok empty_db"
  by (simp add: tables_ok_def table_defs empty_db_def)

section \<open>Repeated calls\<close>

text \<open>Equal tables: only the \<open>AUTO_INCREMENT\<close> position may have moved.\<close>

definition same_tables :: "'x queue_db_scheme \<Rightarrow> 'x queue_db_scheme \<Rightarrow> bool" where
  "same_tables s s' \<longleftrightarrow> s' = rollback s s'"

lemma same_tables_refl [simp]: "same_tables s s"
  by (simp add: same_tables_def rollback_def)

lemma same_tables_rollback [simp]: "same_tables s (rollback s s1)"
  by (simp add: same_tables_def rollback_def)

lemma same_tablesD:
  assumes "same_tables s s'"
  shows "activetask s' = activetask s" "archivetask s' = archivetask s" "taskdata s' = taskdata s"
    "lisk_counter s' = lisk_counter s" "gorgeinbox s' = gorgeinbox s"
  using assms rollback_simps [of s s'] unfolding same_tables_def by metis+

lemma in_tx_cases:
  assumes "in_tx body w n s = (r, n', s')"
  obtains (undone) e where "same_tables s s'" "r = Inl e"
  | (committed) a n1 where "body w (Suc n) s = (Inr a, n1, s')" "r = Inr a \<or> r = Inl (DbError ''tx'')"
  using transaction_atomic [OF assms] by auto

subsection \<open>Finalize\<close>

text \<open>The follow-up tasks are enqueued in order, each at its own reading of the clock.\<close>

fun enqueue_all :: "EnqueueRequest list \<Rightarrow> int list \<Rightarrow> 'x queue_db_scheme \<Rightarrow> 'x queue_db_scheme" where
  "enqueue_all (q # qs) (t # ts) s = enqueue_all qs ts (enqueue_effect q t s)"
| "enqueue_all _ _ s = s"

definition finalize_effect ::
  "FinalizeRequest \<Rightarrow> active_row \<Rightarrow> int list \<Rightarrow> int \<Rightarrow> 'x queue_db_scheme \<Rightarrow> 'x queue_db_scheme" where
  "finalize_effect req r ts now s =
     (let s1 = enqueue_all (map (with_priority (r_priority r)) (fin_followups req)) ts s in
      s1\<lparr>archivetask := archivetask s1 @
           [fenced_archive_of (scanTaskNoData r) (fin_lease req) ResultSuccess (fin_duration req) now],
         activetask := filter (\<lambda>x. r_id x \<noteq> r_id r) (activetask s1)\<rparr>)"

definition has_receipt :: "ExecutionLease \<Rightarrow> 'x queue_db_scheme \<Rightarrow> bool" where
  "has_receipt l s \<longleftrightarrow> l_taskID l \<notin> active_ids s \<and>
     (\<exists>a. select_archived (l_taskID l) s = Some a \<and> a_leaseOwner a = Some (l_leaseOwner l) \<and>
        a_leaseExpires a = Some (l_leaseExpires l) \<and> a_result a = ResultSuccess)"

lemma followups_ok:
  "forP xs (\<lambda>c. enqueueInTx (g c)) w n s = (Inr ys, n', s') \<Longrightarrow>
   \<exists>ts. length ts = length xs \<and> s' = enqueue_all (map g xs) ts s"
proof (induction xs arbitrary: n s ys)
  case Nil
  then show ?case by simp
next
  case (Cons x xs)
  from Cons.prems obtain y n1 s1 ys' where
    y: "enqueueInTx (g x) w n s = (Inr y, n1, s1)"
    and "forP xs (\<lambda>c. enqueueInTx (g c)) w n1 s1 = (Inr ys', n', s')"
    by (auto elim!: bindP_cases)
  then have ys: "forP xs (\<lambda>c. enqueueInTx (g c)) w n1 (enqueue_effect (g x) (w_clock w n) s) = (Inr ys', n', s')"
    using enqueueInTx_ok [OF y] by simp
  from Cons.IH [OF ys] obtain ts where "length ts = length xs"
    "s' = enqueue_all (map g xs) ts (enqueue_effect (g x) (w_clock w n) s)" by blast
  then show ?case by (intro exI [of _ "w_clock w n # ts"]) simp
qed

lemma enqueue_all_good:
  "good s0 s \<Longrightarrow> tables_ok s0 \<Longrightarrow> good s0 (enqueue_all qs ts s)"
  by (induction qs ts s rule: enqueue_all.induct) (auto intro: enqueue_effect_good)

lemma enqueue_all_archive: "archivetask (enqueue_all qs ts s) = archivetask s"
  by (induction qs ts s rule: enqueue_all.induct) (auto simp: enqueue_effect_def)

lemma enqueue_all_active: "\<exists>rs. activetask (enqueue_all qs ts s) = activetask s @ rs"
  by (induction qs ts s rule: enqueue_all.induct) (auto simp: enqueue_effect_def)

lemma check_receipt_run:
  assumes "check_receipt l w n s = (r, n', s')"
  shows "s' = s \<and> (r = Inr () \<longrightarrow> l_taskID l \<notin> active_ids s \<longrightarrow> has_receipt l s)"
  using assms
  by (auto simp: check_receipt_def query_def bindP_def stmt_def has_receipt_def
      split: option.splits fault.splits if_splits)

lemma lockExecution_gone:
  "lockExecution l w n s = (Inl ErrNoRows, n', s') \<Longrightarrow> l_taskID l \<notin> active_ids s"
  by (auto simp: lockExecution_def query_def bindP_def stmt_def Let_def simp flip: select_active_None
      split: fault.splits option.splits if_splits)

lemma lock_or_receipt:
  assumes "tryP (bindP (lockExecution l) (\<lambda>t. ret (Some t)))
      (\<lambda>e. if e = ErrNoRows then bindP (check_receipt l) (\<lambda>_. ret None) else raise e)
      w n s = (Inr v, n', s')"
  shows "s' = s \<and> (case v of
      None \<Rightarrow> has_receipt l s
    | Some t \<Rightarrow> \<exists>r. select_active (l_taskID l) s = Some r \<and> holds_window l r \<and>
        t = scanTaskNoData r \<and> w_clock w (Suc n) < l_leaseExpires l)"
  using assms
proof (cases rule: tryP_cases)
  case (ok a)
  then show ?thesis by (auto elim!: bindP_cases dest!: lockExecution_ok)
next
  case (handled e n1 s1)
  then have s1: "s1 = s" and gone: "e = ErrNoRows \<Longrightarrow> l_taskID l \<notin> active_ids s"
    by (auto elim!: bindP_cases dest: lockExecution_err lockExecution_gone)
  show ?thesis
  proof (cases "e = ErrNoRows")
    case True
    with handled(2) gone s1 show ?thesis
      by (auto elim!: bindP_cases dest!: check_receipt_run)
  next
    case False
    with handled(2) show ?thesis by simp
  qed
qed

lemma Finalize_cases:
  assumes "Finalize req w n s = (r, n', s')" "tables_ok s"
  obtains (unchanged) "same_tables s s'" "r = Inr () \<Longrightarrow> has_receipt (fin_lease req) s"
  | (archived) row ts now m where
      "select_active (l_taskID (fin_lease req)) s = Some row" "holds_window (fin_lease req) row"
      "w_clock w m < l_leaseExpires (fin_lease req)" "length ts = length (fin_followups req)"
      "s' = finalize_effect req row ts now s"
  using assms(1) unfolding Finalize_def
proof (cases rule: in_tx_cases)
  case (undone e)
  then show ?thesis using unchanged by simp
next
  case (committed a n1)
  from bindP_ok [OF committed(1)] obtain v n2 s2 where
    lock: "tryP (bindP (lockExecution (fin_lease req)) (\<lambda>t. ret (Some t)))
      (\<lambda>e. if e = ErrNoRows then bindP (check_receipt (fin_lease req)) (\<lambda>_. ret None) else raise e)
      w (Suc n) s = (Inr v, n2, s2)"
    and rest: "(case v of None \<Rightarrow> ret () | Some t \<Rightarrow>
            bindP (forP (fin_followups req)
                (\<lambda>child. enqueueInTx (with_priority (t_priority t) child))) (\<lambda>_.
            bindP time_now (\<lambda>now.
            bindP (stmt (DbError ''insert archivetask'') (insert_archivetask
                (fenced_archive_of t (fin_lease req) ResultSuccess (fin_duration req) now))) (\<lambda>_.
            bindP (stmt (DbError ''delete activetask'') (delete_activetask (t_id t))) (\<lambda>_.
            ret ()))))) w n2 s2 = (Inr a, n1, s')"
    by blast
  note v = lock_or_receipt [OF lock]
  show ?thesis
  proof (cases v)
    case None
    with v rest have "s' = s" "has_receipt (fin_lease req) s" by simp_all
    then show ?thesis using unchanged by simp
  next
    case (Some t)
    with v obtain row where s2: "s2 = s" and row: "select_active (l_taskID (fin_lease req)) s = Some row"
      "holds_window (fin_lease req) row" "t = scanTaskNoData row"
      "w_clock w (Suc (Suc n)) < l_leaseExpires (fin_lease req)" by auto
    from rest Some s2 obtain ys n3 s3 where
      f: "forP (fin_followups req) (\<lambda>c. enqueueInTx (with_priority (t_priority t) c)) w n2 s = (Inr ys, n3, s3)"
      and s': "s' = s3\<lparr>archivetask := archivetask s3 @
           [fenced_archive_of t (fin_lease req) ResultSuccess (fin_duration req) (w_clock w n3)],
         activetask := filter (\<lambda>x. r_id x \<noteq> t_id t) (activetask s3)\<rparr>"
      by (auto elim!: bindP_cases simp: stmt_def insert_archivetask_def delete_activetask_def
          split: fault.splits if_splits)
    from followups_ok [OF f] obtain ts where ts: "length ts = length (fin_followups req)"
      "s3 = enqueue_all (map (with_priority (t_priority t)) (fin_followups req)) ts s" by blast
    show ?thesis
      by (rule archived [OF row(1,2,4) ts(1), of "w_clock w n3"])
         (use s' ts(2) row(3) in \<open>simp add: finalize_effect_def Let_def\<close>)
  qed
qed

lemma select_archived_None: "select_archived i s = None \<longleftrightarrow> i \<notin> archived_ids s"
  by (auto simp: select_archived_def find_None_iff archived_ids_def)

text \<open>The effect of a finalization, and that its receipt outlives everything.\<close>

lemma finalize_effect_receipt:
  assumes "tables_ok s" "select_active (l_taskID (fin_lease req)) s = Some row" "holds_window (fin_lease req) row"
  shows "has_receipt (fin_lease req) (finalize_effect req row ts now s)"
proof -
  let ?s = "finalize_effect req row ts now s"
  have id: "r_id row = l_taskID (fin_lease req)" "r_id row \<in> active_ids s"
    using select_active_Some [OF assms(2)] select_active_ids [OF assms(2)] by simp_all
  then have "r_id row \<notin> archived_ids s" using assms(1) by (auto simp: tables_ok_def)
  then have "find (\<lambda>a. a_id a = l_taskID (fin_lease req)) (archivetask s) = None"
    using id(1) select_archived_None by (metis select_archived_def)
  moreover have "archivetask ?s = archivetask s @
     [fenced_archive_of (scanTaskNoData row) (fin_lease req) ResultSuccess (fin_duration req) now]"
    by (simp add: finalize_effect_def Let_def enqueue_all_archive)
  ultimately have "select_archived (l_taskID (fin_lease req)) ?s =
     Some (fenced_archive_of (scanTaskNoData row) (fin_lease req) ResultSuccess (fin_duration req) now)"
    using id(1) by (simp add: select_archived_def find_append)
  moreover have "l_taskID (fin_lease req) \<notin> active_ids ?s"
    using id(1) by (auto simp: finalize_effect_def Let_def active_ids_def)
  ultimately show ?thesis
    using assms(3) by (simp add: has_receipt_def fenced_archive_of_def archive_of_def holds_window_def)
qed

lemma has_receipt_stays:
  assumes "tables_ok s'" "evolves s s'" "has_receipt l s"
  shows "has_receipt l s'"
proof -
  obtain xs where xs: "archivetask s' = archivetask s @ xs" using assms(2) by (auto simp: evolves_def)
  from assms(3) obtain a where a: "select_archived (l_taskID l) s = Some a" by (auto simp: has_receipt_def)
  then have "select_archived (l_taskID l) s' = Some a"
    by (simp add: select_archived_def xs find_append)
  moreover have "l_taskID l \<notin> active_ids s'"
  proof -
    have "l_taskID l \<in> archived_ids s'"
      using \<open>select_archived (l_taskID l) s' = Some a\<close> select_archived_None [of "l_taskID l" s'] by auto
    then show ?thesis using assms(1) by (auto simp: tables_ok_def)
  qed
  ultimately show ?thesis using assms(3) a by (auto simp: has_receipt_def)
qed

lemma has_receipt_same: "same_tables s s' \<Longrightarrow> has_receipt l s' = has_receipt l s"
  by (simp add: has_receipt_def select_archived_def active_ids_def same_tablesD)

text \<open>A step of anybody: one call of the store, in any world.\<close>

definition any_call :: "store_config \<Rightarrow> (EnqueueRequest \<Rightarrow> string) \<Rightarrow> 'x queue_db_scheme \<Rightarrow> 'x queue_db_scheme \<Rightarrow> bool" where
  "any_call cfg digest s s' \<longleftrightarrow> (\<exists>opn w n r n'. run_op cfg digest opn w n s = (r, n', s'))"

lemma any_call_good: "tables_ok s \<Longrightarrow> any_call cfg digest s s' \<Longrightarrow> good s s'"
  unfolding any_call_def using hoareD_inv [OF run_op_good good_refl] by (metis snd_conv)

lemma Finalize_any_call: "Finalize req w n s = (r, n', s') \<Longrightarrow> any_call cfg digest s s'"
  unfolding any_call_def
  by (rule exI [of _ "OpFinalize req"], rule exI [of _ w], rule exI [of _ n])
     (cases r; simp add: discard_def bindP_def)

lemma EnqueueEvent_any_call: "EnqueueEvent digest req w n s = (r, n', s') \<Longrightarrow> any_call cfg digest s s'"
  unfolding any_call_def
  by (rule exI [of _ "OpEnqueueEvent req"], rule exI [of _ w], rule exI [of _ n])
     (cases r; simp add: discard_def bindP_def)

definition finalize_answer :: "FinalizeRequest \<Rightarrow> 'x queue_db_scheme \<Rightarrow> unit option" where
  "finalize_answer req s = (if has_receipt (fin_lease req) s then Some () else None)"

interpretation finalize: repeatable "Finalize req" "any_call cfg digest" same_tables tables_ok
  "finalize_answer req" for req cfg digest
proof unfold_locales
  fix s s' :: "'x queue_db_scheme" and w n n' and r :: "queue_error + unit" and a :: unit
  show "tables_ok s \<Longrightarrow> Finalize req w n s = (r, n', s') \<Longrightarrow> tables_ok s'"
    using any_call_good [OF _ Finalize_any_call] good_ok by blast
  show "tables_ok s \<Longrightarrow> any_call cfg digest s s' \<Longrightarrow> tables_ok s'"
    using any_call_good good_ok by blast
  show "same_tables s s' \<Longrightarrow> finalize_answer req s' = finalize_answer req s"
    by (simp add: finalize_answer_def has_receipt_same)
  show "tables_ok s \<Longrightarrow> finalize_answer req s = Some a \<Longrightarrow> any_call cfg digest s s' \<Longrightarrow>
      finalize_answer req s' = Some a"
    using any_call_good [of s cfg digest s'] has_receipt_stays [of s' s]
    by (auto simp: finalize_answer_def good_def split: if_splits)
  assume ok: "tables_ok s" and run: "Finalize req w n s = (r, n', s')"
  from run ok show "same_tables s s' \<and> (\<forall>a. r = Inr a \<longrightarrow> finalize_answer req s = Some a) \<or>
      finalize_answer req s = None \<and> (\<exists>a. finalize_answer req s' = Some a \<and> (\<forall>b. r = Inr b \<longrightarrow> b = a))"
  proof (cases rule: Finalize_cases)
    case unchanged
    then show ?thesis by (simp add: finalize_answer_def)
  next
    case (archived row ts now m)
    then have "\<not> has_receipt (fin_lease req) s"
      using select_active_None [of "l_taskID (fin_lease req)" s] by (simp add: has_receipt_def)
    moreover have "has_receipt (fin_lease req) s'"
      using finalize_effect_receipt [OF ok archived(1,2)] archived by simp
    ultimately show ?thesis by (simp add: finalize_answer_def)
  qed
qed

subsection \<open>EnqueueEvent\<close>

definition event_effect ::
  "(EnqueueRequest \<Rightarrow> string) \<Rightarrow> EnqueueEventRequest \<Rightarrow> int \<Rightarrow> 'x queue_db_scheme \<Rightarrow> 'x queue_db_scheme" where
  "event_effect digest req now s =
     (enqueue_effect (ev_task req) now s)\<lparr>gorgeinbox := (gorgeinbox s)(ev_eventID req \<mapsto>
        \<lparr>in_payloadHash = digest (ev_task req),
         in_response = Some (scanTask (enqueue_row (ev_task req) now s) [])\<rparr>)\<rparr>"

definition event_answer ::
  "(EnqueueRequest \<Rightarrow> string) \<Rightarrow> EnqueueEventRequest \<Rightarrow> 'x queue_db_scheme \<Rightarrow> Task option" where
  "event_answer digest req s =
     (case gorgeinbox s (ev_eventID req) of
        None \<Rightarrow> None
      | Some x \<Rightarrow> if in_payloadHash x = digest (ev_task req) then in_response x else None)"

lemma acquire_receipt_tables:
  assumes "s1 = snd (acquire_receipt i h s)"
  shows "next_id s1 = next_id s" "enqueue_row q now s1 = enqueue_row q now s"
    "(enqueue_effect q now s1)\<lparr>gorgeinbox := (gorgeinbox (enqueue_effect q now s1))(i \<mapsto> y)\<rparr> =
     (enqueue_effect q now s)\<lparr>gorgeinbox := (gorgeinbox s)(i \<mapsto> y)\<rparr>"
    "gorgeinbox s1 i = (case gorgeinbox s i of None \<Rightarrow> Some \<lparr>in_payloadHash = h, in_response = None\<rparr> | x \<Rightarrow> x)"
    "gorgeinbox s i \<noteq> None \<Longrightarrow> s1 = s"
  using assms
  by (auto simp: acquire_receipt_def next_id_def enqueue_row_def enqueue_effect_def split: option.splits)

lemma EnqueueEvent_cases:
  assumes "EnqueueEvent digest req w n s = (r, n', s')"
  obtains (failed) e where "same_tables s s'" "r = Inl e"
  | (answered) t where "s' = s" "event_answer digest req s = Some t" "r = Inr t \<or> r = Inl (DbError ''tx'')"
  | (enqueued) now where "event_answer digest req s = None" "s' = event_effect digest req now s"
      "\<And>x. gorgeinbox s (ev_eventID req) = Some x \<Longrightarrow> in_response x = None" "r = Inr (scanTask (enqueue_row (ev_task req) now s) []) \<or> r = Inl (DbError ''tx'')"
  using assms unfolding EnqueueEvent_def Let_def
proof (cases rule: in_tx_cases)
  case (undone e)
  then show ?thesis using failed by blast
next
  case (committed t n1)
  let ?i = "ev_eventID req" and ?h = "digest (ev_task req)"
  from committed(1) obtain s1 x n2 where s1: "s1 = snd (acquire_receipt ?i ?h s)"
    and x: "gorgeinbox s1 ?i = Some x" "in_payloadHash x = ?h"
    and rest: "(case in_response x of Some task \<Rightarrow> ret task
       | None \<Rightarrow> bindP (enqueueInTx (ev_task req)) (\<lambda>task.
           bindP (stmt (DbError ''update inbox'') (\<lambda>s. (Inr (), s\<lparr>gorgeinbox :=
              (gorgeinbox s)(?i \<mapsto> x\<lparr>in_response := Some task\<rparr>)\<rparr>))) (\<lambda>_. ret task))) w n2 s1 = (Inr t, n1, s')"
    by (auto elim!: bindP_cases simp: stmt_def query_def fst_acquire_receipt
        split: fault.splits option.splits if_splits sum.splits)
  note tables = acquire_receipt_tables [OF s1]
  show ?thesis
  proof (cases "in_response x")
    case (Some task)
    with tables(4) x have "gorgeinbox s ?i = Some x" by (auto split: option.splits)
    with rest Some tables(5) x(2) committed(2) show ?thesis
      by (intro answered [of t]) (auto simp: event_answer_def)
  next
    case None
    with rest obtain n3 s3 where e: "enqueueInTx (ev_task req) w n2 s1 = (Inr t, n3, s3)"
      and s3: "s' = s3\<lparr>gorgeinbox := (gorgeinbox s3)(?i \<mapsto> x\<lparr>in_response := Some t\<rparr>)\<rparr>"
      by (auto elim!: bindP_cases simp: stmt_def split: fault.splits)
    then have s': "s' = (enqueue_effect (ev_task req) (w_clock w n2) s1)\<lparr>gorgeinbox :=
         (gorgeinbox (enqueue_effect (ev_task req) (w_clock w n2) s1))(?i \<mapsto> x\<lparr>in_response := Some t\<rparr>)\<rparr>"
      using enqueueInTx_ok [OF e] by simp
    have t: "t = scanTask (enqueue_row (ev_task req) (w_clock w n2) s) []"
      using enqueueInTx_ok [OF e] tables(2) by simp
    have "event_answer digest req s = None"
      using tables(4) x(1) None by (auto simp: event_answer_def split: option.splits)
    moreover have "s' = event_effect digest req (w_clock w n2) s"
      using s' tables(3) x(2) None t by (cases x) (simp add: event_effect_def)
    moreover have "in_response y = None" if "gorgeinbox s ?i = Some y" for y
      using tables(4) x(1) None that by simp
    ultimately show ?thesis using enqueued t committed(2) by blast
  qed
qed

interpretation event: repeatable "EnqueueEvent digest req" "any_call cfg digest" same_tables tables_ok
  "event_answer digest req" for digest req cfg
proof unfold_locales
  fix s s' :: "'x queue_db_scheme" and w n n' and r :: "queue_error + Task" and a :: Task
  show "tables_ok s \<Longrightarrow> EnqueueEvent digest req w n s = (r, n', s') \<Longrightarrow> tables_ok s'"
    using any_call_good [OF _ EnqueueEvent_any_call] good_ok by blast
  show "tables_ok s \<Longrightarrow> any_call cfg digest s s' \<Longrightarrow> tables_ok s'"
    using any_call_good good_ok by blast
  show "same_tables s s' \<Longrightarrow> event_answer digest req s' = event_answer digest req s"
    by (simp add: event_answer_def same_tablesD)
  show "tables_ok s \<Longrightarrow> event_answer digest req s = Some a \<Longrightarrow> any_call cfg digest s s' \<Longrightarrow>
      event_answer digest req s' = Some a"
    using any_call_good [of s cfg digest s']
    by (fastforce simp: event_answer_def good_def evolves_def split: option.splits if_splits)
  assume ok: "tables_ok s" and run: "EnqueueEvent digest req w n s = (r, n', s')"
  from run show "same_tables s s' \<and> (\<forall>a. r = Inr a \<longrightarrow> event_answer digest req s = Some a) \<or>
      event_answer digest req s = None \<and> (\<exists>a. event_answer digest req s' = Some a \<and> (\<forall>b. r = Inr b \<longrightarrow> b = a))"
    by (cases rule: EnqueueEvent_cases)
       (auto simp: event_answer_def event_effect_def)
qed

section \<open>What a lease grants\<close>

text \<open>
  The reference: of the rows that can run, unleased ones before expired ones and each group
  by priority and id, the first \<open>limit\<close>.
\<close>

definition runnable :: "int \<Rightarrow> string list \<Rightarrow> active_row \<Rightarrow> bool" where
  "runnable now taskClasses r \<longleftrightarrow>
     (unleased r \<or> lt_null (r_leaseExpires r) now) \<and> taskClassClause taskClasses r"

definition lease_rank :: "active_row \<Rightarrow> nat \<times> int \<times> int" where
  "lease_rank r = (if unleased r then 0 else 1, r_priority r, r_id r)"

definition chosen :: "int \<Rightarrow> int \<Rightarrow> string list \<Rightarrow> 'x queue_db_scheme \<Rightarrow> active_row list" where
  "chosen limit now taskClasses s =
     take (nat limit) (sort_key lease_rank (filter (runnable now taskClasses) (activetask s)))"

definition grant :: "string \<Rightarrow> int \<Rightarrow> active_row \<Rightarrow> active_row" where
  "grant owner leaseExp r = r\<lparr>r_leaseOwner := Some owner, r_leaseExpires := Some leaseExp\<rparr>"

definition best :: "(active_row \<Rightarrow> bool) \<Rightarrow> int \<Rightarrow> 'x queue_db_scheme \<Rightarrow> active_row list" where
  "best P k s = take (nat k) (sort_key order_key (filter P (activetask s)))"

lemma grant_simps [simp]:
  "r_id (grant ow e r) = r_id r" "order_key (grant ow e r) = order_key r"
  "r_leaseOwner (grant ow e r) = Some ow" "r_leaseExpires (grant ow e r) = Some e"
  "same_task r (grant ow e r)" "lease_shape (grant ow e r)"
  by (simp_all add: grant_def order_key_def)

lemma rows_distinct: "tables_ok s \<Longrightarrow> distinct (activetask s)"
  by (simp add: tables_ok_def keys_ok_def distinct_map)

lemma rows_inj: "tables_ok s \<Longrightarrow> inj_on r_id (set (activetask s))"
  by (simp add: tables_ok_def keys_ok_def distinct_map)

lemma keys_inj:
  assumes "tables_ok s" "set xs \<subseteq> set (activetask s)"
  shows "inj_on order_key (set xs)" "inj_on lease_rank (set xs)"
  using inj_on_subset [OF rows_inj [OF assms(1)] assms(2)]
  by (auto simp: inj_on_def order_key_def lease_rank_def)

lemma set_best: "set (best P k s) \<subseteq> {r \<in> set (activetask s). P r}"
  by (auto simp: best_def dest!: in_set_takeD)

lemma distinct_best: "tables_ok s \<Longrightarrow> distinct (best P k s)"
  by (simp add: best_def rows_distinct)

lemma set_chosen: "set (chosen k now cs s) \<subseteq> {r \<in> set (activetask s). runnable now cs r}"
  by (auto simp: chosen_def dest!: in_set_takeD)

lemma distinct_chosen: "tables_ok s \<Longrightarrow> distinct (chosen k now cs s)"
  by (simp add: chosen_def rows_distinct)

lemma sort_key_same_set:
  assumes "distinct xs" "distinct ys" "set xs = set ys" "inj_on f (set xs)"
  shows "sort_key f xs = sort_key f ys"
  using assms by (intro sort_key_inj_key_eq) (simp_all add: set_eq_iff_mset_eq_distinct)

text \<open>The two sorted phases are one sort by rank.\<close>

lemma sort_two_phases:
  assumes "tables_ok s"
  shows "sort_key lease_rank (filter (runnable now cs) (activetask s)) =
     sort_key order_key (filter (\<lambda>r. unleased r \<and> taskClassClause cs r) (activetask s)) @
     sort_key order_key (filter (\<lambda>r. lt_null (r_leaseExpires r) now \<and> taskClassClause cs r) (activetask s))"
    (is "sort_key _ (filter ?R ?xs) = sort_key _ (filter ?U ?xs) @ sort_key _ (filter ?E ?xs)")
proof (rule sort_key_inj_key_eq)
  have "filter_mset ?R M = filter_mset ?U M + filter_mset ?E M" for M
    by (induction M) (auto simp: runnable_def unleased_def lt_null_def)
  then show "mset (filter ?R ?xs) = mset (sort_key order_key (filter ?U ?xs) @ sort_key order_key (filter ?E ?xs))"
    by simp
  show "inj_on lease_rank (set (filter ?R ?xs))" by (rule keys_inj [OF assms]) auto
  have u: "sorted (map lease_rank (sort_key order_key (filter ?U ?xs)))"
    by (rule sorted_rekey [OF sorted_sort_key]) (auto simp: lease_rank_def order_key_def)
  have e: "sorted (map lease_rank (sort_key order_key (filter ?E ?xs)))"
    by (rule sorted_rekey [OF sorted_sort_key]) (auto simp: lease_rank_def order_key_def unleased_def lt_null_def)
  show "sorted (map lease_rank (sort_key order_key (filter ?U ?xs) @ sort_key order_key (filter ?E ?xs)))"
    using u e by (auto simp: sorted_append lease_rank_def unleased_def lt_null_def)
qed

lemma chosen_two_phases:
  assumes "tables_ok s" "0 \<le> k"
  shows "chosen k now cs s =
     best (\<lambda>r. unleased r \<and> taskClassClause cs r) k s @
     best (\<lambda>r. lt_null (r_leaseExpires r) now \<and> taskClassClause cs r)
       (k - int (length (best (\<lambda>r. unleased r \<and> taskClassClause cs r) k s))) s"
  using assms(2)
  by (simp add: chosen_def sort_two_phases [OF assms(1)] best_def nat_diff_distrib min_def)

subsection \<open>The statements of the two phases\<close>

lemma marked_rows:
  assumes "tables_ok s" "\<And>r. Q r \<Longrightarrow> P r" "x \<in> set (activetask s)"
  shows "P x \<and> r_id x \<in> set (select_ids Q k s) \<longleftrightarrow> x \<in> set (best Q k s)"
proof
  assume "P x \<and> r_id x \<in> set (select_ids Q k s)"
  then obtain y where y: "y \<in> set (best Q k s)" "r_id y = r_id x"
    by (auto simp: select_ids_def best_def)
  then have "y = x" using set_best [of Q k s] row_unique [OF assms(1) _ assms(3), of y] by auto
  with y show "x \<in> set (best Q k s)" by simp
next
  assume x: "x \<in> set (best Q k s)"
  then have "Q x" using set_best [of Q k s] by auto
  with x assms(2) show "P x \<and> r_id x \<in> set (select_ids Q k s)"
    by (auto simp: select_ids_def best_def)
qed

lemma update_marked:
  assumes ok: "tables_ok s" and PQ: "\<And>r. Q r \<Longrightarrow> P r"
  shows "update_rows (\<lambda>r. P r \<and> r_id r \<in> set (select_ids Q k s)) f s =
     (Inr (int (length (best Q k s))),
      s\<lparr>activetask := map (\<lambda>r. if r \<in> set (best Q k s) then f r else r) (activetask s)\<rparr>)"
proof -
  have marked: "P x \<and> r_id x \<in> set (select_ids Q k s) \<longleftrightarrow> x \<in> set (best Q k s)"
    if "x \<in> set (activetask s)" for x
    using ok PQ that by (rule marked_rows)
  have *: "filter (\<lambda>r. P r \<and> r_id r \<in> set (select_ids Q k s)) (activetask s) =
      filter (\<lambda>r. r \<in> set (best Q k s)) (activetask s)"
    by (intro filter_cong refl marked)
  have "set (filter (\<lambda>r. r \<in> set (best Q k s)) (activetask s)) = set (best Q k s)"
    using set_best [of Q k s] by auto
  then have "length (filter (\<lambda>r. r \<in> set (best Q k s)) (activetask s)) = length (best Q k s)"
    using distinct_card [OF distinct_best [OF ok]] distinct_card [OF distinct_filter [OF rows_distinct [OF ok]]]
    by metis
  moreover have "map (\<lambda>r. if P r \<and> r_id r \<in> set (select_ids Q k s) then f r else r) (activetask s) =
      map (\<lambda>r. if r \<in> set (best Q k s) then f r else r) (activetask s)"
    by (intro map_cong refl if_cong marked)
  ultimately show ?thesis unfolding update_rows_def * by simp
qed

lemma select_ids_best: "select_ids P k s = map r_id (best P k s)"
  by (simp add: select_ids_def best_def)

definition granted :: "active_row list \<Rightarrow> string \<Rightarrow> int \<Rightarrow> 'x queue_db_scheme \<Rightarrow> 'x queue_db_scheme" where
  "granted G owner e s = s\<lparr>activetask := map (\<lambda>r. if r \<in> set G then grant owner e r else r) (activetask s)\<rparr>"

lemma granted_Nil [simp]: "granted [] owner e s = s"
  by (simp add: granted_def)

lemma granted_ok: "tables_ok s \<Longrightarrow> tables_ok (granted G owner e s)"
  using update_rows_good [OF good_refl, of s "\<lambda>r. r \<in> set G" "grant owner e"]
  by (simp add: granted_def update_rows_def good_def)

lemma lease_unleased_run:
  assumes "fine w" "tables_ok s"
  shows "\<exists>n'. lease_unleased k owner cs e w n s =
     (let B = best (\<lambda>r. unleased r \<and> taskClassClause cs r) k s in
      (Inr (int (length B), map r_id B), n', granted B owner e s))"
  using assms update_marked [OF assms(2), of "\<lambda>r. unleased r \<and> taskClassClause cs r" unleased k "grant owner e"]
  by (auto simp: lease_unleased_def query_def bindP_def stmt_def select_ids_best granted_def Let_def
      grant_def [abs_def])

lemma lease_expired_run:
  assumes "fine w" "tables_ok s"
  shows "\<exists>n'. lease_expired k owner cs now e w n s =
     (let B = best (\<lambda>r. lt_null (r_leaseExpires r) now \<and> taskClassClause cs r) k s in
      (Inr (map r_id B), n', granted B owner e s))"
  using assms update_marked [OF assms(2), of "\<lambda>r. lt_null (r_leaseExpires r) now \<and> taskClassClause cs r"
      "\<lambda>r. lt_null (r_leaseExpires r) now" k "grant owner e"]
  by (auto simp: lease_expired_def query_def bindP_def stmt_def select_ids_best granted_def Let_def
      grant_def [abs_def] best_def)

lemma best_after_grant:
  assumes "\<And>r. r \<in> set G \<Longrightarrow> \<not> P r \<and> \<not> P (grant owner e r)"
  shows "best P k (granted G owner e s) = best P k s"
  using filter_map_if [of "activetask s" "set G" P "grant owner e"] assms
  by (simp add: best_def granted_def)

lemma granted_twice:
  assumes "\<And>r. r \<in> set G \<Longrightarrow> grant owner e r \<notin> set H"
  shows "granted H owner e (granted G owner e s) = granted (G @ H) owner e s"
  using map_if_twice [of "activetask s" "set G" "grant owner e" "set H"] assms
  by (simp add: granted_def)

lemma fetch_granted:
  assumes ok: "tables_ok s" and G: "set G \<subseteq> set (activetask s)" "distinct G" "length G \<le> nat k" and e: "now < e"
  shows "fetch_leased (map r_id G) owner now k (granted G owner e s) =
     map (\<lambda>r. scanTaskWithData s (grant owner e r)) (sort_key order_key G)"
proof -
  let ?s = "granted G owner e s"
  let ?F = "\<lambda>r. r_id r \<in> set (map r_id G) \<and> r_leaseOwner r = Some owner \<and> gt_null (r_leaseExpires r) now"
  have "r \<in> set G \<longleftrightarrow> r_id r \<in> set (map r_id G)" if "r \<in> set (activetask s)" for r
    using that G(1) row_unique [OF ok that] by auto
  then have "filter ?F (map (\<lambda>r. if r \<in> set G then grant owner e r else r) xs) =
      map (grant owner e) (filter (\<lambda>r. r \<in> set G) xs)" if "set xs \<subseteq> set (activetask s)" for xs
    using that e by (induction xs) (auto simp: gt_null_def)
  then have "filter ?F (activetask ?s) = map (grant owner e) (filter (\<lambda>r. r \<in> set G) (activetask s))"
    by (simp add: granted_def)
  moreover have "sort_key order_key (filter (\<lambda>r. r \<in> set G) (activetask s)) = sort_key order_key G"
    using G rows_distinct [OF ok] keys_inj(1) [OF ok, of "filter (\<lambda>r. r \<in> set G) (activetask s)"]
    by (intro sort_key_same_set) auto
  moreover have "scanTaskWithData ?s = scanTaskWithData s"
    by (simp add: fun_eq_iff scanTaskWithData_def joined_data_def granted_def)
  ultimately show ?thesis using G(3) by (simp add: fetch_leased_def sort_key_map)
qed

lemma Lease_run:
  assumes "fine w" "tables_ok s" "0 < leaseDuration cfg"
  shows "\<exists>n'. Lease cfg lim owner cs w n s =
     (let now = w_clock w n; e = now + leaseDuration cfg; G = chosen (max 1 lim) now cs s in
      (Inr (map (\<lambda>r. scanTaskWithData s (grant owner e r)) (sort_key order_key G)), n',
       granted G owner e s))"
proof -
  define k where "k = max 1 lim"
  define now where "now = w_clock w n"
  define e where "e = now + leaseDuration cfg"
  define U where "U = best (\<lambda>r. unleased r \<and> taskClassClause cs r) k s"
  define E where "E = (\<lambda>r. lt_null (r_leaseExpires r) now \<and> taskClassClause cs r)"
  define B where "B = best E (k - int (length U)) s"
  define G where "G = chosen k now cs s"
  have e: "now < e" using assms(3) by (simp add: e_def)
  have k: "0 \<le> k" "(if lim \<le> 0 then 1 else lim) = k" by (simp_all add: k_def)
  have G: "G = U @ B"
    unfolding G_def U_def B_def E_def by (rule chosen_two_phases [OF assms(2) k(1)])
  have noE: "\<not> E r \<and> \<not> E (grant owner e r)" if "r \<in> set U" for r
    using that e set_best [of "\<lambda>r. unleased r \<and> taskClassClause cs r" k s]
    by (auto simp: U_def E_def unleased_def lt_null_def)
  have B: "best E (k - int (length U)) (granted U owner e s) = B"
    unfolding B_def by (rule best_after_grant) (rule noE)
  have twice: "granted B owner e (granted U owner e s) = granted G owner e s"
    unfolding G by (rule granted_twice) (use noE set_best [of E "k - int (length U)" s] in \<open>auto simp: B_def\<close>)
  obtain n1 where u: "lease_unleased k owner cs e w (Suc (Suc n)) s =
      (Inr (int (length U), map r_id U), n1, granted U owner e s)"
    using lease_unleased_run [OF assms(1,2)] unfolding U_def Let_def by blast
  obtain n2 where b: "lease_expired (k - int (length U)) owner cs now e w n1 (granted U owner e s) =
      (Inr (map r_id B), n2, granted G owner e s)"
    using lease_expired_run [OF assms(1) granted_ok [OF assms(2)], where k = "k - int (length U)" and n = n1
        and now = now and cs = cs and e = e and owner = owner and G1 = U and owner1 = owner and e1 = e]
      B twice unfolding E_def Let_def by auto
  have f: "fetch_leased (map r_id G) owner now k (granted G owner e s) =
      map (\<lambda>r. scanTaskWithData s (grant owner e r)) (sort_key order_key G)"
    using set_chosen [of k now cs s] distinct_chosen [OF assms(2), of k now cs] e
    by (intro fetch_granted [OF assms(2)]) (auto simp: G_def chosen_def)
  let ?rest = "\<lambda>ids. if ids = [] then ret [] else query ''fetch leased'' (fetch_leased ids owner now k)"
  let ?body = "bindP (lease_unleased k owner cs e) (\<lambda>(leased, ids1).
     bindP (lease_expired (k - leased) owner cs now e) (\<lambda>ids2. ?rest (ids1 @ ids2)))"
  have "\<exists>n3. ?rest (map r_id G) w n2 (granted G owner e s) =
      (Inr (map (\<lambda>r. scanTaskWithData s (grant owner e r)) (sort_key order_key G)), n3, granted G owner e s)"
    using assms(1) f by (cases "G = []") (simp_all add: query_def stmt_def)
  then obtain n3 where rest: "?rest (map r_id G) w n2 (granted G owner e s) =
      (Inr (map (\<lambda>r. scanTaskWithData s (grant owner e r)) (sort_key order_key G)), n3, granted G owner e s)"
    by blast
  have "map r_id U @ map r_id B = map r_id G" by (simp add: G)
  with u b rest have "?body w (Suc (Suc n)) s =
      (Inr (map (\<lambda>r. scanTaskWithData s (grant owner e r)) (sort_key order_key G)), n3, granted G owner e s)"
    by (simp add: bindP_def del: append_is_Nil_conv split: if_splits)
  moreover have "Lease cfg lim owner cs w n s = in_tx ?body w (Suc n) s"
    unfolding Lease_def k Let_def now_def e_def by (rule run_bind_Inr [OF run_time_now])
  ultimately have "Lease cfg lim owner cs w n s =
      (Inr (map (\<lambda>r. scanTaskWithData s (grant owner e r)) (sort_key order_key G)), Suc n3, granted G owner e s)"
    using assms(1) by (simp add: transaction_fine)
  then show ?thesis unfolding Let_def G_def k_def e_def now_def by blast
qed

section \<open>A live lease is exclusive\<close>

definition holds :: "ExecutionLease \<Rightarrow> 'x queue_db_scheme \<Rightarrow> bool" where
  "holds l s \<longleftrightarrow> (\<exists>r \<in> set (activetask s). r_id r = l_taskID l \<and>
     r_leaseOwner r = Some (l_leaseOwner l) \<and> r_leaseExpires r = Some (l_leaseExpires l))"

abbreviation keeps :: "ExecutionLease \<Rightarrow> ('x, 'a) queue_prog \<Rightarrow> bool" where
  "keeps l m \<equiv> preserves (holds l) m"

lemmas keeps_stmt = preserves_stmt [of "holds l" for l]

lemma preserves_query [preserves_rules]: "preserves I (query ctx g)"
  by (auto simp: hoare_def query_def stmt_def split: fault.splits)

lemma keeps_update [preserves_rules]:
  assumes "\<And>r. r_id r = l_taskID l \<Longrightarrow> r_leaseOwner r = Some (l_leaseOwner l) \<Longrightarrow>
     r_leaseExpires r = Some (l_leaseExpires l) \<Longrightarrow> \<not> P r"
  shows "keeps l (stmt err (update_rows P f))"
proof (rule keeps_stmt)
  fix s :: "'x queue_db_scheme"
  assume "holds l s"
  then obtain r where r: "r \<in> set (activetask s)" "r_id r = l_taskID l"
    "r_leaseOwner r = Some (l_leaseOwner l)" "r_leaseExpires r = Some (l_leaseExpires l)"
    by (auto simp: holds_def)
  then have "r \<in> set (map (\<lambda>r. if P r then f r else r) (activetask s))"
    using assms [of r] by (force simp: image_iff)
  with r show "holds l (snd (update_rows P f s))"
    unfolding holds_def update_rows_def by auto
qed

lemma keeps_archive [preserves_rules]: "keeps l (stmt err (insert_archivetask a))"
  by (rule keeps_stmt) (simp add: holds_def insert_archivetask_def)

lemma keeps_delete [preserves_rules]: "i \<noteq> l_taskID l \<Longrightarrow> keeps l (stmt err (delete_activetask i))"
  by (rule keeps_stmt) (auto simp: holds_def delete_activetask_def)

lemma keeps_inbox [preserves_rules]:
  "keeps l (stmt err (acquire_receipt i h))"
  "keeps l (stmt err (\<lambda>s. (Inr (), s\<lparr>gorgeinbox := g s\<rparr>)))"
  by (rule keeps_stmt, simp add: holds_def acquire_receipt_def split: option.splits)+

lemma keeps_enqueueInTx [preserves_rules]: "keeps l (enqueueInTx req)"
proof -
  have "keeps l (nextCounterValue name)" for name
    unfolding nextCounterValue_def by (rule keeps_stmt) (simp add: holds_def Let_def)
  moreover have "keeps l (stmt err (insert_taskdata d))" "keeps l (stmt err (insert_activetask r))" for err d r
    by (rule keeps_stmt, force simp: holds_def insert_taskdata_def insert_activetask_def)+
  ultimately show ?thesis
    unfolding enqueueInTx_def by (intro preserves_rules)
qed

lemma keeps_in_tx [preserves_rules]: "keeps l body \<Longrightarrow> keeps l (in_tx body)"
  by (rule preserves_transaction) (simp_all add: holds_def)

abbreviation keeps_ok :: "ExecutionLease \<Rightarrow> ('x, 'a) queue_prog \<Rightarrow> bool" where
  "keeps_ok l m \<equiv> hoare (\<lambda>s. tables_ok s \<and> holds l s) m (\<lambda>_. holds l) (\<lambda>_. holds l)"

lemma keeps_ok: "keeps l m \<Longrightarrow> keeps_ok l m"
  by (erule hoare_pre) simp

lemma keeps_ok_in_tx:
  assumes "keeps_ok l body"
  shows "keeps_ok l (in_tx body)"
proof (rule hoare_transaction [where G = "\<lambda>_ _. holds l" and R = "\<lambda>_. holds l"])
  show "hoare (\<lambda>s. s = s0) body (\<lambda>_. holds l) (\<lambda>_. holds l)" if "tables_ok s0 \<and> holds l s0" for s0
    using assms that by (auto intro: hoare_pre)
qed (simp_all add: holds_def)

text \<open>A lock under another window never reaches the row of this one.\<close>

lemma holds_row:
  assumes "tables_ok s" "holds l s" "select_active (l_taskID l) s = Some r" "holds_window l' r" "l_taskID l' = l_taskID l"
  shows "l' = l"
proof -
  obtain r0 where r0: "r0 \<in> set (activetask s)" "r_id r0 = l_taskID l"
    "r_leaseOwner r0 = Some (l_leaseOwner l)" "r_leaseExpires r0 = Some (l_leaseExpires l)"
    using assms(2) by (auto simp: holds_def)
  have "r = r0" using select_active_Some [OF assms(3)] r0 row_unique [OF assms(1), of r r0] by simp
  then show ?thesis
    using r0 assms(4,5) by (auto simp: holds_window_def str_of_def intro: ExecutionLease.equality)
qed

lemma lock_other:
  assumes "l' \<noteq> l"
  shows "hoare (\<lambda>s. tables_ok s \<and> holds l s) (lockExecution l')
     (\<lambda>t s. holds l s \<and> t_id t \<noteq> l_taskID l) (\<lambda>_. holds l)"
proof (rule hoareI)
  fix w n s t n' s'
  assume s: "tables_ok s \<and> holds l s" and "lockExecution l' w n s = (Inr t, n', s')"
  then have "s' = s \<and> (\<exists>r. select_active (l_taskID l') s = Some r \<and> holds_window l' r \<and> t = scanTaskNoData r)"
    by (auto dest: lockExecution_ok)
  then show "holds l s' \<and> t_id t \<noteq> l_taskID l"
    using s assms holds_row [of s l _ l'] by (metis scanTask_sel(1) select_active_Some)
qed (auto dest: lockExecution_err)

lemma lock_other_or_conflict:
  assumes "l' \<noteq> l"
  shows "hoare (\<lambda>s. tables_ok s \<and> holds l s) (tryP (lockExecution l') (\<lambda>e. raise (f e)))
     (\<lambda>t s. holds l s \<and> t_id t \<noteq> l_taskID l) (\<lambda>_. holds l)"
  by (rule hoare_tryP [OF lock_other [OF assms]]) (rule hoare_raise)

lemma keeps_archiveTask: "i \<noteq> l_taskID l \<Longrightarrow> keeps l (archiveTask i res dur)"
  unfolding archiveTask_def Let_def by (intro preserves_rules)

lemma keeps_Finalize:
  assumes "fin_lease req \<noteq> l"
  shows "keeps_ok l (Finalize req)"
proof (rule hoareI)
  have "holds l s'" if s: "tables_ok s" "holds l s" and run: "Finalize req w n s = (r, n', s')" for w n s r n' s'
    using run s(1)
  proof (cases rule: Finalize_cases)
    case unchanged
    then show ?thesis using s(2) by (simp add: holds_def same_tablesD)
  next
    case (archived row ts now m)
    then have "r_id row \<noteq> l_taskID l"
      using holds_row [OF s, of row "fin_lease req"] assms by (metis select_active_Some)
    moreover obtain xs where "activetask (enqueue_all (map (with_priority (r_priority row)) (fin_followups req)) ts s) =
        activetask s @ xs"
      using enqueue_all_active by blast
    ultimately show ?thesis
      using archived(5) s(2) by (auto simp: holds_def finalize_effect_def Let_def)
  qed
  then show "tables_ok s \<and> holds l s \<Longrightarrow> Finalize req w n s = (Inr a, n', s') \<Longrightarrow> holds l s'"
    "tables_ok s \<and> holds l s \<Longrightarrow> Finalize req w n s = (Inl e, n', s') \<Longrightarrow> holds l s'" for w n s a e n' s'
    by blast+
qed

lemma keeps_Renew: "ren_lease req \<noteq> l \<Longrightarrow> keeps_ok l (Renew req)"
  unfolding Renew_def Let_def
  by (rule keeps_ok_in_tx, rule hoare_bind [OF lock_other_or_conflict], assumption,
      rule hoare_assume, intro preserves_rules) simp

lemma keeps_Resolve: "res_lease req \<noteq> l \<Longrightarrow> keeps_ok l (Resolve cfg req)"
  unfolding Resolve_def Let_def
  by (rule keeps_ok_in_tx, rule hoare_bind [OF lock_other_or_conflict], assumption,
      rule hoare_assume, intro preserves_rules) simp_all

text \<open>The lease passes over a row whose expiry its clock has not reached.\<close>

lemma keeps_Lease:
  assumes "holds l s" "w_clock w n \<le> l_leaseExpires l" "Lease cfg lim owner cs w n s = (r, n', s')"
  shows "holds l s'"
proof -
  let ?now = "w_clock w n"
  let ?rest = "\<lambda>k e. in_tx (bindP (lease_unleased k owner cs e) (\<lambda>(leased, ids1).
     bindP (lease_expired (k - leased) owner cs ?now e) (\<lambda>ids2.
     let leasedIDs = ids1 @ ids2 in
     if leasedIDs = [] then ret [] else query ''fetch leased'' (fetch_leased leasedIDs owner ?now k))))"
  have run: "Lease cfg lim owner cs w n s =
      ?rest (if lim \<le> 0 then 1 else lim) (?now + leaseDuration cfg) w (Suc n) s"
    unfolding Lease_def Let_def by (rule run_bind_Inr [OF run_time_now])
  have "keeps l (?rest k e)" for k e
    unfolding lease_unleased_def lease_expired_def Let_def
    by (intro preserves_rules) (use assms(2) in \<open>auto simp: unleased_def lt_null_def\<close>)
  then have "holds l (final (?rest (if lim \<le> 0 then 1 else lim) (?now + leaseDuration cfg) w (Suc n) s))"
    using assms(1) by (rule hoareD_inv)
  then have "holds l (final (Lease cfg lim owner cs w n s))" unfolding run .
  then show ?thesis using assms(3) by simp
qed

text \<open>Hence no call that may not end the window does, in any world whose clock has not reached its expiry.\<close>

lemma keeps_calls:
  "keeps l (Enqueue req)" "keeps l Stats" "keeps l (GetTask i)" "keeps l (ListActive lim off)"
  "keeps l (EnqueueEvent digest ev)"
  "i \<noteq> l_taskID l \<Longrightarrow> keeps l (Complete i dur)" "i \<noteq> l_taskID l \<Longrightarrow> keeps l (Cancel i)"
  "i \<noteq> l_taskID l \<Longrightarrow> keeps l (Yield i dur)" "fr_taskID fr \<noteq> l_taskID l \<Longrightarrow> keeps l (Fail cfg fr)"
  "\<not> (l_taskID l \<in> set is \<and> l_leaseOwner l = YieldOwner) \<Longrightarrow> keeps l (Awaken is)"
  unfolding Enqueue_def Stats_def GetTask_def ListActive_def EnqueueEvent_def Complete_def Cancel_def
    Yield_def Fail_def Awaken_def Let_def
  by (auto intro!: preserves_rules keeps_archiveTask)

lemma run_op_keeps:
  assumes "tables_ok s" "holds l s" "\<And>m. w_clock w m \<le> l_leaseExpires l" "\<not> may_end l opn"
    and run: "run_op cfg digest opn w n s = (r, n', s')"
  shows "holds l s'"
proof (cases "\<exists>lim owner cs. opn = OpLease lim owner cs")
  case True
  then obtain lim owner cs where "discard (Lease cfg lim owner cs) w n s = (r, n', s')"
    using run by auto
  then show ?thesis
    using keeps_Lease [OF assms(2,3)] by (auto simp: discard_def elim!: bindP_cases)
next
  case False
  then have "keeps_ok l (run_op cfg digest opn)"
    using assms(4)
    by (cases opn) (auto intro!: hoare_discard keeps_ok [OF keeps_calls(1)] keeps_ok [OF keeps_calls(2)]
        keeps_ok [OF keeps_calls(3)] keeps_ok [OF keeps_calls(4)] keeps_ok [OF keeps_calls(5)]
        keeps_ok [OF keeps_calls(6)] keeps_ok [OF keeps_calls(7)] keeps_ok [OF keeps_calls(8)]
        keeps_ok [OF keeps_calls(9)] keeps_ok [OF keeps_calls(10)] keeps_Finalize keeps_Renew keeps_Resolve)
  from hoareD_inv [OF this, of s w n] show ?thesis using assms(1,2) run by simp
qed

lemma holds_unique:
  assumes "tables_ok s" "holds l s" "holds l' s" "l_taskID l = l_taskID l'"
  shows "l = l'"
proof -
  obtain r where r: "r \<in> set (activetask s)" "r_id r = l_taskID l"
    "r_leaseOwner r = Some (l_leaseOwner l)" "r_leaseExpires r = Some (l_leaseExpires l)"
    using assms(2) by (auto simp: holds_def)
  obtain r' where r': "r' \<in> set (activetask s)" "r_id r' = l_taskID l'"
    "r_leaseOwner r' = Some (l_leaseOwner l')" "r_leaseExpires r' = Some (l_leaseExpires l')"
    using assms(3) by (auto simp: holds_def)
  have "r = r'" using row_unique [OF assms(1) r(1) r'(1)] r(2) r'(2) assms(4) by simp
  then show ?thesis using r r' assms(4) by (auto intro: ExecutionLease.equality)
qed

text \<open>The store gives the leasing contract: every call is admitted, and a window lives up to its expiry.\<close>

definition mysql_live :: "ExecutionLease \<Rightarrow> world \<Rightarrow> bool" where
  "mysql_live l w \<longleftrightarrow> (\<forall>m. w_clock w m \<le> l_leaseExpires l)"

interpretation mysql: leasing_store "run_op cfg digest" tables_ok "\<lambda>_ _. True" holds mysql_live for cfg digest
proof unfold_locales
  fix s s' :: "'x queue_db_scheme" and opn w n r n' l l'
  show "tables_ok s \<Longrightarrow> True \<Longrightarrow> run_op cfg digest opn w n s = (r, n', s') \<Longrightarrow> tables_ok s'"
    using any_call_good [of s cfg digest s'] good_ok unfolding any_call_def by blast
  show "tables_ok s \<Longrightarrow> True \<Longrightarrow> proper_lease l \<Longrightarrow> holds l s \<Longrightarrow> mysql_live l w \<Longrightarrow> \<not> may_end l opn \<Longrightarrow>
      run_op cfg digest opn w n s = (r, n', s') \<Longrightarrow> holds l s'"
    using run_op_keeps unfolding mysql_live_def by blast
  show "tables_ok s \<Longrightarrow> holds l s \<Longrightarrow> holds l' s \<Longrightarrow> l_taskID l = l_taskID l' \<Longrightarrow> l = l'"
    by (rule holds_unique)
qed

end
