(* ===== verification/MySQL_Properties.thy ===== *)
theory MySQL_Properties
  imports MySQL_Facts
begin

text \<open>
  The properties of the MySQL backend: safety of every history of calls, what a lease
  grants and that a granted window is exclusive, that a stale window changes nothing, and
  that a repeated finalization or event has its effect once.
\<close>

section \<open>Sample tables\<close>

definition sample_cfg :: store_config where
  "sample_cfg = \<lparr>leaseDuration = 60, retryWait = 300\<rparr>"

definition sample_digest :: "EnqueueRequest \<Rightarrow> string" where
  "sample_digest req = er_taskClass req @ er_data req"

definition sample_request :: "string \<Rightarrow> EnqueueRequest" where
  "sample_request c = \<lparr>er_taskClass = c, er_data = ''{}'', er_priority = None,
     er_objectPHID = [], er_containerPHID = [], er_delayUntil = None\<rparr>"

definition sample_row :: "int \<Rightarrow> int \<Rightarrow> string option \<Rightarrow> int option \<Rightarrow> active_row" where
  "sample_row i p owner e =
     \<lparr>r_id = i, r_taskClass = ''A'', r_leaseOwner = owner, r_leaseExpires = e, r_failureCount = 0,
      r_dataID = i, r_failureTime = None, r_priority = p, r_objectPHID = None, r_containerPHID = None,
      r_dateCreated = 10, r_dateModified = 10\<rparr>"

text \<open>Task 1 runs under a window of \<open>w1\<close>, task 2 waits, the lease of task 3 has run out.\<close>

definition sample_db :: queue_db where
  "sample_db =
     \<lparr>activetask = [sample_row 1 1000 (Some ''w1'') (Some 150), sample_row 2 2000 None None,
        sample_row 3 1000 (Some ''w0'') (Some 50)],
      archivetask = [], taskdata = [(1, ''a''), (2, ''b''), (3, ''c'')], taskdata_auto = 4,
      lisk_counter = [''worker_activetask'' \<mapsto> 3], gorgeinbox = Map.empty\<rparr>"

definition sample_lease :: ExecutionLease where
  "sample_lease = \<lparr>l_taskID = 1, l_leaseOwner = ''w1'', l_leaseExpires = 150\<rparr>"

definition sample_finalize :: FinalizeRequest where
  "sample_finalize = \<lparr>fin_lease = sample_lease, fin_duration = 7, fin_followups = [sample_request ''B'']\<rparr>"

lemmas sample_defs = sample_cfg_def sample_digest_def sample_request_def sample_row_def sample_db_def
  sample_lease_def sample_finalize_def

lemma sample_db_ok: "tables_ok sample_db"
  by (simp add: tables_ok_def table_defs lease_shape_def sample_db_def sample_row_def)

section \<open>Histories\<close>

text \<open>C4. From well-formed tables, any sequence of calls of the store, in worlds that may fail or
  lose the reply of any statement or commit, leads to well-formed tables (unique ids, disjoint
  active and archive tables, every payload present, owners only with an expiry), and on the way
  no task disappears, the archive and the payloads are append-only, a task that stays active
  keeps its class, payload, priority and failures, and an answered event keeps its answer.\<close>

theorem store_history_safe:
  assumes "tables_ok s0" "history cfg digest s0 s"
  shows "tables_ok s \<and> evolves s0 s"
  using history_good [OF assms(2,1)] by (simp add: good_def)

lemma history_step: "history cfg digest s0 s \<Longrightarrow> history cfg digest s0 (final (run_op cfg digest opn w n s))"
  by (cases "run_op cfg digest opn w n s") (auto intro: history.call)

theorem store_history_safe_witness:
  "tables_ok sample_db \<and>
   evolves sample_db (final (run_op sample_cfg sample_digest (OpComplete 1 5) (calm 100) 0 sample_db)) \<and>
   archived_ids (final (run_op sample_cfg sample_digest (OpComplete 1 5) (calm 100) 0 sample_db)) = {1}"
proof (intro conjI)
  show "tables_ok sample_db" by (rule sample_db_ok)
  show "evolves sample_db (final (run_op sample_cfg sample_digest (OpComplete 1 5) (calm 100) 0 sample_db))"
    using store_history_safe [OF sample_db_ok history_step [OF history.start]] by blast
  show "archived_ids (final (run_op sample_cfg sample_digest (OpComplete 1 5) (calm 100) 0 sample_db)) = {1}"
    by (simp add: discard_def Complete_def archiveTask_def transaction_fine query_def bindP_def stmt_def
      select_active_def insert_archivetask_def delete_activetask_def archive_of_def scanTaskNoData_def
      scanTask_def sample_db_def sample_row_def archived_ids_def Let_def)
qed

section \<open>Leases\<close>

text \<open>C5. A lease that no fault disturbs grants, of the rows that can run (never leased, or with an
  expired window, and of an accepted class), the first \<open>limit\<close> in the order unleased before
  expired and then by priority and id; it returns exactly these, sorted by priority and id,
  with their payload and the new window, and changes no other row.\<close>

theorem Lease_grants:
  assumes "fine w" "tables_ok s" "0 < leaseDuration cfg" "Lease cfg lim owner cs w n s = (r, n', s')"
  shows "\<exists>G. distinct G \<and> set G \<subseteq> {x \<in> set (activetask s). runnable (w_clock w n) cs x} \<and>
      length G = min (nat (max 1 lim)) (length (filter (runnable (w_clock w n) cs) (activetask s))) \<and>
      (\<forall>x \<in> set G. \<forall>y \<in> set (activetask s). runnable (w_clock w n) cs y \<longrightarrow> y \<notin> set G \<longrightarrow>
         lease_rank x \<le> lease_rank y) \<and>
      r = Inr (map (\<lambda>x. scanTaskWithData s (grant owner (w_clock w n + leaseDuration cfg) x))
               (sort_key order_key G)) \<and>
      s' = s\<lparr>activetask := map (\<lambda>x. if x \<in> set G then grant owner (w_clock w n + leaseDuration cfg) x else x)
               (activetask s)\<rparr>"
proof (intro exI [of _ "chosen (max 1 lim) (w_clock w n) cs s"] conjI)
  let ?G = "chosen (max 1 lim) (w_clock w n) cs s"
  show "distinct ?G" by (rule distinct_chosen [OF assms(2)])
  show "set ?G \<subseteq> {x \<in> set (activetask s). runnable (w_clock w n) cs x}" by (rule set_chosen)
  show "length ?G = min (nat (max 1 lim)) (length (filter (runnable (w_clock w n) cs) (activetask s)))"
    by (simp add: chosen_def min.commute)
  show "\<forall>x \<in> set ?G. \<forall>y \<in> set (activetask s). runnable (w_clock w n) cs y \<longrightarrow> y \<notin> set ?G \<longrightarrow>
      lease_rank x \<le> lease_rank y"
    unfolding chosen_def by (auto intro!: sort_key_take_le [where f = lease_rank])
qed (use Lease_run [OF assms(1-3), of lim owner cs n] assms(4) in \<open>auto simp: Let_def granted_def\<close>)

lemma sample_lease_run:
  "Lease sample_cfg 2 ''w2'' [] (calm 100) 0 sample_db =
     (Inr [scanTaskWithData sample_db (sample_row 3 1000 (Some ''w2'') (Some 160)),
           scanTaskWithData sample_db (sample_row 2 2000 (Some ''w2'') (Some 160))], 8,
      sample_db\<lparr>activetask := [sample_row 1 1000 (Some ''w1'') (Some 150),
         sample_row 2 2000 (Some ''w2'') (Some 160), sample_row 3 1000 (Some ''w2'') (Some 160)]\<rparr>)"
  by (simp add: Lease_def lease_unleased_def lease_expired_def transaction_fine query_def bindP_def stmt_def
      select_ids_def update_rows_def fetch_leased_def unleased_def lt_null_def gt_null_def taskClassClause_def
      order_key_def scanTaskWithData_def joined_data_def sample_cfg_def sample_db_def sample_row_def Let_def)

theorem Lease_grants_witness:
  "\<exists>G. length G = 2 \<and> set G \<subseteq> {x \<in> set (activetask sample_db). runnable 100 [] x}"
proof -
  have "0 < leaseDuration sample_cfg" by (simp add: sample_cfg_def)
  moreover have "length (filter (runnable 100 []) (activetask sample_db)) = 2"
    by (simp add: sample_db_def sample_row_def runnable_def unleased_def lt_null_def taskClassClause_def)
  ultimately show ?thesis
    using Lease_grants [OF fine_calm sample_db_ok _ sample_lease_run] by auto
qed

text \<open>C1. Exclusive ownership: while a worker's window on a task is live (no clock reading is past
  its expiry), every sequence of calls by others, faults included, leaves the task with that
  owner and expiry, so that nobody else owns it. The calls by others are all calls but those that present this very window and the
  unfenced calls to complete, fail, yield or cancel this task, whoever sends them: these can end the window.\<close>

theorem lease_exclusive:
  assumes "tables_ok s" "proper_lease l" "holds l s" "by_others mysql_live l cs"
  shows "holds l (run_calls (run_op cfg digest) cs s) \<and>
    (\<forall>l'. l_taskID l' = l_taskID l \<longrightarrow> holds l' (run_calls (run_op cfg digest) cs s) \<longrightarrow> l' = l)"
proof -
  have adm: "admitted (\<lambda>_ _. True) (run_op cfg digest) cs s" by (rule all_admitted)
  show ?thesis
    using mysql.owned_run_calls [OF assms(1) adm assms(2-4)] mysql.no_takeover [OF assms(1) adm assms(2-4)] by blast
qed

theorem lease_exclusive_witness:
  "holds sample_lease (run_calls (run_op sample_cfg sample_digest)
     [(OpLease 5 ''w2'' [], calm 150, 0), (OpComplete 2 1, calm 140, 0)] sample_db)"
proof (rule lease_exclusive [THEN conjunct1, OF sample_db_ok])
  show "holds sample_lease sample_db"
    by (simp add: holds_def sample_lease_def sample_db_def sample_row_def)
qed (simp_all add: proper_lease_def by_others_def mysql_live_def sample_lease_def YieldOwner_def)

section \<open>Fencing\<close>

text \<open>A window is stale when its row is gone, has another owner or expiry, or its expiry has passed.\<close>

definition stale :: "ExecutionLease \<Rightarrow> world \<Rightarrow> 'x queue_db_scheme \<Rightarrow> bool" where
  "stale l w s \<longleftrightarrow> (\<forall>m. l_leaseExpires l \<le> w_clock w m) \<or>
     (\<forall>r. select_active (l_taskID l) s = Some r \<longrightarrow> \<not> holds_window l r)"

lemma stale_lock:
  assumes "stale l w s"
  shows "\<exists>e. lockExecution l w n s = (Inl e, snd (lockExecution l w n s))"
proof (cases "lockExecution l w n s")
  case (fields v n' s')
  then show ?thesis
    using lockExecution_ok [of l w n s _ n' s'] assms by (cases v) (auto simp: stale_def not_le [symmetric])
qed

lemma stale_body:
  assumes "stale l w s"
  shows "\<nexists>a n1 s1. bindP (tryP (lockExecution l) (\<lambda>e. raise (h e))) f w n s = (Inr a, n1, s1)"
  using stale_lock [OF assms, of n]
  by (cases "lockExecution l w n s") (auto simp: bindP_def tryP_def)

lemma stale_in_tx:
  assumes "stale l w s"
  shows "case in_tx (bindP (tryP (lockExecution l) (\<lambda>e. raise (h e))) f) w n s of
     (r, _, s') \<Rightarrow> same_tables s s' \<and> (\<exists>e. r = Inl e)"
proof (cases "in_tx (bindP (tryP (lockExecution l) (\<lambda>e. raise (h e))) f) w n s")
  case (fields r n' s')
  from fields show ?thesis
  proof (cases rule: in_tx_cases)
    case (undone e)
    then show ?thesis using fields by simp
  next
    case (committed a n1)
    then show ?thesis using stale_body [OF assms, of h f "Suc n"] by blast
  qed
qed

text \<open>C6. Fencing: in any world, a call that presents a stale window changes no table. \<open>Renew\<close> and
  \<open>Resolve\<close> fail, and \<open>Finalize\<close> fails or finds the receipt of the same window in the archive.\<close>

theorem stale_window_rejected:
  assumes "tables_ok s" "stale l w s"
  shows "(\<forall>dur fups. case Finalize \<lparr>fin_lease = l, fin_duration = dur, fin_followups = fups\<rparr> w n s of
            (r, _, s') \<Rightarrow> same_tables s s' \<and> ((\<exists>e. r = Inl e) \<or> has_receipt l s)) \<and>
         (\<forall>dur. case Renew \<lparr>ren_lease = l, ren_duration = dur\<rparr> w n s of
            (r, _, s') \<Rightarrow> same_tables s s' \<and> (\<exists>e. r = Inl e)) \<and>
         (\<forall>out wait dur. case Resolve cfg \<lparr>res_lease = l, res_outcome = out, res_retryWait = wait,
              res_duration = dur\<rparr> w n s of
            (r, _, s') \<Rightarrow> same_tables s s' \<and> (\<exists>e. r = Inl e))"
proof (intro conjI allI)
  fix dur fups
  let ?req = "\<lparr>fin_lease = l, fin_duration = dur, fin_followups = fups\<rparr>"
  show "case Finalize ?req w n s of (r, _, s') \<Rightarrow> same_tables s s' \<and> ((\<exists>e. r = Inl e) \<or> has_receipt l s)"
  proof (cases "Finalize ?req w n s")
    case (fields r n' s')
    from fields assms(1) show ?thesis
    proof (cases rule: Finalize_cases)
      case unchanged
      then show ?thesis using fields by (cases r) auto
    next
      case (archived row ts now m)
      then show ?thesis using assms(2) not_less by (auto simp: stale_def)
    qed
  qed
next
  fix dur
  show "case Renew \<lparr>ren_lease = l, ren_duration = dur\<rparr> w n s of (r, _, s') \<Rightarrow> same_tables s s' \<and> (\<exists>e. r = Inl e)"
    unfolding Renew_def RenewRequest.simps by (rule stale_in_tx [OF assms(2)])
next
  fix out wait dur
  show "case Resolve cfg \<lparr>res_lease = l, res_outcome = out, res_retryWait = wait, res_duration = dur\<rparr> w n s of
      (r, _, s') \<Rightarrow> same_tables s s' \<and> (\<exists>e. r = Inl e)"
    unfolding Resolve_def ResolveRequest.simps by (rule stale_in_tx [OF assms(2)])
qed

theorem stale_window_rejected_witness:
  "\<exists>e. result (Renew \<lparr>ren_lease = sample_lease, ren_duration = 60\<rparr> (calm 150) 0 sample_db) = Inl e"
proof -
  have "stale sample_lease (calm 150) sample_db" by (simp add: stale_def sample_lease_def)
  then have "case Renew \<lparr>ren_lease = sample_lease, ren_duration = 60\<rparr> (calm 150) 0 sample_db of
      (r, _, s') \<Rightarrow> same_tables sample_db s' \<and> (\<exists>e. r = Inl e)"
    by (rule stale_window_rejected [OF sample_db_ok, THEN conjunct2, THEN conjunct1, THEN spec])
  then show ?thesis by (simp add: case_prod_beta)
qed

section \<open>Finalize\<close>

lemma followups_fine:
  "fine w \<Longrightarrow> tables_ok s \<Longrightarrow>
   \<exists>ys n' ts. length ts = length xs \<and>
     forP xs (\<lambda>c. enqueueInTx (g c)) w n s = (Inr ys, n', enqueue_all (map g xs) ts s)"
proof (induction xs arbitrary: n s)
  case (Cons x xs)
  let ?t = "w_clock w n"
  have "tables_ok (enqueue_effect (g x) ?t s)"
    using enqueue_effect_good [OF good_refl [OF Cons.prems(2)] Cons.prems(2)] by (rule good_ok)
  from Cons.IH [OF Cons.prems(1) this, of "n + 4"] obtain ys n' ts where IH: "length ts = length xs"
    "forP xs (\<lambda>c. enqueueInTx (g c)) w (n + 4) (enqueue_effect (g x) ?t s) =
      (Inr ys, n', enqueue_all (map g xs) ts (enqueue_effect (g x) ?t s))" by blast
  then show ?case
    using enqueueInTx_fine [OF Cons.prems, of "g x" n]
    by (intro exI [of _ "scanTask (enqueue_row (g x) ?t s) [] # ys"] exI [of _ n'] exI [of _ "?t # ts"])
       (simp add: bindP_def)
qed simp

lemma enqueue_effect_taskdata:
  assumes "tables_ok s" "taskdata s' = taskdata (enqueue_effect q t s) @ ds"
  shows "joined_data (taskdata_auto s) s' = er_data q"
proof -
  have "taskdata_auto s \<notin> fst ` set (taskdata s)" using assms(1) by (force simp: tables_ok_def data_ok_def)
  then have "map_of (taskdata s) (taskdata_auto s) = None" by (simp add: map_of_eq_None_iff)
  then show ?thesis using assms(2) by (simp add: joined_data_def enqueue_effect_def map_add_def)
qed

lemma enqueue_all_data: "\<exists>ds. taskdata (enqueue_all qs ts s) = taskdata s @ ds"
  by (induction qs ts s rule: enqueue_all.induct) (auto simp: enqueue_effect_def)

lemma enqueue_all_other: "gorgeinbox (enqueue_all qs ts s) = gorgeinbox s"
  by (induction qs ts s rule: enqueue_all.induct) (auto simp: enqueue_effect_def)

lemma joined_data_cong: "taskdata s = taskdata s' \<Longrightarrow> joined_data i s = joined_data i s'"
  by (simp add: joined_data_def)

text \<open>The rows the follow-ups add.\<close>

definition followup_rows :: "EnqueueRequest list \<Rightarrow> 'x queue_db_scheme \<Rightarrow> int \<Rightarrow> active_row list \<Rightarrow> bool" where
  "followup_rows qs s' i rs \<longleftrightarrow>
     map r_id rs = map (\<lambda>k. i + int k) [0..<length qs] \<and> map r_priority rs = map initial_priority qs \<and>
     map r_taskClass rs = map er_taskClass qs \<and> map r_leaseExpires rs = map initial_expiry qs \<and>
     map (\<lambda>r. joined_data (r_dataID r) s') rs = map er_data qs \<and> (\<forall>r \<in> set rs. r_leaseOwner r = None)"

lemma enqueue_all_rows:
  "length ts = length qs \<Longrightarrow> tables_ok s \<Longrightarrow>
   \<exists>rs. activetask (enqueue_all qs ts s) = activetask s @ rs \<and> followup_rows qs (enqueue_all qs ts s) (next_id s) rs"
proof (induction qs ts s rule: enqueue_all.induct)
  case (1 q qs t ts s)
  let ?s = "enqueue_effect q t s" and ?s' = "enqueue_all qs ts (enqueue_effect q t s)"
  have "tables_ok ?s"
    using enqueue_effect_good [OF good_refl [OF "1.prems"(2)] "1.prems"(2)] by (rule good_ok)
  then obtain rs where rs: "activetask ?s' = activetask ?s @ rs" "followup_rows qs ?s' (next_id ?s) rs"
    using "1.IH" "1.prems" by auto
  obtain ds where "taskdata ?s' = taskdata ?s @ ds" using enqueue_all_data by blast
  then have d: "joined_data (taskdata_auto s) ?s' = er_data q"
    by (rule enqueue_effect_taskdata [OF "1.prems"(2)])
  have next_s: "next_id ?s = next_id s + 1" by (simp add: next_id_def enqueue_effect_def)
  have row: "activetask ?s = activetask s @ [enqueue_row q t s]" by (simp add: enqueue_effect_def)
  show ?case
  proof (intro exI [of _ "enqueue_row q t s # rs"] conjI)
    show "activetask (enqueue_all (q # qs) (t # ts) s) = activetask s @ enqueue_row q t s # rs"
      using rs(1) row by simp
    show "followup_rows (q # qs) (enqueue_all (q # qs) (t # ts) s) (next_id s) (enqueue_row q t s # rs)"
      using rs(2) d unfolding followup_rows_def next_s
      by (simp add: enqueue_row_def upt_conv_Cons map_Suc_upt [symmetric] o_def algebra_simps del: upt_Suc)
  qed
qed (simp_all add: followup_rows_def)

lemma lockExecution_fine:
  assumes "fine w" "select_active (l_taskID l) s = Some r" "holds_window l r" "w_clock w (Suc n) < l_leaseExpires l"
  shows "lockExecution l w n s = (Inr (scanTaskNoData r), n + 2, s)"
  using assms by (simp add: lockExecution_def query_def bindP_def stmt_def Let_def holds_window_def)

lemma holds_select:
  assumes "tables_ok s" "holds l s"
  shows "\<exists>r. select_active (l_taskID l) s = Some r \<and> holds_window l r"
proof -
  obtain r0 where r0: "r0 \<in> set (activetask s)" "r_id r0 = l_taskID l"
    "r_leaseOwner r0 = Some (l_leaseOwner l)" "r_leaseExpires r0 = Some (l_leaseExpires l)"
    using assms(2) by (auto simp: holds_def)
  then have "l_taskID l \<in> active_ids s" by (metis active_ids_def imageI)
  then obtain r where r: "select_active (l_taskID l) s = Some r"
    using select_active_None [of "l_taskID l" s] by auto
  then have "r = r0" using select_active_Some [OF r] r0 row_unique [OF assms(1), of r r0] by simp
  then show ?thesis using r r0 by (simp add: holds_window_def str_of_def)
qed

lemma Finalize_fine_result:
  assumes "fine w" "tables_ok s" "holds (fin_lease req) s" "\<And>m. w_clock w m < l_leaseExpires (fin_lease req)"
  shows "result (Finalize req w n s) = Inr ()"
proof -
  obtain row where row: "select_active (l_taskID (fin_lease req)) s = Some row" "holds_window (fin_lease req) row"
    using holds_select [OF assms(2,3)] by blast
  let ?g = "with_priority (r_priority row)"
  obtain ys n1 ts where ts: "length ts = length (fin_followups req)"
    "forP (fin_followups req) (\<lambda>c. enqueueInTx (?g c)) w (n + 3) s =
      (Inr ys, n1, enqueue_all (map ?g (fin_followups req)) ts s)"
    using followups_fine [OF assms(1,2)] by blast
  have "a_id (fenced_archive_of (scanTaskNoData row) (fin_lease req) ResultSuccess (fin_duration req) t)
      \<notin> a_id ` set (archivetask (enqueue_all (map ?g (fin_followups req)) ts s))" for t
    using select_active_ids [OF row(1)] assms(2)
    by (auto simp: enqueue_all_archive tables_ok_def archived_ids_def)
  then show ?thesis
    using ts lockExecution_fine [OF assms(1) row assms(4), of "Suc n"] assms(1)
    by (simp add: Finalize_def transaction_fine tryP_def bindP_def stmt_def insert_archivetask_def
        delete_activetask_def eval_nat_numeral)
qed

lemma followup_rows_fresh:
  assumes "tables_ok s" "i \<in> active_ids s" "followup_rows qs s' (next_id s) rs"
  shows "filter (\<lambda>x. r_id x \<noteq> i) rs = rs"
proof -
  have "i < next_id s" using counter_above [OF assms(1), of i] assms(2) by (auto simp: next_id_def)
  moreover have "set (map r_id rs) \<subseteq> {next_id s..}" using assms(3) by (auto simp: followup_rows_def)
  ultimately show ?thesis by (fastforce simp: filter_id_conv)
qed

text \<open>C7. A finalization that holds a live window and meets no fault succeeds in one step: the task
  leaves the active table and enters the archive as a success under its window, and the
  follow-ups are enqueued in order after the existing tasks, with fresh ids and, where they
  set none, the priority of the finished task. Nothing else changes.\<close>

theorem Finalize_succeeds:
  assumes "fine w" "tables_ok s" "holds (fin_lease req) s"
    and "\<And>m. w_clock w m < l_leaseExpires (fin_lease req)" "Finalize req w n s = (r, n', s')"
  shows "r = Inr () \<and> (\<exists>row rs now. row \<in> set (activetask s) \<and> r_id row = l_taskID (fin_lease req) \<and>
     archivetask s' = archivetask s @
       [fenced_archive_of (scanTaskNoData row) (fin_lease req) ResultSuccess (fin_duration req) now] \<and>
     activetask s' = filter (\<lambda>x. r_id x \<noteq> l_taskID (fin_lease req)) (activetask s) @ rs \<and>
     followup_rows (map (with_priority (r_priority row)) (fin_followups req)) s' (next_id s) rs \<and>
     gorgeinbox s' = gorgeinbox s)"
proof (rule conjI)
  show ok: "r = Inr ()" using Finalize_fine_result [OF assms(1-4), of n] assms(5) by simp
  from assms(5,2) show "\<exists>row rs now. row \<in> set (activetask s) \<and> r_id row = l_taskID (fin_lease req) \<and>
     archivetask s' = archivetask s @
       [fenced_archive_of (scanTaskNoData row) (fin_lease req) ResultSuccess (fin_duration req) now] \<and>
     activetask s' = filter (\<lambda>x. r_id x \<noteq> l_taskID (fin_lease req)) (activetask s) @ rs \<and>
     followup_rows (map (with_priority (r_priority row)) (fin_followups req)) s' (next_id s) rs \<and>
     gorgeinbox s' = gorgeinbox s"
  proof (cases rule: Finalize_cases)
    case unchanged
    then show ?thesis
      using ok holds_select [OF assms(2,3)] select_active_None [of "l_taskID (fin_lease req)" s]
      by (auto simp: has_receipt_def)
  next
    case (archived row ts now m)
    let ?qs = "map (with_priority (r_priority row)) (fin_followups req)"
    have id: "row \<in> set (activetask s)" "r_id row = l_taskID (fin_lease req)" "r_id row \<in> active_ids s"
      using select_active_Some [OF archived(1)] select_active_ids [OF archived(1)] by auto
    obtain rs where rs: "activetask (enqueue_all ?qs ts s) = activetask s @ rs"
      "followup_rows ?qs (enqueue_all ?qs ts s) (next_id s) rs"
      using enqueue_all_rows [OF _ assms(2), of ts ?qs] archived(4) by auto
    have "followup_rows ?qs s' (next_id s) rs"
      using rs(2) archived(5) by (simp add: followup_rows_def finalize_effect_def Let_def joined_data_def)
    moreover have "filter (\<lambda>x. r_id x \<noteq> r_id row) rs = rs"
      using followup_rows_fresh [OF assms(2) id(3) rs(2)] .
    ultimately show ?thesis
      using id rs(1) archived(5)
      by (intro exI [of _ row] exI [of _ rs] exI [of _ now])
         (simp add: finalize_effect_def Let_def enqueue_all_archive enqueue_all_other)
  qed
qed

lemma sample_holds: "holds sample_lease sample_db"
  by (simp add: holds_def sample_lease_def sample_db_def sample_row_def)

theorem Finalize_succeeds_witness:
  "\<exists>row rs. row \<in> set (activetask sample_db) \<and> r_id row = 1 \<and>
     map r_priority rs = [1000] \<and> map r_taskClass rs = [''B''] \<and>
     activetask (final (Finalize sample_finalize (calm 100) 0 sample_db)) =
       filter (\<lambda>x. r_id x \<noteq> 1) (activetask sample_db) @ rs"
proof -
  obtain r n' s' where run: "Finalize sample_finalize (calm 100) 0 sample_db = (r, n', s')"
    by (cases "Finalize sample_finalize (calm 100) 0 sample_db")
  have "holds (fin_lease sample_finalize) sample_db" using sample_holds by (simp add: sample_finalize_def)
  from Finalize_succeeds [OF fine_calm sample_db_ok this _ run]
  obtain row rs where "row \<in> set (activetask sample_db)" "r_id row = 1"
    "activetask s' = filter (\<lambda>x. r_id x \<noteq> 1) (activetask sample_db) @ rs"
    "followup_rows (map (with_priority (r_priority row)) [sample_request ''B'']) s' (next_id sample_db) rs"
    by (auto simp: sample_finalize_def sample_lease_def)
  moreover from this(1,2) have "r_priority row = 1000" by (auto simp: sample_db_def sample_row_def)
  ultimately show ?thesis
    using run by (auto simp: followup_rows_def with_priority_def initial_priority_def sample_request_def)
qed

section \<open>Repeated calls\<close>

lemma receipt_answers:
  assumes "has_receipt (fin_lease req) s" "fine w"
  shows "result (Finalize req w n s) = Inr ()"
  using assms select_active_None [of "l_taskID (fin_lease req)" s]
  by (auto simp: Finalize_def transaction_fine tryP_def bindP_def lockExecution_def check_receipt_def query_def
      stmt_def has_receipt_def)

text \<open>C2. A finalization takes effect at most once: however often it is sent, with replies
  lost, statements and commits failing, and any other calls in between, at most one attempt
  changes the tables, and a reply that arrives means that the archive holds a success under this window. If none of the
  other calls in between writes that archive entry itself, a reply means that exactly one attempt had its effect. The unfenced
  \<open>Complete\<close> of the task can write it, as the next lemma shows.\<close>

theorem Finalize_exactly_once:
  assumes "tables_ok s0" "\<not> has_receipt (fin_lease req) s0"
  shows "(calls (Finalize req) (any_call cfg digest) same_tables k rs s0 s \<longrightarrow>
            k \<le> 1 \<and> (rs \<noteq> [] \<longrightarrow> has_receipt (fin_lease req) s)) \<and>
         (calls (Finalize req) (\<lambda>s s'. any_call cfg digest s s' \<and> (has_receipt (fin_lease req) s' \<longrightarrow> has_receipt (fin_lease req) s))
            same_tables k rs s0 s \<longrightarrow> rs \<noteq> [] \<longrightarrow> k = 1)"
proof (intro conjI impI)
  have none: "finalize_answer req s0 = None" using assms(2) by (simp add: finalize_answer_def)
  assume "calls (Finalize req) (any_call cfg digest) same_tables k rs s0 s"
  from finalize.at_most_once [OF this assms(1) none]
  show "k \<le> 1" and "rs \<noteq> [] \<Longrightarrow> has_receipt (fin_lease req) s"
    by (cases rs; auto simp: finalize_answer_def split: if_splits)+
next
  have none: "finalize_answer req s0 = None" using assms(2) by (simp add: finalize_answer_def)
  let ?quiet = "\<lambda>s s'. any_call cfg digest s s' \<and> (has_receipt (fin_lease req) s' \<longrightarrow> has_receipt (fin_lease req) s)"
  assume run: "calls (Finalize req) ?quiet same_tables k rs s0 s" "rs \<noteq> []"
  have "(finalize_answer req s = None \<longleftrightarrow> k = 0) \<and> (rs \<noteq> [] \<longrightarrow> k = 1)"
    by (rule finalize.exactly_once [where quiet = ?quiet and cfg = cfg and digest = digest, OF _ _ run(1) assms(1) none])
       (auto simp: finalize_answer_def split: if_splits)
  then show "k = 1" using run(2) by blast
qed

text \<open>The unfenced call that completes a task leaves the same archive entry as its worker's finalization, without the follow-ups.\<close>

lemma Complete_leaves_receipt:
  assumes "tables_ok s" "proper_lease l" "holds l s" "fine w" "Complete (l_taskID l) dur w n s = (r, n', s')"
  shows "has_receipt l s'"
proof -
  obtain row where row: "select_active (l_taskID l) s = Some row" "holds_window l row" using holds_select [OF assms(1,3)] by blast
  have id: "r_id row = l_taskID l" using select_active_Some [OF row(1)] by simp
  have new: "l_taskID l \<notin> archived_ids s" using assms(1) select_active_ids [OF row(1)] id by (auto simp: tables_ok_def)
  define a where "a now = archive_of (scanTaskNoData row) (r_leaseExpires row) ResultSuccess dur now" for now
  have a: "a_id (a now) = l_taskID l" "a_leaseOwner (a now) = Some (l_leaseOwner l)" "a_leaseExpires (a now) = Some (l_leaseExpires l)"
    "a_result (a now) = ResultSuccess" for now
    using row(2) assms(2) id by (simp_all add: a_def archive_of_def holds_window_def proper_lease_def nullStr_def)
  have ins: "insert_archivetask (a now) s = (Inr (), s\<lparr>archivetask := archivetask s @ [a now]\<rparr>)" for now
    using new a(1) by (simp add: insert_archivetask_def archived_ids_def)
  obtain now where "s' = s\<lparr>archivetask := archivetask s @ [a now], activetask := filter (\<lambda>r. r_id r \<noteq> l_taskID l) (activetask s)\<rparr>"
    using assms(4,5) row(1)
    by (auto simp: Complete_def archiveTask_def transaction_fine query_def bindP_def stmt_def Let_def delete_activetask_def a_def [symmetric] ins)
  moreover have "find P (xs @ [x]) = Some x" if "find P xs = None" "P x" for P and xs :: "archive_row list" and x
    using that by (induction xs) (auto split: if_splits)
  then have "find (\<lambda>x. a_id x = l_taskID l) (archivetask s @ [a now]) = Some (a now)" for now
    using new a(1) by (metis select_archived_None select_archived_def)
  ultimately show ?thesis using a by (simp add: has_receipt_def select_archived_def active_ids_def image_iff)
qed

text \<open>A world that commits the transaction of the sample but loses the reply.\<close>

definition lossy :: "nat \<Rightarrow> world" where
  "lossy k = \<lparr>w_fault = (\<lambda>n. if n = k then Lost else Fine), w_clock = (\<lambda>_. 100)\<rparr>"

lemmas run_defs = transaction_def query_def bindP_def tryP_def stmt_def time_now_def Let_def
  lockExecution_def check_receipt_def enqueueInTx_def nextCounterValue_def insert_taskdata_def
  insert_activetask_def insert_archivetask_def delete_activetask_def select_active_def select_archived_def

definition finalized_db :: queue_db where
  "finalized_db = final (Finalize sample_finalize (lossy 10) 0 sample_db)"

lemma finalized_db_rows:
  "map r_id (activetask finalized_db) = [2, 3, 4]" "map a_id (archivetask finalized_db) = [1]"
  by (simp_all add: finalized_db_def Finalize_def run_defs lossy_def sample_defs scanTaskNoData_def scanTask_def
      str_of_def fenced_archive_of_def archive_of_def with_priority_def)

lemma finalize_lost_reply:
  "Finalize sample_finalize (lossy 10) 0 sample_db = (Inl (DbError ''tx''), 11, finalized_db)"
  by (simp add: finalized_db_def Finalize_def run_defs lossy_def sample_defs scanTaskNoData_def scanTask_def
      str_of_def fenced_archive_of_def archive_of_def with_priority_def)

lemma finalized_receipt: "has_receipt (fin_lease sample_finalize) finalized_db"
  using finalize_lost_reply sample_db_ok
proof (cases rule: Finalize_cases)
  case unchanged
  then have "activetask finalized_db = activetask sample_db" by (simp add: same_tablesD)
  then show ?thesis using finalized_db_rows(1) by (simp add: sample_db_def sample_row_def)
next
  case (archived row ts now m)
  then show ?thesis using finalize_effect_receipt [OF sample_db_ok archived(1,2), of ts now] by simp
qed

lemma sample_finalize_calls:
  "\<exists>s. calls (Finalize sample_finalize) others same_tables (Suc 0) [()] sample_db s"
proof -
  have "\<not> same_tables sample_db finalized_db"
    using finalized_db_rows(1) same_tablesD(1) by (fastforce simp: sample_db_def sample_row_def)
  from calls.effect [where m = "Finalize sample_finalize" and others = others and same = same_tables,
      OF calls.start finalize_lost_reply this]
  have one: "calls (Finalize sample_finalize) others same_tables (Suc 0) [] sample_db finalized_db" by simp
  obtain r n' s' where run: "Finalize sample_finalize (calm 500) 0 finalized_db = (r, n', s')"
    by (cases "Finalize sample_finalize (calm 500) 0 finalized_db")
  have "r = Inr ()" using run receipt_answers [OF finalized_receipt fine_calm] by (metis fst_conv)
  moreover have "same_tables finalized_db s'"
    using finalize.answered_stays(1) [OF _ _ run]
      finalize.inv_attempt [OF sample_db_ok finalize_lost_reply] finalized_receipt
    by (simp add: finalize_answer_def)
  ultimately show ?thesis using calls.again [OF one, of "calm 500" 0 r n' s'] run by auto
qed

theorem Finalize_exactly_once_witness:
  "\<exists>k s. calls (Finalize sample_finalize) (any_call sample_cfg sample_digest) same_tables k [()] sample_db s \<and> k = 1 \<and>
     has_receipt (fin_lease sample_finalize) s"
proof -
  let ?quiet = "\<lambda>s s'. any_call sample_cfg sample_digest s s' \<and>
    (has_receipt (fin_lease sample_finalize) s' \<longrightarrow> has_receipt (fin_lease sample_finalize) s)"
  obtain s where s: "calls (Finalize sample_finalize) ?quiet same_tables (Suc 0) [()] sample_db s"
    using sample_finalize_calls by blast
  have "\<not> has_receipt (fin_lease sample_finalize) sample_db"
    by (simp add: has_receipt_def select_archived_def sample_defs)
  note once = Finalize_exactly_once [OF sample_db_ok this, where cfg = sample_cfg and digest = sample_digest]
  have "calls (Finalize sample_finalize) (any_call sample_cfg sample_digest) same_tables (Suc 0) [()] sample_db s"
    using s by (rule calls_mono) simp
  with once [THEN conjunct1] once [THEN conjunct2, rule_format, OF s] show ?thesis by blast
qed

text \<open>C3. An event enqueues one task: of all attempts to enqueue an event id, with lost replies,
  faults and any other calls in between, at most one creates a task, and every reply that
  arrives carries that same task. An event id that was used with another payload is refused
  without a change.\<close>

theorem EnqueueEvent_exactly_once:
  assumes "tables_ok s0" "event_answer digest req s0 = None"
  shows "(calls (EnqueueEvent digest req) (any_call cfg digest) same_tables k rs s0 s \<longrightarrow>
            k \<le> 1 \<and> (\<forall>t \<in> set rs. event_answer digest req s = Some t)) \<and>
         (calls (EnqueueEvent digest req) (\<lambda>_ _. False) same_tables k rs s0 s \<longrightarrow> rs \<noteq> [] \<longrightarrow> k = 1)"
proof (intro conjI impI)
  assume "calls (EnqueueEvent digest req) (any_call cfg digest) same_tables k rs s0 s"
  from event.at_most_once [OF this assms]
  show "k \<le> 1" and "\<forall>t \<in> set rs. event_answer digest req s = Some t" by auto
next
  assume "calls (EnqueueEvent digest req) (\<lambda>_ _. False) same_tables k rs s0 s" "rs \<noteq> []"
  then show "k = 1" using event.exactly_once [where quiet = "\<lambda>_ _. False", OF _ _ _ assms] by blast
qed

definition sample_event :: EnqueueEventRequest where
  "sample_event = \<lparr>ev_eventID = ''e1'', ev_task = sample_request ''B''\<rparr>"

lemma sample_event_calls:
  "\<exists>t s. calls (EnqueueEvent sample_digest sample_event) (\<lambda>_ _. False) same_tables (Suc 0) [t] sample_db s"
proof -
  obtain r n' s' where run: "EnqueueEvent sample_digest sample_event (calm 100) 0 sample_db = (r, n', s')"
    by (cases "EnqueueEvent sample_digest sample_event (calm 100) 0 sample_db")
  then have "(\<exists>t. r = Inr t) \<and> length (activetask s') = 4"
    by (auto simp: EnqueueEvent_def run_defs acquire_receipt_def sample_event_def sample_defs)
  moreover from this have "\<not> same_tables sample_db s'"
    using same_tablesD(1) [of sample_db s'] by (auto simp: sample_db_def)
  ultimately show ?thesis
    using calls.effect [where m = "EnqueueEvent sample_digest sample_event" and others = "\<lambda>_ _. False"
        and same = same_tables, OF calls.start run] by (cases r) (simp, force)
qed

theorem EnqueueEvent_exactly_once_witness:
  "\<exists>k t s. calls (EnqueueEvent sample_digest sample_event) (\<lambda>_ _. False) same_tables k [t] sample_db s \<and> k = 1"
proof -
  obtain t s where s: "calls (EnqueueEvent sample_digest sample_event) (\<lambda>_ _. False) same_tables (Suc 0) [t] sample_db s"
    using sample_event_calls by blast
  have "event_answer sample_digest sample_event sample_db = None"
    by (simp add: event_answer_def sample_db_def)
  from EnqueueEvent_exactly_once [OF sample_db_ok this, THEN conjunct2, rule_format, OF s]
  show ?thesis using s by auto
qed

text \<open>An event id that was used with another payload is refused: the call fails, in a world without
  faults with the conflict error, and no table changes.\<close>

theorem EnqueueEvent_conflict:
  assumes "gorgeinbox s (ev_eventID req) = Some x" "in_payloadHash x \<noteq> digest (ev_task req)"
    and "EnqueueEvent digest req w n s = (r, n', s')"
  shows "same_tables s s' \<and> (\<exists>e. r = Inl e) \<and> (fine w \<longrightarrow> r = Inl ErrEventConflict)"
proof -
  have "fine w \<longrightarrow> r = Inl ErrEventConflict"
    using assms
    by (auto simp: EnqueueEvent_def transaction_fine bindP_def query_def stmt_def acquire_receipt_def Let_def)
  moreover have "same_tables s s' \<and> (\<exists>e. r = Inl e)"
    using assms(3)
    unfolding EnqueueEvent_def Let_def
  proof (cases rule: in_tx_cases)
    case (committed a n1)
    then show ?thesis
      using assms(1,2)
      by (auto elim!: bindP_cases simp: stmt_def query_def acquire_receipt_def split: fault.splits option.splits)
  qed simp
  ultimately show ?thesis by blast
qed

theorem EnqueueEvent_conflict_witness:
  "result (EnqueueEvent sample_digest sample_event (calm 100) 0
     (sample_db\<lparr>gorgeinbox := [''e1'' \<mapsto> \<lparr>in_payloadHash = ''other'', in_response = None\<rparr>]\<rparr>)) = Inl ErrEventConflict"
proof -
  let ?s = "sample_db\<lparr>gorgeinbox := [''e1'' \<mapsto> \<lparr>in_payloadHash = ''other'', in_response = None\<rparr>]\<rparr>"
  obtain r n' s' where run: "EnqueueEvent sample_digest sample_event (calm 100) 0 ?s = (r, n', s')"
    by (cases "EnqueueEvent sample_digest sample_event (calm 100) 0 ?s")
  have "gorgeinbox ?s (ev_eventID sample_event) = Some \<lparr>in_payloadHash = ''other'', in_response = None\<rparr>"
    by (simp add: sample_event_def)
  from EnqueueEvent_conflict [OF this _ run] show ?thesis
    using run by (simp add: sample_event_def sample_request_def sample_digest_def)
qed

end
