(* ===== verification/Redis_Store.thy ===== *)
theory Redis_Store
  imports Queue_Contracts "HOL-Library.Char_ord" "HOL-Library.List_Lexorder"
begin

text \<open>
  The Redis backend of the task queue: \<open>src/go/internal/taskqueue/redis_store.go\<close>,
  \<open>execution_redis.go\<close> and \<open>inbox_redis.go\<close>.

  A hash is a map from its field names to values; a number the code writes is \<open>VInt\<close>, a text
  is \<open>VStr\<close>, and the text of a numeric field is empty or absent, never a numeral. A key that
  does not exist is the empty hash. A sorted set is the list of its members with their
  scores; ranges are ordered by score and then by the bytes of the member. One command, one
  \<open>TxPipeline\<close> and one Lua script are each one atomic statement that the world can fail; a
  script that raises half-way keeps what it has written. The key prefix is left out.

  Lua numbers and scores are \<open>float64\<close>: times, ids and counters are taken below \<open>2 ^ 53\<close>, where
  they are exact; the active score is the one product that can leave that range and is
  rounded as the hardware does.
\<close>

section \<open>Hashes and sorted sets\<close>

datatype field =
    F_id | F_taskClass | F_leaseOwner | F_leaseExpires | F_failureCount | F_dataID | F_failureTime
  | F_priority | F_objectPHID | F_containerPHID | F_dateCreated | F_dateModified
  | F_result | F_duration | F_archivedEpoch | F_data

datatype fval = VStr string | VInt int

type_synonym hash = "field \<Rightarrow> fval option"

type_synonym zset = "(int \<times> int) list"

record redis_db =
  rd_task :: "int \<Rightarrow> hash"
  rd_data :: "int \<Rightarrow> string option"
  rd_archived :: "int \<Rightarrow> hash"
  idx_active :: zset
  idx_unleased :: zset
  idx_leased :: zset
  idx_archived :: zset
  next_task_id :: int
  next_data_id :: int
  counter_failed :: int
  counter_archived :: int
  rd_inbox :: "string \<Rightarrow> (string \<times> Task) option"

record redis_config =
  redis_leaseDuration :: int
  redis_retryWait :: int

type_synonym 'a redis_prog = "(redis_db, queue_error, 'a) prog"

text \<open>A hash key exists when some field is set; the fields are finitely many.\<close>

definition all_fields :: "field list" where
  "all_fields = [F_id, F_taskClass, F_leaseOwner, F_leaseExpires, F_failureCount, F_dataID, F_failureTime,
     F_priority, F_objectPHID, F_containerPHID, F_dateCreated, F_dateModified,
     F_result, F_duration, F_archivedEpoch, F_data]"

definition hexists :: "hash \<Rightarrow> bool" where
  "hexists h = list_ex (\<lambda>f. h f \<noteq> None) all_fields"

definition tonumber :: "fval option \<Rightarrow> int option" where
  "tonumber v = (case v of Some (VInt n) \<Rightarrow> Some n | _ \<Rightarrow> None)"

text \<open>\<open>tonumber(redis.call('HGET', ...) or d)\<close>, for fields that hold a number whenever they are set.\<close>

definition number_or :: "int \<Rightarrow> fval option \<Rightarrow> int" where
  "number_or d v = (case v of Some (VInt n) \<Rightarrow> n | _ \<Rightarrow> d)"

text \<open>\<open>strconv.ParseInt\<close> with its error dropped, and the lookup of a text in a Go map.\<close>

definition ParseInt :: "fval option \<Rightarrow> int" where
  "ParseInt v = (case tonumber v of None \<Rightarrow> 0 | Some n \<Rightarrow> n)"

definition Itoa_int :: "int \<Rightarrow> string" where
  "Itoa_int n = (if n < 0 then CHR ''-'' # Itoa (nat (- n)) else Itoa (nat n))"

definition text_of :: "fval option \<Rightarrow> string" where
  "text_of v = (case v of None \<Rightarrow> [] | Some (VStr s) \<Rightarrow> s | Some (VInt n) \<Rightarrow> Itoa_int n)"

definition zrem :: "int \<Rightarrow> zset \<Rightarrow> zset" where
  "zrem m z = filter (\<lambda>e. fst e \<noteq> m) z"

definition zadd :: "int \<Rightarrow> int \<Rightarrow> zset \<Rightarrow> zset" where
  "zadd m score z = (m, score) # zrem m z"

definition zrange :: "zset \<Rightarrow> int list" where
  "zrange z = map fst (sort_key (\<lambda>e. (snd e, Itoa_int (fst e))) z)"

definition zrange_upto :: "int \<Rightarrow> zset \<Rightarrow> int list" where
  "zrange_upto now z = zrange (filter (\<lambda>e. snd e \<le> now) z)"

section \<open>Scores\<close>

text \<open>Rounding an integer to the 53 bits of a \<open>float64\<close>, ties to even.\<close>

fun exp53 :: "nat \<Rightarrow> nat" where
  "exp53 m = (if m < 2 ^ 53 then 0 else Suc (exp53 (m div 2)))"

declare exp53.simps [simp del]

definition round53 :: "int \<Rightarrow> int" where
  "round53 x =
     (let m = nat \<bar>x\<bar>; e = exp53 m; q = m div 2 ^ e; r = m mod 2 ^ e;
          q' = (if 2 * r > 2 ^ e \<or> (0 < e \<and> 2 * r = 2 ^ e \<and> odd q) then q + 1 else q)
      in sgn x * int (q' * 2 ^ e))"

definition activeScore :: "int \<Rightarrow> int \<Rightarrow> int" where
  "activeScore priority i = round53 (round53 (round53 priority * 10 ^ 12) + round53 i)"

section \<open>Tasks and hashes\<close>

definition taskToMap :: "Task \<Rightarrow> hash" where
  "taskToMap t =
     [F_id \<mapsto> VInt (t_id t), F_taskClass \<mapsto> VStr (t_taskClass t), F_leaseOwner \<mapsto> VStr (t_leaseOwner t),
      F_failureCount \<mapsto> VInt (t_failureCount t), F_dataID \<mapsto> VInt (t_dataID t),
      F_priority \<mapsto> VInt (t_priority t), F_objectPHID \<mapsto> VStr (t_objectPHID t),
      F_containerPHID \<mapsto> VStr (t_containerPHID t), F_dateCreated \<mapsto> VInt (t_dateCreated t),
      F_dateModified \<mapsto> VInt (t_dateModified t),
      F_leaseExpires \<mapsto> (case t_leaseExpires t of None \<Rightarrow> VStr [] | Some e \<Rightarrow> VInt e),
      F_failureTime \<mapsto> (case t_failureTime t of None \<Rightarrow> VStr [] | Some e \<Rightarrow> VInt e)]"

definition mapToTask :: "hash \<Rightarrow> Task" where
  "mapToTask h =
     \<lparr>t_id = ParseInt (h F_id), t_taskClass = text_of (h F_taskClass), t_leaseOwner = text_of (h F_leaseOwner),
      t_leaseExpires = tonumber (h F_leaseExpires), t_failureCount = ParseInt (h F_failureCount),
      t_dataID = ParseInt (h F_dataID), t_failureTime = tonumber (h F_failureTime),
      t_priority = ParseInt (h F_priority), t_objectPHID = text_of (h F_objectPHID),
      t_containerPHID = text_of (h F_containerPHID), t_dateCreated = ParseInt (h F_dateCreated),
      t_dateModified = ParseInt (h F_dateModified), t_data = []\<rparr>"

definition command :: "string \<Rightarrow> (redis_db \<Rightarrow> 'a) \<Rightarrow> 'a redis_prog" where
  "command ctx f = stmt (DbError ctx) (\<lambda>s. (Inr (f s), s))"

definition loadTask :: "int \<Rightarrow> Task option redis_prog" where
  "loadTask taskID =
     bindP (command ''HGETALL'' (\<lambda>s. rd_task s taskID)) (\<lambda>vals.
     if \<not> hexists vals then ret None
     else
       let t = mapToTask vals in
       bindP (command ''GET data'' (\<lambda>s. rd_data s (t_dataID t))) (\<lambda>d.
       ret (Some (t\<lparr>t_data := (case d of None \<Rightarrow> [] | Some x \<Rightarrow> x)\<rparr>))))"

section \<open>Enqueue\<close>

definition enqueue_pipeline :: "string \<Rightarrow> Task \<Rightarrow> redis_db \<Rightarrow> (queue_error + unit) \<times> redis_db" where
  "enqueue_pipeline d task s =
     (let i = t_id task; score = activeScore (t_priority task) i;
          s1 = s\<lparr>rd_data := (rd_data s)(t_dataID task \<mapsto> d),
                 rd_task := (rd_task s)(i := rd_task s i ++ taskToMap task),
                 idx_active := zadd i score (idx_active s)\<rparr>
      in (Inr (),
          (case t_leaseExpires task of
             None \<Rightarrow> s1\<lparr>idx_unleased := zadd i score (idx_unleased s1)\<rparr>
           | Some e \<Rightarrow> s1\<lparr>idx_leased := zadd i e (idx_leased s1)\<rparr>)))"

definition Redis_Enqueue :: "EnqueueRequest \<Rightarrow> Task redis_prog" where
  "Redis_Enqueue req =
     bindP time_now (\<lambda>now.
     bindP (stmt (DbError ''incr data id'')
        (\<lambda>s. (Inr (next_data_id s + 1), s\<lparr>next_data_id := next_data_id s + 1\<rparr>))) (\<lambda>dataID.
     bindP (stmt (DbError ''incr task id'')
        (\<lambda>s. (Inr (next_task_id s + 1), s\<lparr>next_task_id := next_task_id s + 1\<rparr>))) (\<lambda>taskID.
     let task = \<lparr>t_id = taskID, t_taskClass = er_taskClass req, t_leaseOwner = [],
         t_leaseExpires = initial_expiry req, t_failureCount = 0, t_dataID = dataID, t_failureTime = None,
         t_priority = initial_priority req, t_objectPHID = er_objectPHID req,
         t_containerPHID = er_containerPHID req,
         t_dateCreated = now, t_dateModified = now, t_data = []\<rparr> in
     bindP (stmt (DbError ''enqueue pipeline'') (enqueue_pipeline (er_data req) task)) (\<lambda>_.
     ret task))))"

section \<open>Lease\<close>

definition classMatches :: "string list \<Rightarrow> hash \<Rightarrow> bool" where
  "classMatches taskClasses h \<longleftrightarrow>
     taskClasses = [] \<or> list_ex (\<lambda>c. h F_taskClass = Some (VStr c)) taskClasses"

definition take_lease :: "string \<Rightarrow> int \<Rightarrow> int \<Rightarrow> hash \<Rightarrow> hash" where
  "take_lease owner leaseExpires now h =
     h(F_leaseOwner \<mapsto> VStr owner, F_leaseExpires \<mapsto> VInt leaseExpires, F_dateModified \<mapsto> VInt now)"

fun lease_phase1 ::
  "nat \<Rightarrow> string \<Rightarrow> int \<Rightarrow> int \<Rightarrow> string list \<Rightarrow> int list \<Rightarrow> int list \<Rightarrow> redis_db \<Rightarrow> int list \<times> redis_db" where
  "lease_phase1 limit owner e now cs [] ids s = (ids, s)"
| "lease_phase1 limit owner e now cs (mid # ms) ids s =
     (if length ids \<ge> limit then (ids, s)
      else if classMatches cs (rd_task s mid) then
        lease_phase1 limit owner e now cs ms (ids @ [mid])
          (s\<lparr>rd_task := (rd_task s)(mid := take_lease owner e now (rd_task s mid)),
             idx_unleased := zrem mid (idx_unleased s), idx_leased := zadd mid e (idx_leased s)\<rparr>)
      else lease_phase1 limit owner e now cs ms ids s)"

fun lease_phase2 ::
  "nat \<Rightarrow> string \<Rightarrow> int \<Rightarrow> int \<Rightarrow> string list \<Rightarrow> int list \<Rightarrow> int list \<Rightarrow> redis_db \<Rightarrow> int list \<times> redis_db" where
  "lease_phase2 limit owner e now cs [] ids s = (ids, s)"
| "lease_phase2 limit owner e now cs (mid # ms) ids s =
     (if length ids \<ge> limit then (ids, s)
      else if classMatches cs (rd_task s mid) then
        lease_phase2 limit owner e now cs ms (ids @ [mid])
          (s\<lparr>rd_task := (rd_task s)(mid := take_lease owner e now (rd_task s mid)),
             idx_leased := zadd mid e (idx_leased s)\<rparr>)
      else lease_phase2 limit owner e now cs ms ids s)"

text \<open>The comparison of \<open>table.sort\<close>: priority, then the numeric id.\<close>

definition expired_key :: "redis_db \<Rightarrow> int \<Rightarrow> int \<times> int" where
  "expired_key s mid = (number_or 2000 (rd_task s mid F_priority), mid)"

definition leaseScript ::
  "nat \<Rightarrow> string \<Rightarrow> int \<Rightarrow> int \<Rightarrow> string list \<Rightarrow> redis_db \<Rightarrow> (queue_error + int list) \<times> redis_db" where
  "leaseScript limit owner leaseExpires now taskClasses s =
     (case lease_phase1 limit owner leaseExpires now taskClasses (zrange (idx_unleased s)) [] s of
        (ids, s1) \<Rightarrow>
          if length ids < limit then
            (case lease_phase2 limit owner leaseExpires now taskClasses
                    (sort_key (expired_key s1) (zrange_upto now (idx_leased s1))) ids s1 of
               (ids', s2) \<Rightarrow> (Inr ids', s2))
          else (Inr ids, s1))"

definition Redis_Lease :: "redis_config \<Rightarrow> int \<Rightarrow> string \<Rightarrow> string list \<Rightarrow> Task list redis_prog" where
  "Redis_Lease cfg lim leaseOwner taskClasses =
     (let limit = (if lim \<le> 0 then 1 else lim) in
      bindP time_now (\<lambda>now.
      let leaseExp = now + redis_leaseDuration cfg in
      bindP (stmt (DbError ''lease script'') (leaseScript (nat limit) leaseOwner leaseExp now taskClasses)) (\<lambda>result.
      if result = [] then ret []
      else bindP (forP result loadTask) (\<lambda>ts. ret (List.map_filter (\<lambda>t. t) ts)))))"

section \<open>Leaving the active set\<close>

text \<open>The copy of the hash and the closing fields, as all three scripts that archive write them.\<close>

definition archived_fields :: "int \<Rightarrow> int \<Rightarrow> int \<Rightarrow> string option \<Rightarrow> hash \<Rightarrow> hash \<Rightarrow> hash" where
  "archived_fields res duration now data old h =
     (let a = (old ++ h)(F_result \<mapsto> VInt res, F_duration \<mapsto> VInt duration, F_archivedEpoch \<mapsto> VInt now,
                F_dateModified \<mapsto> VInt now)
      in case data of None \<Rightarrow> a | Some d \<Rightarrow> a(F_data \<mapsto> VStr d))"

text \<open>Dropping the task from the indexes, counting it and deleting its hash; \<open>fc\<close> is the failure count that the script has read.\<close>

definition drop_active :: "int \<Rightarrow> fval option \<Rightarrow> int \<Rightarrow> redis_db \<Rightarrow> redis_db" where
  "drop_active taskID fc now s =
     s\<lparr>idx_active := zrem taskID (idx_active s), idx_unleased := zrem taskID (idx_unleased s),
       idx_leased := zrem taskID (idx_leased s), idx_archived := zadd taskID now (idx_archived s),
       counter_archived := counter_archived s + 1,
       counter_failed :=
         (if number_or 0 fc > 0 then counter_failed s - 1 else counter_failed s),
       rd_task := (rd_task s)(taskID := Map.empty)\<rparr>"

definition archiveScript ::
  "int \<Rightarrow> int \<Rightarrow> int \<Rightarrow> int \<Rightarrow> int \<Rightarrow> redis_db \<Rightarrow> (queue_error + unit) \<times> redis_db" where
  "archiveScript taskID dataID res duration now s =
     (if \<not> hexists (rd_task s taskID) then (Inl (DbError ''task not found''), s)
      else
        let archived = archived_fields res duration now (rd_data s dataID) (rd_archived s taskID) (rd_task s taskID) in
        (Inr (), drop_active taskID (archived F_failureCount) now (s\<lparr>rd_archived := (rd_archived s)(taskID := archived)\<rparr>)))"

definition Redis_archiveTask :: "int \<Rightarrow> int \<Rightarrow> int \<Rightarrow> ArchivedTask redis_prog" where
  "Redis_archiveTask taskID res duration =
     bindP (loadTask taskID) (\<lambda>t.
     case t of
       None \<Rightarrow> raise (DbError ''task not found'')
     | Some t \<Rightarrow>
         bindP time_now (\<lambda>now.
         bindP (stmt (DbError ''archive task'') (archiveScript taskID (t_dataID t) res duration now)) (\<lambda>_.
         ret \<lparr>at_task = t, at_result = res, at_duration = duration, at_archivedEpoch = Some now\<rparr>)))"

definition Redis_Complete :: "int \<Rightarrow> int \<Rightarrow> ArchivedTask redis_prog" where
  "Redis_Complete taskID duration = Redis_archiveTask taskID ResultSuccess duration"

definition Redis_Cancel :: "int \<Rightarrow> ArchivedTask redis_prog" where
  "Redis_Cancel taskID = Redis_archiveTask taskID ResultCancelled 0"

definition failScript :: "int \<Rightarrow> int \<Rightarrow> int \<Rightarrow> redis_db \<Rightarrow> (queue_error + unit) \<times> redis_db" where
  "failScript taskID now leaseExpires s =
     (let h = rd_task s taskID; prevFC = number_or 0 (h F_failureCount) in
      if \<not> hexists h then (Inl (DbError ''task not found''), s)
      else
        (Inr (),
         s\<lparr>rd_task := (rd_task s)(taskID := h(F_failureCount \<mapsto> VInt (prevFC + 1), F_failureTime \<mapsto> VInt now,
               F_leaseOwner \<mapsto> VStr [], F_leaseExpires \<mapsto> VInt leaseExpires, F_dateModified \<mapsto> VInt now)),
           idx_unleased := zrem taskID (idx_unleased s), idx_leased := zadd taskID leaseExpires (idx_leased s),
           counter_failed := (if prevFC = 0 then counter_failed s + 1 else counter_failed s)\<rparr>))"

definition Redis_Fail :: "redis_config \<Rightarrow> FailRequest \<Rightarrow> unit redis_prog" where
  "Redis_Fail cfg req =
     (if fr_permanent req then
        bindP (Redis_archiveTask (fr_taskID req) ResultFailure 0) (\<lambda>_. ret ())
      else
        let wait = (case fr_retryWait req of None \<Rightarrow> redis_retryWait cfg | Some x \<Rightarrow> x) in
        bindP time_now (\<lambda>now.
        stmt (DbError ''fail script'') (failScript (fr_taskID req) now (now + wait))))"

definition Redis_Yield :: "int \<Rightarrow> int \<Rightarrow> unit redis_prog" where
  "Redis_Yield taskID dur =
     (let duration = (if dur < 5 then 5 else dur) in
      bindP time_now (\<lambda>now.
      let leaseExp = now + duration in
      stmt (DbError ''yield pipeline'') (\<lambda>s.
        (Inr (),
         s\<lparr>rd_task := (rd_task s)(taskID := (rd_task s taskID)(F_leaseOwner \<mapsto> VStr YieldOwner,
               F_leaseExpires \<mapsto> VInt leaseExp, F_dateModified \<mapsto> VInt now)),
           idx_unleased := zrem taskID (idx_unleased s), idx_leased := zadd taskID leaseExp (idx_leased s)\<rparr>))))"

fun awaken_loop :: "int \<Rightarrow> int list \<Rightarrow> int \<Rightarrow> redis_db \<Rightarrow> int \<times> redis_db" where
  "awaken_loop epochAgo [] n s = (n, s)"
| "awaken_loop epochAgo (tid # tids) n s =
     (let h = rd_task s tid in
      if h F_leaseOwner = Some (VStr YieldOwner) \<and> number_or 0 (h F_leaseExpires) > epochAgo \<and>
         number_or 1 (h F_failureCount) = 0
      then awaken_loop epochAgo tids (n + 1)
             (s\<lparr>rd_task := (rd_task s)(tid := h(F_leaseExpires \<mapsto> VInt epochAgo)),
                idx_leased := zrem tid (idx_leased s),
                idx_unleased := zadd tid (activeScore (number_or 2000 (h F_priority)) tid) (idx_unleased s)\<rparr>)
      else awaken_loop epochAgo tids n s)"

definition Redis_Awaken :: "int list \<Rightarrow> int redis_prog" where
  "Redis_Awaken taskIDs =
     (if taskIDs = [] then ret 0
      else
        bindP time_now (\<lambda>now.
        stmt (DbError ''awaken script'')
          (\<lambda>s. case awaken_loop (now - 3600) taskIDs 0 s of (n, s') \<Rightarrow> (Inr n, s'))))"

section \<open>Reading\<close>

definition Redis_Stats :: "QueueStats redis_prog" where
  "Redis_Stats =
     command ''stats pipeline'' (\<lambda>s.
       \<lparr>qs_activeCount = int (length (idx_active s)), qs_leasedCount = int (length (idx_leased s)),
        qs_archivedCount = counter_archived s, qs_failedCount = counter_failed s\<rparr>)"

definition Redis_GetTask :: "int \<Rightarrow> Task option redis_prog" where
  "Redis_GetTask taskID = loadTask taskID"

text \<open>\<open>ZRANGE start stop\<close>: negative bounds count from the end, an empty range is empty.\<close>

definition zrange_bounds :: "int \<Rightarrow> int \<Rightarrow> zset \<Rightarrow> int list" where
  "zrange_bounds start stop z =
     (let n = int (length z);
          a = max 0 (if start < 0 then n + start else start);
          b = min (n - 1) (if stop < 0 then n + stop else stop)
      in if a > b then [] else take (nat (b - a + 1)) (drop (nat a) (zrange z)))"

definition Redis_ListActive :: "int \<Rightarrow> int \<Rightarrow> Task list redis_prog" where
  "Redis_ListActive lim offset =
     (let limit = (if lim \<le> 0 then 100 else lim) in
      bindP (command ''list active'' (\<lambda>s. zrange_bounds offset (offset + limit - 1) (idx_active s))) (\<lambda>ids.
      bindP (forP ids loadTask) (\<lambda>ts. ret (List.map_filter (\<lambda>t. t) ts))))"

section \<open>Fenced execution: \<open>execution_redis.go\<close>\<close>

definition owns :: "ExecutionLease \<Rightarrow> hash \<Rightarrow> bool" where
  "owns l h \<longleftrightarrow>
     h F_leaseOwner = Some (VStr (l_leaseOwner l)) \<and> tonumber (h F_leaseExpires) = Some (l_leaseExpires l)"

text \<open>One follow-up. A missing priority makes the script raise at the \<open>HSET\<close> that needs it.\<close>

definition child_hash :: "int \<Rightarrow> int \<Rightarrow> int \<Rightarrow> int \<Rightarrow> EnqueueRequest \<Rightarrow> hash" where
  "child_hash childID dataID p now child =
     (let h = [F_id \<mapsto> VInt childID, F_taskClass \<mapsto> VStr (er_taskClass child), F_dataID \<mapsto> VInt dataID,
               F_priority \<mapsto> VInt p, F_failureCount \<mapsto> VInt 0, F_dateCreated \<mapsto> VInt now,
               F_dateModified \<mapsto> VInt now, F_leaseOwner \<mapsto> VStr []];
          h1 = (if er_objectPHID child \<noteq> [] then h(F_objectPHID \<mapsto> VStr (er_objectPHID child)) else h);
          h2 = (if er_containerPHID child \<noteq> [] then h1(F_containerPHID \<mapsto> VStr (er_containerPHID child)) else h1)
      in case initial_expiry child of None \<Rightarrow> h2 | Some d \<Rightarrow> h2(F_leaseExpires \<mapsto> VInt d))"

definition add_child :: "int option \<Rightarrow> int \<Rightarrow> EnqueueRequest \<Rightarrow> redis_db \<Rightarrow> (queue_error + int \<times> int) \<times> redis_db" where
  "add_child priority now child s =
     (let childID = next_task_id s + 1; dataID = next_data_id s + 1;
          s1 = s\<lparr>next_task_id := childID, next_data_id := dataID,
                 rd_data := (rd_data s)(dataID \<mapsto> er_data child)\<rparr>
      in case (case er_priority child of Some p \<Rightarrow> Some p | None \<Rightarrow> priority) of
           None \<Rightarrow> (Inl (DbError ''script error''), s1)
         | Some p \<Rightarrow>
             let s2 = s1\<lparr>rd_task := (rd_task s1)(childID := rd_task s1 childID ++ child_hash childID dataID p now child),
                         idx_active := zadd childID (activeScore p childID) (idx_active s1)\<rparr>
             in (Inr (childID, dataID),
                 (case initial_expiry child of
                    Some d \<Rightarrow> s2\<lparr>idx_leased := zadd childID d (idx_leased s2)\<rparr>
                  | None \<Rightarrow> s2\<lparr>idx_unleased := zadd childID (activeScore p childID) (idx_unleased s2)\<rparr>)))"

fun add_children :: "int option \<Rightarrow> int \<Rightarrow> EnqueueRequest list \<Rightarrow> redis_db \<Rightarrow> (queue_error + unit) \<times> redis_db" where
  "add_children priority now [] s = (Inr (), s)"
| "add_children priority now (child # children) s =
     (case add_child priority now child s of
        (Inl e, s') \<Rightarrow> (Inl e, s')
      | (Inr _, s') \<Rightarrow> add_children priority now children s')"

text \<open>Archiving inside the fenced scripts reads \<open>dataID\<close> from the hash and raises without it.\<close>

definition archive_owned :: "int \<Rightarrow> int \<Rightarrow> int \<Rightarrow> int \<Rightarrow> redis_db \<Rightarrow> (queue_error + unit) \<times> redis_db" where
  "archive_owned taskID res duration now s =
     (let h = rd_task s taskID;
          archive = (\<lambda>d. s\<lparr>rd_archived := (rd_archived s)(taskID :=
             archived_fields res duration now d (rd_archived s taskID) h)\<rparr>)
      in case h F_dataID of
           None \<Rightarrow> (Inl (DbError ''script error''), archive None)
         | Some v \<Rightarrow> (Inr (), drop_active taskID (h F_failureCount) now (archive (rd_data s (ParseInt (Some v))))))"

definition finalizeExecutionScript ::
  "ExecutionLease \<Rightarrow> int \<Rightarrow> int \<Rightarrow> EnqueueRequest list \<Rightarrow> redis_db \<Rightarrow> (queue_error + unit) \<times> redis_db" where
  "finalizeExecutionScript l duration now children s =
     (let i = l_taskID l; h = rd_task s i in
      if \<not> hexists h then
        (if owns l (rd_archived s i) \<and> rd_archived s i F_result = Some (VInt 0) then (Inr (), s)
         else (Inl ErrLeaseConflict, s))
      else if \<not> owns l h \<or> l_leaseExpires l \<le> now then (Inl ErrLeaseConflict, s)
      else
        (case add_children (tonumber (h F_priority)) now children s of
           (Inl e, s1) \<Rightarrow> (Inl e, s1)
         | (Inr _, s1) \<Rightarrow> archive_owned i 0 duration now s1))"

definition Redis_Finalize :: "FinalizeRequest \<Rightarrow> unit redis_prog" where
  "Redis_Finalize req =
     bindP time_now (\<lambda>now.
     stmt (DbError ''finalize script'')
       (finalizeExecutionScript (fin_lease req) (fin_duration req) now (fin_followups req)))"

definition renewExecutionScript ::
  "ExecutionLease \<Rightarrow> int \<Rightarrow> int \<Rightarrow> redis_db \<Rightarrow> (queue_error + int) \<times> redis_db" where
  "renewExecutionScript l now duration s =
     (let i = l_taskID l; h = rd_task s i in
      if \<not> owns l h \<or> l_leaseExpires l \<le> now then (Inl ErrLeaseConflict, s)
      else
        let newExpiry = max (l_leaseExpires l) (now + duration) in
        (Inr newExpiry,
         s\<lparr>rd_task := (rd_task s)(i := h(F_leaseExpires \<mapsto> VInt newExpiry)),
           idx_leased := zadd i newExpiry (idx_leased s)\<rparr>))"

definition Redis_Renew :: "RenewRequest \<Rightarrow> Task redis_prog" where
  "Redis_Renew req =
     bindP time_now (\<lambda>now.
     bindP (stmt (DbError ''renew script'') (renewExecutionScript (ren_lease req) now (ren_duration req))) (\<lambda>expiry.
     bindP (loadTask (l_taskID (ren_lease req))) (\<lambda>task.
     case task of
       None \<Rightarrow> raise ErrLeaseConflict
     | Some t \<Rightarrow> ret (t\<lparr>t_leaseExpires := Some expiry\<rparr>))))"

definition resolveExecutionScript ::
  "ExecutionLease \<Rightarrow> int \<Rightarrow> string \<Rightarrow> int \<Rightarrow> redis_db \<Rightarrow> (queue_error + unit) \<times> redis_db" where
  "resolveExecutionScript l now outcome wait s =
     (let i = l_taskID l; h = rd_task s i in
      if \<not> owns l h \<or> l_leaseExpires l \<le> now then (Inl ErrLeaseConflict, s)
      else if outcome = ''failure'' then archive_owned i 1 0 now s
      else if outcome = ''retry'' then
        (let fc = number_or 0 (h F_failureCount) in
         (Inr (),
          s\<lparr>rd_task := (rd_task s)(i := h(F_failureCount \<mapsto> VInt (fc + 1), F_failureTime \<mapsto> VInt now,
                F_leaseOwner \<mapsto> VStr [], F_leaseExpires \<mapsto> VInt (now + wait), F_dateModified \<mapsto> VInt now)),
            counter_failed := (if fc = 0 then counter_failed s + 1 else counter_failed s),
            idx_unleased := zrem i (idx_unleased s), idx_leased := zadd i (now + wait) (idx_leased s)\<rparr>))
      else if outcome = ''yield'' then
        (let w = max 5 wait in
         (Inr (),
          s\<lparr>rd_task := (rd_task s)(i := h(F_leaseOwner \<mapsto> VStr YieldOwner, F_leaseExpires \<mapsto> VInt (now + w),
                F_dateModified \<mapsto> VInt now)),
            idx_unleased := zrem i (idx_unleased s), idx_leased := zadd i (now + w) (idx_leased s)\<rparr>))
      else (Inl (DbError ''invalid resolution outcome''), s))"

definition Redis_Resolve :: "redis_config \<Rightarrow> ResolveRequest \<Rightarrow> unit redis_prog" where
  "Redis_Resolve cfg req =
     (let wait = (if res_outcome req = ''yield'' then res_duration req
                  else (case res_retryWait req of None \<Rightarrow> redis_retryWait cfg | Some x \<Rightarrow> x)) in
      bindP time_now (\<lambda>now.
      stmt (DbError ''resolve script'') (resolveExecutionScript (res_lease req) now (res_outcome req) wait)))"

section \<open>The inbox: \<open>inbox_redis.go\<close>\<close>

text \<open>The response is kept as the task it decodes to; unlike the stored hash it carries the payload.\<close>

definition event_response :: "int \<Rightarrow> int \<Rightarrow> int \<Rightarrow> EnqueueRequest \<Rightarrow> Task" where
  "event_response i dataID now input =
     \<lparr>t_id = i, t_taskClass = er_taskClass input, t_leaseOwner = [], t_leaseExpires = initial_expiry input,
      t_failureCount = 0, t_dataID = dataID, t_failureTime = None, t_priority = initial_priority input,
      t_objectPHID = er_objectPHID input, t_containerPHID = er_containerPHID input,
      t_dateCreated = now, t_dateModified = now, t_data = er_data input\<rparr>"

definition enqueueEventScript ::
  "string \<Rightarrow> string \<Rightarrow> int \<Rightarrow> EnqueueRequest \<Rightarrow> redis_db \<Rightarrow> (queue_error + Task) \<times> redis_db" where
  "enqueueEventScript event digest now input s =
     (case rd_inbox s event of
        Some (stored, response) \<Rightarrow>
          if stored \<noteq> digest then (Inl ErrEventConflict, s) else (Inr response, s)
      | None \<Rightarrow>
          (case add_child (Some PriorityDefault) now input s of
             (Inl e, s') \<Rightarrow> (Inl e, s')
           | (Inr (i, dataID), s') \<Rightarrow>
               let response = event_response i dataID now input in
               (Inr response, s'\<lparr>rd_inbox := (rd_inbox s')(event \<mapsto> (digest, response))\<rparr>)))"

definition Redis_EnqueueEvent :: "(EnqueueRequest \<Rightarrow> string) \<Rightarrow> EnqueueEventRequest \<Rightarrow> Task redis_prog" where
  "Redis_EnqueueEvent digest req =
     bindP time_now (\<lambda>now.
     stmt (DbError ''enqueue event script'')
       (enqueueEventScript (ev_eventID req) (digest (ev_task req)) now (ev_task req)))"

end
