(* ===== verification/Redis_Facts.thy ===== *)
theory Redis_Facts
  imports Redis_Store Store_Interface
begin

text \<open>
  Facts about the Redis backend: the invariant that ties the hashes to the sorted sets and the
  counters, that every call keeps it and loses nothing, and what repeated calls do.
\<close>

section \<open>The invariant\<close>

definition members :: "zset \<Rightarrow> int set" where
  "members z = fst ` set z"

text \<open>The fields every active hash has.\<close>

definition task_wf :: "redis_db \<Rightarrow> int \<Rightarrow> hash \<Rightarrow> bool" where
  "task_wf s i h \<longleftrightarrow> h F_id = Some (VInt i) \<and> (\<exists>c. h F_taskClass = Some (VStr c)) \<and>
     (\<exists>ow. h F_leaseOwner = Some (VStr ow)) \<and> (\<exists>p. h F_priority = Some (VInt p)) \<and>
     (\<exists>n\<ge>0. h F_failureCount = Some (VInt n)) \<and>
     (\<exists>d. h F_dataID = Some (VInt d) \<and> d \<le> next_data_id s \<and> rd_data s d \<noteq> None)"

text \<open>A leased or delayed task is in \<open>idx_leased\<close> under its expiry, any other in \<open>idx_unleased\<close>.\<close>

definition placed :: "redis_db \<Rightarrow> int \<Rightarrow> hash \<Rightarrow> bool" where
  "placed s i h \<longleftrightarrow>
     (case map_of (idx_leased s) i of
        Some e \<Rightarrow> h F_leaseExpires = Some (VInt e) \<and> i \<notin> members (idx_unleased s)
      | None \<Rightarrow> i \<in> members (idx_unleased s) \<and>
          (h F_leaseOwner = Some (VStr []) \<or> h F_leaseOwner = Some (VStr YieldOwner)))"

definition failed_hash :: "hash \<Rightarrow> bool" where
  "failed_hash h \<longleftrightarrow> number_or 0 (h F_failureCount) > 0"

definition failed_ids :: "redis_db \<Rightarrow> int set" where
  "failed_ids s = {i \<in> members (idx_active s). failed_hash (rd_task s i)}"

definition sets_ok :: "redis_db \<Rightarrow> bool" where
  "sets_ok s \<longleftrightarrow> distinct (map fst (idx_active s)) \<and> distinct (map fst (idx_unleased s)) \<and>
     distinct (map fst (idx_leased s)) \<and>
     members (idx_unleased s) \<union> members (idx_leased s) \<subseteq> members (idx_active s)"

definition keys_live :: "redis_db \<Rightarrow> bool" where
  "keys_live s \<longleftrightarrow>
     (\<forall>i. hexists (rd_task s i) \<longleftrightarrow> i \<in> members (idx_active s)) \<and>
     (\<forall>i. hexists (rd_archived s i) \<longrightarrow> i \<notin> members (idx_active s)) \<and>
     (\<forall>i. i \<in> members (idx_active s) \<or> hexists (rd_archived s i) \<longrightarrow> i \<le> next_task_id s)"

definition redis_ok :: "redis_db \<Rightarrow> bool" where
  "redis_ok s \<longleftrightarrow> sets_ok s \<and> keys_live s \<and>
     (\<forall>i \<in> members (idx_active s). task_wf s i (rd_task s i) \<and> placed s i (rd_task s i)) \<and>
     counter_failed s = int (card (failed_ids s))"

text \<open>What no call undoes: no task is lost, archived hashes and event receipts never change.\<close>

definition redis_keeps :: "redis_db \<Rightarrow> redis_db \<Rightarrow> bool" where
  "redis_keeps s s' \<longleftrightarrow>
     (\<forall>i \<in> members (idx_active s). i \<in> members (idx_active s') \<or> hexists (rd_archived s' i)) \<and>
     (\<forall>i. hexists (rd_archived s i) \<longrightarrow> rd_archived s' i = rd_archived s i) \<and>
     (\<forall>e x. rd_inbox s e = Some x \<longrightarrow> rd_inbox s' e = Some x)"

definition redis_good :: "redis_db \<Rightarrow> redis_db \<Rightarrow> bool" where
  "redis_good s s' \<longleftrightarrow> redis_ok s' \<and> redis_keeps s s'"

lemma redis_keeps_refl [simp]: "redis_keeps s s"
  by (simp add: redis_keeps_def)

lemma redis_keeps_trans: "redis_keeps s s' \<Longrightarrow> redis_keeps s' s'' \<Longrightarrow> redis_keeps s s''"
  unfolding redis_keeps_def by (metis (no_types, lifting))

lemma redis_good_refl: "redis_ok s \<Longrightarrow> redis_good s s"
  by (simp add: redis_good_def)

lemma redis_good_trans: "redis_good s s' \<Longrightarrow> redis_good s' s'' \<Longrightarrow> redis_good s s''"
  unfolding redis_good_def using redis_keeps_trans by blast

lemma redis_good_ok: "redis_good s s' \<Longrightarrow> redis_ok s'"
  by (simp add: redis_good_def)

subsection \<open>Sorted sets\<close>

lemma members_zrem [simp]: "members (zrem i z) = members z - {i}"
  by (auto simp: members_def zrem_def)

lemma members_zadd [simp]: "members (zadd i e z) = insert i (members z)"
  by (auto simp: zadd_def members_def zrem_def)

lemma distinct_zrem [simp]: "distinct (map fst z) \<Longrightarrow> distinct (map fst (zrem i z))"
  by (simp add: zrem_def distinct_map_filter)

lemma distinct_zadd [simp]: "distinct (map fst z) \<Longrightarrow> distinct (map fst (zadd i e z))"
  using members_zrem [of i z] by (simp add: zadd_def members_def)

lemma map_of_zrem [simp]: "map_of (zrem i z) j = (if i = j then None else map_of z j)"
  by (induction z) (auto simp: zrem_def)

lemma map_of_zadd [simp]: "map_of (zadd i e z) j = (if i = j then Some e else map_of z j)"
  by (simp add: zadd_def)

lemma map_of_None_members: "map_of z i = None \<longleftrightarrow> i \<notin> members z"
  by (simp add: members_def map_of_eq_None_iff)

lemma hexists_iff: "hexists h \<longleftrightarrow> h \<noteq> Map.empty"
proof
  assume "h \<noteq> Map.empty"
  then obtain f where "h f \<noteq> None" by (auto simp: fun_eq_iff)
  then show "hexists h" by (cases f) (auto simp: hexists_def all_fields_def)
qed (auto simp: hexists_def all_fields_def)

subsection \<open>The four ways the state changes\<close>

text \<open>A task moves to the leased set under a new expiry.\<close>

definition to_leased :: "int \<Rightarrow> hash \<Rightarrow> int \<Rightarrow> int \<Rightarrow> redis_db \<Rightarrow> redis_db" where
  "to_leased i h e df s =
     s\<lparr>rd_task := (rd_task s)(i := h), idx_unleased := zrem i (idx_unleased s),
       idx_leased := zadd i e (idx_leased s), counter_failed := counter_failed s + df\<rparr>"

definition failed_delta :: "hash \<Rightarrow> hash \<Rightarrow> int" where
  "failed_delta h h' = (if failed_hash h' then 1 else 0) - (if failed_hash h then 1 else 0)"

lemma finite_members [simp]: "finite (members z)"
  by (simp add: members_def)

lemma failed_update:
  assumes "i \<in> members (idx_active s)"
  shows "int (card {j \<in> members (idx_active s). failed_hash (((rd_task s)(i := h)) j)}) =
     int (card (failed_ids s)) + failed_delta (rd_task s i) h"
proof -
  let ?A = "members (idx_active s) - {i}"
  let ?F = "{j \<in> ?A. failed_hash (rd_task s j)}"
  have new: "{j \<in> members (idx_active s). failed_hash (((rd_task s)(i := h)) j)} =
      (if failed_hash h then insert i ?F else ?F)"
    using assms by auto
  have old: "failed_ids s = (if failed_hash (rd_task s i) then insert i ?F else ?F)"
    using assms by (auto simp: failed_ids_def)
  show ?thesis unfolding new old by (simp add: failed_delta_def)
qed

lemma to_leased_good:
  assumes ok: "redis_ok s" and i: "i \<in> members (idx_active s)"
    and h: "task_wf s i h" "h F_leaseExpires = Some (VInt e)" "df = failed_delta (rd_task s i) h"
  shows "redis_good s (to_leased i h e df s)"
proof -
  let ?s = "to_leased i h e df s"
  have "h \<noteq> Map.empty" using h(2) by auto
  then have keys: "keys_live ?s" "sets_ok ?s"
    using ok i by (auto simp: redis_ok_def keys_live_def sets_ok_def to_leased_def hexists_iff)
  have each: "task_wf ?s j (rd_task ?s j) \<and> placed ?s j (rd_task ?s j)" if j: "j \<in> members (idx_active s)" for j
  proof (cases "j = i")
    case True
    then show ?thesis using h by (simp add: to_leased_def task_wf_def placed_def)
  next
    case False
    then show ?thesis
      using ok j by (auto simp: redis_ok_def to_leased_def task_wf_def placed_def split: option.splits)
  qed
  have "counter_failed ?s = int (card (failed_ids ?s))"
    using failed_update [OF i, of h] ok h(3) by (simp add: to_leased_def failed_ids_def redis_ok_def)
  with keys each have "redis_ok ?s" by (simp add: redis_ok_def) (simp add: to_leased_def)
  moreover have "redis_keeps s ?s" by (simp add: redis_keeps_def to_leased_def)
  ultimately show ?thesis by (simp add: redis_good_def)
qed

text \<open>An awakened task moves to the unleased set.\<close>

definition to_unleased :: "int \<Rightarrow> hash \<Rightarrow> int \<Rightarrow> redis_db \<Rightarrow> redis_db" where
  "to_unleased i h score s =
     s\<lparr>rd_task := (rd_task s)(i := h), idx_leased := zrem i (idx_leased s),
       idx_unleased := zadd i score (idx_unleased s)\<rparr>"

lemma to_unleased_good:
  assumes ok: "redis_ok s" and i: "i \<in> members (idx_active s)"
    and h: "task_wf s i h" "h F_leaseOwner = Some (VStr YieldOwner)" "failed_delta (rd_task s i) h = 0"
  shows "redis_good s (to_unleased i h score s)"
proof -
  let ?s = "to_unleased i h score s"
  have "h \<noteq> Map.empty" using h(2) by auto
  then have keys: "keys_live ?s" "sets_ok ?s"
    using ok i by (auto simp: redis_ok_def keys_live_def sets_ok_def to_unleased_def hexists_iff)
  have each: "task_wf ?s j (rd_task ?s j) \<and> placed ?s j (rd_task ?s j)" if j: "j \<in> members (idx_active s)" for j
  proof (cases "j = i")
    case True
    then show ?thesis using h by (simp add: to_unleased_def task_wf_def placed_def)
  next
    case False
    then show ?thesis
      using ok j by (auto simp: redis_ok_def to_unleased_def task_wf_def placed_def split: option.splits)
  qed
  have "counter_failed ?s = int (card (failed_ids ?s))"
    using failed_update [OF i, of h] ok h(3) by (simp add: to_unleased_def failed_ids_def redis_ok_def)
  with keys each have "redis_ok ?s" by (simp add: redis_ok_def) (simp add: to_unleased_def)
  moreover have "redis_keeps s ?s" by (simp add: redis_keeps_def to_unleased_def)
  ultimately show ?thesis by (simp add: redis_good_def)
qed

text \<open>A task leaves for the archive.\<close>

definition to_archive :: "int \<Rightarrow> hash \<Rightarrow> int \<Rightarrow> redis_db \<Rightarrow> redis_db" where
  "to_archive i a now s = drop_active i (rd_task s i F_failureCount) now (s\<lparr>rd_archived := (rd_archived s)(i := a)\<rparr>)"

lemma failed_hash_number: "failed_hash h \<longleftrightarrow> number_or 0 (h F_failureCount) > 0"
  by (rule failed_hash_def)

lemma to_archive_good:
  assumes ok: "redis_ok s" and i: "i \<in> members (idx_active s)" and a: "a \<noteq> Map.empty"
  shows "redis_good s (to_archive i a now s)"
proof -
  let ?s = "to_archive i a now s"
  have none: "rd_archived s i = Map.empty" using ok i by (auto simp: redis_ok_def keys_live_def hexists_iff)
  have keys: "keys_live ?s" "sets_ok ?s"
    using ok i a by (auto simp: redis_ok_def keys_live_def sets_ok_def to_archive_def drop_active_def hexists_iff)
  have each: "task_wf ?s j (rd_task ?s j) \<and> placed ?s j (rd_task ?s j)"
    if "j \<in> members (idx_active s)" "j \<noteq> i" for j
    using ok that
    by (auto simp: redis_ok_def to_archive_def drop_active_def task_wf_def placed_def split: option.splits)
  have "failed_ids ?s = failed_ids s - {i}"
    by (auto simp: failed_ids_def to_archive_def drop_active_def)
  moreover have "finite (failed_ids s)" by (simp add: failed_ids_def)
  moreover have "i \<in> failed_ids s \<longleftrightarrow> failed_hash (rd_task s i)" using i by (simp add: failed_ids_def)
  ultimately have "counter_failed ?s = int (card (failed_ids ?s))"
    using ok card_Suc_Diff1 [of "failed_ids s" i]
    by (auto simp: to_archive_def drop_active_def redis_ok_def failed_hash_number)
  with keys each have "redis_ok ?s" by (simp add: redis_ok_def) (simp add: to_archive_def drop_active_def)
  moreover have "redis_keeps s ?s"
    using none a by (auto simp: redis_keeps_def to_archive_def drop_active_def hexists_iff)
  ultimately show ?thesis by (simp add: redis_good_def)
qed

text \<open>A new task appears under the next id.\<close>

definition add_task :: "hash \<Rightarrow> int \<Rightarrow> int option \<Rightarrow> int \<Rightarrow> string \<Rightarrow> redis_db \<Rightarrow> redis_db" where
  "add_task h score expiry i d s =
     s\<lparr>rd_task := (rd_task s)(i := h), rd_data := (rd_data s)(next_data_id s \<mapsto> d),
       idx_active := zadd i score (idx_active s),
       idx_unleased := (if expiry = None then zadd i score (idx_unleased s) else idx_unleased s),
       idx_leased := (case expiry of None \<Rightarrow> idx_leased s | Some e \<Rightarrow> zadd i e (idx_leased s))\<rparr>"

lemma add_task_good:
  assumes ok: "redis_ok s" and new: "i = next_task_id s" "i \<notin> members (idx_active s)" "\<not> hexists (rd_archived s i)"
    and h: "task_wf (add_task h score expiry i d s) i h" "h F_leaseOwner = Some (VStr [])"
      "\<not> failed_hash h" "\<And>e. expiry = Some e \<Longrightarrow> h F_leaseExpires = Some (VInt e)"
  shows "redis_good s (add_task h score expiry i d s)"
proof -
  let ?s = "add_task h score expiry i d s"
  have "h \<noteq> Map.empty" using h(2) by auto
  then have keys: "keys_live ?s" "sets_ok ?s"
    using ok new by (auto simp: redis_ok_def keys_live_def sets_ok_def add_task_def hexists_iff split: option.splits)
  have sub: "i \<notin> members (idx_leased s)" "i \<notin> members (idx_unleased s)"
    using ok new by (auto simp: redis_ok_def sets_ok_def)
  have each: "task_wf ?s j (rd_task ?s j) \<and> placed ?s j (rd_task ?s j)"
    if j: "j \<in> members (idx_active s) \<or> j = i" for j
  proof (cases "j = i")
    case True
    then show ?thesis
      using h sub by (cases expiry) (auto simp: add_task_def placed_def map_of_None_members [symmetric])
  next
    case False
    then have "task_wf s j (rd_task s j)" "placed s j (rd_task s j)" using ok j by (auto simp: redis_ok_def)
    with False show ?thesis
      by (cases expiry) (auto simp: add_task_def task_wf_def placed_def split: option.splits)
  qed
  have "failed_ids ?s = failed_ids s"
    using new(2) h(3) by (auto simp: failed_ids_def add_task_def)
  then have count: "counter_failed ?s = int (card (failed_ids ?s))"
    using ok by (simp add: redis_ok_def add_task_def)
  have "members (idx_active ?s) = insert i (members (idx_active s))" by (simp add: add_task_def)
  with keys each count have "redis_ok ?s" unfolding redis_ok_def by blast
  moreover have "redis_keeps s ?s" by (simp add: redis_keeps_def add_task_def)
  ultimately show ?thesis by (simp add: redis_good_def)
qed

subsection \<open>The scripts\<close>

lemma active_hash:
  assumes "redis_ok s" "i \<in> members (idx_active s)"
  shows "task_wf s i (rd_task s i)" "placed s i (rd_task s i)" "hexists (rd_task s i)" "rd_archived s i = Map.empty"
  using assms by (auto simp: redis_ok_def keys_live_def hexists_iff)

lemma hexists_active: "redis_ok s \<Longrightarrow> hexists (rd_task s i) \<longleftrightarrow> i \<in> members (idx_active s)"
  by (simp add: redis_ok_def keys_live_def)

lemma owns_active: "redis_ok s \<Longrightarrow> owns l (rd_task s i) \<Longrightarrow> i \<in> members (idx_active s)"
  by (auto simp: hexists_active [symmetric] hexists_iff owns_def)

lemma task_wf_upd:
  "task_wf s i h \<Longrightarrow> f \<notin> {F_id, F_taskClass, F_leaseOwner, F_priority, F_failureCount, F_dataID} \<Longrightarrow>
   task_wf s i (h(f \<mapsto> v))"
  "task_wf s i h \<Longrightarrow> task_wf s i (h(F_leaseOwner \<mapsto> VStr ow))"
  "task_wf s i h \<Longrightarrow> 0 \<le> n \<Longrightarrow> task_wf s i (h(F_failureCount \<mapsto> VInt n))"
  by (auto simp: task_wf_def)

lemma failed_delta_same: "h' F_failureCount = h F_failureCount \<Longrightarrow> failed_delta h h' = 0"
  by (simp add: failed_delta_def failed_hash_def)

lemma failed_delta_retry:
  assumes "task_wf s i h" "h' F_failureCount = Some (VInt (number_or 0 (h F_failureCount) + 1))"
  shows "failed_delta h h' = (if number_or 0 (h F_failureCount) = 0 then 1 else 0)"
  using assms by (auto simp: failed_delta_def failed_hash_def task_wf_def number_or_def)

lemma zrem_id: "i \<notin> members z \<Longrightarrow> zrem i z = z"
  unfolding zrem_def members_def by (rule filter_True) auto

text \<open>Granting, from either phase.\<close>

lemma lease_step_good:
  assumes "redis_ok s" "i \<in> members (idx_active s)"
  shows "redis_good s (to_leased i (take_lease owner e now (rd_task s i)) e 0 s)"
  using active_hash [OF assms]
  by (intro to_leased_good [OF assms])
     (auto simp: take_lease_def failed_delta_same intro!: task_wf_upd)

lemma phase1_step:
  "s\<lparr>rd_task := (rd_task s)(i := take_lease owner e now (rd_task s i)),
     idx_unleased := zrem i (idx_unleased s), idx_leased := zadd i e (idx_leased s)\<rparr> =
   to_leased i (take_lease owner e now (rd_task s i)) e 0 s"
  by (simp add: to_leased_def)

lemma phase2_step:
  "i \<notin> members (idx_unleased s) \<Longrightarrow>
   s\<lparr>rd_task := (rd_task s)(i := take_lease owner e now (rd_task s i)), idx_leased := zadd i e (idx_leased s)\<rparr> =
   to_leased i (take_lease owner e now (rd_task s i)) e 0 s"
  by (simp add: to_leased_def zrem_id)

lemma to_leased_sets [simp]:
  "idx_active (to_leased i h e df s) = idx_active s"
  "members (idx_unleased (to_leased i h e df s)) = members (idx_unleased s) - {i}"
  "members (idx_leased (to_leased i h e df s)) = insert i (members (idx_leased s))"
  by (simp_all add: to_leased_def)

lemma lease_phase1_good:
  "lease_phase1 k owner e now cs ms ids s = (ids', s') \<Longrightarrow> redis_good s0 s \<Longrightarrow>
   set ms \<subseteq> members (idx_active s) \<Longrightarrow>
   redis_good s0 s' \<and> idx_active s' = idx_active s"
proof (induction k owner e now cs ms ids s rule: lease_phase1.induct)
  case (2 limit owner e now cs mid ms ids s)
  let ?s = "to_leased mid (take_lease owner e now (rd_task s mid)) e 0 s"
  have "redis_good s ?s"
    using 2 by (intro lease_step_good) (auto dest: redis_good_ok)
  then have "redis_good s0 ?s" using 2 redis_good_trans by blast
  then show ?case using 2 by (auto simp: phase1_step split: if_splits)
qed simp

lemma lease_phase2_good:
  "lease_phase2 k owner e now cs ms ids s = (ids', s') \<Longrightarrow> redis_good s0 s \<Longrightarrow>
   set ms \<subseteq> members (idx_leased s) \<Longrightarrow> redis_good s0 s'"
proof (induction k owner e now cs ms ids s rule: lease_phase2.induct)
  case (2 limit owner e now cs mid ms ids s)
  let ?s = "to_leased mid (take_lease owner e now (rd_task s mid)) e 0 s"
  have ok: "redis_ok s" using 2 by (auto dest: redis_good_ok)
  have mid: "mid \<in> members (idx_leased s)" using 2 by auto
  then have "mid \<in> members (idx_active s)" using ok by (auto simp: redis_ok_def sets_ok_def)
  moreover have "mid \<notin> members (idx_unleased s)"
    using active_hash(2) [OF ok calculation] mid by (auto simp: placed_def map_of_None_members split: option.splits)
  moreover have "redis_good s0 ?s"
    using lease_step_good [OF ok calculation(1)] 2 redis_good_trans by blast
  ultimately show ?case using 2 by (auto simp: phase2_step split: if_splits)
qed simp

lemma set_zrange [simp]: "set (zrange z) = members z"
  by (simp add: zrange_def members_def)

lemma set_zrange_upto: "set (zrange_upto now z) \<subseteq> members z"
  by (auto simp: zrange_upto_def members_def zrange_def)

lemma leaseScript_good:
  assumes "redis_good s0 s" "leaseScript k owner e now cs s = (r, s')"
  shows "redis_good s0 s'"
proof -
  obtain ids s1 where p1: "lease_phase1 k owner e now cs (zrange (idx_unleased s)) [] s = (ids, s1)"
    by (cases "lease_phase1 k owner e now cs (zrange (idx_unleased s)) [] s")
  have "members (idx_unleased s) \<subseteq> members (idx_active s)"
    using redis_good_ok [OF assms(1)] by (auto simp: redis_ok_def sets_ok_def)
  then have "redis_good s0 s1" using lease_phase1_good [OF p1 assms(1)] by simp
  then show ?thesis
    using assms(2) p1 set_zrange_upto [of now "idx_leased s1"] lease_phase2_good [of k owner e now cs _ ids s1 _ s' s0]
    by (auto simp: leaseScript_def split: if_splits prod.splits)
qed

lemma archived_fields_set [simp]:
  "archived_fields res dur now d old h \<noteq> Map.empty"
  "(archived_fields res dur now d old h) F_result = Some (VInt res)"
  "old = Map.empty \<Longrightarrow> (archived_fields res dur now d old h) F_leaseOwner = h F_leaseOwner"
  "old = Map.empty \<Longrightarrow> (archived_fields res dur now d old h) F_leaseExpires = h F_leaseExpires"
  "old = Map.empty \<Longrightarrow> (archived_fields res dur now d old h) F_failureCount = h F_failureCount"
  by (auto simp: archived_fields_def Let_def fun_eq_iff map_add_def split: option.splits intro: exI [of _ F_result])

lemma archive_good_redis:
  assumes "redis_good s0 s" "i \<in> members (idx_active s)"
  shows "redis_good s0 (drop_active i (rd_task s i F_failureCount) now (s\<lparr>rd_archived := (rd_archived s)(i := archived_fields res dur now d old h)\<rparr>))"
  using redis_good_trans [OF assms(1) to_archive_good [OF redis_good_ok [OF assms(1)] assms(2) archived_fields_set(1)]]
  unfolding to_archive_def .

lemma active_unarchived: "redis_ok s \<Longrightarrow> i \<in> members (idx_active s) \<Longrightarrow> rd_archived s i = Map.empty"
  by (auto simp: redis_ok_def keys_live_def hexists_iff)

lemma archiveScript_good:
  assumes "redis_good s0 s"
  shows "redis_good s0 (snd (archiveScript i dataID res dur now s))"
proof (cases "hexists (rd_task s i)")
  case True
  then have active: "i \<in> members (idx_active s)" using hexists_active [OF redis_good_ok [OF assms]] by simp
  then have "rd_archived s i = Map.empty" by (rule active_unarchived [OF redis_good_ok [OF assms]])
  then show ?thesis using True archive_good_redis [OF assms active] by (simp add: archiveScript_def Let_def)
qed (use assms in \<open>simp add: archiveScript_def\<close>)

lemma failScript_good:
  assumes "redis_good s0 s"
  shows "redis_good s0 (snd (failScript i now e s))"
proof (cases "hexists (rd_task s i)")
  case True
  let ?h = "rd_task s i"
  let ?n = "number_or 0 (?h F_failureCount)"
  let ?h' = "?h(F_failureCount \<mapsto> VInt (?n + 1), F_failureTime \<mapsto> VInt now, F_leaseOwner \<mapsto> VStr [],
    F_leaseExpires \<mapsto> VInt e, F_dateModified \<mapsto> VInt now)"
  have ok: "redis_ok s" using assms by (rule redis_good_ok)
  have i: "i \<in> members (idx_active s)" using hexists_active [OF ok] True by simp
  have wf: "task_wf s i ?h" using active_hash [OF ok i] by simp
  then have "0 \<le> ?n" by (auto simp: task_wf_def number_or_def)
  then have good: "redis_good s (to_leased i ?h' e (failed_delta ?h ?h') s)"
    using wf by (intro to_leased_good [OF ok i]) (auto intro!: task_wf_upd)
  have "failed_delta ?h ?h' = (if ?n = 0 then 1 else 0)"
    by (rule failed_delta_retry [OF wf]) simp
  then have "snd (failScript i now e s) = to_leased i ?h' e (failed_delta ?h ?h') s"
    using True by (simp add: failScript_def Let_def to_leased_def)
  then show ?thesis using redis_good_trans [OF assms good] by simp
qed (use assms in \<open>simp add: failScript_def Let_def\<close>)

lemma yield_good:
  assumes "redis_good s0 s" "i \<in> members (idx_active s)"
  shows "redis_good s0 (to_leased i ((rd_task s i)(F_leaseOwner \<mapsto> VStr YieldOwner, F_leaseExpires \<mapsto> VInt e,
     F_dateModified \<mapsto> VInt now)) e 0 s)"
proof -
  have ok: "redis_ok s" using assms(1) by (rule redis_good_ok)
  have "redis_good s (to_leased i ((rd_task s i)(F_leaseOwner \<mapsto> VStr YieldOwner, F_leaseExpires \<mapsto> VInt e,
     F_dateModified \<mapsto> VInt now)) e 0 s)"
    using active_hash(1) [OF ok assms(2)]
    by (intro to_leased_good [OF ok assms(2)]) (auto simp: failed_delta_same intro!: task_wf_upd)
  with assms(1) show ?thesis by (rule redis_good_trans)
qed

lemma awaken_loop_good:
  "redis_good s0 s \<Longrightarrow> awaken_loop ep tids n s = (m, s') \<Longrightarrow> redis_good s0 s'"
proof (induction ep tids n s rule: awaken_loop.induct)
  case (2 ep tid tids n s)
  let ?h = "rd_task s tid"
  let ?s = "to_unleased tid (?h(F_leaseExpires \<mapsto> VInt ep)) (activeScore (number_or 2000 (?h F_priority)) tid) s"
  have ok: "redis_ok s" using 2 by (auto dest: redis_good_ok)
  have "redis_good s ?s" if "?h F_leaseOwner = Some (VStr YieldOwner)"
  proof -
    have "hexists ?h" using that by (auto simp: hexists_iff)
    then have i: "tid \<in> members (idx_active s)" using hexists_active [OF ok] by simp
    then show ?thesis
      using that active_hash(1) [OF ok i]
      by (intro to_unleased_good [OF ok i]) (auto simp: failed_delta_same intro!: task_wf_upd)
  qed
  then show ?case
    using 2 redis_good_trans [of s0 s ?s] by (auto simp: Let_def to_unleased_def split: if_splits)
qed simp

text \<open>A new task of a script: the counters move first, then the task appears.\<close>

lemma next_ids_good:
  assumes "redis_good s0 s"
  shows "redis_good s0 (s\<lparr>next_task_id := next_task_id s + 1\<rparr>)" "redis_good s0 (s\<lparr>next_data_id := next_data_id s + 1\<rparr>)"
proof -
  have ok: "redis_ok s" using assms by (rule redis_good_ok)
  have "redis_good s (s\<lparr>next_task_id := next_task_id s + 1\<rparr>)" "redis_good s (s\<lparr>next_data_id := next_data_id s + 1\<rparr>)"
    using ok
    by (fastforce simp: redis_good_def redis_keeps_def redis_ok_def sets_ok_def keys_live_def task_wf_def
        placed_def failed_ids_def split: option.splits)+
  with assms show "redis_good s0 (s\<lparr>next_task_id := next_task_id s + 1\<rparr>)"
    "redis_good s0 (s\<lparr>next_data_id := next_data_id s + 1\<rparr>)"
    using redis_good_trans by blast+
qed

lemma set_data_good:
  assumes "redis_good s0 s"
  shows "redis_good s0 (s\<lparr>rd_data := (rd_data s)(d \<mapsto> x)\<rparr>)"
proof -
  have ok: "redis_ok s" using assms by (rule redis_good_ok)
  then have "redis_good s (s\<lparr>rd_data := (rd_data s)(d \<mapsto> x)\<rparr>)"
    by (fastforce simp: redis_good_def redis_keeps_def redis_ok_def sets_ok_def keys_live_def task_wf_def
        placed_def failed_ids_def split: option.splits)
  with assms show ?thesis by (rule redis_good_trans)
qed

lemma next_task_fresh:
  assumes "redis_ok s" "next_task_id s < i"
  shows "i \<notin> members (idx_active s)" "\<not> hexists (rd_archived s i)" "rd_task s i = Map.empty"
  using assms hexists_active [OF assms(1), of i] by (auto simp: redis_ok_def keys_live_def hexists_iff)

lemma child_hash_fields:
  "child_hash i d p now c F_id = Some (VInt i)" "child_hash i d p now c F_taskClass = Some (VStr (er_taskClass c))"
  "child_hash i d p now c F_dataID = Some (VInt d)" "child_hash i d p now c F_priority = Some (VInt p)"
  "child_hash i d p now c F_failureCount = Some (VInt 0)" "child_hash i d p now c F_leaseOwner = Some (VStr [])"
  "child_hash i d p now c F_leaseExpires = map_option VInt (initial_expiry c)"
  by (simp_all add: child_hash_def Let_def split: option.splits)

lemma add_child_good:
  assumes "redis_good s0 s" "add_child priority now child s = (r, s')"
  shows "redis_good s0 s'"
proof -
  let ?i = "next_task_id s + 1" and ?d = "next_data_id s + 1"
  let ?s1 = "s\<lparr>next_task_id := ?i\<rparr>\<lparr>next_data_id := ?d\<rparr>"
  let ?s2 = "?s1\<lparr>rd_data := (rd_data s)(?d \<mapsto> er_data child)\<rparr>"
  have g1: "redis_good s0 ?s1"
    using next_ids_good(2) [OF next_ids_good(1) [OF assms(1)]] by simp
  have g2: "redis_good s0 ?s2" using set_data_good [OF g1, of ?d "er_data child"] by simp
  show ?thesis
  proof (cases "case er_priority child of Some p \<Rightarrow> Some p | None \<Rightarrow> priority")
    case None
    then show ?thesis using assms(2) g2 by (simp add: add_child_def Let_def)
  next
    case (Some p)
    have ok: "redis_ok s" using assms(1) by (rule redis_good_ok)
    note fresh = next_task_fresh [OF ok, of ?i]
    let ?h = "child_hash ?i ?d p now child"
    have s': "s' = add_task ?h (activeScore p ?i) (initial_expiry child) ?i (er_data child) ?s1"
      using assms(2) Some fresh by (auto simp: add_child_def add_task_def Let_def split: option.splits)
    have "redis_good ?s1 s'"
      unfolding s'
      using fresh redis_good_ok [OF g1]
      by (intro add_task_good)
         (auto simp: task_wf_def child_hash_fields failed_hash_def number_or_def add_task_def)
    with g1 show ?thesis by (rule redis_good_trans)
  qed
qed

lemma add_child_keeps_task:
  assumes "add_child priority now child s = (r, s')" "redis_ok s" "i \<in> members (idx_active s)"
  shows "rd_task s' i = rd_task s i" "i \<in> members (idx_active s')" "rd_archived s' = rd_archived s"
    "rd_inbox s' = rd_inbox s"
proof -
  have "i \<noteq> next_task_id s + 1" using next_task_fresh(1) [OF assms(2), of "next_task_id s + 1"] assms(3) by auto
  then show "rd_task s' i = rd_task s i" "i \<in> members (idx_active s')" "rd_archived s' = rd_archived s"
    "rd_inbox s' = rd_inbox s"
    using assms(1,3) by (auto simp: add_child_def Let_def split: option.splits)
qed

lemma add_children_good:
  "redis_good s0 s \<Longrightarrow> add_children priority now cs s = (r, s') \<Longrightarrow> i \<in> members (idx_active s) \<Longrightarrow>
   redis_good s0 s' \<and> rd_task s' i = rd_task s i \<and> i \<in> members (idx_active s') \<and> rd_archived s' = rd_archived s"
proof (induction priority now cs s rule: add_children.induct)
  case (2 priority now child children s)
  obtain x s1 where c: "add_child priority now child s = (x, s1)" by (cases "add_child priority now child s")
  note good = add_child_good [OF "2.prems"(1) c]
  note keep = add_child_keeps_task [OF c redis_good_ok [OF "2.prems"(1)] "2.prems"(3)]
  show ?case
  proof (cases x)
    case (Inl e)
    then show ?thesis using "2.prems"(2) c good keep by auto
  next
    case (Inr y)
    then show ?thesis using "2.IH" [OF c [symmetric] Inr good _ keep(2)] "2.prems"(2) c keep by auto
  qed
qed simp

lemma archive_owned_run:
  assumes "redis_ok s" "i \<in> members (idx_active s)"
  shows "\<exists>d. archive_owned i res dur now s = (Inr (), drop_active i (rd_task s i F_failureCount) now (s\<lparr>rd_archived := (rd_archived s)(i :=
     archived_fields res dur now d (rd_archived s i) (rd_task s i))\<rparr>))"
  using active_hash(1) [OF assms] by (auto simp: archive_owned_def Let_def task_wf_def)

lemma archive_owned_good:
  assumes "redis_good s0 s" "i \<in> members (idx_active s)"
  shows "redis_good s0 (snd (archive_owned i res dur now s))"
  using archive_owned_run [OF redis_good_ok [OF assms(1)] assms(2), of res dur now] archive_good_redis [OF assms]
  by auto

lemma finalizeScript_good:
  assumes "redis_good s0 s"
  shows "redis_good s0 (snd (finalizeExecutionScript l dur now cs s))"
proof (cases "hexists (rd_task s (l_taskID l)) \<and> owns l (rd_task s (l_taskID l)) \<and> now < l_leaseExpires l")
  case True
  then have i: "l_taskID l \<in> members (idx_active s)" using hexists_active [OF redis_good_ok [OF assms]] by simp
  obtain x s1 where c: "add_children (tonumber (rd_task s (l_taskID l) F_priority)) now cs s = (x, s1)"
    by (cases "add_children (tonumber (rd_task s (l_taskID l) F_priority)) now cs s")
  from add_children_good [OF assms c i] archive_owned_good [of s0 s1 "l_taskID l" 0 dur now] True c
  show ?thesis by (auto simp: finalizeExecutionScript_def Let_def split: sum.splits)
qed (use assms in \<open>auto simp: finalizeExecutionScript_def Let_def\<close>)

lemma owns_leased:
  assumes "redis_ok s" "owns l (rd_task s i)" "proper_lease l"
  shows "i \<notin> members (idx_unleased s)" "map_of (idx_leased s) i = Some (l_leaseExpires l)"
proof -
  have "placed s i (rd_task s i)" using active_hash(2) [OF assms(1) owns_active [OF assms(1,2)]] .
  then show "i \<notin> members (idx_unleased s)" "map_of (idx_leased s) i = Some (l_leaseExpires l)"
    using assms(2,3) by (auto simp: placed_def owns_def proper_lease_def tonumber_def split: option.splits)
qed

lemma renewScript_good:
  assumes "redis_good s0 s" "proper_lease l"
  shows "redis_good s0 (snd (renewExecutionScript l now dur s))"
proof (cases "owns l (rd_task s (l_taskID l)) \<and> now < l_leaseExpires l")
  case True
  let ?i = "l_taskID l" and ?e = "max (l_leaseExpires l) (now + dur)"
  let ?h = "(rd_task s ?i)(F_leaseExpires \<mapsto> VInt ?e)"
  have ok: "redis_ok s" using assms(1) by (rule redis_good_ok)
  have i: "?i \<in> members (idx_active s)" using owns_active [OF ok] True by blast
  have "redis_good s (to_leased ?i ?h ?e 0 s)"
    using active_hash(1) [OF ok i]
    by (intro to_leased_good [OF ok i]) (auto simp: failed_delta_same intro!: task_wf_upd)
  moreover have "snd (renewExecutionScript l now dur s) = to_leased ?i ?h ?e 0 s"
    using True owns_leased(1) [OF ok _ assms(2)] by (simp add: renewExecutionScript_def Let_def to_leased_def zrem_id)
  ultimately show ?thesis using redis_good_trans [OF assms(1)] by simp
qed (use assms in \<open>auto simp: renewExecutionScript_def Let_def\<close>)

lemma resolveScript_good:
  assumes "redis_good s0 s"
  shows "redis_good s0 (snd (resolveExecutionScript l now outcome wait s))"
proof (cases "owns l (rd_task s (l_taskID l)) \<and> now < l_leaseExpires l")
  case True
  have i: "l_taskID l \<in> members (idx_active s)" using owns_active [OF redis_good_ok [OF assms]] True by blast
  then have h: "hexists (rd_task s (l_taskID l))" using hexists_active [OF redis_good_ok [OF assms]] by simp
  have "resolveExecutionScript l now ''retry'' wait s = failScript (l_taskID l) now (now + wait) s"
    using True h by (simp add: resolveExecutionScript_def failScript_def Let_def)
  then show ?thesis
    using True archive_owned_good [OF assms i, of 1 0 now] failScript_good [OF assms, of "l_taskID l" now "now + wait"]
      yield_good [OF assms i, of "now + max 5 wait" now]
    by (cases "outcome = ''failure''"; cases "outcome = ''retry''"; cases "outcome = ''yield''")
       (auto simp: resolveExecutionScript_def Let_def to_leased_def assms)
qed (use assms in \<open>auto simp: resolveExecutionScript_def Let_def\<close>)

lemma inbox_good_redis:
  assumes "redis_good s0 s" "rd_inbox s e = None"
  shows "redis_good s0 (s\<lparr>rd_inbox := (rd_inbox s)(e \<mapsto> x)\<rparr>)"
proof -
  have "redis_good s (s\<lparr>rd_inbox := (rd_inbox s)(e \<mapsto> x)\<rparr>)"
    using redis_good_ok [OF assms(1)] assms(2)
    by (fastforce simp: redis_good_def redis_keeps_def redis_ok_def sets_ok_def keys_live_def task_wf_def
        placed_def failed_ids_def split: option.splits)
  with assms(1) show ?thesis by (rule redis_good_trans)
qed

lemma add_child_inbox: "add_child priority now child s = (r, s') \<Longrightarrow> rd_inbox s' = rd_inbox s"
  by (auto simp: add_child_def Let_def split: option.splits)

lemma eventScript_good:
  assumes "redis_good s0 s"
  shows "redis_good s0 (snd (enqueueEventScript ev dg now input s))"
proof (cases "rd_inbox s ev")
  case None
  obtain x s1 where c: "add_child (Some PriorityDefault) now input s = (x, s1)"
    by (cases "add_child (Some PriorityDefault) now input s")
  have "rd_inbox s1 ev = None" using add_child_inbox [OF c] None by simp
  from inbox_good_redis [OF add_child_good [OF assms c] this] add_child_good [OF assms c] None c
  show ?thesis by (auto simp: enqueueEventScript_def Let_def split: sum.splits)
qed (use assms in \<open>auto simp: enqueueEventScript_def split: prod.splits\<close>)

subsection \<open>The calls\<close>

lemma enqueue_pipeline_good:
  assumes "redis_good s0 s" "t_dataID t = next_data_id s" "t_id t = next_task_id s"
    "t_id t \<notin> members (idx_active s)" "\<not> hexists (rd_archived s (t_id t))" "t_leaseOwner t = []" "t_failureCount t = 0"
  shows "redis_good s0 (snd (enqueue_pipeline d t s))"
proof -
  let ?s = "add_task (taskToMap t) (activeScore (t_priority t) (t_id t)) (t_leaseExpires t) (t_id t) d s"
  have ok: "redis_ok s" using assms(1) by (rule redis_good_ok)
  then have "rd_task s (t_id t) = Map.empty" using assms(4) hexists_active [OF ok, of "t_id t"] by (simp add: hexists_iff)
  then have "snd (enqueue_pipeline d t s) = ?s"
    using assms(2) by (simp add: enqueue_pipeline_def add_task_def Let_def split: option.splits)
  moreover have "redis_good s ?s"
    using ok assms by (intro add_task_good) (auto simp: task_wf_def taskToMap_def failed_hash_def number_or_def add_task_def)
  ultimately show ?thesis using redis_good_trans [OF assms(1)] by simp
qed

lemma Redis_Enqueue_good: "preserves (redis_good s0) (Redis_Enqueue req)"
  unfolding Redis_Enqueue_def Let_def
proof (rule preserves_bind [OF preserves_basic(3)],
    rule hoare_bind [where R = "\<lambda>d s. redis_good s0 s \<and> next_data_id s = d"])
  show "hoare (redis_good s0) (stmt (DbError ''incr data id'')
      (\<lambda>s. (Inr (next_data_id s + 1), s\<lparr>next_data_id := next_data_id s + 1\<rparr>)))
    (\<lambda>d s. redis_good s0 s \<and> next_data_id s = d) (\<lambda>_. redis_good s0)"
    by (rule hoare_pre [OF hoare_stmt]) (auto intro: next_ids_good)
next
  fix now dataID
  let ?R = "\<lambda>i s. redis_good s0 s \<and> next_data_id s = dataID \<and> next_task_id s = i \<and>
     i \<notin> members (idx_active s) \<and> \<not> hexists (rd_archived s i)"
  have "hoare (\<lambda>s. redis_good s0 s \<and> next_data_id s = dataID) (stmt (DbError ''incr task id'')
      (\<lambda>s. (Inr (next_task_id s + 1), s\<lparr>next_task_id := next_task_id s + 1\<rparr>))) ?R (\<lambda>_. redis_good s0)"
    by (rule hoare_pre [OF hoare_stmt])
       (auto intro: next_ids_good simp: next_task_fresh(1,2) [OF redis_good_ok [of s0]])
  then show "hoare (\<lambda>s. redis_good s0 s \<and> next_data_id s = dataID)
     (bindP (stmt (DbError ''incr task id'')
        (\<lambda>s. (Inr (next_task_id s + 1), s\<lparr>next_task_id := next_task_id s + 1\<rparr>))) (\<lambda>taskID.
      bindP (stmt (DbError ''enqueue pipeline'') (enqueue_pipeline (er_data req)
        \<lparr>t_id = taskID, t_taskClass = er_taskClass req, t_leaseOwner = [],
         t_leaseExpires = initial_expiry req, t_failureCount = 0, t_dataID = dataID, t_failureTime = None,
         t_priority = initial_priority req, t_objectPHID = er_objectPHID req,
         t_containerPHID = er_containerPHID req, t_dateCreated = now, t_dateModified = now, t_data = []\<rparr>)) (\<lambda>_.
      ret \<lparr>t_id = taskID, t_taskClass = er_taskClass req, t_leaseOwner = [],
         t_leaseExpires = initial_expiry req, t_failureCount = 0, t_dataID = dataID, t_failureTime = None,
         t_priority = initial_priority req, t_objectPHID = er_objectPHID req,
         t_containerPHID = er_containerPHID req, t_dateCreated = now, t_dateModified = now, t_data = []\<rparr>)))
     (\<lambda>_. redis_good s0) (\<lambda>_. redis_good s0)"
    by (rule hoare_bind, intro hoare_bind_wp [OF hoare_ret] hoare_pre [OF hoare_stmt])
       (auto intro!: enqueue_pipeline_good simp: enqueue_pipeline_def [THEN arg_cong [where f = fst]] Let_def)
qed

lemma preserves_command [preserves_rules]: "preserves I (command ctx f)"
  unfolding command_def by (rule preserves_read)

lemma preserves_loadTask [preserves_rules]: "preserves I (loadTask i)"
  unfolding loadTask_def Let_def by (intro preserves_rules)

lemma Redis_Lease_good: "preserves (redis_good s0) (Redis_Lease cfg lim owner cs)"
  unfolding Redis_Lease_def Let_def
  by (intro preserves_rules preserves_stmt) (metis leaseScript_good prod.collapse)

lemma Redis_archiveTask_good: "preserves (redis_good s0) (Redis_archiveTask i res dur)"
  unfolding Redis_archiveTask_def by (intro preserves_rules preserves_stmt archiveScript_good)

lemma Redis_Fail_good: "preserves (redis_good s0) (Redis_Fail cfg req)"
  unfolding Redis_Fail_def Let_def
  by (intro preserves_rules preserves_stmt failScript_good Redis_archiveTask_good)

lemma Redis_Awaken_good: "preserves (redis_good s0) (Redis_Awaken is)"
  unfolding Redis_Awaken_def
  by (intro preserves_rules preserves_stmt) (auto split: prod.splits intro: awaken_loop_good)

lemma Redis_reading_good:
  "preserves I Redis_Stats" "preserves I (Redis_GetTask i)" "preserves I (Redis_ListActive lim off)"
  unfolding Redis_Stats_def Redis_GetTask_def Redis_ListActive_def Let_def by (intro preserves_rules)+

lemma Redis_Finalize_good: "preserves (redis_good s0) (Redis_Finalize req)"
  unfolding Redis_Finalize_def by (intro preserves_rules preserves_stmt finalizeScript_good)

lemma Redis_Renew_good: "proper_lease (ren_lease req) \<Longrightarrow> preserves (redis_good s0) (Redis_Renew req)"
  unfolding Redis_Renew_def by (intro preserves_rules preserves_stmt renewScript_good)

lemma Redis_Resolve_good: "preserves (redis_good s0) (Redis_Resolve cfg req)"
  unfolding Redis_Resolve_def Let_def by (intro preserves_rules preserves_stmt resolveScript_good)

lemma Redis_EnqueueEvent_good: "preserves (redis_good s0) (Redis_EnqueueEvent digest req)"
  unfolding Redis_EnqueueEvent_def by (intro preserves_rules preserves_stmt eventScript_good)

text \<open>A yield keeps the invariant only for a task that exists.\<close>

lemma Redis_Yield_good:
  "hoare (\<lambda>s. redis_good s0 s \<and> i \<in> members (idx_active s)) (Redis_Yield i dur)
     (\<lambda>_. redis_good s0) (\<lambda>_. redis_good s0)"
  unfolding Redis_Yield_def Let_def
  by (rule hoare_bind [where R = "\<lambda>_ s. redis_good s0 s \<and> i \<in> members (idx_active s)"], simp add: hoare_def,
      rule hoare_pre [OF hoare_stmt])
     (auto intro!: yield_good [unfolded to_leased_def, simplified])

section \<open>Histories\<close>

fun run_redis :: "redis_config \<Rightarrow> (EnqueueRequest \<Rightarrow> string) \<Rightarrow> queue_op \<Rightarrow> unit redis_prog" where
  "run_redis cfg digest (OpEnqueue req) = discard (Redis_Enqueue req)"
| "run_redis cfg digest (OpLease lim owner classes) = discard (Redis_Lease cfg lim owner classes)"
| "run_redis cfg digest (OpComplete i dur) = discard (Redis_Complete i dur)"
| "run_redis cfg digest (OpFail req) = discard (Redis_Fail cfg req)"
| "run_redis cfg digest (OpYield i dur) = discard (Redis_Yield i dur)"
| "run_redis cfg digest (OpCancel i) = discard (Redis_Cancel i)"
| "run_redis cfg digest (OpAwaken is) = discard (Redis_Awaken is)"
| "run_redis cfg digest OpStats = discard Redis_Stats"
| "run_redis cfg digest (OpGetTask i) = discard (Redis_GetTask i)"
| "run_redis cfg digest (OpListActive lim off) = discard (Redis_ListActive lim off)"
| "run_redis cfg digest (OpFinalize req) = discard (Redis_Finalize req)"
| "run_redis cfg digest (OpRenew req) = discard (Redis_Renew req)"
| "run_redis cfg digest (OpResolve req) = discard (Redis_Resolve cfg req)"
| "run_redis cfg digest (OpEnqueueEvent req) = discard (Redis_EnqueueEvent digest req)"

text \<open>
  The calls under which the invariant holds: a yield names a task that exists, and a renewal
  presents the window of a worker.
\<close>

fun admissible :: "queue_op \<Rightarrow> redis_db \<Rightarrow> bool" where
  "admissible (OpYield i dur) s = (i \<in> members (idx_active s))"
| "admissible (OpRenew req) s = proper_lease (ren_lease req)"
| "admissible _ s = True"

lemma run_redis_good:
  assumes "redis_good s0 s" "admissible opn s" "run_redis cfg digest opn w n s = (r, n', s')"
  shows "redis_good s0 s'"
proof -
  have "hoare (\<lambda>s. redis_good s0 s \<and> admissible opn s) (run_redis cfg digest opn)
      (\<lambda>_. redis_good s0) (\<lambda>_. redis_good s0)"
  proof (cases opn)
    case (OpYield i dur)
    then show ?thesis using hoare_discard [OF Redis_Yield_good] by simp
  next
    case (OpRenew req)
    then show ?thesis
      using hoare_discard [OF Redis_Renew_good] by (cases "proper_lease (ren_lease req)") (simp_all add: hoare_def)
  qed (simp_all add: hoare_discard Redis_Enqueue_good Redis_Lease_good Redis_Complete_def Redis_Cancel_def
      Redis_archiveTask_good Redis_Fail_good Redis_Awaken_good Redis_reading_good Redis_Finalize_good
      Redis_Resolve_good Redis_EnqueueEvent_good)
  from hoareD_inv [OF this, of s w n] assms show ?thesis by simp
qed

inductive redis_history :: "redis_config \<Rightarrow> (EnqueueRequest \<Rightarrow> string) \<Rightarrow> redis_db \<Rightarrow> redis_db \<Rightarrow> bool"
  for cfg digest s0 where
  start: "redis_history cfg digest s0 s0"
| call: "redis_history cfg digest s0 s \<Longrightarrow> admissible opn s \<Longrightarrow> run_redis cfg digest opn w n s = (r, n', s') \<Longrightarrow>
    redis_history cfg digest s0 s'"

lemma redis_history_good: "redis_history cfg digest s0 s \<Longrightarrow> redis_ok s0 \<Longrightarrow> redis_good s0 s"
  by (induction rule: redis_history.induct) (auto intro: redis_good_refl run_redis_good)

section \<open>Owned windows\<close>

definition redis_owned :: "ExecutionLease \<Rightarrow> redis_db \<Rightarrow> bool" where
  "redis_owned l s \<longleftrightarrow> owns l (rd_task s (l_taskID l))"

definition redis_live :: "ExecutionLease \<Rightarrow> world \<Rightarrow> bool" where
  "redis_live l w \<longleftrightarrow> (\<forall>m. w_clock w m < l_leaseExpires l)"

lemma owns_inj: "owns l h \<Longrightarrow> owns l' h \<Longrightarrow> l_taskID l = l_taskID l' \<Longrightarrow> l = l'"
  by (auto simp: owns_def intro: ExecutionLease.equality)

lemma lease_phase1_other:
  "lease_phase1 k owner e now cs ms ids s = (ids', s') \<Longrightarrow> i \<notin> set ms \<Longrightarrow>
   rd_task s' i = rd_task s i \<and> map_of (idx_leased s') i = map_of (idx_leased s) i"
  by (induction k owner e now cs ms ids s rule: lease_phase1.induct) (auto split: if_splits)

lemma lease_phase2_other:
  "lease_phase2 k owner e now cs ms ids s = (ids', s') \<Longrightarrow> i \<notin> set ms \<Longrightarrow> rd_task s' i = rd_task s i"
  by (induction k owner e now cs ms ids s rule: lease_phase2.induct) (auto split: if_splits)

lemma leaseScript_other:
  assumes "i \<notin> members (idx_unleased s)" "map_of (idx_leased s) i = Some x" "now < x"
    and d: "distinct (map fst (idx_leased (snd (lease_phase1 k owner e now cs (zrange (idx_unleased s)) [] s))))"
    and run: "leaseScript k owner e now cs s = (r, s')"
  shows "rd_task s' i = rd_task s i"
proof -
  obtain ids s1 where p1: "lease_phase1 k owner e now cs (zrange (idx_unleased s)) [] s = (ids, s1)"
    by (cases "lease_phase1 k owner e now cs (zrange (idx_unleased s)) [] s")
  have s1: "rd_task s1 i = rd_task s i" "map_of (idx_leased s1) i = Some x"
    using lease_phase1_other [OF p1, of i] assms(1,2) by auto
  have "i \<notin> set (zrange_upto now (idx_leased s1))"
  proof
    assume "i \<in> set (zrange_upto now (idx_leased s1))"
    then obtain y where "(i, y) \<in> set (idx_leased s1)" "y \<le> now" by (auto simp: zrange_upto_def members_def)
    then show False using d p1 s1(2) assms(3) by (simp add: eq_key_imp_eq_value map_of_is_SomeI)
  qed
  then show ?thesis
    using run p1 s1(1) lease_phase2_other [of k owner e now cs _ ids s1 _ s' i]
    by (auto simp: leaseScript_def split: if_splits prod.splits)
qed

lemma leaseScript_keeps:
  assumes "redis_ok s" "redis_owned l s" "proper_lease l" "now < l_leaseExpires l"
    and "leaseScript k owner e now cs s = (r, s')"
  shows "redis_owned l s'"
proof -
  have own: "owns l (rd_task s (l_taskID l))" using assms(2) by (simp add: redis_owned_def)
  obtain ids s1 where p1: "lease_phase1 k owner e now cs (zrange (idx_unleased s)) [] s = (ids, s1)"
    by (cases "lease_phase1 k owner e now cs (zrange (idx_unleased s)) [] s")
  have "members (idx_unleased s) \<subseteq> members (idx_active s)" using assms(1) by (auto simp: redis_ok_def sets_ok_def)
  then have "redis_ok s1" using lease_phase1_good [OF p1 redis_good_refl [OF assms(1)]] redis_good_ok by auto
  then have "distinct (map fst (idx_leased s1))" by (simp add: redis_ok_def sets_ok_def)
  with leaseScript_other [OF owns_leased [OF assms(1) own assms(3)] assms(4) _ assms(5)] p1 own
  show ?thesis by (simp add: redis_owned_def)
qed

lemma awaken_keeps:
  "awaken_loop ep tids n s = (m, s') \<Longrightarrow> redis_owned l s \<Longrightarrow> proper_lease l \<Longrightarrow> redis_owned l s'"
proof (induction ep tids n s rule: awaken_loop.induct)
  case (2 ep tid tids n s)
  have "tid \<noteq> l_taskID l" if "rd_task s tid F_leaseOwner = Some (VStr YieldOwner)"
    using that 2 by (auto simp: redis_owned_def owns_def proper_lease_def)
  then show ?case using 2 by (auto simp: Let_def redis_owned_def split: if_splits)
qed simp

lemma drop_active_task [simp]: "rd_task (drop_active j fc now s) i = (if i = j then Map.empty else rd_task s i)"
  by (simp add: drop_active_def)

lemma archive_owned_other: "j \<noteq> i \<Longrightarrow> rd_task (snd (archive_owned j res dur now s)) i = rd_task s i"
  by (simp add: archive_owned_def Let_def split: option.splits)

text \<open>The invariant under which a held window is carried through a call.\<close>

definition own_inv :: "ExecutionLease \<Rightarrow> redis_db \<Rightarrow> bool" where
  "own_inv l s \<longleftrightarrow> redis_ok s \<and> redis_owned l s"

lemma own_stmt:
  assumes "\<And>s. own_inv l s \<Longrightarrow> redis_good s (snd (f s)) \<and> redis_owned l (snd (f s))"
  shows "preserves (own_inv l) (stmt err f)"
  by (rule preserves_stmt) (use assms redis_good_ok in \<open>auto simp: own_inv_def\<close>)

lemma own_invD: "own_inv l s \<Longrightarrow> redis_good s s" "own_inv l s \<Longrightarrow> redis_ok s" "own_inv l s \<Longrightarrow> owns l (rd_task s (l_taskID l))"
  by (simp_all add: own_inv_def redis_good_refl redis_owned_def)

lemma own_active: "own_inv l s \<Longrightarrow> l_taskID l \<in> members (idx_active s)"
  using owns_active own_invD by blast

lemma own_archive: "i \<noteq> l_taskID l \<Longrightarrow> preserves (own_inv l) (Redis_archiveTask i res dur)"
  unfolding Redis_archiveTask_def
  by (intro preserves_rules own_stmt conjI archiveScript_good own_invD)
     (auto simp: own_inv_def redis_owned_def archiveScript_def Let_def)

lemma own_Fail: "fr_taskID req \<noteq> l_taskID l \<Longrightarrow> preserves (own_inv l) (Redis_Fail cfg req)"
  unfolding Redis_Fail_def Let_def
  by (intro preserves_rules own_archive own_stmt conjI failScript_good own_invD)
     (auto simp: own_inv_def redis_owned_def failScript_def Let_def)

lemma own_Awaken: "proper_lease l \<Longrightarrow> preserves (own_inv l) (Redis_Awaken is)"
  unfolding Redis_Awaken_def
  by (intro preserves_rules own_stmt conjI)
     (auto split: prod.splits intro: awaken_loop_good redis_good_refl awaken_keeps simp: own_inv_def)

lemma add_child_own:
  assumes "own_inv l s" "add_child p now c s = (r, s')"
  shows "redis_owned l s'"
  using add_child_keeps_task(1) [OF assms(2) own_invD(2) [OF assms(1)] own_active [OF assms(1)]] own_invD(3) [OF assms(1)]
  by (simp add: redis_owned_def)

lemma own_EnqueueEvent: "preserves (own_inv l) (Redis_EnqueueEvent digest req)"
  unfolding Redis_EnqueueEvent_def
proof (intro preserves_rules own_stmt conjI eventScript_good own_invD)
  fix now s
  assume s: "own_inv l s"
  obtain x s1 where c: "add_child (Some PriorityDefault) now (ev_task req) s = (x, s1)"
    by (cases "add_child (Some PriorityDefault) now (ev_task req) s")
  show "redis_owned l (snd (enqueueEventScript (ev_eventID req) (digest (ev_task req)) now (ev_task req) s))"
    using add_child_own [OF s c] c s
    by (auto simp: enqueueEventScript_def redis_owned_def own_inv_def Let_def split: option.splits sum.splits prod.splits)
qed

lemma finalizeScript_own:
  assumes s: "own_inv l s" and l': "l' \<noteq> l"
  shows "redis_owned l (snd (finalizeExecutionScript l' dur now cs s))"
proof (cases "owns l' (rd_task s (l_taskID l')) \<and> now < l_leaseExpires l'")
  case True
  then have i: "l_taskID l' \<noteq> l_taskID l" using owns_inj [of l' _ l] own_invD(3) [OF s] l' by metis
  obtain x s1 where c: "add_children (tonumber (rd_task s (l_taskID l') F_priority)) now cs s = (x, s1)"
    by (cases "add_children (tonumber (rd_task s (l_taskID l') F_priority)) now cs s")
  have "rd_task s1 (l_taskID l) = rd_task s (l_taskID l)"
    using add_children_good [OF own_invD(1) [OF s] c own_active [OF s]] by simp
  then show ?thesis
    using c own_invD(3) [OF s] archive_owned_other [OF i, of 0 dur now s1]
    by (auto simp: finalizeExecutionScript_def Let_def redis_owned_def split: sum.splits)
qed (use own_invD(3) [OF s] in \<open>auto simp: finalizeExecutionScript_def Let_def redis_owned_def\<close>)

lemma own_Finalize: "fin_lease req \<noteq> l \<Longrightarrow> preserves (own_inv l) (Redis_Finalize req)"
  unfolding Redis_Finalize_def
  by (intro preserves_rules own_stmt conjI finalizeScript_good own_invD finalizeScript_own)

lemma own_other_task:
  assumes "own_inv l s" "l' \<noteq> l" "owns l' (rd_task s (l_taskID l'))"
  shows "l_taskID l' \<noteq> l_taskID l"
  using owns_inj [of l' _ l] own_invD(3) [OF assms(1)] assms(2,3) by metis

lemma own_Renew:
  "ren_lease req \<noteq> l \<Longrightarrow> proper_lease (ren_lease req) \<Longrightarrow> preserves (own_inv l) (Redis_Renew req)"
  unfolding Redis_Renew_def
  by (intro preserves_rules own_stmt conjI renewScript_good own_invD)
     (auto simp: renewExecutionScript_def Let_def redis_owned_def own_invD(3) dest: own_other_task)

lemma own_Resolve: "res_lease req \<noteq> l \<Longrightarrow> preserves (own_inv l) (Redis_Resolve cfg req)"
  unfolding Redis_Resolve_def Let_def
  by (intro preserves_rules own_stmt conjI resolveScript_good own_invD)
     (auto simp: resolveExecutionScript_def Let_def redis_owned_def own_invD(3) archive_owned_other dest: own_other_task)

lemma own_Enqueue: "preserves (own_inv l) (Redis_Enqueue req)"
proof (rule hoareI)
  have task: "rd_task s' i = rd_task s i"
    if "Redis_Enqueue req w n s = (r, n', s')" "i \<noteq> next_task_id s + 1" for w n s r n' s' i
    using that
    by (auto simp: Redis_Enqueue_def bindP_def stmt_def enqueue_pipeline_def Let_def
        split: fault.splits option.splits)
  have "own_inv l s'" if s: "own_inv l s" and run: "Redis_Enqueue req w n s = (r, n', s')" for w n s r n' s'
  proof -
    have "l_taskID l \<noteq> next_task_id s + 1"
      using own_active [OF s] next_task_fresh(1) [OF own_invD(2) [OF s], of "next_task_id s + 1"] by auto
    moreover have "redis_good s s'"
      using hoareD_inv [OF Redis_Enqueue_good own_invD(1) [OF s], of req w n] run by simp
    ultimately show ?thesis
      using task [OF run] own_invD(3) [OF s] redis_good_ok by (auto simp: own_inv_def redis_owned_def)
  qed
  then show "own_inv l s \<Longrightarrow> Redis_Enqueue req w n s = (Inr a, n', s') \<Longrightarrow> own_inv l s'"
    "own_inv l s \<Longrightarrow> Redis_Enqueue req w n s = (Inl e, n', s') \<Longrightarrow> own_inv l s'" for w n s a e n' s'
    by blast+
qed

lemma own_Lease:
  assumes "own_inv l s" "proper_lease l" "redis_live l w" "Redis_Lease cfg lim owner cs w n s = (r, n', s')"
  shows "own_inv l s'"
proof -
  let ?now = "w_clock w n" and ?k = "nat (if lim \<le> 0 then 1 else lim)"
  let ?rest = "\<lambda>now. bindP (stmt (DbError ''lease script'') (leaseScript ?k owner (now + redis_leaseDuration cfg) now cs))
      (\<lambda>result. if result = [] then ret []
        else bindP (forP result loadTask) (\<lambda>ts. ret (List.map_filter (\<lambda>t. t) ts)))"
  have "preserves (own_inv l) (?rest ?now)"
  proof (intro preserves_rules own_stmt conjI)
    fix s
    assume s: "own_inv l s"
    obtain x s1 where run: "leaseScript ?k owner (?now + redis_leaseDuration cfg) ?now cs s = (x, s1)"
      by (cases "leaseScript ?k owner (?now + redis_leaseDuration cfg) ?now cs s")
    show "redis_good s (snd (leaseScript ?k owner (?now + redis_leaseDuration cfg) ?now cs s))"
      using leaseScript_good [OF own_invD(1) [OF s] run] run by simp
    show "redis_owned l (snd (leaseScript ?k owner (?now + redis_leaseDuration cfg) ?now cs s))"
      using leaseScript_keeps [OF _ _ assms(2) _ run] s assms(3) run by (simp add: own_inv_def redis_live_def)
  qed
  then have "own_inv l (final (?rest ?now w (Suc n) s))" using assms(1) by (rule hoareD_inv)
  moreover have "Redis_Lease cfg lim owner cs w n s = ?rest ?now w (Suc n) s"
    unfolding Redis_Lease_def Let_def by (rule run_bind_Inr [OF run_time_now])
  ultimately have "own_inv l (final (Redis_Lease cfg lim owner cs w n s))" by metis
  then show ?thesis using assms(4) by simp
qed

lemma run_redis_own:
  assumes "own_inv l s" "admissible opn s" "proper_lease l" "redis_live l w" "\<not> may_end l opn"
    and run: "run_redis cfg digest opn w n s = (r, n', s')"
  shows "own_inv l s'"
proof (cases opn)
  case (OpLease lim owner cs)
  then show ?thesis
    using own_Lease [OF assms(1,3,4)] run discard_final [of "Redis_Lease cfg lim owner cs" w n s]
    by (cases "Redis_Lease cfg lim owner cs w n s") auto
next
  case (OpYield i dur)
  have good: "redis_good s s'" by (rule run_redis_good [OF own_invD(1) [OF assms(1)] assms(2) run])
  have "rd_task s' (l_taskID l) = rd_task s (l_taskID l)"
    using run assms(5) OpYield
    by (auto simp: discard_def Redis_Yield_def bindP_def stmt_def Let_def split: fault.splits)
  then show ?thesis
    using redis_good_ok [OF good] own_invD(3) [OF assms(1)] by (simp add: own_inv_def redis_owned_def)
next
  case (OpRenew req)
  then have "preserves (own_inv l) (run_redis cfg digest opn)"
    using assms(2,5) by (auto intro: hoare_discard own_Renew)
  from hoareD_inv [OF this assms(1), of w n] run show ?thesis by simp
qed (use hoareD_inv [where s = s and w = w and n = n and P = "own_inv l" and I = "own_inv l"
        and m = "run_redis cfg digest opn", OF _ assms(1)] assms(3,5) run in
      \<open>auto simp: Redis_Complete_def Redis_Cancel_def intro!: hoare_discard own_Enqueue own_archive own_Fail
         own_Awaken Redis_reading_good own_Finalize own_Resolve own_EnqueueEvent\<close>)

interpretation redis: leasing_store "run_redis cfg digest" redis_ok admissible redis_owned redis_live for cfg digest
proof unfold_locales
  fix s s' opn w n r n' l l'
  show "redis_ok s \<Longrightarrow> admissible opn s \<Longrightarrow> run_redis cfg digest opn w n s = (r, n', s') \<Longrightarrow> redis_ok s'"
    using run_redis_good [OF redis_good_refl] redis_good_ok by blast
  show "redis_ok s \<Longrightarrow> admissible opn s \<Longrightarrow> proper_lease l \<Longrightarrow> redis_owned l s \<Longrightarrow> redis_live l w \<Longrightarrow>
      \<not> may_end l opn \<Longrightarrow> run_redis cfg digest opn w n s = (r, n', s') \<Longrightarrow> redis_owned l s'"
    using run_redis_own [of l s opn w cfg digest n r n' s'] by (simp add: own_inv_def)
  show "redis_ok s \<Longrightarrow> redis_owned l s \<Longrightarrow> redis_owned l' s \<Longrightarrow> l_taskID l = l_taskID l' \<Longrightarrow> l = l'"
    using owns_inj [of l _ l'] by (simp add: redis_owned_def)
qed

section \<open>Repeated calls\<close>

definition redis_call :: "redis_config \<Rightarrow> (EnqueueRequest \<Rightarrow> string) \<Rightarrow> redis_db \<Rightarrow> redis_db \<Rightarrow> bool" where
  "redis_call cfg digest s s' \<longleftrightarrow>
     (\<exists>opn w n r n'. admissible opn s \<and> run_redis cfg digest opn w n s = (r, n', s'))"

lemma redis_call_good: "redis_ok s \<Longrightarrow> redis_call cfg digest s s' \<Longrightarrow> redis_good s s'"
  unfolding redis_call_def using run_redis_good [OF redis_good_refl] by blast

definition redis_receipt :: "ExecutionLease \<Rightarrow> redis_db \<Rightarrow> bool" where
  "redis_receipt l s \<longleftrightarrow> \<not> hexists (rd_task s (l_taskID l)) \<and> owns l (rd_archived s (l_taskID l)) \<and>
     rd_archived s (l_taskID l) F_result = Some (VInt 0)"

lemma redis_receipt_stays:
  assumes "redis_good s s'" "redis_receipt l s"
  shows "redis_receipt l s'"
proof -
  have a: "hexists (rd_archived s (l_taskID l))" using assms(2) by (auto simp: redis_receipt_def hexists_iff)
  then have eq: "rd_archived s' (l_taskID l) = rd_archived s (l_taskID l)"
    using assms(1) by (simp add: redis_good_def redis_keeps_def)
  then have "\<not> hexists (rd_task s' (l_taskID l))"
    using a redis_good_ok [OF assms(1)] by (simp add: redis_ok_def keys_live_def)
  then show ?thesis using assms(2) eq by (simp add: redis_receipt_def)
qed

text \<open>The script with a live window on an active task: the follow-ups, then the archive.\<close>

lemma add_children_ok: "\<exists>s'. add_children (Some p) now cs s = (Inr (), s')"
proof (induction cs arbitrary: s)
  case (Cons c cs)
  have "\<exists>x s1. add_child (Some p) now c s = (Inr x, s1)"
    by (auto simp: add_child_def Let_def split: option.splits)
  then show ?case using Cons.IH by auto
qed simp

lemma finalizeScript_run:
  assumes ok: "redis_ok s" and own: "owns l (rd_task s (l_taskID l))" "now < l_leaseExpires l"
  shows "\<exists>p s1 d. rd_task s (l_taskID l) F_priority = Some (VInt p) \<and> add_children (Some p) now cs s = (Inr (), s1) \<and>
     finalizeExecutionScript l dur now cs s = (Inr (), drop_active (l_taskID l) (rd_task s (l_taskID l) F_failureCount) now (s1\<lparr>rd_archived := (rd_archived s)(l_taskID l :=
       archived_fields 0 dur now d Map.empty (rd_task s (l_taskID l)))\<rparr>))"
proof -
  let ?i = "l_taskID l"
  have i: "?i \<in> members (idx_active s)" using owns_active [OF ok own(1)] .
  obtain p where p: "rd_task s ?i F_priority = Some (VInt p)" using active_hash(1) [OF ok i] by (auto simp: task_wf_def)
  obtain s1 where c: "add_children (Some p) now cs s = (Inr (), s1)" using add_children_ok by blast
  note s1 = add_children_good [OF redis_good_refl [OF ok] c i]
  obtain d where "archive_owned ?i 0 dur now s1 = (Inr (), drop_active ?i (rd_task s1 ?i F_failureCount) now (s1\<lparr>rd_archived := (rd_archived s1)(?i :=
     archived_fields 0 dur now d (rd_archived s1 ?i) (rd_task s1 ?i))\<rparr>))"
    using archive_owned_run [of s1 ?i] s1 redis_good_ok by blast
  then have "finalizeExecutionScript l dur now cs s = (Inr (), drop_active ?i (rd_task s ?i F_failureCount) now (s1\<lparr>rd_archived := (rd_archived s)(?i :=
       archived_fields 0 dur now d Map.empty (rd_task s ?i))\<rparr>))"
    using own p c s1 active_hash(3,4) [OF ok i]
    by (simp add: finalizeExecutionScript_def Let_def tonumber_def)
  with p c show ?thesis by blast
qed

lemma finalizeScript_receipt:
  assumes "redis_ok s" "owns l (rd_task s (l_taskID l))" "now < l_leaseExpires l"
  shows "redis_receipt l (snd (finalizeExecutionScript l dur now cs s))"
proof -
  obtain s1 d where "finalizeExecutionScript l dur now cs s = (Inr (), drop_active (l_taskID l) (rd_task s (l_taskID l) F_failureCount) now
      (s1\<lparr>rd_archived := (rd_archived s)(l_taskID l :=
       archived_fields 0 dur now d Map.empty (rd_task s (l_taskID l)))\<rparr>))"
    using finalizeScript_run [OF assms] by blast
  then show ?thesis using assms(2) by (simp add: redis_receipt_def hexists_iff owns_def drop_active_def)
qed

lemma Redis_Finalize_cases:
  assumes "redis_ok s" "Redis_Finalize req w n s = (r, n', s')"
  obtains (unchanged) "s' = s" "r = Inr () \<Longrightarrow> redis_receipt (fin_lease req) s"
  | (archived) now where "\<not> redis_receipt (fin_lease req) s" "redis_receipt (fin_lease req) s'"
      "owns (fin_lease req) (rd_task s (l_taskID (fin_lease req)))" "now < l_leaseExpires (fin_lease req)"
      "now = w_clock w n" "s' = snd (finalizeExecutionScript (fin_lease req) (fin_duration req) now (fin_followups req) s)"
proof (cases "owns (fin_lease req) (rd_task s (l_taskID (fin_lease req))) \<and> w_clock w n < l_leaseExpires (fin_lease req)")
  case True
  let ?f = "finalizeExecutionScript (fin_lease req) (fin_duration req) (w_clock w n) (fin_followups req)"
  have fst: "fst (?f s) = Inr ()" using finalizeScript_run [OF assms(1)] True by (metis fst_conv)
  have rec: "redis_receipt (fin_lease req) (snd (?f s))" using finalizeScript_receipt [OF assms(1)] True by blast
  have no: "\<not> redis_receipt (fin_lease req) s"
    using True by (auto simp: redis_receipt_def hexists_iff owns_def)
  from assms(2) have "s' = s \<and> r = Inl (DbError ''finalize script'') \<or> s' = snd (?f s)"
    using fst by (auto simp: Redis_Finalize_def bindP_def stmt_def split: fault.splits)
  then show ?thesis using that True no rec by blast
next
  case False
  with assms(2) have "s' = s \<and> (r = Inr () \<longrightarrow> redis_receipt (fin_lease req) s)"
    by (auto simp: Redis_Finalize_def bindP_def stmt_def finalizeExecutionScript_def redis_receipt_def Let_def
        split: fault.splits if_splits)
  then show ?thesis using unchanged by blast
qed

definition redis_finalize_answer :: "FinalizeRequest \<Rightarrow> redis_db \<Rightarrow> unit option" where
  "redis_finalize_answer req s = (if redis_receipt (fin_lease req) s then Some () else None)"

interpretation redis_finalize: repeatable "Redis_Finalize req" "redis_call cfg digest" "(=)" redis_ok
  "redis_finalize_answer req" for req cfg digest
proof unfold_locales
  fix s s' :: redis_db and w n n' and r :: "queue_error + unit" and a :: unit
  show "redis_ok s \<Longrightarrow> Redis_Finalize req w n s = (r, n', s') \<Longrightarrow> redis_ok s'"
    using hoareD_inv [OF Redis_Finalize_good redis_good_refl, of s req w n] redis_good_ok by auto
  show "redis_ok s \<Longrightarrow> redis_call cfg digest s s' \<Longrightarrow> redis_ok s'"
    using redis_call_good redis_good_ok by blast
  show "s = s' \<Longrightarrow> redis_finalize_answer req s' = redis_finalize_answer req s" by simp
  show "redis_ok s \<Longrightarrow> redis_finalize_answer req s = Some a \<Longrightarrow> redis_call cfg digest s s' \<Longrightarrow>
      redis_finalize_answer req s' = Some a"
    using redis_receipt_stays [OF redis_call_good] by (auto simp: redis_finalize_answer_def split: if_splits)
  assume ok: "redis_ok s" and run: "Redis_Finalize req w n s = (r, n', s')"
  from ok run show "s = s' \<and> (\<forall>a. r = Inr a \<longrightarrow> redis_finalize_answer req s = Some a) \<or>
      redis_finalize_answer req s = None \<and>
      (\<exists>a. redis_finalize_answer req s' = Some a \<and> (\<forall>b. r = Inr b \<longrightarrow> b = a))"
    by (cases rule: Redis_Finalize_cases) (auto simp: redis_finalize_answer_def)
qed

definition redis_event_answer :: "(EnqueueRequest \<Rightarrow> string) \<Rightarrow> EnqueueEventRequest \<Rightarrow> redis_db \<Rightarrow> Task option" where
  "redis_event_answer digest req s =
     (case rd_inbox s (ev_eventID req) of
        None \<Rightarrow> None
      | Some (h, t) \<Rightarrow> if h = digest (ev_task req) then Some t else None)"

lemma Redis_EnqueueEvent_cases:
  assumes "Redis_EnqueueEvent digest req w n s = (r, n', s')"
  shows "s = s' \<and> (\<forall>a. r = Inr a \<longrightarrow> redis_event_answer digest req s = Some a) \<or>
      redis_event_answer digest req s = None \<and>
      (\<exists>a. redis_event_answer digest req s' = Some a \<and> (\<forall>b. r = Inr b \<longrightarrow> b = a))"
proof -
  have "\<exists>x s1. add_child (Some PriorityDefault) (w_clock w n) (ev_task req) s = (Inr x, s1)"
    by (auto simp: add_child_def Let_def split: option.splits)
  then show ?thesis
    using assms
    by (auto simp: Redis_EnqueueEvent_def bindP_def stmt_def enqueueEventScript_def redis_event_answer_def Let_def
        split: fault.splits option.splits prod.splits if_splits)
qed

interpretation redis_event: repeatable "Redis_EnqueueEvent digest req" "redis_call cfg digest" "(=)" redis_ok
  "redis_event_answer digest req" for digest req cfg
proof unfold_locales
  fix s s' :: redis_db and w n n' and r :: "queue_error + Task" and a :: Task
  show "redis_ok s \<Longrightarrow> Redis_EnqueueEvent digest req w n s = (r, n', s') \<Longrightarrow> redis_ok s'"
    using hoareD_inv [OF Redis_EnqueueEvent_good redis_good_refl, of s digest req w n] redis_good_ok by auto
  show "redis_ok s \<Longrightarrow> redis_call cfg digest s s' \<Longrightarrow> redis_ok s'"
    using redis_call_good redis_good_ok by blast
  show "s = s' \<Longrightarrow> redis_event_answer digest req s' = redis_event_answer digest req s" by simp
  show "redis_ok s \<Longrightarrow> redis_event_answer digest req s = Some a \<Longrightarrow> redis_call cfg digest s s' \<Longrightarrow>
      redis_event_answer digest req s' = Some a"
    using redis_call_good [of s cfg digest s']
    by (fastforce simp: redis_event_answer_def redis_good_def redis_keeps_def split: option.splits prod.splits if_splits)
qed (rule Redis_EnqueueEvent_cases)

end
