(* ===== verification/Redis_Properties.thy ===== *)
theory Redis_Properties
  imports Redis_Facts
begin

text \<open>
  The properties of the Redis backend: safety of every history, exclusive windows, repeated
  calls, the order of the scores, the encoding of a task as a hash, and what a yield of an
  unknown task does.
\<close>

section \<open>A sample state\<close>

definition sample_redis_cfg :: redis_config where
  "sample_redis_cfg = \<lparr>redis_leaseDuration = 60, redis_retryWait = 300\<rparr>"

definition redis_digest :: "EnqueueRequest \<Rightarrow> string" where
  "redis_digest req = er_taskClass req @ er_data req"

definition redis_request :: "string \<Rightarrow> EnqueueRequest" where
  "redis_request c = \<lparr>er_taskClass = c, er_data = ''{}'', er_priority = None,
     er_objectPHID = [], er_containerPHID = [], er_delayUntil = None\<rparr>"

definition redis_task :: "int \<Rightarrow> string \<Rightarrow> int option \<Rightarrow> Task" where
  "redis_task i owner e = \<lparr>t_id = i, t_taskClass = ''A'', t_leaseOwner = owner, t_leaseExpires = e,
     t_failureCount = 0, t_dataID = i, t_failureTime = None, t_priority = 2000, t_objectPHID = [],
     t_containerPHID = [], t_dateCreated = 10, t_dateModified = 10, t_data = []\<rparr>"

text \<open>Task 1 runs under a window of \<open>w1\<close>, task 2 waits.\<close>

definition sample_redis :: redis_db where
  "sample_redis =
     \<lparr>rd_task = (\<lambda>i. if i = 1 then taskToMap (redis_task 1 ''w1'' (Some 150))
                    else if i = 2 then taskToMap (redis_task 2 [] None) else Map.empty),
      rd_data = [1 \<mapsto> ''a'', 2 \<mapsto> ''b''], rd_archived = (\<lambda>_. Map.empty),
      idx_active = [(1, 2000000000000001), (2, 2000000000000002)], idx_unleased = [(2, 2000000000000002)],
      idx_leased = [(1, 150)], idx_archived = [], next_task_id = 2, next_data_id = 2,
      counter_failed = 0, counter_archived = 0, rd_inbox = Map.empty\<rparr>"

definition redis_lease1 :: ExecutionLease where
  "redis_lease1 = \<lparr>l_taskID = 1, l_leaseOwner = ''w1'', l_leaseExpires = 150\<rparr>"

definition redis_finalize1 :: FinalizeRequest where
  "redis_finalize1 = \<lparr>fin_lease = redis_lease1, fin_duration = 7, fin_followups = [redis_request ''B'']\<rparr>"

definition redis_event1 :: EnqueueEventRequest where
  "redis_event1 = \<lparr>ev_eventID = ''e1'', ev_task = redis_request ''B''\<rparr>"

lemma sample_redis_ok: "redis_ok sample_redis"
proof -
  have "failed_ids sample_redis = {}"
    by (auto simp: failed_ids_def members_def sample_redis_def taskToMap_def redis_task_def failed_hash_def number_or_def)
  then show ?thesis
    by (auto simp: redis_ok_def sets_ok_def keys_live_def members_def task_wf_def placed_def sample_redis_def
        hexists_iff taskToMap_def redis_task_def fun_eq_iff split: if_splits)
qed

lemma sample_redis_owned: "redis_owned redis_lease1 sample_redis"
  by (simp add: redis_owned_def owns_def sample_redis_def redis_lease1_def taskToMap_def redis_task_def tonumber_def)

section \<open>Histories and windows\<close>

text \<open>C12. From a consistent store, any sequence of calls (yields of existing tasks, renewals by workers)
  in worlds that may fail or lose any command leads to a consistent store: the active, leased and
  unleased indexes agree with each other and with the hashes, the failure counter is the number
  of active tasks with failures. On the way no task is lost, archived tasks never change and
  answered events keep their answer.\<close>

theorem redis_history_safe:
  assumes "redis_ok s0" "redis_history cfg digest s0 s"
  shows "redis_ok s \<and> redis_keeps s0 s"
  using redis_history_good [OF assms(2,1)] by (simp add: redis_good_def)

lemma redis_history_step:
  "redis_history cfg digest s0 s \<Longrightarrow> admissible opn s \<Longrightarrow>
   redis_history cfg digest s0 (final (run_redis cfg digest opn w n s))"
  by (cases "run_redis cfg digest opn w n s") (auto intro: redis_history.call)

theorem redis_history_safe_witness:
  "redis_ok sample_redis \<and>
   redis_ok (final (run_redis sample_redis_cfg redis_digest (OpYield 2 9) (calm 100) 0 sample_redis))"
proof -
  have "admissible (OpYield 2 9) sample_redis" by (simp add: members_def sample_redis_def)
  from redis_history_safe [OF sample_redis_ok redis_history_step [OF redis_history.start this]]
  show ?thesis using sample_redis_ok by blast
qed

text \<open>C10. Exclusive ownership on Redis: while a worker's window on a task is live, every sequence of calls
  by others, faults included, leaves the task under that window, so that nobody else owns it. The calls by others are all but those that
  present this very window and the unfenced calls that name the task, which can end it; they are admitted, which excludes yields of ids
  that no task has and renewals that do not name a worker.\<close>

theorem redis_lease_exclusive:
  assumes "redis_ok s" "proper_lease l" "redis_owned l s" "by_others redis_live l cs"
    and "admitted admissible (run_redis cfg digest) cs s"
  shows "redis_owned l (run_calls (run_redis cfg digest) cs s) \<and>
    (\<forall>l'. l_taskID l' = l_taskID l \<longrightarrow> redis_owned l' (run_calls (run_redis cfg digest) cs s) \<longrightarrow> l' = l)"
  using redis.owned_run_calls [OF assms(1,5,2-4)] redis.no_takeover [OF assms(1,5,2-4)] by blast

theorem redis_lease_exclusive_witness:
  "redis_owned redis_lease1 (run_calls (run_redis sample_redis_cfg redis_digest)
     [(OpLease 5 ''w2'' [], calm 149, 0), (OpCancel 2, calm 140, 0)] sample_redis)"
  by (rule redis_lease_exclusive [THEN conjunct1, OF sample_redis_ok _ sample_redis_owned])
     (simp_all add: proper_lease_def by_others_def redis_live_def redis_lease1_def YieldOwner_def)

section \<open>Repeated calls\<close>

text \<open>C11. A finalization on Redis takes effect at most once: of all attempts, with lost replies, failing
  commands and any admitted calls of others in between, at most one changes the store, and a
  reply that arrives means that the archive holds a success under this window. If none of the other calls in between writes that
  entry itself, as the unfenced completion of the task can, a reply means that exactly one attempt had its effect.\<close>

theorem redis_finalize_exactly_once:
  assumes "redis_ok s0" "\<not> redis_receipt (fin_lease req) s0"
  shows "(calls (Redis_Finalize req) (redis_call cfg digest) (=) k rs s0 s \<longrightarrow>
            k \<le> 1 \<and> (rs \<noteq> [] \<longrightarrow> redis_receipt (fin_lease req) s)) \<and>
         (calls (Redis_Finalize req) (\<lambda>s s'. redis_call cfg digest s s' \<and> (redis_receipt (fin_lease req) s' \<longrightarrow> redis_receipt (fin_lease req) s))
            (=) k rs s0 s \<longrightarrow> rs \<noteq> [] \<longrightarrow> k = 1)"
proof (intro conjI impI)
  have none: "redis_finalize_answer req s0 = None" using assms(2) by (simp add: redis_finalize_answer_def)
  assume "calls (Redis_Finalize req) (redis_call cfg digest) (=) k rs s0 s"
  from redis_finalize.at_most_once [OF this assms(1) none]
  show "k \<le> 1" and "rs \<noteq> [] \<Longrightarrow> redis_receipt (fin_lease req) s"
    by (cases rs; auto simp: redis_finalize_answer_def split: if_splits)+
next
  have none: "redis_finalize_answer req s0 = None" using assms(2) by (simp add: redis_finalize_answer_def)
  let ?quiet = "\<lambda>s s'. redis_call cfg digest s s' \<and> (redis_receipt (fin_lease req) s' \<longrightarrow> redis_receipt (fin_lease req) s)"
  assume run: "calls (Redis_Finalize req) ?quiet (=) k rs s0 s" "rs \<noteq> []"
  have "(redis_finalize_answer req s = None \<longleftrightarrow> k = 0) \<and> (rs \<noteq> [] \<longrightarrow> k = 1)"
    by (rule redis_finalize.exactly_once [where quiet = ?quiet and cfg = cfg and digest = digest, OF _ _ run(1) assms(1) none])
       (auto simp: redis_finalize_answer_def split: if_splits)
  then show "k = 1" using run(2) by blast
qed

lemma no_receipt1: "\<not> redis_receipt (fin_lease redis_finalize1) sample_redis"
  by (simp add: redis_receipt_def owns_def sample_redis_def)

theorem redis_finalize_exactly_once_witness:
  "\<exists>k rs s. calls (Redis_Finalize redis_finalize1) (redis_call sample_redis_cfg redis_digest) (=) k rs sample_redis s \<and>
     rs = [()] \<and> k = 1 \<and> redis_receipt redis_lease1 s"
proof -
  obtain r n' s' where run: "Redis_Finalize redis_finalize1 (calm 100) 0 sample_redis = (r, n', s')"
    by (cases "Redis_Finalize redis_finalize1 (calm 100) 0 sample_redis")
  have "owns redis_lease1 (rd_task sample_redis (l_taskID redis_lease1))" "100 < l_leaseExpires redis_lease1"
    using sample_redis_owned by (simp_all add: redis_owned_def redis_lease1_def)
  from finalizeScript_run [OF sample_redis_ok this, of "[redis_request ''B'']" 7] run
  have r: "r = Inr ()" by (auto simp: Redis_Finalize_def redis_finalize1_def bindP_def stmt_def)
  let ?quiet = "\<lambda>s s'. redis_call sample_redis_cfg redis_digest s s' \<and>
    (redis_receipt (fin_lease redis_finalize1) s' \<longrightarrow> redis_receipt (fin_lease redis_finalize1) s)"
  have "\<exists>k. calls (Redis_Finalize redis_finalize1) ?quiet (=) k [()] sample_redis s'"
    using calls_once [of "Redis_Finalize redis_finalize1", OF run] r by simp
  then obtain k where k: "calls (Redis_Finalize redis_finalize1) ?quiet (=) k [()] sample_redis s'" by blast
  then have all: "calls (Redis_Finalize redis_finalize1) (redis_call sample_redis_cfg redis_digest) (=) k [()] sample_redis s'"
    by (rule calls_mono) simp
  note once = redis_finalize_exactly_once [OF sample_redis_ok no_receipt1, where cfg = sample_redis_cfg and digest = redis_digest]
  have "k = 1" "redis_receipt redis_lease1 s'"
    using once [THEN conjunct2, rule_format, OF k] once [THEN conjunct1, rule_format, OF all] by (simp_all add: redis_finalize1_def)
  then show ?thesis using all by blast
qed

text \<open>An event enqueues one task on Redis: of all attempts at most one creates a task, and every reply
  carries that task.\<close>

theorem redis_event_exactly_once:
  assumes "redis_ok s0" "redis_event_answer digest req s0 = None"
    and "calls (Redis_EnqueueEvent digest req) (redis_call cfg digest) (=) k rs s0 s"
  shows "k \<le> 1 \<and> (\<forall>t \<in> set rs. redis_event_answer digest req s = Some t)"
  using redis_event.at_most_once [OF assms(3,1,2)] by auto

theorem redis_event_exactly_once_witness:
  "\<exists>k t s. calls (Redis_EnqueueEvent redis_digest redis_event1) (redis_call sample_redis_cfg redis_digest) (=) k [t]
     sample_redis s \<and> k \<le> 1 \<and> redis_event_answer redis_digest redis_event1 s = Some t"
proof -
  obtain r n' s' where run: "Redis_EnqueueEvent redis_digest redis_event1 (calm 100) 0 sample_redis = (r, n', s')"
    by (cases "Redis_EnqueueEvent redis_digest redis_event1 (calm 100) 0 sample_redis")
  then obtain t where "r = Inr t"
    by (auto simp: Redis_EnqueueEvent_def bindP_def stmt_def enqueueEventScript_def add_child_def redis_event1_def
        redis_request_def sample_redis_def initial_expiry_def Let_def)
  then have "\<exists>k. calls (Redis_EnqueueEvent redis_digest redis_event1) (redis_call sample_redis_cfg redis_digest) (=) k [t]
      sample_redis s'"
    using calls_once [of "Redis_EnqueueEvent redis_digest redis_event1", OF run] by simp
  moreover have "redis_event_answer redis_digest redis_event1 sample_redis = None"
    by (simp add: redis_event_answer_def sample_redis_def)
  ultimately show ?thesis
    using redis_event_exactly_once [OF sample_redis_ok] by (metis list.set_intros(1))
qed

section \<open>Scores and encodings\<close>

lemma round53_exact: "\<bar>x\<bar> < 2 ^ 53 \<Longrightarrow> round53 x = x"
proof -
  assume "\<bar>x\<bar> < 2 ^ 53"
  then have "exp53 (nat \<bar>x\<bar>) = 0" by (subst exp53.simps) (simp add: nat_less_iff)
  then show ?thesis by (simp add: round53_def Let_def sgn_mult_abs)
qed

lemma activeScore_exact:
  assumes "0 \<le> p" "p \<le> 9000" "0 \<le> i" "i < 10 ^ 12"
  shows "activeScore p i = p * 10 ^ 12 + i"
proof -
  have "\<bar>p\<bar> < 2 ^ 53" "\<bar>i\<bar> < 2 ^ 53" using assms by simp_all
  moreover have "\<bar>p * 10 ^ 12\<bar> < 2 ^ 53" "\<bar>p * 10 ^ 12 + i\<bar> < 2 ^ 53" using assms by (simp_all add: abs_mult)
  ultimately show ?thesis by (simp add: activeScore_def round53_exact)
qed

text \<open>C13. For priorities up to 9000 and ids below \<open>10 ^ 12\<close> the rounded \<open>float64\<close> score orders tasks exactly
  as the MySQL backend does, by priority and then by id.\<close>

theorem activeScore_order:
  assumes "0 \<le> p" "p \<le> 9000" "0 \<le> i" "i < 10 ^ 12" "0 \<le> q" "q \<le> 9000" "0 \<le> j" "j < 10 ^ 12"
  shows "activeScore p i \<le> activeScore q j \<longleftrightarrow> (p, i) \<le> (q, j)"
proof -
  have "p * 10 ^ 12 + i \<le> q * 10 ^ 12 + j \<longleftrightarrow> p < q \<or> p = q \<and> i \<le> j"
  proof (cases p q rule: linorder_cases)
    case less
    then have "(p + 1) * 10 ^ 12 \<le> q * 10 ^ 12" by (intro mult_right_mono) simp_all
    with less assms show ?thesis by (simp add: algebra_simps)
  next
    case greater
    then have "(q + 1) * 10 ^ 12 \<le> p * 10 ^ 12" by (intro mult_right_mono) simp_all
    with greater assms show ?thesis by (simp add: algebra_simps)
  qed simp
  then show ?thesis using assms by (auto simp: activeScore_exact)
qed

theorem activeScore_order_witness:
  "activeScore 1000 7 \<le> activeScore 2000 3 \<longleftrightarrow> ((1000 :: int), (7 :: int)) \<le> (2000, 3)"
  by (rule activeScore_order) simp_all

text \<open>Above that range the tie-break by id is lost: two tasks of priority 10000 with ids 1 and 0 get one score.\<close>

theorem activeScore_collides: "activeScore 10000 1 = activeScore 10000 0"
proof -
  have e: "exp53 10000000000000000 = 1" "exp53 10000000000000001 = 1"
    by (subst exp53.simps, simp, subst exp53.simps, simp)+
  have "round53 10000000000000000 = 10000000000000000" "round53 10000000000000001 = 10000000000000000"
    using e by (simp_all add: round53_def Let_def)
  then show ?thesis by (simp add: activeScore_def round53_exact)
qed

text \<open>A task survives its encoding as a hash: reading back what was written gives the task, without the
  payload, which is kept under its own key.\<close>

theorem mapToTask_taskToMap: "mapToTask (taskToMap t) = t\<lparr>t_data := []\<rparr>"
  by (cases t) (simp add: mapToTask_def taskToMap_def ParseInt_def tonumber_def text_of_def split: option.splits)

section \<open>A yield of an unknown task\<close>

text \<open>C14. A yield on Redis does not check that its task exists: naming an id that was archived or never
  enqueued succeeds, creates a partial hash whose task id reads as zero, and puts it among the leased
  tasks that an expiry makes runnable; a worker's finalization of that id that already had its receipt
  is answered with a conflict from then on.\<close>

theorem redis_yield_phantom:
  assumes "fine w" "\<not> hexists (rd_task s i)" "Redis_Yield i dur w n s = (r, n', s')"
  shows "r = Inr () \<and> hexists (rd_task s' i) \<and> i \<in> members (idx_leased s') \<and>
     t_id (mapToTask (rd_task s' i)) = 0 \<and>
     (\<forall>l. l_taskID l = i \<longrightarrow> redis_receipt l s \<longrightarrow> proper_lease l \<longrightarrow> \<not> redis_receipt l s' \<and>
        (\<forall>d f w' m. fine w' \<longrightarrow>
           result (Redis_Finalize \<lparr>fin_lease = l, fin_duration = d, fin_followups = f\<rparr> w' m s') = Inl ErrLeaseConflict))"
proof -
  have h: "rd_task s i = Map.empty" using assms(2) by (simp add: hexists_iff)
  obtain e t where s': "r = Inr ()" "rd_task s' = (rd_task s)(i := [F_leaseOwner \<mapsto> VStr YieldOwner,
      F_leaseExpires \<mapsto> VInt e, F_dateModified \<mapsto> VInt t])" "idx_leased s' = zadd i e (idx_leased s)"
    using assms(1,3) h by (auto simp: Redis_Yield_def bindP_def stmt_def Let_def)
  then have "hexists (rd_task s' i)" by (simp add: hexists_def all_fields_def)
  moreover have "\<not> owns l (rd_task s' i)" if "proper_lease l" for l
    using that s'(2) by (auto simp: owns_def proper_lease_def)
  ultimately show ?thesis
    using s' by (auto simp: mapToTask_def ParseInt_def tonumber_def redis_receipt_def Redis_Finalize_def
        bindP_def stmt_def finalizeExecutionScript_def Let_def)
qed

theorem redis_yield_phantom_witness:
  "t_id (mapToTask (rd_task (final (Redis_Yield 7 9 (calm 100) 0 sample_redis)) 7)) = 0 \<and>
   7 \<in> members (idx_leased (final (Redis_Yield 7 9 (calm 100) 0 sample_redis)))"
proof -
  have "\<not> hexists (rd_task sample_redis 7)" by (simp add: sample_redis_def hexists_def all_fields_def)
  from redis_yield_phantom [OF fine_calm this] show ?thesis
    by (cases "Redis_Yield 7 9 (calm 100) 0 sample_redis") auto
qed

end
