(* ===== verification/Json_Valid.thy ===== *)
theory Json_Valid
  imports Prelude
begin

text \<open>
  \<open>json.Valid\<close> of the Go standard library: whether a byte string is one JSON value with
  optional white space around it, nested at most 10000 deep. Each scanner returns the rest of
  the input after what it accepts; the fuel of the recursive ones is at least the length of
  their input, every round consumes a byte.
\<close>

definition is_ws :: "char \<Rightarrow> bool" where
  "is_ws c \<longleftrightarrow> c = CHR '' '' \<or> c = CHR 0x09 \<or> c = CHR 0x0A \<or> c = CHR 0x0D"

definition is_digit :: "char \<Rightarrow> bool" where
  "is_digit c \<longleftrightarrow> 48 \<le> (of_char c :: nat) \<and> (of_char c :: nat) \<le> 57"

definition is_hex :: "char \<Rightarrow> bool" where
  "is_hex c \<longleftrightarrow> is_digit c \<or> (97 \<le> (of_char c :: nat) \<and> (of_char c :: nat) \<le> 102) \<or>
     (65 \<le> (of_char c :: nat) \<and> (of_char c :: nat) \<le> 70)"

definition skip_ws :: "string \<Rightarrow> string" where
  "skip_ws s = dropWhile is_ws s"

definition literal :: "string \<Rightarrow> string \<Rightarrow> string option" where
  "literal l s = (if take (length l) s = l then Some (drop (length l) s) else None)"

text \<open>The inside of a string, after its opening quote.\<close>

fun scan_string :: "string \<Rightarrow> string option" where
  "scan_string [] = None"
| "scan_string (c # s) =
     (if c = CHR 0x22 then Some s
      else if (of_char c :: nat) < 32 then None
      else if c = CHR 0x5C then
        (case s of
           [] \<Rightarrow> None
         | e # t \<Rightarrow>
             if e \<in> {CHR 0x22, CHR 0x5C, CHR ''/'', CHR ''b'', CHR ''f'', CHR ''n'', CHR ''r'', CHR ''t''} then scan_string t
             else if e = CHR ''u'' then
               (case t of
                  h1 # h2 # h3 # h4 # u \<Rightarrow>
                    if is_hex h1 \<and> is_hex h2 \<and> is_hex h3 \<and> is_hex h4 then scan_string u else None
                | _ \<Rightarrow> None)
             else None)
      else scan_string s)"

text \<open>At least one digit.\<close>

definition digits1 :: "string \<Rightarrow> string option" where
  "digits1 s = (case s of c # t \<Rightarrow> if is_digit c then Some (dropWhile is_digit t) else None | [] \<Rightarrow> None)"

definition scan_exponent :: "string \<Rightarrow> string option" where
  "scan_exponent s =
     (case s of
        c # t \<Rightarrow>
          if c = CHR ''e'' \<or> c = CHR ''E'' then
            (case t of
               d # u \<Rightarrow> if d = CHR ''+'' \<or> d = CHR ''-'' then digits1 u else digits1 t
             | [] \<Rightarrow> None)
          else Some s
      | [] \<Rightarrow> Some s)"

definition scan_fraction :: "string \<Rightarrow> string option" where
  "scan_fraction s =
     (case s of
        c # t \<Rightarrow> if c = CHR ''.'' then Option.bind (digits1 t) scan_exponent else scan_exponent s
      | [] \<Rightarrow> Some s)"

definition scan_number :: "string \<Rightarrow> string option" where
  "scan_number s =
     (let t = (case s of c # u \<Rightarrow> if c = CHR ''-'' then u else s | [] \<Rightarrow> s) in
      case t of
        c # u \<Rightarrow>
          if c = CHR ''0'' then scan_fraction u
          else if is_digit c then scan_fraction (dropWhile is_digit u)
          else None
      | [] \<Rightarrow> None)"

definition maxNestingDepth :: nat where
  "maxNestingDepth = 10000"

text \<open>A value, the rest of an array after its bracket, the rest of an object after its brace.\<close>

fun scan_value :: "nat \<Rightarrow> nat \<Rightarrow> string \<Rightarrow> string option"
  and scan_elements :: "nat \<Rightarrow> nat \<Rightarrow> string \<Rightarrow> string option"
  and scan_members :: "nat \<Rightarrow> nat \<Rightarrow> string \<Rightarrow> string option" where
  "scan_value 0 depth s = None"
| "scan_value (Suc n) depth s =
     (case skip_ws s of
        [] \<Rightarrow> None
      | c # t \<Rightarrow>
          if c = CHR 0x7B then
            (if depth \<ge> maxNestingDepth then None
             else (case skip_ws t of
                     [] \<Rightarrow> None
                   | d # u \<Rightarrow> if d = CHR 0x7D then Some u else scan_members n (depth + 1) t))
          else if c = CHR 0x5B then
            (if depth \<ge> maxNestingDepth then None
             else (case skip_ws t of
                     [] \<Rightarrow> None
                   | d # u \<Rightarrow> if d = CHR 0x5D then Some u else scan_elements n (depth + 1) t))
          else if c = CHR 0x22 then scan_string t
          else if c = CHR ''t'' then literal ''rue'' t
          else if c = CHR ''f'' then literal ''alse'' t
          else if c = CHR ''n'' then literal ''ull'' t
          else scan_number (c # t))"
| "scan_elements 0 depth s = None"
| "scan_elements (Suc n) depth s =
     (case scan_value n depth s of
        None \<Rightarrow> None
      | Some t \<Rightarrow>
          (case skip_ws t of
             [] \<Rightarrow> None
           | c # u \<Rightarrow>
               if c = CHR '','' then scan_elements n depth u
               else if c = CHR 0x5D then Some u else None))"
| "scan_members 0 depth s = None"
| "scan_members (Suc n) depth s =
     (case skip_ws s of
        [] \<Rightarrow> None
      | q # t \<Rightarrow>
          if q \<noteq> CHR 0x22 then None
          else
            (case scan_string t of
               None \<Rightarrow> None
             | Some t1 \<Rightarrow>
                 (case skip_ws t1 of
                    [] \<Rightarrow> None
                  | c # t2 \<Rightarrow>
                      if c \<noteq> CHR '':'' then None
                      else
                        (case scan_value n depth t2 of
                           None \<Rightarrow> None
                         | Some t3 \<Rightarrow>
                             (case skip_ws t3 of
                                [] \<Rightarrow> None
                              | d # u \<Rightarrow>
                                  if d = CHR '','' then scan_members n depth u
                                  else if d = CHR 0x7D then Some u else None)))))"

definition json_valid :: "string \<Rightarrow> bool" where
  "json_valid s =
     (case scan_value (2 * length s + 2) 0 s of None \<Rightarrow> False | Some t \<Rightarrow> skip_ws t = [])"

lemmas scan_defs = json_valid_def skip_ws_def is_ws_def maxNestingDepth_def scan_number_def scan_fraction_def
  scan_exponent_def is_digit_def literal_def

lemma json_valid_samples:
  "json_valid ''{}''" "json_valid '' [1, true]''" "\<not> json_valid ''[1,]''" "\<not> json_valid ''01''"
  by (simp_all add: scan_defs eval_nat_numeral)

end
