(* ===== verification/Scheduler.thy ===== *)
theory Scheduler
  imports MySQL_Facts Json_Valid
begin

text \<open>
  The trigger scheduler: \<open>src/go/internal/taskqueue/scheduler.go\<close> and \<open>scheduler_mysql.go\<close>. Its tables
  extend those of the MySQL store, so that a fire and the enqueue of its task are one
  transaction over one state. \<open>UNIX_TIMESTAMP()\<close> is a reading of the clock. The plans come from
  a remote service: \<open>plan\<close> is a parameter that gives the answer to the k-th request, and
  \<open>done\<close> tells at which checks the context has been cancelled.
\<close>

section \<open>Tables\<close>

record control_row =
  c_owner :: string
  c_epoch :: int
  c_databaseID :: string

record event_row =
  e_id :: int
  e_last :: "int option"
  e_next :: "int option"

record schedule_row =
  g_scheduledVersion :: int
  g_retryAfter :: "int option"
  g_lastEvaluated :: int

text \<open>\<open>trigger\<close> lists ids with their versions; events and schedules are keyed by trigger.\<close>

record sched_db = queue_db +
  schedulercontrol :: "control_row option"
  trigger :: "(int \<times> int) list"
  triggerevent :: "int \<Rightarrow> event_row option"
  triggerevent_auto :: int
  gorgeschedule :: "int \<Rightarrow> schedule_row option"
  innodb_tables :: int

type_synonym 'a sched_prog = "(sched_db, queue_error, 'a) prog"

record ScheduleSnapshot =
  sn_ID :: int
  sn_Version :: int
  sn_OwnerEpoch :: int
  sn_EventID :: int
  sn_Last :: "int option"
  sn_Next :: "int option"
  sn_ScheduledVersion :: int
  sn_Now :: int
  sn_DatabaseID :: string

text \<open>A rollback restores the tables but not the two \<open>AUTO_INCREMENT\<close> positions.\<close>

definition sched_rollback :: "sched_db \<Rightarrow> sched_db \<Rightarrow> sched_db" where
  "sched_rollback s0 s = s0\<lparr>taskdata_auto := taskdata_auto s, triggerevent_auto := triggerevent_auto s\<rparr>"

abbreviation sched_tx :: "'a sched_prog \<Rightarrow> 'a sched_prog" where
  "sched_tx \<equiv> transaction (DbError ''tx'') sched_rollback"

section \<open>Plans\<close>

definition due :: "ScheduleSnapshot \<Rightarrow> bool" where
  "due s \<longleftrightarrow> sn_ScheduledVersion s = sn_Version s \<and>
     (case sn_Next s of None \<Rightarrow> False | Some e \<Rightarrow> e \<le> sn_Now s)"

text \<open>A firing plan is due, so \<open>sn_Next\<close> is set where the code dereferences it.\<close>

definition validatePlan :: "ScheduleSnapshot \<Rightarrow> TriggerPlan \<Rightarrow> (queue_error + unit)" where
  "validatePlan s p =
     (if tp_protocol p \<noteq> 1 \<or> tp_id p \<noteq> sn_ID s \<or> tp_version p \<noteq> sn_Version s \<or> tp_fire p \<noteq> due s
      then Inl ErrInvalidPlan
      else if (case tp_next p of
                 None \<Rightarrow> False
               | Some nx \<Rightarrow> nx \<le> 0 \<or> nx > 4294967295 \<or>
                   (tp_fire p \<and> (case sn_Next s of None \<Rightarrow> False | Some e \<Rightarrow> nx \<le> e)))
      then Inl ErrInvalidPlan
      else if tp_fire p then
        (case tp_task p of
           None \<Rightarrow> Inl ErrInvalidPlan
         | Some t \<Rightarrow> if er_taskClass t = [] \<or> \<not> json_valid (er_data t) then Inl ErrInvalidPlan else Inr ())
      else (case tp_task p of None \<Rightarrow> Inr () | Some _ \<Rightarrow> Inl ErrInvalidPlan))"

section \<open>The store\<close>

definition ScheduleReady :: "unit sched_prog" where
  "ScheduleReady =
     bindP (query ''count tables'' innodb_tables) (\<lambda>n.
     if n \<noteq> 7 then raise ErrNotReady
     else
       bindP (query ''select control'' schedulercontrol) (\<lambda>row.
       case row of
         None \<Rightarrow> raise ErrNoRows
       | Some c \<Rightarrow>
           if c_epoch c < 1 \<or> (c_owner c \<noteq> ''php'' \<and> c_owner c \<noteq> ''paused'' \<and> c_owner c \<noteq> ''gorge'')
           then raise ErrNotReady else ret ()))"

definition ScheduleDatabaseID :: "string sched_prog" where
  "ScheduleDatabaseID =
     bindP (query ''select databaseID'' schedulercontrol) (\<lambda>row.
     case row of
       None \<Rightarrow> raise ErrNoRows
     | Some c \<Rightarrow> if length (c_databaseID c) \<noteq> 36 then raise ErrNotReady else ret (c_databaseID c))"

definition candidate :: "int \<Rightarrow> sched_db \<Rightarrow> int \<times> int \<Rightarrow> bool" where
  "candidate now s t =
     (case t of (i, v) \<Rightarrow>
        (case gorgeschedule s i of
           None \<Rightarrow> True
         | Some g \<Rightarrow>
             (case g_retryAfter g of None \<Rightarrow> True | Some a \<Rightarrow> a \<le> now) \<and>
             (g_scheduledVersion g \<noteq> v \<or>
              (case triggerevent s i of None \<Rightarrow> False | Some e \<Rightarrow> (case e_next e of None \<Rightarrow> False | Some x \<Rightarrow> x \<le> now)))))"

definition evaluated :: "sched_db \<Rightarrow> int \<Rightarrow> int" where
  "evaluated s i = (case gorgeschedule s i of None \<Rightarrow> 0 | Some g \<Rightarrow> g_lastEvaluated g)"

definition snapshot_of :: "int \<Rightarrow> control_row \<Rightarrow> sched_db \<Rightarrow> int \<times> int \<Rightarrow> ScheduleSnapshot" where
  "snapshot_of now c s t =
     (case t of (i, v) \<Rightarrow>
        \<lparr>sn_ID = i, sn_Version = v, sn_OwnerEpoch = c_epoch c,
         sn_EventID = (case triggerevent s i of None \<Rightarrow> 0 | Some e \<Rightarrow> e_id e),
         sn_Last = Option.bind (triggerevent s i) e_last, sn_Next = Option.bind (triggerevent s i) e_next,
         sn_ScheduledVersion = (case gorgeschedule s i of None \<Rightarrow> 0 | Some g \<Rightarrow> g_scheduledVersion g),
         sn_Now = now, sn_DatabaseID = c_databaseID c\<rparr>)"

definition select_candidates :: "int \<Rightarrow> int \<Rightarrow> sched_db \<Rightarrow> ScheduleSnapshot list" where
  "select_candidates limit now s =
     (case schedulercontrol s of
        None \<Rightarrow> []
      | Some c \<Rightarrow>
          if c_owner c \<noteq> ''gorge'' then []
          else map (snapshot_of now c s)
                 (take (nat limit) (sort_key (\<lambda>t. (evaluated s (fst t), fst t)) (filter (candidate now s) (trigger s)))))"

definition ScheduleCandidates :: "int \<Rightarrow> ScheduleSnapshot list sched_prog" where
  "ScheduleCandidates limit =
     bindP time_now (\<lambda>now. query ''select candidates'' (select_candidates limit now))"

text \<open>The snapshot check; \<open>sameEpoch\<close> is equality of options.\<close>

definition lockSchedule :: "ScheduleSnapshot \<Rightarrow> unit sched_prog" where
  "lockSchedule snap =
     bindP (query ''lock control'' schedulercontrol) (\<lambda>row.
     case row of
       None \<Rightarrow> raise ErrNoRows
     | Some c \<Rightarrow>
         if c_owner c \<noteq> ''gorge'' \<or> c_epoch c \<noteq> sn_OwnerEpoch snap \<or> c_databaseID c \<noteq> sn_DatabaseID snap \<or>
            length (c_databaseID c) \<noteq> 36
         then raise ErrScheduleConflict
         else
           bindP (query ''lock trigger'' (\<lambda>s. map_of (trigger s) (sn_ID snap))) (\<lambda>version.
           case version of
             None \<Rightarrow> raise ErrScheduleConflict
           | Some v \<Rightarrow>
               if v \<noteq> sn_Version snap then raise ErrScheduleConflict
               else
                 bindP (query ''lock event'' (\<lambda>s. triggerevent s (sn_ID snap))) (\<lambda>event.
                 let i = (case event of None \<Rightarrow> 0 | Some e \<Rightarrow> e_id e);
                     lst = Option.bind event e_last; nxt = Option.bind event e_next in
                 if i \<noteq> sn_EventID snap \<or> lst \<noteq> sn_Last snap \<or> nxt \<noteq> sn_Next snap then raise ErrScheduleConflict
                 else
                   bindP (query ''lock schedule'' (\<lambda>s. gorgeschedule s (sn_ID snap))) (\<lambda>sched.
                   if (case sched of None \<Rightarrow> 0 | Some g \<Rightarrow> g_scheduledVersion g) \<noteq> sn_ScheduledVersion snap
                   then raise ErrScheduleConflict else ret ()))))"

definition upsert_event ::
  "int \<Rightarrow> int option \<Rightarrow> int option \<Rightarrow> sched_db \<Rightarrow> (queue_error + unit) \<times> sched_db" where
  "upsert_event i lst nxt s =
     (Inr (),
      s\<lparr>triggerevent := (triggerevent s)(i \<mapsto>
          (case triggerevent s i of
             None \<Rightarrow> \<lparr>e_id = triggerevent_auto s, e_last = lst, e_next = nxt\<rparr>
           | Some e \<Rightarrow> e\<lparr>e_last := lst, e_next := nxt\<rparr>)),
        triggerevent_auto := triggerevent_auto s + 1\<rparr>)"

definition upsert_schedule :: "int \<Rightarrow> int \<Rightarrow> int \<Rightarrow> sched_db \<Rightarrow> (queue_error + unit) \<times> sched_db" where
  "upsert_schedule i version now s =
     (Inr (),
      s\<lparr>gorgeschedule := (gorgeschedule s)(i \<mapsto>
          \<lparr>g_scheduledVersion = version, g_retryAfter = Some 0, g_lastEvaluated = now\<rparr>)\<rparr>)"

definition delay_schedule :: "int \<Rightarrow> int \<Rightarrow> int \<Rightarrow> sched_db \<Rightarrow> (queue_error + unit) \<times> sched_db" where
  "delay_schedule i version now s =
     (Inr (),
      s\<lparr>gorgeschedule := (gorgeschedule s)(i \<mapsto>
          (case gorgeschedule s i of
             None \<Rightarrow> \<lparr>g_scheduledVersion = version, g_retryAfter = Some (now + 30), g_lastEvaluated = now\<rparr>
           | Some g \<Rightarrow> g\<lparr>g_retryAfter := Some (now + 30), g_lastEvaluated := now\<rparr>))\<rparr>)"

definition ApplySchedule :: "ScheduleSnapshot \<Rightarrow> TriggerPlan \<Rightarrow> unit sched_prog" where
  "ApplySchedule snap p =
     (case validatePlan snap p of
        Inl e \<Rightarrow> raise e
      | Inr _ \<Rightarrow>
          sched_tx
            (bindP (lockSchedule snap) (\<lambda>_.
             bindP (if tp_fire p then
                      bindP (enqueueInTx (the (tp_task p))) (\<lambda>_. ret (sn_Next snap))
                    else ret (sn_Last snap)) (\<lambda>lst.
             bindP (stmt (DbError ''upsert event'') (upsert_event (sn_ID snap) lst (tp_next p))) (\<lambda>_.
             bindP time_now (\<lambda>now.
             stmt (DbError ''upsert schedule'') (upsert_schedule (sn_ID snap) (sn_Version snap) now)))))))"

definition ScheduleFailed :: "ScheduleSnapshot \<Rightarrow> unit sched_prog" where
  "ScheduleFailed snap =
     tryP
       (sched_tx
          (bindP (lockSchedule snap) (\<lambda>_.
           bindP time_now (\<lambda>now.
           stmt (DbError ''delay schedule'') (delay_schedule (sn_ID snap) (sn_ScheduledVersion snap) now)))))
       (\<lambda>e. if e = ErrScheduleConflict then ret () else raise e)"

section \<open>The cycle\<close>

text \<open>
  One candidate: plan, validate, apply; any failure but a lost race is recorded for a retry. The
  result is the errors of this candidate.
\<close>

definition plan_outcome ::
  "(ScheduleSnapshot \<Rightarrow> queue_error + TriggerPlan) \<Rightarrow> ScheduleSnapshot \<Rightarrow> queue_error option sched_prog" where
  "plan_outcome plan snap =
     tryP
       (bindP (case plan snap of
            Inl e \<Rightarrow> raise e
          | Inr p \<Rightarrow> (case validatePlan snap p of Inl e \<Rightarrow> raise e | Inr _ \<Rightarrow> ApplySchedule snap p))
         (\<lambda>_. ret None))
       (\<lambda>e. ret (Some e))"

definition record_failure :: "ScheduleSnapshot \<Rightarrow> queue_error option \<Rightarrow> queue_error list sched_prog" where
  "record_failure snap err =
     (case err of
        None \<Rightarrow> ret []
      | Some e \<Rightarrow>
          if e = ErrScheduleConflict then ret []
          else
            bindP (tryP (bindP (ScheduleFailed snap) (\<lambda>_. ret [])) (\<lambda>retryErr. ret [retryErr])) (\<lambda>fs.
            ret (fs @ [e])))"

definition evaluate ::
  "(ScheduleSnapshot \<Rightarrow> queue_error + TriggerPlan) \<Rightarrow> ScheduleSnapshot \<Rightarrow> queue_error list sched_prog" where
  "evaluate plan snap = bindP (plan_outcome plan snap) (record_failure snap)"

text \<open>The loop over the candidates, with the two checks of the context in each round.\<close>

fun tick_loop ::
  "(nat \<Rightarrow> ScheduleSnapshot \<Rightarrow> queue_error + TriggerPlan) \<Rightarrow> (nat \<Rightarrow> bool) \<Rightarrow> nat \<Rightarrow> ScheduleSnapshot list \<Rightarrow>
   queue_error list \<Rightarrow> queue_error list sched_prog" where
  "tick_loop plan done k [] failures = ret failures"
| "tick_loop plan done k (snap # snaps) failures =
     (if done (2 * k) then ret (failures @ [DbError ''context canceled''])
      else if done (2 * k + 1) then ret (failures @ [DbError ''context canceled''])
      else
        bindP (evaluate (plan k) snap) (\<lambda>fs.
        tick_loop plan done (Suc k) snaps (failures @ fs)))"

definition Tick ::
  "(nat \<Rightarrow> ScheduleSnapshot \<Rightarrow> queue_error + TriggerPlan) \<Rightarrow> (nat \<Rightarrow> bool) \<Rightarrow> queue_error list sched_prog" where
  "Tick plan done =
     bindP (ScheduleCandidates 100) (\<lambda>candidates. tick_loop plan done 0 candidates [])"

section \<open>Readiness and one cycle\<close>

text \<open>
  The capabilities the remote planner reports. \<open>call\<close> stands for the Conduit request and its
  decoded result.
\<close>

record capabilities =
  cap_protocol :: int
  cap_atomicEnqueue :: bool
  cap_databaseID :: string

definition Source_Ready :: "(string \<Rightarrow> queue_error + capabilities) \<Rightarrow> string \<Rightarrow> queue_error + unit" where
  "Source_Ready call databaseID =
     (case call databaseID of
        Inl e \<Rightarrow> Inl e
      | Inr caps \<Rightarrow>
          if cap_protocol caps \<noteq> 1 \<or> \<not> cap_atomicEnqueue caps \<or> databaseID = [] \<or> cap_databaseID caps \<noteq> databaseID
          then Inl ErrNotReady else Inr ())"

definition Scheduler_Ready :: "(string \<Rightarrow> queue_error + capabilities) \<Rightarrow> unit sched_prog" where
  "Scheduler_Ready call =
     bindP ScheduleReady (\<lambda>_.
     bindP ScheduleDatabaseID (\<lambda>databaseID.
     case Source_Ready call databaseID of Inl e \<Rightarrow> raise e | Inr _ \<Rightarrow> ret ()))"

text \<open>The body of \<open>Run\<close>'s loop; its result is the errors it logs.\<close>

definition cycle ::
  "(string \<Rightarrow> queue_error + capabilities) \<Rightarrow> (nat \<Rightarrow> ScheduleSnapshot \<Rightarrow> queue_error + TriggerPlan) \<Rightarrow>
   (nat \<Rightarrow> bool) \<Rightarrow> queue_error list sched_prog" where
  "cycle call plan done =
     tryP (bindP (Scheduler_Ready call) (\<lambda>_. Tick plan done)) (\<lambda>e. ret [e])"

end
