(* ===== verification/Scheduler_Facts.thy ===== *)
theory Scheduler_Facts
  imports Scheduler
begin

text \<open>
  Facts about the trigger scheduler: what one application of a plan does in any world, that its
  snapshot check is a compare-and-set, the history of several schedulers that work on one
  database next to the queue and the owner of the trigger table, and that no occurrence of a
  trigger fires twice in it.
\<close>

section \<open>Applying a plan\<close>

definition matches :: "ScheduleSnapshot \<Rightarrow> sched_db \<Rightarrow> bool" where
  "matches snap s \<longleftrightarrow>
     (\<exists>c. schedulercontrol s = Some c \<and> c_owner c = ''gorge'' \<and> c_epoch c = sn_OwnerEpoch snap \<and>
          c_databaseID c = sn_DatabaseID snap \<and> length (c_databaseID c) = 36) \<and>
     map_of (trigger s) (sn_ID snap) = Some (sn_Version snap) \<and>
     (case triggerevent s (sn_ID snap) of None \<Rightarrow> 0 | Some e \<Rightarrow> e_id e) = sn_EventID snap \<and>
     Option.bind (triggerevent s (sn_ID snap)) e_last = sn_Last snap \<and>
     Option.bind (triggerevent s (sn_ID snap)) e_next = sn_Next snap \<and>
     (case gorgeschedule s (sn_ID snap) of None \<Rightarrow> 0 | Some g \<Rightarrow> g_scheduledVersion g) = sn_ScheduledVersion snap"

lemma lockSchedule_ok: "lockSchedule snap w n s = (Inr u, n', s') \<Longrightarrow> s' = s \<and> matches snap s"
  by (auto simp: lockSchedule_def query_def bindP_def stmt_def matches_def Let_def
      split: fault.splits option.splits if_splits)

lemma lockSchedule_err: "lockSchedule snap w n s = (Inl e, n', s') \<Longrightarrow> s' = s"
  by (auto simp: lockSchedule_def query_def bindP_def stmt_def Let_def
      split: fault.splits option.splits if_splits)

lemma lockSchedule_conflict:
  "fine w \<Longrightarrow> schedulercontrol s \<noteq> None \<Longrightarrow> \<not> matches snap s \<Longrightarrow>
   \<exists>n'. lockSchedule snap w n s = (Inl ErrScheduleConflict, n', s)"
  by (auto simp: lockSchedule_def query_def bindP_def stmt_def matches_def Let_def
      split: option.splits if_splits)

lemma lockSchedule_fine:
  "fine w \<Longrightarrow> matches snap s \<Longrightarrow> lockSchedule snap w n s = (Inr (), n + 4, s)"
  by (auto simp: lockSchedule_def query_def bindP_def stmt_def matches_def Let_def split: option.splits)

definition same_sched :: "sched_db \<Rightarrow> sched_db \<Rightarrow> bool" where
  "same_sched s s' \<longleftrightarrow> s' = sched_rollback s s'"

lemma same_sched_refl [simp]: "same_sched s s"
  by (simp add: same_sched_def sched_rollback_def)

lemma same_sched_rollback [simp]: "same_sched s (sched_rollback s s1)"
  by (simp add: same_sched_def sched_rollback_def)

lemma same_schedD:
  assumes "same_sched s s'"
  shows "schedulercontrol s' = schedulercontrol s" "trigger s' = trigger s" "triggerevent s' = triggerevent s"
    "gorgeschedule s' = gorgeschedule s" "activetask s' = activetask s" "archivetask s' = archivetask s"
    "taskdata s' = taskdata s" "lisk_counter s' = lisk_counter s" "gorgeinbox s' = gorgeinbox s"
proof -
  obtain a b where "s' = s\<lparr>taskdata_auto := a, triggerevent_auto := b\<rparr>"
    using assms unfolding same_sched_def sched_rollback_def by blast
  then show "schedulercontrol s' = schedulercontrol s" "trigger s' = trigger s" "triggerevent s' = triggerevent s"
    "gorgeschedule s' = gorgeschedule s" "activetask s' = activetask s" "archivetask s' = archivetask s"
    "taskdata s' = taskdata s" "lisk_counter s' = lisk_counter s" "gorgeinbox s' = gorgeinbox s"
    by simp_all
qed

lemma sched_tx_cases:
  assumes "sched_tx body w n s = (r, n', s')"
  obtains (undone) e where "same_sched s s'" "r = Inl e"
  | (committed) a n1 where "body w (Suc n) s = (Inr a, n1, s')" "r = Inr a \<or> r = Inl (DbError ''tx'')"
  using transaction_atomic [OF assms] by auto

text \<open>
  The effect of a committed plan: a firing enqueues its task, the event's clock moves and the
  trigger counts as scheduled for its version.
\<close>

definition applied :: "ScheduleSnapshot \<Rightarrow> TriggerPlan \<Rightarrow> int \<Rightarrow> int \<Rightarrow> sched_db \<Rightarrow> sched_db" where
  "applied snap p t now s =
     (let s1 = (if tp_fire p then enqueue_effect (the (tp_task p)) t s else s);
          lst = (if tp_fire p then sn_Next snap else sn_Last snap)
      in snd (upsert_schedule (sn_ID snap) (sn_Version snap) now (snd (upsert_event (sn_ID snap) lst (tp_next p) s1))))"

lemma ApplySchedule_cases:
  assumes "ApplySchedule snap p w n s = (r, n', s')"
  obtains (undone) e where "same_sched s s'" "r = Inl e"
  | (committed) t now where "matches snap s" "validatePlan snap p = Inr ()" "s' = applied snap p t now s"
      "r = Inr () \<or> r = Inl (DbError ''tx'')"
proof (cases "validatePlan snap p")
  case (Inl e)
  with assms have "r = Inl e" "s' = s" by (simp_all add: ApplySchedule_def)
  with undone show thesis by simp
next
  case (Inr u)
  let ?fire = "if tp_fire p then bindP (enqueueInTx (the (tp_task p))) (\<lambda>_. ret (sn_Next snap)) else ret (sn_Last snap)"
  let ?rest = "\<lambda>lst. bindP (stmt (DbError ''upsert event'') (upsert_event (sn_ID snap) lst (tp_next p))) (\<lambda>_.
             bindP time_now (\<lambda>now.
             stmt (DbError ''upsert schedule'') (upsert_schedule (sn_ID snap) (sn_Version snap) now)))"
  have tx: "sched_tx (bindP (lockSchedule snap) (\<lambda>_. bindP ?fire ?rest)) w n s = (r, n', s')"
    using assms Inr by (simp add: ApplySchedule_def)
  then show thesis
  proof (cases rule: sched_tx_cases)
    case (committed a n1)
    from bindP_ok [OF committed(1)] obtain n2 where "matches snap s" and
      "bindP ?fire ?rest w n2 s = (Inr a, n1, s')" by (auto dest!: lockSchedule_ok)
    moreover from bindP_ok [OF this(2)] obtain lst n3 s1 where
      fire: "?fire w n2 s = (Inr lst, n3, s1)" and rest: "?rest lst w n3 s1 = (Inr a, n1, s')" by blast
    moreover from rest obtain now where "s' = snd (upsert_schedule (sn_ID snap) (sn_Version snap) now
        (snd (upsert_event (sn_ID snap) lst (tp_next p) s1)))"
      by (auto simp: bindP_def stmt_def split: prod.splits sum.splits fault.splits)
    moreover from fire have "s1 = (if tp_fire p then enqueue_effect (the (tp_task p)) (w_clock w n2) s else s)"
      "lst = (if tp_fire p then sn_Next snap else sn_Last snap)"
      by (auto simp: bindP_def dest!: enqueueInTx_ok split: prod.splits sum.splits if_splits)
    ultimately show thesis
      using that(2) [of "w_clock w n2"] Inr committed(2) by (simp add: applied_def)
  qed (rule undone)
qed

section \<open>Several schedulers on one database\<close>

text \<open>
  The state the schedulers work in. Trigger versions start at one, and a trigger's id is its key.
\<close>

definition triggers_ok :: "sched_db \<Rightarrow> bool" where
  "triggers_ok s \<longleftrightarrow> distinct (map fst (trigger s)) \<and> (\<forall>(i, v) \<in> set (trigger s). 1 \<le> v)"

definition sched_ok :: "sched_db \<Rightarrow> bool" where
  "sched_ok s \<longleftrightarrow> tables_ok s \<and> triggers_ok s"

text \<open>
  A snapshot as \<open>ScheduleCandidates\<close> gives it: the trigger is due, or its version has not been
  scheduled yet.
\<close>

definition honest :: "ScheduleSnapshot \<Rightarrow> bool" where
  "honest snap \<longleftrightarrow> due snap \<or> sn_ScheduledVersion snap \<noteq> sn_Version snap"

text \<open>
  The other writers of the scheduler's tables. An edit gives existing triggers higher versions
  and new ones ids that were never scheduled; while another owner holds the tables it may do
  anything, and the epoch goes up with every change of owner.
\<close>

definition edits :: "sched_db \<Rightarrow> sched_db \<Rightarrow> bool" where
  "edits s s' \<longleftrightarrow> (\<exists>ts. s' = s\<lparr>trigger := ts\<rparr>) \<and> triggers_ok s' \<and>
     (\<forall>i v'. map_of (trigger s') i = Some v' \<longrightarrow>
        (case map_of (trigger s) i of None \<Rightarrow> gorgeschedule s i = None | Some v \<Rightarrow> v \<le> v'))"

definition switches :: "sched_db \<Rightarrow> sched_db \<Rightarrow> bool" where
  "switches s s' \<longleftrightarrow> sched_ok s' \<and>
     (\<exists>c c'. schedulercontrol s = Some c \<and> schedulercontrol s' = Some c' \<and> c_epoch c < c_epoch c')"

text \<open>
  \<open>sched_history\<close>: applications of plans and recorded failures by any number of schedulers, each in
  a world of its own, between calls of the queue, edits and changes of owner. The log lists the
  snapshots whose firing took effect.
\<close>

inductive sched_history ::
  "store_config \<Rightarrow> (EnqueueRequest \<Rightarrow> string) \<Rightarrow> sched_db \<Rightarrow> ScheduleSnapshot list \<Rightarrow> sched_db \<Rightarrow> bool"
  for cfg digest s0 where
  start: "sched_history cfg digest s0 [] s0"
| plan: "sched_history cfg digest s0 log s \<Longrightarrow> honest snap \<Longrightarrow> ApplySchedule snap p w n s = (r, n', s') \<Longrightarrow>
    sched_history cfg digest s0 (if tp_fire p \<and> \<not> same_sched s s' then snap # log else log) s'"
| delay: "sched_history cfg digest s0 log s \<Longrightarrow> ScheduleFailed snap w n s = (r, n', s') \<Longrightarrow>
    sched_history cfg digest s0 log s'"
| queue: "sched_history cfg digest s0 log s \<Longrightarrow> any_call cfg digest s s' \<Longrightarrow> sched_history cfg digest s0 log s'"
| edit: "sched_history cfg digest s0 log s \<Longrightarrow> edits s s' \<Longrightarrow> sched_history cfg digest s0 log s'"
| switch: "sched_history cfg digest s0 log s \<Longrightarrow> switches s s' \<Longrightarrow> sched_history cfg digest s0 log s'"

text \<open>An occurrence is a trigger, its version, the owner's epoch and the time it was due.\<close>

definition occurrence :: "ScheduleSnapshot \<Rightarrow> int \<times> int \<times> int \<times> int option" where
  "occurrence snap = (sn_ID snap, sn_Version snap, sn_OwnerEpoch snap, sn_Next snap)"

definition beyond :: "int option \<Rightarrow> int option \<Rightarrow> bool" where
  "beyond nxt old = (case (nxt, old) of (None, Some _) \<Rightarrow> True | (Some x, Some e) \<Rightarrow> e < x | _ \<Rightarrow> False)"

text \<open>Never again: another epoch, a newer version, or a clock that has moved past the occurrence.\<close>

definition passed :: "ScheduleSnapshot \<Rightarrow> sched_db \<Rightarrow> bool" where
  "passed snap s \<longleftrightarrow>
     (\<exists>c. schedulercontrol s = Some c \<and> sn_OwnerEpoch snap < c_epoch c) \<or>
     gorgeschedule s (sn_ID snap) \<noteq> None \<and>
     (case map_of (trigger s) (sn_ID snap) of
        None \<Rightarrow> True
      | Some v \<Rightarrow> sn_Version snap < v \<or>
          v = sn_Version snap \<and> (\<exists>g. gorgeschedule s (sn_ID snap) = Some g \<and> g_scheduledVersion g = v) \<and>
          beyond (Option.bind (triggerevent s (sn_ID snap)) e_next) (sn_Next snap))"

lemma passed_occurrence: "occurrence snap = occurrence snap' \<Longrightarrow> passed snap s = passed snap' s"
  by (simp add: occurrence_def passed_def cong: option.case_cong)

lemma beyond_irrefl [simp]: "\<not> beyond x x"
  by (simp add: beyond_def split: option.splits)

lemma beyond_trans: "beyond z y \<Longrightarrow> beyond y x \<Longrightarrow> beyond z x"
  by (auto simp: beyond_def split: option.splits)

lemma passed_no_match: "passed snap s \<Longrightarrow> \<not> matches snap s"
  by (auto simp: passed_def matches_def)

lemma passed_same: "same_sched s s' \<Longrightarrow> passed snap s' = passed snap s"
  by (simp add: passed_def same_schedD cong: option.case_cong)

lemma enqueue_effect_sched [simp]:
  "schedulercontrol (enqueue_effect q t s) = schedulercontrol s" "trigger (enqueue_effect q t s) = trigger s"
  "triggerevent (enqueue_effect q t s) = triggerevent s" "gorgeschedule (enqueue_effect q t s) = gorgeschedule s"
  "triggerevent_auto (enqueue_effect q t s) = triggerevent_auto s"
  by (simp_all add: enqueue_effect_def)

lemma applied_sched:
  "schedulercontrol (applied snap p t now s) = schedulercontrol s" "trigger (applied snap p t now s) = trigger s"
  "gorgeschedule (applied snap p t now s) =
     (gorgeschedule s)(sn_ID snap \<mapsto> \<lparr>g_scheduledVersion = sn_Version snap, g_retryAfter = Some 0, g_lastEvaluated = now\<rparr>)"
  "i \<noteq> sn_ID snap \<Longrightarrow> triggerevent (applied snap p t now s) i = triggerevent s i"
  "Option.bind (triggerevent (applied snap p t now s) (sn_ID snap)) e_next = tp_next p"
  "Option.bind (triggerevent (applied snap p t now s) (sn_ID snap)) e_last = (if tp_fire p then sn_Next snap else sn_Last snap)"
  by (auto simp: applied_def upsert_schedule_def upsert_event_def Let_def split: option.splits)

lemma valid_fire: "validatePlan snap p = Inr () \<Longrightarrow> tp_fire p = due snap"
  by (auto simp: validatePlan_def split: if_splits)

lemma valid_forward: "validatePlan snap p = Inr () \<Longrightarrow> tp_fire p \<Longrightarrow> beyond (tp_next p) (sn_Next snap)"
  by (auto simp: validatePlan_def due_def beyond_def split: if_splits option.splits)

text \<open>A committed firing passes its own occurrence, and no application takes one back.\<close>

lemma applied_passes:
  assumes "matches snap s" "validatePlan snap p = Inr ()" "tp_fire p"
  shows "passed snap (applied snap p t now s)"
  using assms(1) valid_forward [OF assms(2,3)] by (simp add: passed_def matches_def applied_sched)

lemma applied_keeps_passed:
  assumes "matches snap s" "validatePlan snap p = Inr ()" "honest snap" "passed old s"
  shows "passed old (applied snap p t now s)"
proof (cases "sn_ID old = sn_ID snap")
  case False
  with assms(4) show ?thesis by (auto simp: passed_def applied_sched split: option.splits)
next
  case True
  have "tp_fire p" if "g_scheduledVersion g = sn_Version snap" "gorgeschedule s (sn_ID snap) = Some g" for g
    using assms(1-3) that valid_fire [OF assms(2)] by (auto simp: honest_def matches_def)
  then have "beyond (tp_next p) (sn_Next old)"
    if "beyond (sn_Next snap) (sn_Next old)" "g_scheduledVersion g = sn_Version snap" "gorgeschedule s (sn_ID snap) = Some g" for g
    using beyond_trans [OF valid_forward [OF assms(2)] that(1)] that(2,3) by blast
  with True assms(1,4) show ?thesis
    by (auto simp: passed_def matches_def applied_sched split: option.splits)
qed

subsection \<open>The queue leaves the scheduler's tables alone\<close>

abbreviation frames :: "'m \<Rightarrow> ('m queue_db_scheme, queue_error, 'a) prog \<Rightarrow> bool" where
  "frames m \<equiv> preserves (\<lambda>s. queue_db.more s = m)"

lemma frames_stmts [preserves_rules]:
  "frames m (stmt err (update_rows P f))" "frames m (stmt err (insert_archivetask a))"
  "frames m (stmt err (delete_activetask i))" "frames m (stmt err (acquire_receipt e h))"
  "frames m (stmt err (insert_taskdata d))" "frames m (stmt err (insert_activetask r))"
  "frames m (stmt err (\<lambda>s. (Inr (), s\<lparr>gorgeinbox := g s\<rparr>)))" "frames m (nextCounterValue name)"
  unfolding nextCounterValue_def
  by (rule preserves_stmt, simp add: update_rows_def insert_archivetask_def delete_activetask_def acquire_receipt_def
      insert_taskdata_def insert_activetask_def Let_def split: option.split)+

lemma frames_in_tx [preserves_rules]: "frames m body \<Longrightarrow> frames m (in_tx body)"
  by (rule preserves_transaction) (simp_all add: rollback_def)

lemma frames_shared [preserves_rules]:
  "frames m (enqueueInTx req)" "frames m (archiveTask i res dur)" "frames m (lockExecution l)" "frames m (check_receipt l)"
  unfolding enqueueInTx_def archiveTask_def lockExecution_def check_receipt_def Let_def
  by (intro preserves_rules)+

lemma run_op_frames: "frames m (run_op cfg digest opn)"
proof (cases opn)
  case (OpLease lim owner cs)
  have "frames m (Lease cfg lim owner cs)"
    unfolding Lease_def lease_unleased_def lease_expired_def Let_def by (intro preserves_rules)
  with OpLease show ?thesis by (simp add: hoare_discard)
next
  case (OpFinalize req)
  have "frames m (Finalize req)" unfolding Finalize_def by (intro preserves_rules)
  with OpFinalize show ?thesis by (simp add: hoare_discard)
next
  case (OpResolve req)
  have "frames m (Resolve cfg req)" unfolding Resolve_def Let_def by (intro preserves_rules)
  with OpResolve show ?thesis by (simp add: hoare_discard)
qed (auto simp: Enqueue_def Stats_def GetTask_def ListActive_def EnqueueEvent_def Complete_def Cancel_def
    Yield_def Fail_def Awaken_def Renew_def Let_def intro!: hoare_discard preserves_rules)

lemma any_call_frame: "any_call cfg digest s s' \<Longrightarrow> queue_db.more s' = queue_db.more s"
  unfolding any_call_def using hoareD_inv [OF run_op_frames refl] by (metis snd_conv)

lemma more_sched:
  fixes s s' :: sched_db
  assumes "queue_db.more s' = queue_db.more s"
  shows "schedulercontrol s' = schedulercontrol s" "trigger s' = trigger s"
    "triggerevent s' = triggerevent s" "gorgeschedule s' = gorgeschedule s"
  using assms by (cases s; cases s'; simp)+

subsection \<open>What a history keeps\<close>

lemma ScheduleFailed_cases:
  assumes "ScheduleFailed snap w n s = (r, n', s')"
  obtains (undone) "same_sched s s'"
  | (committed) now where "matches snap s"
      "s' = snd (delay_schedule (sn_ID snap) (sn_ScheduledVersion snap) now s)" "r = Inr () \<or> r = Inl (DbError ''tx'')"
proof -
  let ?body = "bindP (lockSchedule snap) (\<lambda>_. bindP time_now (\<lambda>now.
      stmt (DbError ''delay schedule'') (delay_schedule (sn_ID snap) (sn_ScheduledVersion snap) now)))"
  from assms obtain r1 where tx: "sched_tx ?body w n s = (r1, n', s')" and r: "r1 = Inl (DbError ''tx'') \<Longrightarrow> r = r1"
      "r1 = Inr () \<Longrightarrow> r = r1"
    unfolding ScheduleFailed_def by (cases rule: tryP_cases) (auto split: if_splits)
  from tx show thesis
  proof (cases rule: sched_tx_cases)
    case (committed a n1)
    from bindP_ok [OF committed(1)] obtain n2 where "matches snap s"
      "bindP time_now (\<lambda>now. stmt (DbError ''delay schedule'')
         (delay_schedule (sn_ID snap) (sn_ScheduledVersion snap) now)) w n2 s = (Inr a, n1, s')"
      by (auto dest!: lockSchedule_ok)
    with that(2) [of "w_clock w n2"] committed(2) r show thesis
      by (auto simp: bindP_def stmt_def split: fault.splits)
  qed (rule that(1))
qed

lemma delay_schedule_simps [simp]:
  "schedulercontrol (snd (delay_schedule i v now s)) = schedulercontrol s"
  "trigger (snd (delay_schedule i v now s)) = trigger s"
  "triggerevent (snd (delay_schedule i v now s)) = triggerevent s"
  "j \<noteq> i \<Longrightarrow> gorgeschedule (snd (delay_schedule i v now s)) j = gorgeschedule s j"
  by (simp_all add: delay_schedule_def)

lemma delay_keeps_passed: "passed old s \<Longrightarrow> passed old (snd (delay_schedule i v now s))"
  by (auto simp: passed_def delay_schedule_def split: option.splits)

lemma edits_keep_passed:
  assumes "edits s s'" "passed old s"
  shows "passed old s'"
proof -
  obtain ts where s': "s' = s\<lparr>trigger := ts\<rparr>" using assms(1) by (auto simp: edits_def)
  have "case map_of (trigger s) (sn_ID old) of None \<Rightarrow> gorgeschedule s (sn_ID old) = None | Some v \<Rightarrow> v \<le> v'"
    if "map_of ts (sn_ID old) = Some v'" for v'
    using assms(1) s' that by (auto simp: edits_def)
  with assms(2) s' show ?thesis
    by (cases "map_of (trigger s) (sn_ID old)"; cases "map_of ts (sn_ID old)") (fastforce simp: passed_def)+
qed

text \<open>\<open>gone\<close>: passed, and of an epoch that has begun.\<close>

definition gone :: "ScheduleSnapshot \<Rightarrow> sched_db \<Rightarrow> bool" where
  "gone snap s \<longleftrightarrow> passed snap s \<and> (\<exists>c. schedulercontrol s = Some c \<and> sn_OwnerEpoch snap \<le> c_epoch c)"

lemma gone_switch: "switches s s' \<Longrightarrow> gone old s \<Longrightarrow> gone old s'"
  by (auto simp: gone_def passed_def switches_def)

lemma gone_apply:
  assumes "ApplySchedule snap p w n s = (r, n', s')" "honest snap"
  shows "gone old s \<Longrightarrow> gone old s'"
    and "tp_fire p \<Longrightarrow> \<not> same_sched s s' \<Longrightarrow> matches snap s \<and> gone snap s'"
proof -
  show "gone old s'" if "gone old s"
    using assms(1)
  proof (cases rule: ApplySchedule_cases)
    case (undone e)
    with that show ?thesis by (simp add: gone_def passed_same same_schedD)
  next
    case (committed t now)
    with that assms(2) show ?thesis
      by (auto simp: gone_def applied_sched intro: applied_keeps_passed)
  qed
  show "matches snap s \<and> gone snap s'" if "tp_fire p" "\<not> same_sched s s'"
    using assms(1)
  proof (cases rule: ApplySchedule_cases)
    case (committed t now)
    then show ?thesis
      using that applied_passes [of snap s p t now] by (auto simp: gone_def matches_def applied_sched)
  qed (use that in simp)
qed

lemma gone_failed: "ScheduleFailed snap w n s = (r, n', s') \<Longrightarrow> gone old s \<Longrightarrow> gone old s'"
  by (erule ScheduleFailed_cases) (auto simp: gone_def passed_same same_schedD delay_keeps_passed)

lemma gone_edit: "edits s s' \<Longrightarrow> gone old s \<Longrightarrow> gone old s'"
  using edits_keep_passed [of s s' old] by (auto simp: gone_def edits_def)

lemma gone_more:
  fixes s s' :: sched_db
  assumes "queue_db.more s' = queue_db.more s"
  shows "gone old s' = gone old s"
  using more_sched [OF assms] by (simp add: gone_def passed_def cong: option.case_cong)

lemma history_gone:
  "sched_history cfg digest s0 log s \<Longrightarrow> (\<forall>snap \<in> set log. gone snap s) \<and> distinct (map occurrence log)"
proof (induction rule: sched_history.induct)
  case (plan log s snap p w n r n' s')
  note keep = gone_apply [OF plan.hyps(3,2)]
  show ?case
  proof (cases "tp_fire p \<and> \<not> same_sched s s'")
    case True
    then have new: "matches snap s" "gone snap s'" using keep(2) by auto
    have "occurrence old \<noteq> occurrence snap" if "old \<in> set log" for old
      using that plan.IH new(1) passed_no_match passed_occurrence by (metis gone_def)
    then have "occurrence snap \<notin> occurrence ` set log" by (metis imageE)
    with True new(2) plan.IH keep(1) show ?thesis by auto
  next
    case False
    with plan.IH keep(1) show ?thesis by auto
  qed
next
  case (queue log s s')
  then show ?case using any_call_frame gone_more by metis
qed (auto intro: gone_failed gone_edit gone_switch)

text \<open>The queue's tables stay well-formed in every history.\<close>

lemma good_sched [simp]:
  "good s0 (s\<lparr>triggerevent := a\<rparr>) = good s0 s" "good s0 (s\<lparr>gorgeschedule := b\<rparr>) = good s0 s"
  "good s0 (s\<lparr>triggerevent_auto := c\<rparr>) = good s0 s"
  by (simp_all add: good_def tables_ok_def table_defs evolves_def auto_up_def)

lemma sched_rollback_rollback: "sched_rollback s0 s = rollback s0 s\<lparr>triggerevent_auto := triggerevent_auto s\<rparr>"
  by (simp add: sched_rollback_def rollback_def)

lemma hoare_sched_tx_good:
  assumes "tables_ok s0" and "\<And>s. tables_ok s \<Longrightarrow> hoare (good s) body (\<lambda>_. good s) (\<lambda>_. auto_up s)"
  shows "hoare (good s0) (sched_tx body) (\<lambda>_. good s0) (\<lambda>_. good s0)"
proof (rule hoare_transaction [where R = auto_up and G = "\<lambda>s _. good s"])
  fix s
  assume "good s0 s"
  then have "tables_ok s" by (rule good_ok)
  then show "hoare (\<lambda>s'. s' = s) body (\<lambda>_. good s) (\<lambda>_. auto_up s)"
    by (intro hoare_pre [OF assms(2)]) (auto intro: good_refl)
next
  have restored: "good s0 (sched_rollback s s')" if "good s0 s" "auto_up s s'" for s s'
    using good_trans [OF assms(1) that(1) good_rollback [OF good_ok [OF that(1)] that(2)]]
    by (simp add: sched_rollback_rollback)
  show "good s0 s' \<and> good s0 s' \<and> good s0 (sched_rollback s s')" if "good s0 s" "good s s'" for s s' and a :: 'a
    using good_trans [OF assms(1) that] restored [OF that(1) good_auto_up [OF that(2)]] by simp
  show "good s0 (sched_rollback s s')" if "good s0 s" "auto_up s s'" for s s' and e :: queue_error
    by (rule restored [OF that])
qed

lemma ApplySchedule_good:
  assumes "tables_ok s0"
  shows "hoare (good s0) (ApplySchedule snap p) (\<lambda>_. good s0) (\<lambda>_. good s0)"
proof (cases "validatePlan snap p")
  case (Inr u)
  have "hoare (good s) (bindP (lockSchedule snap) (\<lambda>_.
             bindP (if tp_fire p then bindP (enqueueInTx (the (tp_task p))) (\<lambda>_. ret (sn_Next snap))
                    else ret (sn_Last snap)) (\<lambda>lst.
             bindP (stmt (DbError ''upsert event'') (upsert_event (sn_ID snap) lst (tp_next p))) (\<lambda>_.
             bindP time_now (\<lambda>now.
             stmt (DbError ''upsert schedule'') (upsert_schedule (sn_ID snap) (sn_Version snap) now))))))
       (\<lambda>_. good s) (\<lambda>_. auto_up s)" if "tables_ok s" for s
  proof (rule hoare_bind [where R = "\<lambda>_. good s"])
    show "hoare (good s) (lockSchedule snap) (\<lambda>_. good s) (\<lambda>_. auto_up s)"
      by (rule hoareI) (auto dest: lockSchedule_ok lockSchedule_err good_auto_up)
    show "hoare (good s) (bindP (if tp_fire p then bindP (enqueueInTx (the (tp_task p))) (\<lambda>_. ret (sn_Next snap))
                    else ret (sn_Last snap)) (\<lambda>lst.
             bindP (stmt (DbError ''upsert event'') (upsert_event (sn_ID snap) lst (tp_next p))) (\<lambda>_.
             bindP time_now (\<lambda>now.
             stmt (DbError ''upsert schedule'') (upsert_schedule (sn_ID snap) (sn_Version snap) now)))))
       (\<lambda>_. good s) (\<lambda>_. auto_up s)"
      by (rule hoare_pre, (rule wp hoare_bind_wp hoare_enqueueInTx [OF that])+)
         (auto simp: upsert_event_def upsert_schedule_def good_auto_up)
  qed
  from hoare_sched_tx_good [OF assms this] Inr show ?thesis by (simp add: ApplySchedule_def)
qed (simp add: ApplySchedule_def hoare_def)

lemma ScheduleFailed_good:
  assumes "tables_ok s0"
  shows "hoare (good s0) (ScheduleFailed snap) (\<lambda>_. good s0) (\<lambda>_. good s0)"
proof -
  have lock: "hoare (good s) (lockSchedule snap) (\<lambda>_. good s) (\<lambda>_. auto_up s)" for s
    by (rule hoareI) (auto dest: lockSchedule_ok lockSchedule_err good_auto_up)
  have "hoare (good s) (bindP (lockSchedule snap) (\<lambda>_. bindP time_now (\<lambda>now.
      stmt (DbError ''delay schedule'') (delay_schedule (sn_ID snap) (sn_ScheduledVersion snap) now))))
      (\<lambda>_. good s) (\<lambda>_. auto_up s)" for s
    by (rule hoare_bind [OF lock], rule hoare_pre, (rule wp hoare_bind_wp)+)
       (auto simp: delay_schedule_def good_auto_up)
  from hoare_sched_tx_good [OF assms this] show ?thesis
    unfolding ScheduleFailed_def by (rule preserves_tryP) (intro preserves_rules)
qed

lemma history_ok: "sched_history cfg digest s0 log s \<Longrightarrow> sched_ok s0 \<Longrightarrow> sched_ok s"
proof (induction rule: sched_history.induct)
  case (plan log s snap p w n r n' s')
  then have ok: "tables_ok s" "triggers_ok s" by (auto simp: sched_ok_def)
  have "tables_ok s'"
    using hoareD_inv [OF ApplySchedule_good [OF ok(1), of snap p] good_refl [OF ok(1)], of w n] plan.hyps(3)
    by (simp add: good_def)
  moreover have "trigger s' = trigger s"
    using plan.hyps(3) by (cases rule: ApplySchedule_cases) (auto simp: same_schedD applied_sched)
  ultimately show ?case using ok by (simp add: sched_ok_def triggers_ok_def)
next
  case (delay log s snap w n r n' s')
  then have ok: "tables_ok s" "triggers_ok s" by (auto simp: sched_ok_def)
  have "tables_ok s'"
    using hoareD_inv [OF ScheduleFailed_good [OF ok(1), of snap] good_refl [OF ok(1)], of w n] delay.hyps(2)
    by (simp add: good_def)
  moreover have "trigger s' = trigger s"
    using delay.hyps(2) by (cases rule: ScheduleFailed_cases) (auto simp: same_schedD)
  ultimately show ?case using ok by (simp add: sched_ok_def triggers_ok_def)
next
  case (queue log s s')
  then show ?case
    using any_call_good [of s cfg digest s'] more_sched(2) [OF any_call_frame [OF queue.hyps(2)]]
    by (auto simp: sched_ok_def triggers_ok_def good_def)
next
  case (edit log s s')
  moreover have "tables_ok (s\<lparr>trigger := ts\<rparr>) = tables_ok s" for ts by (simp add: tables_ok_def table_defs)
  ultimately show ?case by (auto simp: sched_ok_def edits_def)
qed (auto simp: switches_def)

section \<open>A cycle is a history\<close>

lemma candidates_honest:
  assumes "triggers_ok s" "snap \<in> set (select_candidates lim now s)"
  shows "honest snap"
proof -
  from assms(2) obtain c i v where "(i, v) \<in> set (trigger s)" "candidate now s (i, v)" "snap = snapshot_of now c s (i, v)"
    by (auto simp: select_candidates_def split: option.splits if_splits dest!: in_set_takeD)
  moreover from this assms(1) have "1 \<le> v" by (auto simp: triggers_ok_def)
  ultimately show ?thesis
    by (auto simp: honest_def due_def candidate_def snapshot_of_def split: option.splits)
qed

lemma plan_outcome_cases:
  obtains (kept) e n' where "plan_outcome plan snap w n s = (Inr (Some e), n', s)"
  | (ran) p r n' s' where "plan snap = Inr p" "ApplySchedule snap p w n s = (r, n', s')"
      "plan_outcome plan snap w n s = (Inr (case r of Inl e \<Rightarrow> Some e | Inr _ \<Rightarrow> None), n', s')"
proof (cases "\<exists>p. plan snap = Inr p \<and> validatePlan snap p = Inr ()")
  case True
  then obtain p where p: "plan snap = Inr p" "validatePlan snap p = Inr ()" by blast
  obtain r n' s' where run: "ApplySchedule snap p w n s = (r, n', s')" by (cases "ApplySchedule snap p w n s")
  from p run have "plan_outcome plan snap w n s = (Inr (case r of Inl e \<Rightarrow> Some e | Inr _ \<Rightarrow> None), n', s')"
    by (simp add: plan_outcome_def tryP_def bindP_def split: sum.splits)
  with p(1) run ran show thesis by blast
next
  case False
  then have "\<exists>e. plan_outcome plan snap w n s = (Inr (Some e), n, s)"
    by (auto simp: plan_outcome_def tryP_def bindP_def split: sum.splits)
  with kept show thesis by blast
qed

lemma record_failure_cases:
  assumes "record_failure snap err w n s = (r, n', s')"
  obtains (kept) "s' = s" | (delayed) r1 n1 where "ScheduleFailed snap w n s = (r1, n1, s')"
  using assms
  by (cases "ScheduleFailed snap w n s")
     (auto simp: record_failure_def bindP_def tryP_def split: option.splits if_splits sum.splits)

lemma evaluate_history:
  assumes "sched_history cfg digest s0 log s" "honest snap" "evaluate plan snap w n s = (r, n', s')"
  shows "\<exists>log'. sched_history cfg digest s0 (log' @ log) s'"
proof -
  have "\<exists>x n1 s1 log1. plan_outcome plan snap w n s = (Inr x, n1, s1) \<and> sched_history cfg digest s0 (log1 @ log) s1"
  proof (cases rule: plan_outcome_cases [of plan snap w n s])
    case (kept e n1)
    with assms(1) show ?thesis by (metis append_Nil)
  next
    case (ran p r1 n1 s1)
    from sched_history.plan [OF assms(1,2) ran(2)]
    have "sched_history cfg digest s0 ((if tp_fire p \<and> \<not> same_sched s s1 then [snap] else []) @ log) s1"
      by (auto split: if_splits)
    with ran(3) show ?thesis by blast
  qed
  then obtain x n1 s1 log1 where "plan_outcome plan snap w n s = (Inr x, n1, s1)"
    and hist: "sched_history cfg digest s0 (log1 @ log) s1" by blast
  then have "record_failure snap x w n1 s1 = (r, n', s')"
    using assms(3) unfolding evaluate_def by (simp add: run_bind_Inr)
  then show ?thesis
    by (cases rule: record_failure_cases) (use hist sched_history.delay [OF hist] in blast)+
qed

lemma tick_loop_history:
  "sched_history cfg digest s0 log s \<Longrightarrow> \<forall>snap \<in> set snaps. honest snap \<Longrightarrow>
   tick_loop plan done k snaps failures w n s = (r, n', s') \<Longrightarrow> \<exists>log'. sched_history cfg digest s0 (log' @ log) s'"
proof (induction snaps arbitrary: k failures n s log)
  case Nil
  then show ?case by (auto intro: exI [of _ "[]"])
next
  case (Cons snap snaps)
  show ?case
  proof (cases "done (2 * k) \<or> done (2 * k + 1)")
    case True
    with Cons.prems show ?thesis by (auto intro: exI [of _ "[]"] split: if_splits)
  next
    case False
    with Cons.prems(3) have "bindP (evaluate (plan k) snap) (\<lambda>fs. tick_loop plan done (Suc k) snaps (failures @ fs)) w n s = (r, n', s')"
      by simp
    then show ?thesis
    proof (cases rule: bindP_cases)
      case (err e)
      with Cons.prems(2) show ?thesis using evaluate_history [OF Cons.prems(1)] by auto
    next
      case (ok a n1 s1)
      then obtain log1 where "sched_history cfg digest s0 (log1 @ log) s1"
        using evaluate_history [OF Cons.prems(1) _ ok(1)] Cons.prems(2) by auto
      from Cons.IH [OF this _ ok(2)] Cons.prems(2) show ?thesis by (metis append_assoc list.set_intros(2))
    qed
  qed
qed

lemma Tick_history_step:
  assumes "sched_history cfg digest s0 log s" "sched_ok s" "Tick plan done w n s = (r, n', s')"
  shows "\<exists>log'. sched_history cfg digest s0 (log' @ log) s'"
proof -
  from assms(3) show ?thesis
    unfolding Tick_def
  proof (cases rule: bindP_cases)
    case (err e)
    then have "s' = s" by (auto simp: ScheduleCandidates_def bindP_def query_def stmt_def split: fault.splits)
    with assms(1) show ?thesis by (metis append_Nil)
  next
    case (ok a n1 s1)
    then have "s1 = s" "a = select_candidates 100 (w_clock w n) s"
      by (auto simp: ScheduleCandidates_def bindP_def query_def stmt_def split: fault.splits)
    with ok(2) show ?thesis
      using tick_loop_history [OF assms(1)] candidates_honest assms(2) by (metis sched_ok_def)
  qed
qed

section \<open>A cycle without faults\<close>

text \<open>The plan a candidate ends up with, or the reason it has none.\<close>

definition planned :: "(ScheduleSnapshot \<Rightarrow> queue_error + TriggerPlan) \<Rightarrow> ScheduleSnapshot \<Rightarrow> queue_error + TriggerPlan" where
  "planned plan snap =
     (case plan snap of
        Inl e \<Rightarrow> Inl e
      | Inr p \<Rightarrow> (case validatePlan snap p of Inl e \<Rightarrow> Inl e | Inr _ \<Rightarrow> Inr p))"

lemma ApplySchedule_fine:
  assumes "fine w" "matches snap s" "tables_ok s" "validatePlan snap p = Inr ()"
  shows "\<exists>t now n'. ApplySchedule snap p w n s = (Inr (), n', applied snap p t now s)"
proof -
  have "ApplySchedule snap p w n s = (Inr (), fst (snd (ApplySchedule snap p w n s)),
      applied snap p (w_clock w (n + 5)) (w_clock w (if tp_fire p then n + 10 else n + 6)) s)"
    using assms
    by (simp add: ApplySchedule_def transaction_fine bindP_def lockSchedule_fine enqueueInTx_fine stmt_def
        applied_def upsert_event_def upsert_schedule_def Let_def eval_nat_numeral)
  then show ?thesis by blast
qed

lemma ScheduleFailed_fine:
  assumes "fine w" "matches snap s"
  shows "ScheduleFailed snap w n s =
     (Inr (), n + 8, snd (delay_schedule (sn_ID snap) (sn_ScheduledVersion snap) (w_clock w (n + 5)) s))"
  using assms
  by (simp add: ScheduleFailed_def tryP_def transaction_fine bindP_def lockSchedule_fine stmt_def delay_schedule_def
      eval_nat_numeral)

lemma validatePlan_error: "validatePlan snap p = Inl e \<Longrightarrow> e = ErrInvalidPlan"
  by (auto simp: validatePlan_def split: if_splits option.splits)

lemma evaluate_fine:
  assumes "fine w" "matches snap s" "tables_ok s"
  shows "planned plan snap = Inr p \<Longrightarrow> \<exists>t now n'. evaluate plan snap w n s = (Inr [], n', applied snap p t now s)"
    and "planned plan snap = Inl e \<Longrightarrow> e \<noteq> ErrScheduleConflict \<Longrightarrow>
      \<exists>now n'. evaluate plan snap w n s =
        (Inr [e], n', snd (delay_schedule (sn_ID snap) (sn_ScheduledVersion snap) now s))"
proof -
  assume "planned plan snap = Inr p"
  then have p: "plan snap = Inr p" "validatePlan snap p = Inr ()"
    by (auto simp: planned_def split: sum.splits)
  obtain t now n' where "ApplySchedule snap p w n s = (Inr (), n', applied snap p t now s)"
    using ApplySchedule_fine [OF assms p(2)] by blast
  with p have "plan_outcome plan snap w n s = (Inr None, n', applied snap p t now s)"
    by (simp add: plan_outcome_def bindP_def tryP_def)
  then show "\<exists>t now n'. evaluate plan snap w n s = (Inr [], n', applied snap p t now s)"
    by (auto simp: evaluate_def record_failure_def run_bind_Inr)
next
  assume e: "planned plan snap = Inl e" "e \<noteq> ErrScheduleConflict"
  then have "plan_outcome plan snap w n s = (Inr (Some e), n, s)"
    by (auto simp: planned_def plan_outcome_def tryP_def bindP_def split: sum.splits)
  then have "evaluate plan snap w n s = record_failure snap (Some e) w n s"
    unfolding evaluate_def by (rule run_bind_Inr)
  with e(2) show "\<exists>now n'. evaluate plan snap w n s =
      (Inr [e], n', snd (delay_schedule (sn_ID snap) (sn_ScheduledVersion snap) now s))"
    by (auto simp: record_failure_def bindP_def tryP_def ScheduleFailed_fine [OF assms(1,2)])
qed

lemma matches_other:
  assumes "matches snap s" "schedulercontrol s' = schedulercontrol s" "trigger s' = trigger s"
    "triggerevent s' (sn_ID snap) = triggerevent s (sn_ID snap)" "gorgeschedule s' (sn_ID snap) = gorgeschedule s (sn_ID snap)"
  shows "matches snap s'"
  using assms by (simp add: matches_def)

text \<open>How a candidate is left: with its new clock, or with its old one and a retry time.\<close>

definition settled :: "(ScheduleSnapshot \<Rightarrow> queue_error + TriggerPlan) \<Rightarrow> ScheduleSnapshot \<Rightarrow> sched_db \<Rightarrow> bool" where
  "settled plan snap s \<longleftrightarrow>
     (case planned plan snap of
        Inr p \<Rightarrow>
          (\<exists>now. gorgeschedule s (sn_ID snap) =
             Some \<lparr>g_scheduledVersion = sn_Version snap, g_retryAfter = Some 0, g_lastEvaluated = now\<rparr>) \<and>
          Option.bind (triggerevent s (sn_ID snap)) e_next = tp_next p \<and>
          Option.bind (triggerevent s (sn_ID snap)) e_last = (if tp_fire p then sn_Next snap else sn_Last snap)
      | Inl e \<Rightarrow>
          (\<exists>g now. gorgeschedule s (sn_ID snap) = Some g \<and> g_retryAfter g = Some (now + 30) \<and>
             g_scheduledVersion g = sn_ScheduledVersion snap) \<and>
          Option.bind (triggerevent s (sn_ID snap)) e_next = sn_Next snap \<and>
          Option.bind (triggerevent s (sn_ID snap)) e_last = sn_Last snap)"

definition fires :: "(ScheduleSnapshot \<Rightarrow> queue_error + TriggerPlan) \<Rightarrow> ScheduleSnapshot \<Rightarrow> bool" where
  "fires plan snap = (case planned plan snap of Inl _ \<Rightarrow> False | Inr p \<Rightarrow> tp_fire p)"

lemma settled_other:
  "triggerevent s' (sn_ID snap) = triggerevent s (sn_ID snap) \<Longrightarrow> gorgeschedule s' (sn_ID snap) = gorgeschedule s (sn_ID snap) \<Longrightarrow>
   settled plan snap s \<Longrightarrow> settled plan snap s'"
  by (auto simp: settled_def split: sum.splits)

text \<open>One round: it settles its own candidate, and touches no other.\<close>

lemma evaluate_settles:
  assumes "fine w" "matches snap s" "tables_ok s" "planned plan snap \<noteq> Inl ErrScheduleConflict"
  obtains n' s' where "evaluate plan snap w n s = (Inr (case planned plan snap of Inl e \<Rightarrow> [e] | Inr _ \<Rightarrow> []), n', s')"
    "settled plan snap s'" "tables_ok s'" "schedulercontrol s' = schedulercontrol s" "trigger s' = trigger s"
    "\<And>i. i \<noteq> sn_ID snap \<Longrightarrow> triggerevent s' i = triggerevent s i \<and> gorgeschedule s' i = gorgeschedule s i"
    "length (activetask s') = length (activetask s) + (if fires plan snap then 1 else 0)"
proof (cases "planned plan snap")
  case (Inl e)
  then obtain now n' where ev: "evaluate plan snap w n s =
      (Inr [e], n', snd (delay_schedule (sn_ID snap) (sn_ScheduledVersion snap) now s))"
    using evaluate_fine(2) [OF assms(1-3), of plan e n] assms(4) by auto
  have "settled plan snap (snd (delay_schedule (sn_ID snap) (sn_ScheduledVersion snap) now s))"
    using assms(2) Inl by (auto simp: settled_def matches_def delay_schedule_def split: option.splits)
  moreover have "tables_ok (snd (delay_schedule (sn_ID snap) (sn_ScheduledVersion snap) now s))"
    using assms(3) by (simp add: delay_schedule_def tables_ok_def table_defs)
  moreover have "activetask (snd (delay_schedule (sn_ID snap) (sn_ScheduledVersion snap) now s)) = activetask s"
    by (simp add: delay_schedule_def)
  ultimately show thesis using that [OF _ _ _] ev Inl by (simp add: fires_def)
next
  case (Inr p)
  then obtain t now n' where ev: "evaluate plan snap w n s = (Inr [], n', applied snap p t now s)"
    using evaluate_fine(1) [OF assms(1-3), of plan p n] by auto
  have "settled plan snap (applied snap p t now s)"
    using Inr by (simp add: settled_def applied_sched)
  moreover have "tables_ok (applied snap p t now s)"
    using good_ok [OF enqueue_effect_good [OF good_refl [OF assms(3)] assms(3)]] assms(3)
    by (simp add: applied_def upsert_event_def upsert_schedule_def Let_def tables_ok_def table_defs)
  moreover have "length (activetask (applied snap p t now s)) = length (activetask s) + (if tp_fire p then 1 else 0)"
    by (simp add: applied_def upsert_event_def upsert_schedule_def Let_def enqueue_effect_def)
  ultimately show thesis using that ev Inr by (simp add: applied_sched fires_def)
qed

abbreviation errors_of :: "(nat \<Rightarrow> ScheduleSnapshot \<Rightarrow> queue_error + TriggerPlan) \<Rightarrow> nat \<Rightarrow> ScheduleSnapshot list \<Rightarrow> queue_error list" where
  "errors_of plan k snaps \<equiv>
     concat (map (\<lambda>(j, snap). case planned (plan j) snap of Inl e \<Rightarrow> [e] | Inr _ \<Rightarrow> []) (zip [k..<k + length snaps] snaps))"

abbreviation fired_of :: "(nat \<Rightarrow> ScheduleSnapshot \<Rightarrow> queue_error + TriggerPlan) \<Rightarrow> nat \<Rightarrow> ScheduleSnapshot list \<Rightarrow> nat" where
  "fired_of plan k snaps \<equiv> length (filter (\<lambda>(j, snap). fires (plan j) snap) (zip [k..<k + length snaps] snaps))"

lemma tick_loop_settles:
  assumes "fine w"
  shows "tables_ok s \<Longrightarrow> \<forall>snap \<in> set snaps. matches snap s \<Longrightarrow> distinct (map sn_ID snaps) \<Longrightarrow>
    \<forall>j snap. planned (plan j) snap \<noteq> Inl ErrScheduleConflict \<Longrightarrow>
    \<exists>n' s'. tick_loop plan (\<lambda>_. False) k snaps failures w n s = (Inr (failures @ errors_of plan k snaps), n', s') \<and>
      (\<forall>j < length snaps. settled (plan (k + j)) (snaps ! j) s') \<and>
      (\<forall>i. i \<notin> sn_ID ` set snaps \<longrightarrow> triggerevent s' i = triggerevent s i \<and> gorgeschedule s' i = gorgeschedule s i) \<and>
      length (activetask s') = length (activetask s) + fired_of plan k snaps"
proof (induction snaps arbitrary: k failures n s)
  case Nil
  then show ?case by simp
next
  case (Cons snap snaps)
  from Cons.prems(2) have m: "matches snap s" by simp
  have p: "planned (plan k) snap \<noteq> Inl ErrScheduleConflict" using Cons.prems(4) by blast
  obtain n1 s1 where ev:
    "evaluate (plan k) snap w n s = (Inr (case planned (plan k) snap of Inl e \<Rightarrow> [e] | Inr _ \<Rightarrow> []), n1, s1)"
    and st: "settled (plan k) snap s1" and ok: "tables_ok s1"
    and ctl: "schedulercontrol s1 = schedulercontrol s" "trigger s1 = trigger s"
    and oth: "\<And>i. i \<noteq> sn_ID snap \<Longrightarrow> triggerevent s1 i = triggerevent s i \<and> gorgeschedule s1 i = gorgeschedule s i"
    and len: "length (activetask s1) = length (activetask s) + (if fires (plan k) snap then 1 else 0)"
    by (rule evaluate_settles [OF assms m Cons.prems(1) p, of n]) blast
  have "\<forall>x \<in> set snaps. matches x s1"
  proof
    fix x
    assume x: "x \<in> set snaps"
    then have "sn_ID x \<noteq> sn_ID snap" using Cons.prems(3) by (metis distinct.simps(2) image_eqI list.set_map list.simps(9))
    with x show "matches x s1" using Cons.prems(2) by (intro matches_other [OF _ ctl]) (simp_all add: oth)
  qed
  with Cons.IH [OF ok _ _ Cons.prems(4), of "Suc k" "failures @ (case planned (plan k) snap of Inl e \<Rightarrow> [e] | Inr _ \<Rightarrow> [])" n1]
    Cons.prems(3)
  obtain n' s' where rest: "tick_loop plan (\<lambda>_. False) (Suc k) snaps
      (failures @ (case planned (plan k) snap of Inl e \<Rightarrow> [e] | Inr _ \<Rightarrow> [])) w n1 s1 =
      (Inr ((failures @ (case planned (plan k) snap of Inl e \<Rightarrow> [e] | Inr _ \<Rightarrow> [])) @ errors_of plan (Suc k) snaps), n', s')"
    and sts: "\<forall>j < length snaps. settled (plan (Suc k + j)) (snaps ! j) s'"
    and oths: "\<forall>i. i \<notin> sn_ID ` set snaps \<longrightarrow> triggerevent s' i = triggerevent s1 i \<and> gorgeschedule s' i = gorgeschedule s1 i"
    and lens: "length (activetask s') = length (activetask s1) + fired_of plan (Suc k) snaps" by auto
  have "settled (plan k) snap s'"
    using settled_other [OF _ _ st] oths Cons.prems(3) by simp
  then have "\<forall>j < length (snap # snaps). settled (plan (k + j)) ((snap # snaps) ! j) s'"
    using sts by (auto simp: less_Suc_eq_0_disj)
  moreover have "[k..<k + length (snap # snaps)] = k # [Suc k..<Suc k + length snaps]"
    by (subst upt_conv_Cons) simp_all
  moreover have "tick_loop plan (\<lambda>_. False) k (snap # snaps) failures w n s =
     tick_loop plan (\<lambda>_. False) (Suc k) snaps (failures @ (case planned (plan k) snap of Inl e \<Rightarrow> [e] | Inr _ \<Rightarrow> [])) w n1 s1"
    by (simp add: run_bind_Inr [where m = "evaluate (plan k) snap", OF ev])
  ultimately show ?case
    using rest oth oths len lens by (intro exI [of _ n'] exI [of _ s']) auto
qed

lemma candidates_match:
  assumes "triggers_ok s" "schedulercontrol s = Some c" "length (c_databaseID c) = 36"
  shows "\<forall>snap \<in> set (select_candidates lim now s). matches snap s"
    and "distinct (map sn_ID (select_candidates lim now s))"
proof -
  have "map_of (trigger s) i = Some v" if "(i, v) \<in> set (trigger s)" for i v
    using assms(1) that by (simp add: triggers_ok_def)
  then show "\<forall>snap \<in> set (select_candidates lim now s). matches snap s"
    using assms(2,3) by (auto simp: select_candidates_def matches_def snapshot_of_def dest!: in_set_takeD)
  have ids: "map sn_ID (map (snapshot_of now c s) xs) = map fst xs" for xs
    by (simp add: snapshot_of_def split: prod.splits)
  have "distinct (map fst (sort_key k (filter P (trigger s))))" for k :: "int \<times> int \<Rightarrow> int \<times> int" and P
    using assms(1) by (auto simp: triggers_ok_def distinct_map intro: inj_on_subset)
  then show "distinct (map sn_ID (select_candidates lim now s))"
    using assms(2) by (auto simp: select_candidates_def ids take_map [symmetric] simp del: map_map)
qed

lemma ApplySchedule_conflict:
  assumes "fine w" "schedulercontrol s \<noteq> None" "\<not> matches snap s" "validatePlan snap p = Inr ()"
    "ApplySchedule snap p w n s = (r, n', s')"
  shows "r = Inl ErrScheduleConflict"
proof -
  obtain m where "lockSchedule snap w (Suc n) s = (Inl ErrScheduleConflict, m, s)"
    using lockSchedule_conflict [OF assms(1-3)] by blast
  with assms show ?thesis by (simp add: ApplySchedule_def transaction_fine bindP_def)
qed

end
