(* ===== verification/Scheduler_Properties.thy ===== *)
theory Scheduler_Properties
  imports Scheduler_Facts
begin

text \<open>
  The properties of the trigger scheduler and their instances on a small database with two
  triggers, one due and one that has never been scheduled.
\<close>

definition sample_control :: control_row where
  "sample_control = \<lparr>c_owner = ''gorge'', c_epoch = 1, c_databaseID = replicate 36 (CHR ''a'')\<rparr>"

definition sample_sched :: sched_db where
  "sample_sched = \<lparr>activetask = [], archivetask = [], taskdata = [], taskdata_auto = 1, lisk_counter = (\<lambda>_. None),
     gorgeinbox = (\<lambda>_. None), schedulercontrol = Some sample_control, trigger = [(1, 1), (2, 1)],
     triggerevent = [1 \<mapsto> \<lparr>e_id = 5, e_last = None, e_next = Some 100\<rparr>], triggerevent_auto = 6,
     gorgeschedule = [1 \<mapsto> \<lparr>g_scheduledVersion = 1, g_retryAfter = Some 0, g_lastEvaluated = 50\<rparr>],
     innodb_tables = 7\<rparr>"

definition sample_due :: ScheduleSnapshot where
  "sample_due = \<lparr>sn_ID = 1, sn_Version = 1, sn_OwnerEpoch = 1, sn_EventID = 5, sn_Last = None, sn_Next = Some 100,
     sn_ScheduledVersion = 1, sn_Now = 200, sn_DatabaseID = replicate 36 (CHR ''a'')\<rparr>"

definition sample_new :: ScheduleSnapshot where
  "sample_new = \<lparr>sn_ID = 2, sn_Version = 1, sn_OwnerEpoch = 1, sn_EventID = 0, sn_Last = None, sn_Next = None,
     sn_ScheduledVersion = 0, sn_Now = 200, sn_DatabaseID = replicate 36 (CHR ''a'')\<rparr>"

definition sample_task :: EnqueueRequest where
  "sample_task = \<lparr>er_taskClass = ''T'', er_data = ''{}'', er_priority = None, er_objectPHID = [],
     er_containerPHID = [], er_delayUntil = None\<rparr>"

definition sample_fire :: TriggerPlan where
  "sample_fire = \<lparr>tp_protocol = 1, tp_id = 1, tp_version = 1, tp_fire = True, tp_next = Some 300, tp_task = Some sample_task\<rparr>"

lemma sample_sched_ok: "sched_ok sample_sched"
  by (simp add: sched_ok_def tables_ok_def table_defs triggers_ok_def sample_sched_def)

lemma sample_due_matches: "matches sample_due sample_sched"
  by (simp add: matches_def sample_due_def sample_sched_def sample_control_def)

lemma sample_due_honest: "honest sample_due"
  by (simp add: honest_def due_def sample_due_def)

lemma sample_fire_valid: "validatePlan sample_due sample_fire = Inr ()"
  by (simp add: validatePlan_def sample_due_def sample_fire_def sample_task_def due_def json_valid_samples)

section \<open>No occurrence fires twice\<close>

text \<open>C15. Any number of schedulers may work on one database, each with its own snapshots, its own lost
  replies and failing statements, interleaved with calls of the queue, edits of the triggers and changes
  of the owner: in every such history the firings that took effect are of different occurrences, where
  an occurrence is a trigger, its version, the epoch of ownership and the time it was due.\<close>

theorem no_double_fire:
  assumes "sched_history cfg digest s0 log s"
  shows "distinct (map occurrence log)"
  using history_gone [OF assms] by blast

theorem no_double_fire_witness:
  "\<exists>log s. sched_history \<lparr>leaseDuration = 60, retryWait = 30\<rparr> er_data sample_sched log s \<and> log = [sample_due] \<and>
     distinct (map occurrence log)"
proof -
  obtain t now n' where run: "ApplySchedule sample_due sample_fire (calm 200) 0 sample_sched =
      (Inr (), n', applied sample_due sample_fire t now sample_sched)"
    using ApplySchedule_fine [OF fine_calm sample_due_matches _ sample_fire_valid] sample_sched_ok
    by (metis sched_ok_def)
  have "\<not> same_sched sample_sched (applied sample_due sample_fire t now sample_sched)"
    using same_schedD(5) by (force simp: applied_def sample_fire_def Let_def upsert_event_def upsert_schedule_def enqueue_effect_def)
  then have "sched_history \<lparr>leaseDuration = 60, retryWait = 30\<rparr> er_data sample_sched [sample_due]
      (applied sample_due sample_fire t now sample_sched)"
    using sched_history.plan [OF sched_history.start sample_due_honest run] by (simp add: sample_fire_def)
  with no_double_fire show ?thesis by blast
qed

section \<open>One application of a plan\<close>

text \<open>C16. Applying a plan is a compare-and-set in every world. Either no table changed and the caller
  has an error; or the database still was as the snapshot says, the plan was valid, and in one step the
  task of a firing was enqueued, the event's clock moved and the trigger counts as scheduled, while
  the caller has success or, when the reply to the commit was lost, a transaction error. No other
  trigger is touched. Without faults a stale snapshot is answered with a conflict.\<close>

theorem ApplySchedule_compare_and_set:
  assumes "ApplySchedule snap p w n s = (r, n', s')"
  shows "(same_sched s s' \<and> (\<exists>e. r = Inl e) \<or>
      matches snap s \<and> validatePlan snap p = Inr () \<and> (r = Inr () \<or> r = Inl (DbError ''tx'')) \<and>
      (\<exists>t. activetask s' = activetask s @ (if tp_fire p then [enqueue_row (the (tp_task p)) t s] else [])) \<and>
      taskdata s' = taskdata s @ (if tp_fire p then [(taskdata_auto s, er_data (the (tp_task p)))] else []) \<and>
      archivetask s' = archivetask s \<and>
      Option.bind (triggerevent s' (sn_ID snap)) e_next = tp_next p \<and>
      Option.bind (triggerevent s' (sn_ID snap)) e_last = (if tp_fire p then sn_Next snap else sn_Last snap) \<and>
      map_option g_scheduledVersion (gorgeschedule s' (sn_ID snap)) = Some (sn_Version snap) \<and>
      (\<forall>i. i \<noteq> sn_ID snap \<longrightarrow> triggerevent s' i = triggerevent s i \<and> gorgeschedule s' i = gorgeschedule s i)) \<and>
     (fine w \<longrightarrow> schedulercontrol s \<noteq> None \<longrightarrow> \<not> matches snap s \<longrightarrow> validatePlan snap p = Inr () \<longrightarrow>
      r = Inl ErrScheduleConflict)"
  using assms
proof (cases rule: ApplySchedule_cases)
  case (undone e)
  have "r = Inl ErrScheduleConflict"
    if "fine w" "schedulercontrol s \<noteq> None" "\<not> matches snap s" "validatePlan snap p = Inr ()"
    by (rule ApplySchedule_conflict [OF that assms])
  with undone show ?thesis by blast
next
  case (committed t now)
  have "\<exists>t. activetask s' = activetask s @ (if tp_fire p then [enqueue_row (the (tp_task p)) t s] else [])"
    "taskdata s' = taskdata s @ (if tp_fire p then [(taskdata_auto s, er_data (the (tp_task p)))] else [])"
    "archivetask s' = archivetask s"
    using committed(3) by (auto simp: applied_def upsert_event_def upsert_schedule_def Let_def enqueue_effect_def)
  with committed show ?thesis by (simp add: applied_sched)
qed

theorem ApplySchedule_compare_and_set_witness:
  "result (ApplySchedule (sample_due\<lparr>sn_Next := Some 90\<rparr>) (sample_fire\<lparr>tp_next := None\<rparr>) (calm 200) 0 sample_sched) =
     Inl ErrScheduleConflict"
proof -
  let ?snap = "sample_due\<lparr>sn_Next := Some 90\<rparr>" and ?p = "sample_fire\<lparr>tp_next := None\<rparr>"
  have "\<not> matches ?snap sample_sched" "schedulercontrol sample_sched \<noteq> None"
    by (simp_all add: matches_def sample_due_def sample_sched_def)
  moreover have "validatePlan ?snap ?p = Inr ()"
    by (simp add: validatePlan_def sample_due_def sample_fire_def sample_task_def due_def json_valid_samples)
  moreover obtain r n' s' where run: "ApplySchedule ?snap ?p (calm 200) 0 sample_sched = (r, n', s')"
    by (cases "ApplySchedule ?snap ?p (calm 200) 0 sample_sched")
  ultimately show ?thesis using ApplySchedule_compare_and_set [OF run] fine_calm by simp
qed

section \<open>Cycles\<close>

text \<open>C18. A cycle of one scheduler, in any world, with any planner and cancelled at any point, is a history:
  whatever other schedulers did before, what a cycle does on top is a sequence of plan applications
  and recorded failures of snapshots that were due or unscheduled, so the facts about histories hold of it.\<close>

theorem Tick_refines_history:
  assumes "sched_history cfg digest s0 log s" "sched_ok s0" "Tick plan done w n s = (r, n', s')"
  shows "\<exists>log'. sched_history cfg digest s0 (log' @ log) s' \<and> sched_ok s'"
  using Tick_history_step [OF assms(1) history_ok [OF assms(1,2)] assms(3)] history_ok assms(2) by blast

theorem Tick_refines_history_witness:
  "\<exists>log' s'. sched_history \<lparr>leaseDuration = 60, retryWait = 30\<rparr> er_data sample_sched log' s' \<and>
     s' = final (Tick (\<lambda>_ _. Inl (DbError ''plan'')) (\<lambda>_. False) (calm 200) 0 sample_sched) \<and> sched_ok s'"
proof -
  obtain r n' s' where "Tick (\<lambda>_ _. Inl (DbError ''plan'')) (\<lambda>_. False) (calm 200) 0 sample_sched = (r, n', s')"
    by (cases "Tick (\<lambda>_ _. Inl (DbError ''plan'')) (\<lambda>_. False) (calm 200) 0 sample_sched")
  from Tick_refines_history [OF sched_history.start sample_sched_ok this] this show ?thesis by auto
qed

text \<open>C17. In a cycle without faults or cancellation every candidate is settled, whatever happens to the
  others: one with a valid plan has its new clock and, if it fired, exactly one more task is in the
  queue; one whose plan failed or was invalid keeps its clock and gets a retry time, and its error
  is reported. The reported errors are exactly those, in the order of the candidates, and triggers
  that were not candidates are untouched.\<close>

theorem Tick_settles:
  assumes "fine w" "sched_ok s" "schedulercontrol s = Some c" "length (c_databaseID c) = 36"
    "\<forall>j snap. planned (plan j) snap \<noteq> Inl ErrScheduleConflict"
  shows "\<exists>n' s'. Tick plan (\<lambda>_. False) w n s =
        (Inr (errors_of plan 0 (select_candidates 100 (w_clock w n) s)), n', s') \<and>
      (\<forall>j < length (select_candidates 100 (w_clock w n) s).
         settled (plan j) (select_candidates 100 (w_clock w n) s ! j) s') \<and>
      (\<forall>i. i \<notin> sn_ID ` set (select_candidates 100 (w_clock w n) s) \<longrightarrow>
         triggerevent s' i = triggerevent s i \<and> gorgeschedule s' i = gorgeschedule s i) \<and>
      length (activetask s') = length (activetask s) + fired_of plan 0 (select_candidates 100 (w_clock w n) s)"
proof -
  let ?snaps = "select_candidates 100 (w_clock w n) s"
  have ok: "triggers_ok s" "tables_ok s" using assms(2) by (auto simp: sched_ok_def)
  have "ScheduleCandidates 100 w n s = (Inr ?snaps, n + 2, s)"
    using assms(1) by (simp add: ScheduleCandidates_def bindP_def query_def stmt_def)
  then have "Tick plan (\<lambda>_. False) w n s = tick_loop plan (\<lambda>_. False) 0 ?snaps [] w (n + 2) s"
    unfolding Tick_def by (rule run_bind_Inr)
  with tick_loop_settles [OF assms(1) ok(2) candidates_match [OF ok(1) assms(3,4), of 100 "w_clock w n"] assms(5), where k = 0 and failures = "[]" and n = "n + 2"]
  show ?thesis by (simp only: append_Nil add_0)
qed

lemma sample_candidates: "select_candidates 100 200 sample_sched = [sample_new, sample_due]"
  by (simp add: select_candidates_def sample_sched_def sample_control_def candidate_def evaluated_def
      snapshot_of_def sample_new_def sample_due_def)

text \<open>Of the two candidates the first one's plan fails; the second still fires.\<close>

theorem Tick_settles_witness:
  "\<exists>n' s'. Tick (\<lambda>j _. if j = 0 then Inl (DbError ''plan'') else Inr sample_fire) (\<lambda>_. False) (calm 200) 0 sample_sched =
      (Inr [DbError ''plan''], n', s') \<and> length (activetask s') = 1"
proof -
  let ?plan = "\<lambda>j _. if j = 0 then Inl (DbError ''plan'') else Inr sample_fire"
  have "\<forall>j snap. planned (?plan (j :: nat)) snap \<noteq> Inl ErrScheduleConflict"
    by (auto simp: planned_def split: sum.splits dest: validatePlan_error)
  from Tick_settles [OF fine_calm [of 200] sample_sched_ok _ _ this, of sample_control 0]
  show ?thesis
    by (auto simp: sample_candidates planned_def fires_def sample_fire_valid upt_conv_Cons)
       (auto simp: sample_sched_def sample_control_def sample_fire_def)
qed

text \<open>A recorded failure delays a trigger by thirty seconds: no scheduler sees it as a candidate before
  that time, and from then on it is one again as long as it was one before and nobody changed it.\<close>

theorem ScheduleFailed_backs_off:
  assumes "fine w" "matches snap s" "ScheduleFailed snap w n s = (r, n', s')"
  shows "r = Inr () \<and>
     (\<forall>now v. candidate now s' (sn_ID snap, v) \<longrightarrow> w_clock w (n + 5) + 30 \<le> now) \<and>
     (\<forall>now t' v. candidate t' s (sn_ID snap, v) \<and> v \<noteq> 0 \<and> t' \<le> now \<and> w_clock w (n + 5) + 30 \<le> now \<longrightarrow> candidate now s' (sn_ID snap, v)) \<and>
     (\<forall>now i v. i \<noteq> sn_ID snap \<longrightarrow> candidate now s' (i, v) = candidate now s (i, v))"
proof -
  let ?t = "w_clock w (n + 5)"
  have s': "r = Inr ()" "s' = snd (delay_schedule (sn_ID snap) (sn_ScheduledVersion snap) ?t s)"
    using assms(3) ScheduleFailed_fine [OF assms(1,2)] by simp_all
  have "candidate now s' (sn_ID snap, v) \<Longrightarrow> ?t + 30 \<le> now" for now v
    using s'(2) by (auto simp: candidate_def delay_schedule_def split: option.splits)
  moreover have "candidate t' s (sn_ID snap, v) \<Longrightarrow> v \<noteq> 0 \<Longrightarrow> t' \<le> now \<Longrightarrow> ?t + 30 \<le> now \<Longrightarrow> candidate now s' (sn_ID snap, v)"
    for now t' v
    using s'(2) assms(2) by (auto simp: candidate_def delay_schedule_def matches_def split: option.splits)
  moreover have "i \<noteq> sn_ID snap \<Longrightarrow> candidate now s' (i, v) = candidate now s (i, v)" for now i v
    using s'(2) by (simp add: candidate_def cong: option.case_cong)
  ultimately show ?thesis using s'(1) by blast
qed

theorem ScheduleFailed_backs_off_witness:
  "\<not> candidate 229 (final (ScheduleFailed sample_due (calm 200) 0 sample_sched)) (1, 1) \<and>
   candidate 230 (final (ScheduleFailed sample_due (calm 200) 0 sample_sched)) (1, 1)"
proof -
  obtain r n' s' where run: "ScheduleFailed sample_due (calm 200) 0 sample_sched = (r, n', s')"
    by (cases "ScheduleFailed sample_due (calm 200) 0 sample_sched")
  note off = ScheduleFailed_backs_off [OF fine_calm sample_due_matches run]
  have "sn_ID sample_due = 1" "candidate 200 sample_sched (1, 1)"
    by (simp_all add: sample_due_def candidate_def sample_sched_def)
  then have "candidate 230 s' (1, 1)"
    using off [THEN conjunct2, THEN conjunct2, THEN conjunct1, rule_format, of 200 1 230] by simp
  moreover have "\<not> candidate 229 s' (1, 1)"
    using off [THEN conjunct2, THEN conjunct1, rule_format, of 229 1] \<open>sn_ID sample_due = 1\<close> by auto
  ultimately have "\<not> candidate 229 s' (1, 1)" "candidate 230 s' (1, 1)" by blast+
  with run show ?thesis by simp
qed

end
