(* ===== verification/Queue_Http.thy ===== *)
theory Queue_Http
  imports Store_Interface
begin

text \<open>
  The routes of the task queue: \<open>src/go/internal/taskqueue/http.go\<close>, \<open>execution.go\<close> and \<open>inbox.go\<close>, with
  the parts of the platform they run under, \<open>platform/auth/token.go\<close>, \<open>platform/httpx/envelope.go\<close> and
  \<open>errors.go\<close>. A store is a record of its operations, so that one set of handlers serves both
  backends. Decoding a body is not modelled: a body is its decoded structure, or \<open>None\<close> where binding
  fails. The messages that come from the decoder are empty. The page under \<open>GET /operations\<close> is not modelled.
\<close>

section \<open>Stores as the routes see them\<close>

record 's exec_ops =
  ex_Finalize :: "FinalizeRequest \<Rightarrow> ('s, queue_error, unit) prog"
  ex_Renew :: "RenewRequest \<Rightarrow> ('s, queue_error, Task) prog"
  ex_Resolve :: "ResolveRequest \<Rightarrow> ('s, queue_error, unit) prog"

text \<open>The optional extensions are the type assertions of the handlers.\<close>

record 's store_ops =
  so_Enqueue :: "EnqueueRequest \<Rightarrow> ('s, queue_error, Task) prog"
  so_Lease :: "int \<Rightarrow> string \<Rightarrow> string list \<Rightarrow> ('s, queue_error, Task list) prog"
  so_Complete :: "int \<Rightarrow> int \<Rightarrow> ('s, queue_error, ArchivedTask) prog"
  so_Fail :: "FailRequest \<Rightarrow> ('s, queue_error, unit) prog"
  so_Yield :: "int \<Rightarrow> int \<Rightarrow> ('s, queue_error, unit) prog"
  so_Cancel :: "int \<Rightarrow> ('s, queue_error, ArchivedTask) prog"
  so_Awaken :: "int list \<Rightarrow> ('s, queue_error, int) prog"
  so_Stats :: "('s, queue_error, QueueStats) prog"
  so_GetTask :: "int \<Rightarrow> ('s, queue_error, Task option) prog"
  so_ListActive :: "int \<Rightarrow> int \<Rightarrow> ('s, queue_error, Task list) prog"
  so_exec :: "'s exec_ops option"
  so_inbox :: "(EnqueueEventRequest \<Rightarrow> ('s, queue_error, Task) prog) option"
  so_schedule :: "('s, queue_error, string) prog option"

record 's Deps =
  d_Store :: "'s store_ops"
  d_Token :: string
  d_SchedulerEnabled :: bool
  d_SchedulerReady :: "('s, queue_error, unit) prog option"

section \<open>Requests and responses\<close>

record LeaseRequest =
  lr_limit :: int
  lr_taskClasses :: "string list"

record CompleteRequest =
  cr_taskID :: int
  cr_duration :: int

record YieldRequest =
  yr_taskID :: int
  yr_duration :: int

record ExecutionCapabilities =
  ec_schedulerProtocol :: int
  ec_schedulerAtomicEnqueue :: bool
  ec_schedulerDatabaseID :: string
  ec_executionVersion :: int
  ec_leaseOutcomes :: bool

datatype http_call =
    Post_enqueue "EnqueueRequest option"
  | Post_lease "LeaseRequest option"
  | Post_complete "CompleteRequest option"
  | Post_fail "FailRequest option"
  | Post_yield "YieldRequest option"
  | Post_cancel "int option"
  | Post_awaken "int list option"
  | Get_stats
  | Get_tasks string string
  | Get_task string
  | Get_meta
  | Post_finalize "FinalizeRequest option"
  | Post_resolve "ResolveRequest option"
  | Post_renew "RenewRequest option"
  | Post_enqueue_event "EnqueueEventRequest option"

record http_request =
  rq_headerToken :: string
  rq_queryToken :: string
  rq_leaseOwner :: string
  rq_ip :: string
  rq_call :: http_call

datatype payload =
    PTask Task
  | PTasks "Task list"
  | PArchived ArchivedTask
  | PStatus string
  | PAwakened int
  | PStats QueueStats
  | PCaps ExecutionCapabilities

record Response =
  rs_status :: int
  rs_data :: "payload option"
  rs_error :: "(string \<times> string) option"

definition OK :: "payload \<Rightarrow> Response" where
  "OK d = \<lparr>rs_status = 200, rs_data = Some d, rs_error = None\<rparr>"

definition HFail :: "int \<Rightarrow> string \<Rightarrow> string \<Rightarrow> Response" where
  "HFail status code message = \<lparr>rs_status = status, rs_data = None, rs_error = Some (code, message)\<rparr>"

definition CodeBadRequest :: string where "CodeBadRequest = ''ERR_BAD_REQUEST''"
definition CodeUnauthorized :: string where "CodeUnauthorized = ''ERR_UNAUTHORIZED''"
definition CodeNotFound :: string where "CodeNotFound = ''ERR_NOT_FOUND''"
definition CodeMethodNotAllowed :: string where "CodeMethodNotAllowed = ''ERR_METHOD_NOT_ALLOWED''"
definition CodeTooLarge :: string where "CodeTooLarge = ''ERR_TOO_LARGE''"
definition CodeInternal :: string where "CodeInternal = ''ERR_INTERNAL''"
definition internalMessage :: string where "internalMessage = ''internal server error''"

definition statusCodes :: "int \<Rightarrow> string option" where
  "statusCodes = [400 \<mapsto> CodeBadRequest, 401 \<mapsto> CodeUnauthorized, 404 \<mapsto> CodeNotFound,
     405 \<mapsto> CodeMethodNotAllowed, 413 \<mapsto> CodeTooLarge]"

text \<open>
  An error is a framework error with a status and a message, or any other error. \<open>StatusText\<close> is
  a parameter.
\<close>

definition classify :: "(int \<Rightarrow> string) \<Rightarrow> (int \<times> string) option \<Rightarrow> int \<times> string \<times> string" where
  "classify StatusText err =
     (case err of
        None \<Rightarrow> (500, CodeInternal, internalMessage)
      | Some (status, message) \<Rightarrow>
          if 500 \<le> status then (status, CodeInternal, internalMessage)
          else
            let code = (case statusCodes status of None \<Rightarrow> CodeBadRequest | Some c \<Rightarrow> c)
            in (status, code, if message \<noteq> [] then message else StatusText status))"

text \<open>
  The error handler: a response that a handler has already written stays, and a \<open>HEAD\<close> request
  gets the bare status.
\<close>

definition errorHandler :: "(int \<Rightarrow> string) \<Rightarrow> Response option \<Rightarrow> bool \<Rightarrow> (int \<times> string) option \<Rightarrow> Response" where
  "errorHandler StatusText committed isHead err =
     (let (status, code, message) = classify StatusText err in
      case committed of
        Some r \<Rightarrow> r
      | None \<Rightarrow>
          if isHead then \<lparr>rs_status = status, rs_data = None, rs_error = None\<rparr>
          else HFail status code message)"

section \<open>Numbers in paths and queries\<close>

definition digit_value :: "char \<Rightarrow> nat option" where
  "digit_value c = (if 48 \<le> (of_char c :: nat) \<and> (of_char c :: nat) \<le> 57 then Some (of_char c - 48) else None)"

datatype 'a parsed = Parsed 'a | BadSyntax | OutOfRange

text \<open>\<open>strconv.ParseUint(s, 10, 64)\<close>, which stops at the first bad character or overflow.\<close>

fun ParseUint :: "nat \<Rightarrow> string \<Rightarrow> nat parsed" where
  "ParseUint acc [] = Parsed acc"
| "ParseUint acc (c # cs) =
     (case digit_value c of
        None \<Rightarrow> BadSyntax
      | Some d \<Rightarrow> if 2 ^ 64 \<le> acc * 10 + d then OutOfRange else ParseUint (acc * 10 + d) cs)"

text \<open>\<open>strconv.ParseInt(s, 10, 64)\<close>: the value it returns, which is clamped on overflow, and whether it is an error.\<close>

definition ParseInt64 :: "string \<Rightarrow> int \<times> bool" where
  "ParseInt64 s =
     (let neg = (s \<noteq> [] \<and> hd s = CHR ''-''); s0 = (if s \<noteq> [] \<and> (hd s = CHR ''-'' \<or> hd s = CHR ''+'') then tl s else s) in
      if s0 = [] then (0, False)
      else (case ParseUint 0 s0 of
              BadSyntax \<Rightarrow> (0, False)
            | OutOfRange \<Rightarrow> (if neg then - (2 ^ 63) else 2 ^ 63 - 1, False)
            | Parsed un \<Rightarrow>
                if \<not> neg \<and> 2 ^ 63 \<le> un then (2 ^ 63 - 1, False)
                else if neg \<and> 2 ^ 63 < un then (- (2 ^ 63), False)
                else (if neg then - int un else int un, True)))"

text \<open>\<open>%d\<close> of an \<open>int64\<close>.\<close>

definition Itoa_signed :: "int \<Rightarrow> string" where
  "Itoa_signed i = (if i < 0 then CHR ''-'' # Itoa (nat (- i)) else Itoa (nat i))"

section \<open>Handlers\<close>

text \<open>\<open>Token\<close>: an empty secret disables the check; the query parameter is the fallback.\<close>

definition token_ok :: "string \<Rightarrow> bool \<Rightarrow> http_request \<Rightarrow> bool" where
  "token_ok expected allowQueryToken rq =
     (if expected = [] then True
      else
        let presented = (if rq_headerToken rq = [] \<and> allowQueryToken then rq_queryToken rq else rq_headerToken rq)
        in \<not> (presented = [] \<or> presented \<noteq> expected))"

type_synonym 's handler = "('s, queue_error, Response) prog"

abbreviation bad :: "string \<Rightarrow> 's handler" where
  "bad message \<equiv> ret (HFail 400 CodeBadRequest message)"

definition h_enqueue :: "'s Deps \<Rightarrow> EnqueueRequest option \<Rightarrow> 's handler" where
  "h_enqueue deps body =
     (case body of
        None \<Rightarrow> bad []
      | Some req \<Rightarrow>
          if er_taskClass req = [] then bad ''taskClass is required''
          else bindP (so_Enqueue (d_Store deps) req) (\<lambda>task. ret (OK (PTask task))))"

definition h_lease :: "'s Deps \<Rightarrow> string \<Rightarrow> string \<Rightarrow> LeaseRequest option \<Rightarrow> 's handler" where
  "h_lease deps owner ip body =
     (case body of
        None \<Rightarrow> bad []
      | Some req \<Rightarrow>
          let limit = (if lr_limit req \<le> 0 then 1 else lr_limit req);
              leaseOwner = (if owner = [] then ip @ '':gorge-taskqueue'' else owner)
          in bindP (so_Lease (d_Store deps) limit leaseOwner (lr_taskClasses req)) (\<lambda>tasks. ret (OK (PTasks tasks))))"

definition h_complete :: "'s Deps \<Rightarrow> CompleteRequest option \<Rightarrow> 's handler" where
  "h_complete deps body =
     (case body of
        None \<Rightarrow> bad []
      | Some req \<Rightarrow>
          if cr_taskID req \<le> 0 then bad ''taskID is required''
          else bindP (so_Complete (d_Store deps) (cr_taskID req) (cr_duration req)) (\<lambda>a. ret (OK (PArchived a))))"

definition h_fail :: "'s Deps \<Rightarrow> FailRequest option \<Rightarrow> 's handler" where
  "h_fail deps body =
     (case body of
        None \<Rightarrow> bad []
      | Some req \<Rightarrow>
          if fr_taskID req \<le> 0 then bad ''taskID is required''
          else bindP (so_Fail (d_Store deps) req) (\<lambda>_. ret (OK (PStatus ''ok''))))"

definition h_yield :: "'s Deps \<Rightarrow> YieldRequest option \<Rightarrow> 's handler" where
  "h_yield deps body =
     (case body of
        None \<Rightarrow> bad []
      | Some req \<Rightarrow>
          if yr_taskID req \<le> 0 then bad ''taskID is required''
          else bindP (so_Yield (d_Store deps) (yr_taskID req) (yr_duration req)) (\<lambda>_. ret (OK (PStatus ''ok''))))"

definition h_cancel :: "'s Deps \<Rightarrow> int option \<Rightarrow> 's handler" where
  "h_cancel deps body =
     (case body of
        None \<Rightarrow> bad []
      | Some taskID \<Rightarrow>
          if taskID \<le> 0 then bad ''taskID is required''
          else bindP (so_Cancel (d_Store deps) taskID) (\<lambda>a. ret (OK (PArchived a))))"

definition h_awaken :: "'s Deps \<Rightarrow> int list option \<Rightarrow> 's handler" where
  "h_awaken deps body =
     (case body of
        None \<Rightarrow> bad []
      | Some taskIDs \<Rightarrow>
          if taskIDs = [] then bad ''taskIDs is required''
          else bindP (so_Awaken (d_Store deps) taskIDs) (\<lambda>n. ret (OK (PAwakened n))))"

definition h_stats :: "'s Deps \<Rightarrow> 's handler" where
  "h_stats deps = bindP (so_Stats (d_Store deps)) (\<lambda>q. ret (OK (PStats q)))"

definition h_listTasks :: "'s Deps \<Rightarrow> string \<Rightarrow> string \<Rightarrow> 's handler" where
  "h_listTasks deps limit_q offset_q =
     (let limit = fst (ParseInt64 limit_q); offset = fst (ParseInt64 offset_q) in
      bindP (so_ListActive (d_Store deps) (if limit \<le> 0 then 100 else limit) offset) (\<lambda>tasks. ret (OK (PTasks tasks))))"

definition h_getTask :: "'s Deps \<Rightarrow> string \<Rightarrow> 's handler" where
  "h_getTask deps param =
     (case ParseInt64 param of
        (i, ok) \<Rightarrow>
          if \<not> ok then bad ''invalid task ID''
          else bindP (so_GetTask (d_Store deps) i) (\<lambda>task.
            case task of
              None \<Rightarrow> ret (HFail 404 CodeNotFound ''task not found'')
            | Some t \<Rightarrow> ret (OK (PTask t))))"

definition validExecutionLease :: "ExecutionLease \<Rightarrow> bool" where
  "validExecutionLease l \<longleftrightarrow> l_taskID l > 0 \<and> l_leaseOwner l \<noteq> [] \<and> l_leaseExpires l > 0"

definition executionError :: "queue_error \<Rightarrow> 's handler" where
  "executionError e =
     (if e = ErrLeaseConflict
      then ret (HFail 409 ''ERR_LEASE_CONFLICT'' ''task lease no longer belongs to this execution'')
      else raise e)"

definition h_meta :: "'s Deps \<Rightarrow> 's handler" where
  "h_meta deps =
     (let version = (case so_exec (d_Store deps) of None \<Rightarrow> 0 | Some _ \<Rightarrow> 1);
          caps = \<lparr>ec_schedulerProtocol = 0, ec_schedulerAtomicEnqueue = False, ec_schedulerDatabaseID = [],
                  ec_executionVersion = version, ec_leaseOutcomes = (version = 1)\<rparr>
      in case (so_schedule (d_Store deps), d_SchedulerReady deps) of
           (Some databaseID, Some ready) \<Rightarrow>
             if d_SchedulerEnabled deps then
               bindP ready (\<lambda>_.
               bindP databaseID (\<lambda>i.
               ret (OK (PCaps (caps\<lparr>ec_schedulerProtocol := 1, ec_schedulerAtomicEnqueue := True,
                                    ec_schedulerDatabaseID := i\<rparr>)))))
             else ret (OK (PCaps caps))
         | _ \<Rightarrow> ret (OK (PCaps caps)))"

definition unavailable :: "string \<Rightarrow> 's handler" where
  "unavailable message = ret (HFail 503 CodeInternal message)"

definition h_finalize :: "'s Deps \<Rightarrow> FinalizeRequest option \<Rightarrow> 's handler" where
  "h_finalize deps body =
     (case body of
        None \<Rightarrow> bad ''invalid finalization''
      | Some req \<Rightarrow>
          if \<not> validExecutionLease (fin_lease req) \<or> fin_duration req < 0 \<or> length (fin_followups req) > 1000
          then bad ''invalid finalization''
          else if \<exists>child \<in> set (fin_followups req). er_taskClass child = []
          then bad ''followup taskClass is required''
          else (case so_exec (d_Store deps) of
                  None \<Rightarrow> unavailable ''execution protocol unavailable''
                | Some ex \<Rightarrow>
                    tryP (bindP (ex_Finalize ex req) (\<lambda>_. ret (OK (PStatus ''finalized'')))) executionError))"

definition h_resolve :: "'s Deps \<Rightarrow> ResolveRequest option \<Rightarrow> 's handler" where
  "h_resolve deps body =
     (case body of
        None \<Rightarrow> bad ''invalid resolution''
      | Some req \<Rightarrow>
          if \<not> validExecutionLease (res_lease req) then bad ''invalid resolution''
          else if (res_outcome req \<noteq> ''retry'' \<and> res_outcome req \<noteq> ''failure'' \<and> res_outcome req \<noteq> ''yield'') \<or>
             res_duration req < 0 \<or> res_duration req > 604800 \<or>
             (case res_retryWait req of None \<Rightarrow> False | Some x \<Rightarrow> x < 0 \<or> x > 604800)
          then bad ''invalid resolution''
          else (case so_exec (d_Store deps) of
                  None \<Rightarrow> unavailable ''execution protocol unavailable''
                | Some ex \<Rightarrow>
                    tryP (bindP (ex_Resolve ex req) (\<lambda>_. ret (OK (PStatus ''resolved'')))) executionError))"

definition h_renew :: "'s Deps \<Rightarrow> RenewRequest option \<Rightarrow> 's handler" where
  "h_renew deps body =
     (case body of
        None \<Rightarrow> bad ''invalid renewal''
      | Some req \<Rightarrow>
          if \<not> validExecutionLease (ren_lease req) \<or> ren_duration req \<le> 0 \<or> ren_duration req > 7 * 24 * 3600
          then bad ''invalid renewal''
          else (case so_exec (d_Store deps) of
                  None \<Rightarrow> unavailable ''execution protocol unavailable''
                | Some ex \<Rightarrow> tryP (bindP (ex_Renew ex req) (\<lambda>task. ret (OK (PTask task)))) executionError))"

definition h_enqueue_event :: "'s Deps \<Rightarrow> EnqueueEventRequest option \<Rightarrow> 's handler" where
  "h_enqueue_event deps body =
     (case body of
        None \<Rightarrow> bad ''invalid event''
      | Some req \<Rightarrow>
          if ev_eventID req = [] \<or> length (ev_eventID req) > 128 \<or> er_taskClass (ev_task req) = []
          then bad ''invalid event''
          else (case so_inbox (d_Store deps) of
                  None \<Rightarrow> unavailable ''inbox unavailable''
                | Some enqueueEvent \<Rightarrow>
                    tryP (bindP (enqueueEvent req) (\<lambda>task. ret (OK (PTask task))))
                      (\<lambda>e. if e = ErrEventConflict
                           then ret (HFail 409 ''ERR_EVENT_CONFLICT'' ''event ID already contains another payload'')
                           else raise e)))"

text \<open>\<open>RegisterRoutes\<close>: which handler answers which path.\<close>

fun route :: "'s Deps \<Rightarrow> http_request \<Rightarrow> http_call \<Rightarrow> 's handler" where
  "route deps rq (Post_enqueue body) = h_enqueue deps body"
| "route deps rq (Post_lease body) = h_lease deps (rq_leaseOwner rq) (rq_ip rq) body"
| "route deps rq (Post_complete body) = h_complete deps body"
| "route deps rq (Post_fail body) = h_fail deps body"
| "route deps rq (Post_yield body) = h_yield deps body"
| "route deps rq (Post_cancel body) = h_cancel deps body"
| "route deps rq (Post_awaken body) = h_awaken deps body"
| "route deps rq Get_stats = h_stats deps"
| "route deps rq (Get_tasks limit offset) = h_listTasks deps limit offset"
| "route deps rq (Get_task i) = h_getTask deps i"
| "route deps rq Get_meta = h_meta deps"
| "route deps rq (Post_finalize body) = h_finalize deps body"
| "route deps rq (Post_resolve body) = h_resolve deps body"
| "route deps rq (Post_renew body) = h_renew deps body"
| "route deps rq (Post_enqueue_event body) = h_enqueue_event deps body"

text \<open>
  A request through the middleware, the route and the error handler. A handler that returns an
  error has not written a response, and its error is not a framework error.
\<close>

definition serve :: "'s Deps \<Rightarrow> http_request \<Rightarrow> ('s, queue_error, Response) prog" where
  "serve deps rq =
     (if \<not> token_ok (d_Token deps) True rq
      then ret (HFail 401 CodeUnauthorized ''missing or invalid service token'')
      else tryP (route deps rq (rq_call rq)) (\<lambda>e. ret (errorHandler (\<lambda>_. []) None False None)))"

end
