(* ===== verification/Queue_Http_Facts.thy ===== *)
theory Queue_Http_Facts
  imports Queue_Http Scheduler Redis_Facts
begin

text \<open>
  What the routes promise over any store that implements the interface: which store call a
  request is, and how its outcome becomes a response. The two backends implement it.
\<close>

section \<open>Requests as store calls\<close>

text \<open>The store call a well-formed request asks for; \<open>None\<close> where the handler refuses it, or reads no task.\<close>

fun call_op :: "http_request \<Rightarrow> http_call \<Rightarrow> queue_op option" where
  "call_op rq (Post_enqueue (Some req)) = (if er_taskClass req = [] then None else Some (OpEnqueue req))"
| "call_op rq (Post_lease (Some req)) =
     Some (OpLease (max 1 (lr_limit req))
       (if rq_leaseOwner rq = [] then rq_ip rq @ '':gorge-taskqueue'' else rq_leaseOwner rq) (lr_taskClasses req))"
| "call_op rq (Post_complete (Some req)) = (if 0 < cr_taskID req then Some (OpComplete (cr_taskID req) (cr_duration req)) else None)"
| "call_op rq (Post_fail (Some req)) = (if 0 < fr_taskID req then Some (OpFail req) else None)"
| "call_op rq (Post_yield (Some req)) = (if 0 < yr_taskID req then Some (OpYield (yr_taskID req) (yr_duration req)) else None)"
| "call_op rq (Post_cancel (Some i)) = (if 0 < i then Some (OpCancel i) else None)"
| "call_op rq (Post_awaken (Some is)) = (if is = [] then None else Some (OpAwaken is))"
| "call_op rq Get_stats = Some OpStats"
| "call_op rq (Get_tasks limit offset) =
     Some (OpListActive (if fst (ParseInt64 limit) \<le> 0 then 100 else fst (ParseInt64 limit)) (fst (ParseInt64 offset)))"
| "call_op rq (Get_task i) = (if snd (ParseInt64 i) then Some (OpGetTask (fst (ParseInt64 i))) else None)"
| "call_op rq (Post_finalize (Some req)) =
     (if validExecutionLease (fin_lease req) \<and> 0 \<le> fin_duration req \<and> length (fin_followups req) \<le> 1000 \<and>
         (\<forall>child \<in> set (fin_followups req). er_taskClass child \<noteq> [])
      then Some (OpFinalize req) else None)"
| "call_op rq (Post_resolve (Some req)) =
     (if validExecutionLease (res_lease req) \<and> res_outcome req \<in> {''retry'', ''failure'', ''yield''} \<and>
         res_duration req \<in> {0..604800} \<and> (\<forall>x. res_retryWait req = Some x \<longrightarrow> x \<in> {0..604800})
      then Some (OpResolve req) else None)"
| "call_op rq (Post_renew (Some req)) =
     (if validExecutionLease (ren_lease req) \<and> ren_duration req \<in> {1..604800} then Some (OpRenew req) else None)"
| "call_op rq (Post_enqueue_event (Some req)) =
     (if ev_eventID req \<noteq> [] \<and> length (ev_eventID req) \<le> 128 \<and> er_taskClass (ev_task req) \<noteq> []
      then Some (OpEnqueueEvent req) else None)"
| "call_op rq _ = None"

definition http_op :: "'s Deps \<Rightarrow> http_request \<Rightarrow> queue_op option" where
  "http_op deps rq = (if token_ok (d_Token deps) True rq then call_op rq (rq_call rq) else None)"

definition fenced :: "queue_op \<Rightarrow> bool" where
  "fenced opn \<longleftrightarrow> (case opn of OpFinalize _ \<Rightarrow> True | OpRenew _ \<Rightarrow> True | OpResolve _ \<Rightarrow> True | _ \<Rightarrow> False)"

definition is_event :: "queue_op \<Rightarrow> bool" where
  "is_event opn \<longleftrightarrow> (case opn of OpEnqueueEvent _ \<Rightarrow> True | _ \<Rightarrow> False)"

text \<open>
  The response to the outcome of a call: a conflict of a fenced call or of an event is told
  apart, every other store error is hidden behind one message.
\<close>

definition answers :: "queue_op \<Rightarrow> queue_error + unit \<Rightarrow> Response \<Rightarrow> bool" where
  "answers opn res resp \<longleftrightarrow>
     (case res of
        Inr _ \<Rightarrow> (\<exists>d. resp = OK d) \<or> (\<exists>i. opn = OpGetTask i) \<and> resp = HFail 404 CodeNotFound ''task not found''
      | Inl e \<Rightarrow>
          resp =
            (if fenced opn \<and> e = ErrLeaseConflict
             then HFail 409 ''ERR_LEASE_CONFLICT'' ''task lease no longer belongs to this execution''
             else if is_event opn \<and> e = ErrEventConflict
             then HFail 409 ''ERR_EVENT_CONFLICT'' ''event ID already contains another payload''
             else HFail 500 CodeInternal internalMessage))"

section \<open>Envelopes\<close>

definition enveloped :: "Response \<Rightarrow> bool" where
  "enveloped resp \<longleftrightarrow>
     (\<exists>d. resp = \<lparr>rs_status = 200, rs_data = Some d, rs_error = None\<rparr>) \<or>
     (\<exists>status code message. status \<in> {400, 401, 404, 409, 500, 503} \<and>
        resp = \<lparr>rs_status = status, rs_data = None, rs_error = Some (code, message)\<rparr>)"

lemma enveloped_simps [simp]:
  "enveloped (OK d)" "status \<in> {400, 401, 404, 409, 500, 503} \<Longrightarrow> enveloped (HFail status code message)"
  by (auto simp: enveloped_def OK_def HFail_def)

abbreviation envelopes :: "'s handler \<Rightarrow> bool" where
  "envelopes h \<equiv> hoare (\<lambda>_. True) h (\<lambda>resp _. enveloped resp) (\<lambda>_ _. True)"

lemma envelopes_ret: "enveloped resp \<Longrightarrow> envelopes (ret resp)"
  by (simp add: hoare_def)

lemma envelopes_bind: "(\<And>a. envelopes (f a)) \<Longrightarrow> envelopes (bindP m f)"
  by (rule hoare_bind [OF hoare_trivial])

lemma envelopes_try: "envelopes m \<Longrightarrow> (\<And>e. envelopes (h e)) \<Longrightarrow> envelopes (tryP m h)"
  by (rule hoare_tryP)

lemmas envelope_rules = envelopes_ret envelopes_bind envelopes_try

lemmas handler_defs = h_enqueue_def h_lease_def h_complete_def h_fail_def h_yield_def h_cancel_def h_awaken_def
  h_stats_def h_listTasks_def h_getTask_def h_meta_def h_finalize_def h_resolve_def h_renew_def h_enqueue_event_def
  unavailable_def Let_def

lemma raise_envelopes: "envelopes (raise e)"
  by (simp add: hoare_def)

lemma route_envelopes: "envelopes (route deps rq call)"
  by (cases call)
     (auto simp: handler_defs executionError_def raise_envelopes intro!: envelope_rules split: option.split prod.split)

lemma error_response: "errorHandler StatusText None False None = HFail 500 CodeInternal internalMessage"
  by (simp add: errorHandler_def classify_def)

section \<open>Stores that implement the interface\<close>

lemma discard_run: "m w n s = (r, n', s') \<Longrightarrow> discard m w n s = (map_sum id (\<lambda>_. ()) r, n', s')"
  by (cases r) (simp_all add: discard_def bindP_def)

text \<open>A handler that passes one call's result on.\<close>

definition relays :: "(queue_op \<Rightarrow> ('s, queue_error, unit) prog) \<Rightarrow> queue_op \<Rightarrow> 's handler \<Rightarrow> bool" where
  "relays run opn h \<longleftrightarrow> (\<forall>w n s. \<exists>resp. tryP h (\<lambda>e. ret (errorHandler (\<lambda>_. []) None False None)) w n s =
     (Inr resp, snd (run opn w n s)) \<and> answers opn (result (run opn w n s)) resp)"

text \<open>The scheduler's probe only reads.\<close>

definition probe_reads :: "'s Deps \<Rightarrow> bool" where
  "probe_reads deps \<longleftrightarrow> (\<forall>ready w n s. d_SchedulerReady deps = Some ready \<longrightarrow> final (ready w n s) = s)"

locale served_store =
  fixes ops :: "'s store_ops" and run :: "queue_op \<Rightarrow> ('s, queue_error, unit) prog"
  assumes basic: "discard (so_Enqueue ops req) = run (OpEnqueue req)"
      "discard (so_Lease ops k owner cs) = run (OpLease k owner cs)"
      "discard (so_Complete ops i dur) = run (OpComplete i dur)"
      "discard (so_Fail ops fr) = run (OpFail fr)"
      "discard (so_Yield ops i dur) = run (OpYield i dur)"
      "discard (so_Cancel ops i) = run (OpCancel i)"
      "discard (so_Awaken ops is) = run (OpAwaken is)"
      "discard (so_Stats ops) = run OpStats"
      "discard (so_GetTask ops i) = run (OpGetTask i)"
      "discard (so_ListActive ops k off) = run (OpListActive k off)"
    and exec: "\<exists>ex. so_exec ops = Some ex \<and>
      (\<forall>req. discard (ex_Finalize ex req) = run (OpFinalize req)) \<and>
      (\<forall>req. discard (ex_Renew ex req) = run (OpRenew req)) \<and>
      (\<forall>req. discard (ex_Resolve ex req) = run (OpResolve req))"
    and inbox: "\<exists>f. so_inbox ops = Some f \<and> (\<forall>req. discard (f req) = run (OpEnqueueEvent req))"
    and schedule: "so_schedule ops = Some d \<Longrightarrow> final (d w n s) = s"
begin

lemma relays_simple:
  assumes "discard m = run opn" "\<not> fenced opn" "\<not> is_event opn"
  shows "relays run opn (bindP m (\<lambda>a. ret (OK (f a))))"
  unfolding relays_def
proof (intro allI)
  fix w n s
  obtain r n' s' where m: "m w n s = (r, n', s')" by (cases "m w n s")
  from discard_run [of m w n s, OF m] m assms(2,3) show "\<exists>resp. tryP (bindP m (\<lambda>a. ret (OK (f a))))
      (\<lambda>e. ret (errorHandler (\<lambda>_. []) None False None)) w n s = (Inr resp, snd (run opn w n s)) \<and>
      answers opn (result (run opn w n s)) resp"
    unfolding assms(1) by (cases r) (auto simp: tryP_def bindP_def answers_def error_response)
qed

lemma relays_fenced:
  assumes "discard m = run opn" "fenced opn" "\<not> is_event opn"
  shows "relays run opn (tryP (bindP m (\<lambda>a. ret (OK (f a)))) executionError)"
  unfolding relays_def
proof (intro allI)
  fix w n s
  obtain r n' s' where m: "m w n s = (r, n', s')" by (cases "m w n s")
  from discard_run [of m w n s, OF m] m assms(2,3) show "\<exists>resp. tryP (tryP (bindP m (\<lambda>a. ret (OK (f a)))) executionError)
      (\<lambda>e. ret (errorHandler (\<lambda>_. []) None False None)) w n s = (Inr resp, snd (run opn w n s)) \<and>
      answers opn (result (run opn w n s)) resp"
    unfolding assms(1) by (cases r) (auto simp: tryP_def bindP_def answers_def error_response executionError_def)
qed

lemma relays_event:
  assumes "discard m = run (OpEnqueueEvent req)"
  shows "relays run (OpEnqueueEvent req) (tryP (bindP m (\<lambda>a. ret (OK (f a))))
     (\<lambda>e. if e = ErrEventConflict
          then ret (HFail 409 ''ERR_EVENT_CONFLICT'' ''event ID already contains another payload'') else raise e))"
  unfolding relays_def
proof (intro allI)
  fix w n s
  obtain r n' s' where m: "m w n s = (r, n', s')" by (cases "m w n s")
  from discard_run [of m w n s, OF m] m show "\<exists>resp. tryP (tryP (bindP m (\<lambda>a. ret (OK (f a))))
     (\<lambda>e. if e = ErrEventConflict
          then ret (HFail 409 ''ERR_EVENT_CONFLICT'' ''event ID already contains another payload'') else raise e))
      (\<lambda>e. ret (errorHandler (\<lambda>_. []) None False None)) w n s = (Inr resp, snd (run (OpEnqueueEvent req) w n s)) \<and>
      answers (OpEnqueueEvent req) (result (run (OpEnqueueEvent req) w n s)) resp"
    unfolding assms by (cases r) (auto simp: tryP_def bindP_def answers_def error_response is_event_def fenced_def)
qed

lemma relays_get:
  "relays run (OpGetTask i) (bindP (so_GetTask ops i) (\<lambda>task.
     case task of None \<Rightarrow> ret (HFail 404 CodeNotFound ''task not found'') | Some t \<Rightarrow> ret (OK (PTask t))))"
  unfolding relays_def
proof (intro allI)
  fix w n s
  obtain r n' s' where m: "so_GetTask ops i w n s = (r, n', s')" by (cases "so_GetTask ops i w n s")
  from discard_run [of "so_GetTask ops i" w n s, OF m] m show "\<exists>resp. tryP (bindP (so_GetTask ops i) (\<lambda>task.
     case task of None \<Rightarrow> ret (HFail 404 CodeNotFound ''task not found'') | Some t \<Rightarrow> ret (OK (PTask t))))
      (\<lambda>e. ret (errorHandler (\<lambda>_. []) None False None)) w n s = (Inr resp, snd (run (OpGetTask i) w n s)) \<and>
      answers (OpGetTask i) (result (run (OpGetTask i) w n s)) resp"
    unfolding basic(9)
    by (cases r) (auto simp: tryP_def bindP_def answers_def error_response is_event_def fenced_def split: option.splits)
qed

lemma route_relays:
  assumes "d_Store deps = ops" "call_op rq call = Some opn"
  shows "relays run opn (route deps rq call)"
proof -
  obtain ex where ex: "so_exec ops = Some ex" "\<And>req. discard (ex_Finalize ex req) = run (OpFinalize req)"
    "\<And>req. discard (ex_Renew ex req) = run (OpRenew req)" "\<And>req. discard (ex_Resolve ex req) = run (OpResolve req)"
    using exec by blast
  obtain f where f: "so_inbox ops = Some f" "\<And>req. discard (f req) = run (OpEnqueueEvent req)"
    using inbox by blast
  have max: "(if k \<le> 0 then 1 else k) = max 1 k" for k :: int by auto
  note simple = relays_simple [OF basic(1)] relays_simple [OF basic(2)] relays_simple [OF basic(3)]
    relays_simple [OF basic(4)] relays_simple [OF basic(5)] relays_simple [OF basic(6)] relays_simple [OF basic(7)]
    relays_simple [OF basic(8)] relays_simple [OF basic(10)] relays_fenced [OF ex(2)] relays_fenced [OF ex(3)]
    relays_fenced [OF ex(4)] relays_event [OF f(2)] relays_get
  show ?thesis
    using assms(2)
    by (cases "(rq, call)" rule: call_op.cases)
       (auto simp: handler_defs assms(1) ex(1) f(1) max fenced_def is_event_def not_less not_le split: if_splits
          option.splits prod.split intro!: simple)
qed

lemma meta_reads:
  assumes "d_Store deps = ops" "probe_reads deps"
  shows "final (h_meta deps w n s) = s"
  using assms schedule unfolding h_meta_def Let_def probe_reads_def
  by (auto simp: bindP_def split: option.splits prod.splits sum.splits) (metis snd_conv)+

lemma route_refuses:
  assumes "d_Store deps = ops" "call_op rq call = None" "call \<noteq> Get_meta"
  shows "\<exists>message. route deps rq call = bad message"
  using assms(2,3)
  by (cases "(rq, call)" rule: call_op.cases)
     (auto simp: handler_defs not_less not_le split: if_splits option.splits prod.split)

lemma serve_spec:
  assumes "d_Store deps = ops" "probe_reads deps"
  shows "\<exists>resp. result (serve deps rq w n s) = Inr resp \<and>
     (case http_op deps rq of
        None \<Rightarrow> final (serve deps rq w n s) = s \<and> (rq_call rq = Get_meta \<or> rs_status resp \<in> {400, 401})
      | Some opn \<Rightarrow> final (serve deps rq w n s) = final (run opn w n s) \<and> answers opn (result (run opn w n s)) resp)"
proof (cases "token_ok (d_Token deps) True rq \<and> http_op deps rq \<noteq> None")
  case True
  then obtain opn where opn: "http_op deps rq = Some opn" "call_op rq (rq_call rq) = Some opn"
    by (auto simp: http_op_def)
  obtain resp where "tryP (route deps rq (rq_call rq)) (\<lambda>e. ret (errorHandler (\<lambda>_. []) None False None)) w n s =
      (Inr resp, snd (run opn w n s))" "answers opn (result (run opn w n s)) resp"
    using route_relays [OF assms(1) opn(2)] unfolding relays_def by blast
  then show ?thesis using True opn(1) by (simp add: serve_def)
next
  case False
  then have none: "http_op deps rq = None" by (auto simp: http_op_def)
  show ?thesis
  proof (cases "token_ok (d_Token deps) True rq \<and> rq_call rq = Get_meta")
    case True
    then show ?thesis
      using none meta_reads [OF assms, of w n s]
      by (cases "h_meta deps w n s"; cases "fst (h_meta deps w n s)") (auto simp: serve_def tryP_def)
  next
    case no: False
    show ?thesis
      using none no route_refuses [OF assms(1), of rq "rq_call rq"]
      by (auto simp: serve_def http_op_def tryP_def HFail_def split: if_splits)
  qed
qed

end

section \<open>The two backends\<close>

definition mysql_ops :: "store_config \<Rightarrow> (EnqueueRequest \<Rightarrow> string) \<Rightarrow> sched_db store_ops" where
  "mysql_ops cfg digest =
     \<lparr>so_Enqueue = Enqueue, so_Lease = Lease cfg, so_Complete = Complete, so_Fail = Fail cfg, so_Yield = Yield,
      so_Cancel = Cancel, so_Awaken = Awaken, so_Stats = Stats, so_GetTask = GetTask, so_ListActive = ListActive,
      so_exec = Some \<lparr>ex_Finalize = Finalize, ex_Renew = Renew, ex_Resolve = Resolve cfg\<rparr>,
      so_inbox = Some (EnqueueEvent digest), so_schedule = Some ScheduleDatabaseID\<rparr>"

definition redis_ops :: "redis_config \<Rightarrow> (EnqueueRequest \<Rightarrow> string) \<Rightarrow> redis_db store_ops" where
  "redis_ops cfg digest =
     \<lparr>so_Enqueue = Redis_Enqueue, so_Lease = Redis_Lease cfg, so_Complete = Redis_Complete, so_Fail = Redis_Fail cfg,
      so_Yield = Redis_Yield, so_Cancel = Redis_Cancel, so_Awaken = Redis_Awaken, so_Stats = Redis_Stats,
      so_GetTask = Redis_GetTask, so_ListActive = Redis_ListActive,
      so_exec = Some \<lparr>ex_Finalize = Redis_Finalize, ex_Renew = Redis_Renew, ex_Resolve = Redis_Resolve cfg\<rparr>,
      so_inbox = Some (Redis_EnqueueEvent digest), so_schedule = None\<rparr>"

lemma query_reads: "final (query ctx f w n s) = s"
  by (simp add: query_def stmt_def split: fault.split)

lemma final_bind_reads:
  assumes "\<And>n. final (m w n s) = s" "\<And>a n. final (f a w n s) = s"
  shows "final (bindP m f w n s) = s"
  using assms(1) [of n] assms(2) by (cases "m w n s"; cases "fst (m w n s)") (auto simp: bindP_def)

lemma ScheduleDatabaseID_reads: "final (ScheduleDatabaseID w n s) = s"
  unfolding ScheduleDatabaseID_def by (rule final_bind_reads [OF query_reads]) (simp split: option.split)

lemma Scheduler_Ready_reads: "final (Scheduler_Ready call w n s) = s"
  unfolding Scheduler_Ready_def ScheduleReady_def
  by (intro final_bind_reads query_reads ScheduleDatabaseID_reads)
     (auto split: option.split sum.split intro!: final_bind_reads query_reads)

interpretation mysql_http: served_store "mysql_ops cfg digest" "run_op cfg digest" for cfg digest
  by unfold_locales (auto simp: mysql_ops_def ScheduleDatabaseID_reads)

interpretation redis_http: served_store "redis_ops cfg digest" "run_redis cfg digest" for cfg digest
  by unfold_locales (auto simp: redis_ops_def)

text \<open>The queue service as \<open>cmd/gorge-taskqueue\<close> wires it.\<close>

definition mysql_deps ::
  "store_config \<Rightarrow> (EnqueueRequest \<Rightarrow> string) \<Rightarrow> string \<Rightarrow> (string \<Rightarrow> queue_error + capabilities) option \<Rightarrow> sched_db Deps" where
  "mysql_deps cfg digest token scheduler =
     \<lparr>d_Store = mysql_ops cfg digest, d_Token = token, d_SchedulerEnabled = (scheduler \<noteq> None),
      d_SchedulerReady = map_option Scheduler_Ready scheduler\<rparr>"

definition redis_deps :: "redis_config \<Rightarrow> (EnqueueRequest \<Rightarrow> string) \<Rightarrow> string \<Rightarrow> redis_db Deps" where
  "redis_deps cfg digest token =
     \<lparr>d_Store = redis_ops cfg digest, d_Token = token, d_SchedulerEnabled = False, d_SchedulerReady = None\<rparr>"

lemma deps_read [simp]:
  "probe_reads (mysql_deps cfg digest token scheduler)" "probe_reads (redis_deps rcfg digest token)"
  by (auto simp: probe_reads_def mysql_deps_def redis_deps_def Scheduler_Ready_reads)

lemma deps_store [simp]:
  "d_Store (mysql_deps cfg digest token scheduler) = mysql_ops cfg digest"
  "d_Store (redis_deps rcfg digest token) = redis_ops rcfg digest"
  by (simp_all add: mysql_deps_def redis_deps_def)

lemmas mysql_serves = mysql_http.serve_spec [OF deps_store(1) deps_read(1)]
lemmas redis_serves = redis_http.serve_spec [OF deps_store(2) deps_read(2)]

text \<open>Hence a request is at most one call of the store.\<close>

lemma serve_good:
  assumes "tables_ok s0" "good s0 s"
  shows "good s0 (final (serve (mysql_deps cfg digest token scheduler) rq w n s))"
proof -
  have "final (serve (mysql_deps cfg digest token scheduler) rq w n s) = s \<or>
      (\<exists>opn. final (serve (mysql_deps cfg digest token scheduler) rq w n s) = final (run_op cfg digest opn w n s))"
    using mysql_serves [of cfg digest token scheduler rq w n s] by (auto split: option.splits)
  then show ?thesis using hoareD_inv [OF run_op_good [OF assms(1)] assms(2)] assms(2) by metis
qed

end
