(* ===== verification/Queue_Http_Properties.thy ===== *)
theory Queue_Http_Properties
  imports Queue_Http_Facts
begin

text \<open>The properties of the routes, for both backends.\<close>

section \<open>Envelopes\<close>

text \<open>Whatever the request, the store and the faults, the answer is one of two envelopes: status
  200 with data and no error, or one of the documented error statuses with a code and no data.
  No store error escapes the error handler.\<close>

theorem http_envelope: "\<exists>resp. result (serve deps rq w n s) = Inr resp \<and> enveloped resp"
proof (cases "token_ok (d_Token deps) True rq")
  case True
  obtain r n' s' where run: "route deps rq (rq_call rq) w n s = (r, n', s')"
    by (cases "route deps rq (rq_call rq) w n s")
  show ?thesis
    using True run by (cases r) (auto simp: serve_def tryP_def error_response intro: hoareD_ok [OF route_envelopes TrueI])
qed (simp add: serve_def)

section \<open>Requests and store calls\<close>

text \<open>C25. Over MySQL a request is one store call or none. A request without the service token, or
  one its handler finds malformed, is refused with 401 or 400 and changes nothing; every other
  request has exactly the effect of the store call it names, with the arguments the route gives
  it, and its response tells success, conflict and failure of that call apart.\<close>

theorem http_serves_mysql:
  "\<exists>resp. result (serve (mysql_deps cfg digest token scheduler) rq w n s) = Inr resp \<and>
     (case http_op (mysql_deps cfg digest token scheduler) rq of
        None \<Rightarrow> final (serve (mysql_deps cfg digest token scheduler) rq w n s) = s \<and>
          (rq_call rq = Get_meta \<or> rs_status resp \<in> {400, 401})
      | Some opn \<Rightarrow> final (serve (mysql_deps cfg digest token scheduler) rq w n s) = final (run_op cfg digest opn w n s) \<and>
          answers opn (result (run_op cfg digest opn w n s)) resp)"
  by (rule mysql_serves)

text \<open>The same over Redis.\<close>

theorem http_serves_redis:
  "\<exists>resp. result (serve (redis_deps cfg digest token) rq w n s) = Inr resp \<and>
     (case http_op (redis_deps cfg digest token) rq of
        None \<Rightarrow> final (serve (redis_deps cfg digest token) rq w n s) = s \<and>
          (rq_call rq = Get_meta \<or> rs_status resp \<in> {400, 401})
      | Some opn \<Rightarrow> final (serve (redis_deps cfg digest token) rq w n s) = final (run_redis cfg digest opn w n s) \<and>
          answers opn (result (run_redis cfg digest opn w n s)) resp)"
  by (rule redis_serves)

end
