(* ===== verification/Worker.thy ===== *)
theory Worker
  imports Queue_Http "HOL-Library.Char_ord" "HOL-Library.List_Lexorder"
begin

text \<open>
  The worker: \<open>src/go/internal/worker/client.go\<close>, \<open>execution.go\<close>, \<open>registry.go\<close>, \<open>heartbeat.go\<close> and
  \<open>consumer.go\<close>, over the routes of the queue. A request may fail to arrive, and a reply may be lost
  after the queue has acted. Before every request other clients of the queue may act:
  \<open>interf\<close> gives what they did by that tick. What a handler does outside the queue is not
  modelled; its outcome is a parameter, and so are the order in which the heartbeat and the
  handler renew, whether the shutdown budget has expired at the two points where the code
  looks, and at which waits a context ends. A request structure survives its encoding.
\<close>

section \<open>The client\<close>

datatype worker_error = EHttp string | EConflict | ETaskNotFound

record Client =
  cl_token :: string
  cl_leaseOwner :: string
  cl_ip :: string

text \<open>A queue as the worker meets it: its service and the other clients.\<close>

record 's queue =
  q_deps :: "'s Deps"
  q_interf :: "nat \<Rightarrow> 's \<Rightarrow> 's"

definition newRequest :: "Client \<Rightarrow> string \<Rightarrow> http_call \<Rightarrow> http_request" where
  "newRequest c owner call =
     \<lparr>rq_headerToken = cl_token c, rq_queryToken = [], rq_leaseOwner = owner, rq_ip = cl_ip c, rq_call = call\<rparr>"

definition exchange :: "'s queue \<Rightarrow> http_request \<Rightarrow> ('s, worker_error, Response) prog" where
  "exchange q rq = (\<lambda>w n s.
     let s0 = q_interf q n s in
     case w_fault w n of
       Broken \<Rightarrow> (Inl (EHttp ''http''), Suc n, s0)
     | Lost \<Rightarrow> (case serve (q_deps q) rq w (Suc n) s0 of (_, n', s') \<Rightarrow> (Inl (EHttp ''http''), n', s'))
     | Fine \<Rightarrow>
         (case serve (q_deps q) rq w (Suc n) s0 of
            (Inl _, n', s') \<Rightarrow> (Inl (EHttp ''http''), n', s')
          | (Inr resp, n', s') \<Rightarrow> (Inr resp, n', s')))"

definition decode :: "Response \<Rightarrow> worker_error + payload option" where
  "decode resp =
     (case rs_error resp of
        Some (code, message) \<Rightarrow>
          if code = ''ERR_LEASE_CONFLICT'' then Inl EConflict
          else if code = ''ERR_NOT_FOUND'' \<and> rs_status resp = 404 then Inl ETaskNotFound
          else Inl (EHttp ''api error'')
      | None \<Rightarrow>
          if rs_status resp < 200 \<or> 300 \<le> rs_status resp then Inl (EHttp ''status'') else Inr (rs_data resp))"

definition doJSON :: "'s queue \<Rightarrow> http_request \<Rightarrow> ('s, worker_error, payload option) prog" where
  "doJSON q rq =
     bindP (exchange q rq) (\<lambda>resp. case decode resp of Inl e \<Rightarrow> raise e | Inr d \<Rightarrow> ret d)"

definition Client_Lease :: "'s queue \<Rightarrow> Client \<Rightarrow> int \<Rightarrow> string list \<Rightarrow> ('s, worker_error, Task list) prog" where
  "Client_Lease q c limit taskClasses =
     (if limit \<le> 0 then raise (EHttp ''lease limit must be positive'')
      else
        bindP (doJSON q (newRequest c (cl_leaseOwner c)
            (Post_lease (Some \<lparr>lr_limit = limit, lr_taskClasses = taskClasses\<rparr>)))) (\<lambda>d.
        case d of
          Some (PTasks tasks) \<Rightarrow>
            if int (length tasks) > limit then raise (EHttp ''lease response exceeds requested capacity'') else ret tasks
        | None \<Rightarrow> ret []
        | _ \<Rightarrow> raise (EHttp ''unmarshal data'')))"

definition ActiveTask :: "'s queue \<Rightarrow> Client \<Rightarrow> int \<Rightarrow> ('s, worker_error, Task) prog" where
  "ActiveTask q c i =
     bindP (doJSON q (newRequest c [] (Get_task (Itoa_signed i)))) (\<lambda>d.
     case d of
       Some (PTask t) \<Rightarrow>
         if t_id t \<noteq> i \<or> t_leaseExpires t = None then raise (EHttp ''queue returned an incomplete active task'') else ret t
     | _ \<Rightarrow> raise (EHttp ''queue returned an incomplete active task''))"

definition executionLease :: "Task \<Rightarrow> ExecutionLease option" where
  "executionLease t =
     (case t_leaseExpires t of
        None \<Rightarrow> None
      | Some e \<Rightarrow>
          if t_leaseOwner t = [] then None
          else Some \<lparr>l_taskID = t_id t, l_leaseOwner = t_leaseOwner t, l_leaseExpires = e\<rparr>)"

definition RequireExecutionProtocol :: "'s queue \<Rightarrow> Client \<Rightarrow> ('s, worker_error, unit) prog" where
  "RequireExecutionProtocol q c =
     bindP (doJSON q (newRequest c [] Get_meta)) (\<lambda>d.
     case d of
       Some (PCaps meta) \<Rightarrow>
         if ec_executionVersion meta \<noteq> 1 \<or> \<not> ec_leaseOutcomes meta then raise (EHttp ''protocol'') else ret ()
     | _ \<Rightarrow> raise (EHttp ''protocol''))"

record Completion =
  co_followups :: "EnqueueRequest list"
  co_duration :: int

definition Client_Finalize :: "'s queue \<Rightarrow> Client \<Rightarrow> Task \<Rightarrow> Completion \<Rightarrow> ('s, worker_error, unit) prog" where
  "Client_Finalize q c t completion =
     (case executionLease t of
        None \<Rightarrow> raise (EHttp ''task has no execution lease'')
      | Some lease \<Rightarrow>
          bindP (doJSON q (newRequest c [] (Post_finalize (Some
              \<lparr>fin_lease = lease, fin_duration = co_duration completion, fin_followups = co_followups completion\<rparr>)))) (\<lambda>_.
          ret ()))"

definition Client_renew :: "'s queue \<Rightarrow> Client \<Rightarrow> Task \<Rightarrow> int \<Rightarrow> ('s, worker_error, Task) prog" where
  "Client_renew q c t duration =
     (case executionLease t of
        None \<Rightarrow> raise (EHttp ''task has no execution lease'')
      | Some lease \<Rightarrow>
          bindP (doJSON q (newRequest c [] (Post_renew (Some \<lparr>ren_lease = lease, ren_duration = duration\<rparr>)))) (\<lambda>d.
          case d of
            Some (PTask updated) \<Rightarrow>
              if t_id updated \<noteq> t_id t \<or> t_leaseOwner updated \<noteq> t_leaseOwner t \<or> t_leaseExpires updated = None
              then raise (EHttp ''invalid renewed lease'')
              else ret (t\<lparr>t_leaseExpires := t_leaseExpires updated\<rparr>)
          | _ \<Rightarrow> raise (EHttp ''invalid renewed lease'')))"

definition Client_Resolve ::
  "'s queue \<Rightarrow> Client \<Rightarrow> Task \<Rightarrow> string \<Rightarrow> int option \<Rightarrow> int \<Rightarrow> ('s, worker_error, unit) prog" where
  "Client_Resolve q c t outcome wait duration =
     (case executionLease t of
        None \<Rightarrow> raise (EHttp ''task has no execution lease'')
      | Some lease \<Rightarrow>
          bindP (doJSON q (newRequest c [] (Post_resolve (Some
              \<lparr>res_lease = lease, res_outcome = outcome, res_retryWait = wait, res_duration = duration\<rparr>)))) (\<lambda>_.
          ret ()))"

definition Client_EnqueueEvent :: "'s queue \<Rightarrow> Client \<Rightarrow> EnqueueEventRequest \<Rightarrow> ('s, worker_error, Task) prog" where
  "Client_EnqueueEvent q c event =
     bindP (doJSON q (newRequest c [] (Post_enqueue_event (Some event)))) (\<lambda>d.
     case d of
       Some (PTask t) \<Rightarrow> if t_id t \<le> 0 then raise (EHttp ''queue omitted accepted event task'') else ret t
     | _ \<Rightarrow> raise (EHttp ''queue omitted accepted event task''))"

section \<open>The registry\<close>

text \<open>The classes with a handler, in the order the map yields them, and whether there is a fallback.\<close>

record Registry =
  rg_handlers :: "string list"
  rg_fallback :: bool

definition Register :: "string \<Rightarrow> Registry \<Rightarrow> Registry" where
  "Register taskClass r =
     (if taskClass \<in> set (rg_handlers r) then r else r\<lparr>rg_handlers := rg_handlers r @ [taskClass]\<rparr>)"

definition SetFallback :: "Registry \<Rightarrow> Registry" where
  "SetFallback r = r\<lparr>rg_fallback := True\<rparr>"

datatype handler_ref = Native string | Fallback

definition Get :: "Registry \<Rightarrow> string \<Rightarrow> handler_ref option" where
  "Get r taskClass =
     (if taskClass \<in> set (rg_handlers r) then Some (Native taskClass)
      else if rg_fallback r then Some Fallback
      else None)"

definition Has :: "Registry \<Rightarrow> string \<Rightarrow> bool" where
  "Has r taskClass = (if taskClass \<in> set (rg_handlers r) then True else rg_fallback r)"

definition HasFallback :: "Registry \<Rightarrow> bool" where
  "HasFallback r = rg_fallback r"

definition SupportedClasses :: "Registry \<Rightarrow> string list" where
  "SupportedClasses r = rg_handlers r @ (if rg_fallback r then [''*''] else [])"

fun add_configured :: "Registry \<Rightarrow> string list \<Rightarrow> string list \<Rightarrow> string list" where
  "add_configured r [] classes = classes"
| "add_configured r (taskClass # configured) classes =
     add_configured r configured
       (if \<not> Has r taskClass then classes
        else if taskClass \<in> set classes then classes else classes @ [taskClass])"

text \<open>\<open>configured\<close> lists the keys of the allowlist; the result \<open>[]\<close> is also the nil slice, which asks for all classes.\<close>

definition leaseableClasses :: "Registry \<Rightarrow> string list \<Rightarrow> string list" where
  "leaseableClasses r configured =
     (if HasFallback r \<and> configured = [] then []
      else
        let classes = filter (\<lambda>tc. tc \<noteq> ''*'' \<and> (configured = [] \<or> tc \<in> set configured)) (SupportedClasses r)
        in sort (if HasFallback r then add_configured r configured classes else classes))"

record Consumer =
  co_registry :: Registry
  co_leaseLimit :: int
  co_filter :: "string list"
  co_leaseClasses :: "string list"
  co_canLease :: bool

definition NewConsumer :: "Registry \<Rightarrow> int \<Rightarrow> string list \<Rightarrow> Consumer" where
  "NewConsumer registry leaseLimit taskClassFilter =
     (let leaseClasses = leaseableClasses registry taskClassFilter in
      \<lparr>co_registry = registry, co_leaseLimit = leaseLimit, co_filter = taskClassFilter, co_leaseClasses = leaseClasses,
       co_canLease = (HasFallback registry \<or> 0 < length leaseClasses)\<rparr>)"

definition shouldProcess :: "Consumer \<Rightarrow> Task \<Rightarrow> bool" where
  "shouldProcess k t =
     (if co_filter k \<noteq> [] \<and> t_taskClass t \<notin> set (co_filter k) then False
      else Has (co_registry k) (t_taskClass t))"

section \<open>Heartbeat\<close>

record leaseSession =
  ls_task :: Task
  ls_err :: "worker_error option"

text \<open>The wait before the next renewal, in nanoseconds.\<close>

definition heartbeat_interval :: "int \<Rightarrow> int" where
  "heartbeat_interval remaining =
     (let interval = remaining div 3 in if interval > 30 * 1000000000 then 30 * 1000000000 else interval)"

definition session_renew :: "'s queue \<Rightarrow> Client \<Rightarrow> leaseSession \<Rightarrow> int \<Rightarrow> ('s, worker_error, leaseSession) prog" where
  "session_renew q c ses duration =
     (case ls_err ses of
        Some e \<Rightarrow> ret ses
      | None \<Rightarrow>
          tryP (bindP (Client_renew q c (ls_task ses) duration) (\<lambda>t. ret (ses\<lparr>ls_task := t\<rparr>)))
            (\<lambda>e. ret (ses\<lparr>ls_err := Some e\<rparr>)))"

text \<open>The head of the goroutine's loop: an expired window is an error.\<close>

definition look :: "leaseSession \<Rightarrow> ('s, worker_error, leaseSession) prog" where
  "look ses =
     (case ls_err ses of
        Some e \<Rightarrow> ret ses
      | None \<Rightarrow>
          bindP time_now (\<lambda>now.
          if (case t_leaseExpires (ls_task ses) of None \<Rightarrow> True | Some e \<Rightarrow> e \<le> now)
          then ret (ses\<lparr>ls_err := Some (EHttp ''execution lease expired'')\<rparr>)
          else ret ses))"

text \<open>
  The renewals of an execution in their order: the timer's, after which the loop looks again,
  and those a handler asks for itself.
\<close>

datatype beat = Timer | ByHandler int

fun heartbeat :: "'s queue \<Rightarrow> Client \<Rightarrow> beat list \<Rightarrow> leaseSession \<Rightarrow> ('s, worker_error, leaseSession) prog" where
  "heartbeat q c [] ses = ret ses"
| "heartbeat q c (ByHandler duration # bs) ses =
     bindP (session_renew q c ses duration) (\<lambda>ses'. heartbeat q c bs ses')"
| "heartbeat q c (Timer # bs) ses =
     bindP (session_renew q c ses 60) (\<lambda>ses'.
     case ls_err ses' of
       Some e \<Rightarrow> ret ses'
     | None \<Rightarrow> bindP (look ses') (\<lambda>ses''. heartbeat q c bs ses''))"

definition startHeartbeat :: "'s queue \<Rightarrow> Client \<Rightarrow> beat list \<Rightarrow> Task \<Rightarrow> ('s, worker_error, leaseSession) prog" where
  "startHeartbeat q c bs t = bindP (look \<lparr>ls_task = t, ls_err = None\<rparr>) (\<lambda>ses. heartbeat q c bs ses)"

section \<open>Reporting\<close>

definition resultReportAttempts :: nat where "resultReportAttempts = 5"

definition attempt_of :: "('s, 'e, unit) prog \<Rightarrow> ('s, 'e, 'e option) prog" where
  "attempt_of m = tryP (bindP m (\<lambda>_. ret None)) (\<lambda>e. ret (Some e))"

fun report_loop ::
  "('s, worker_error, unit) prog \<Rightarrow> (nat \<Rightarrow> bool) \<Rightarrow> nat \<Rightarrow> nat \<Rightarrow> ('s, worker_error, bool) prog" where
  "report_loop report ended attempt 0 = ret False"
| "report_loop report ended attempt (Suc k) =
     bindP (attempt_of report) (\<lambda>err.
     case err of
       None \<Rightarrow> ret True
     | Some e \<Rightarrow>
         if e = EConflict \<or> attempt = resultReportAttempts then ret False
         else if ended attempt then ret False
         else report_loop report ended (attempt + 1) k)"

definition reportOutcome :: "('s, worker_error, unit) prog \<Rightarrow> (nat \<Rightarrow> bool) \<Rightarrow> ('s, worker_error, bool) prog" where
  "reportOutcome report ended = report_loop report ended 1 resultReportAttempts"

fun archive_loop :: "'s queue \<Rightarrow> Client \<Rightarrow> Task \<Rightarrow> (nat \<Rightarrow> bool) \<Rightarrow> nat \<Rightarrow> nat \<Rightarrow> ('s, worker_error, unit) prog" where
  "archive_loop q c t ended attempt 0 = ret ()"
| "archive_loop q c t ended attempt (Suc k) =
     (let again = (if ended attempt then ret () else archive_loop q c t ended (attempt + 1) k) in
      bindP (tryP (bindP (ActiveTask q c (t_id t)) (\<lambda>latest. ret (Inr latest))) (\<lambda>e. ret (Inl e))) (\<lambda>r.
      case r of
        Inl e \<Rightarrow> if e = ETaskNotFound then ret () else again
      | Inr latest \<Rightarrow>
          bindP time_now (\<lambda>now.
          if t_leaseOwner latest \<noteq> t_leaseOwner t \<or>
             (case t_leaseExpires latest of None \<Rightarrow> True | Some e \<Rightarrow> e \<le> now)
          then ret ()
          else
            bindP (attempt_of (Client_Resolve q c latest ''failure'' None 0)) (\<lambda>err.
            case err of None \<Rightarrow> ret () | Some e \<Rightarrow> again))))"

definition archiveInterruptedTask :: "'s queue \<Rightarrow> Client \<Rightarrow> Task \<Rightarrow> (nat \<Rightarrow> bool) \<Rightarrow> ('s, worker_error, unit) prog" where
  "archiveInterruptedTask q c t ended = archive_loop q c t ended 0 resultReportAttempts"

section \<open>Processing a task\<close>

text \<open>What a handler returns, in the order in which the code tests for it.\<close>

datatype outcome =
    HCompletion Completion
  | HDone
  | HPermanent
  | HYield int
  | HRetry int
  | HOther

record run_env =
  re_handler :: "handler_ref \<Rightarrow> Task \<Rightarrow> outcome"
  re_duration :: int
  re_beats :: "beat list"
  re_interrupted :: bool
  re_drained :: bool
  re_report_ended :: "nat \<Rightarrow> bool"
  re_archive_ended :: "nat \<Rightarrow> bool"

record 's worker_state =
  ws_store :: 's
  ws_processed :: int
  ws_failed :: int
  ws_active :: int

definition on_store :: "('s, 'e, 'a) prog \<Rightarrow> ('s worker_state, 'e, 'a) prog" where
  "on_store m = (\<lambda>w n s. case m w n (ws_store s) of (r, n', t) \<Rightarrow> (r, n', s\<lparr>ws_store := t\<rparr>))"

definition count_up :: "int \<Rightarrow> int \<Rightarrow> int \<Rightarrow> ('s worker_state, 'e, unit) prog" where
  "count_up p f a = (\<lambda>w n s.
     (Inr (), n, s\<lparr>ws_processed := ws_processed s + p, ws_failed := ws_failed s + f, ws_active := ws_active s + a\<rparr>))"

text \<open>The report of an outcome and the counters it advances when it is confirmed.\<close>

definition report_of :: "'s queue \<Rightarrow> Client \<Rightarrow> Task \<Rightarrow> int \<Rightarrow> outcome \<Rightarrow> ('s, worker_error, unit) prog" where
  "report_of q c t durationUs out =
     (case out of
        HCompletion completion \<Rightarrow> Client_Finalize q c t completion
      | HDone \<Rightarrow> Client_Finalize q c t \<lparr>co_followups = [], co_duration = durationUs\<rparr>
      | HPermanent \<Rightarrow> Client_Resolve q c t ''failure'' None 0
      | HYield dur \<Rightarrow> Client_Resolve q c t ''yield'' None (if dur < 5 then 5 else dur)
      | HRetry wait \<Rightarrow> Client_Resolve q c t ''retry'' (Some wait) 0
      | HOther \<Rightarrow> Client_Resolve q c t ''retry'' None 0)"

definition count_of :: "outcome \<Rightarrow> int \<times> int" where
  "count_of out =
     (case out of
        HCompletion _ \<Rightarrow> (1, 0) | HDone \<Rightarrow> (1, 0) | HPermanent \<Rightarrow> (0, 1) | HYield _ \<Rightarrow> (0, 0) | HRetry _ \<Rightarrow> (0, 1) | HOther \<Rightarrow> (0, 1))"

definition settle :: "'s queue \<Rightarrow> Client \<Rightarrow> run_env \<Rightarrow> outcome \<Rightarrow> Task \<Rightarrow> ('s worker_state, worker_error, unit) prog" where
  "settle q c env out t =
     bindP (on_store (reportOutcome (report_of q c t (re_duration env) out) (re_report_ended env))) (\<lambda>confirmed.
     bindP (if confirmed then count_up (fst (count_of out)) (snd (count_of out)) 0 else ret ()) (\<lambda>_.
     if re_drained env \<and> \<not> confirmed then on_store (archiveInterruptedTask q c t (re_archive_ended env)) else ret ()))"

text \<open>The part before the handler runs: protocol, window and a first renewal.\<close>

definition confirm_ownership :: "'s queue \<Rightarrow> Client \<Rightarrow> Task \<Rightarrow> ('s, worker_error, Task option) prog" where
  "confirm_ownership q c t =
     tryP
       (bindP (RequireExecutionProtocol q c) (\<lambda>_.
        case executionLease t of
          None \<Rightarrow> ret None
        | Some _ \<Rightarrow> bindP (Client_renew q c t 60) (\<lambda>t'. ret (Some t'))))
       (\<lambda>e. ret None)"

definition execute ::
  "'s queue \<Rightarrow> Client \<Rightarrow> run_env \<Rightarrow> handler_ref \<Rightarrow> Task \<Rightarrow> ('s worker_state, worker_error, unit) prog" where
  "execute q c env h t =
     bindP (on_store (startHeartbeat q c (re_beats env) t)) (\<lambda>ses.
     if re_interrupted env then on_store (archiveInterruptedTask q c (ls_task ses) (re_archive_ended env))
     else (case ls_err ses of
             Some e \<Rightarrow> ret ()
           | None \<Rightarrow> settle q c env (re_handler env h t) (ls_task ses)))"

definition processTask ::
  "'s queue \<Rightarrow> Client \<Rightarrow> Registry \<Rightarrow> run_env \<Rightarrow> Task \<Rightarrow> ('s worker_state, worker_error, unit) prog" where
  "processTask q c r env t =
     bindP (count_up 0 0 1) (\<lambda>_.
     bindP
       (case Get r (t_taskClass t) of
          None \<Rightarrow>
            bindP (on_store (attempt_of (Client_Resolve q c t ''failure'' None 0))) (\<lambda>_. count_up 0 1 0)
        | Some h \<Rightarrow>
            bindP (on_store (confirm_ownership q c t)) (\<lambda>owned.
            case owned of None \<Rightarrow> ret () | Some t' \<Rightarrow> execute q c env h t')) (\<lambda>_.
     count_up 0 0 (-1)))"

record ConsumerStats =
  st_processed :: int
  st_failed :: int
  st_active :: int
  st_supported :: "string list"

definition Consumer_Stats :: "Consumer \<Rightarrow> 's worker_state \<Rightarrow> ConsumerStats" where
  "Consumer_Stats k s =
     \<lparr>st_processed = ws_processed s, st_failed = ws_failed s, st_active = ws_active s,
      st_supported = SupportedClasses (co_registry k)\<rparr>"

section \<open>One round of the lease loop\<close>

fun dispatch ::
  "'s queue \<Rightarrow> Client \<Rightarrow> Consumer \<Rightarrow> (nat \<Rightarrow> bool) \<Rightarrow> Task list \<Rightarrow> ('s, worker_error, Task list) prog" where
  "dispatch q c k ended [] = ret []"
| "dispatch q c k ended (t # tasks) =
     (if \<not> shouldProcess k t then
        bindP (reportOutcome (Client_Resolve q c t ''retry'' (Some 60) 0) ended) (\<lambda>_.
        dispatch q c k ended tasks)
      else
        bindP (dispatch q c k ended tasks) (\<lambda>accepted. ret (t # accepted)))"

text \<open>The tasks a round accepts, each of which \<open>processTask\<close> then runs on its own.\<close>

definition poll :: "'s queue \<Rightarrow> Client \<Rightarrow> Consumer \<Rightarrow> int \<Rightarrow> (nat \<Rightarrow> bool) \<Rightarrow> ('s, worker_error, Task list) prog" where
  "poll q c k available ended =
     (if \<not> co_canLease k \<or> available = 0 then ret []
      else
        bindP (tryP (Client_Lease q c (min (co_leaseLimit k) available) (co_leaseClasses k)) (\<lambda>e. ret [])) (\<lambda>tasks.
        dispatch q c k ended tasks))"

end
