(* ===== verification/Worker_Facts.thy ===== *)
theory Worker_Facts
  imports Worker Queue_Http_Facts MySQL_Properties
begin

text \<open>
  Facts about the worker over the MySQL queue: what a confirmed report means, that a worker
  leaves the windows of others alone, what a run without faults does, and which tasks a worker
  leases.
\<close>

section \<open>The queue a worker meets\<close>

definition mysql_queue ::
  "store_config \<Rightarrow> (EnqueueRequest \<Rightarrow> string) \<Rightarrow> string \<Rightarrow> (string \<Rightarrow> queue_error + capabilities) option \<Rightarrow>
   (nat \<Rightarrow> sched_db \<Rightarrow> sched_db) \<Rightarrow> sched_db queue" where
  "mysql_queue cfg digest token scheduler interf =
     \<lparr>q_deps = mysql_deps cfg digest token scheduler, q_interf = interf\<rparr>"

text \<open>
  The other clients and the scheduler act through transactions that keep the tables well-formed
  and lose nothing, as \<open>any_call_good\<close> shows for every call of the store.
\<close>

definition others_act :: "(nat \<Rightarrow> sched_db \<Rightarrow> sched_db) \<Rightarrow> bool" where
  "others_act interf \<longleftrightarrow> (\<forall>n s. tables_ok s \<longrightarrow> good s (interf n s))"

text \<open>The requests a worker makes after the lease, in terms of the programs over them.\<close>

lemma exchange_final:
  "final (exchange q rq w n s) = q_interf q n s \<or>
   final (exchange q rq w n s) = final (serve (q_deps q) rq w (Suc n) (q_interf q n s))"
  by (auto simp: exchange_def Let_def split: fault.split prod.split sum.split)

lemma preserves_exchange:
  assumes "\<And>n s. I s \<Longrightarrow> I (q_interf q n s)" "\<And>w n s. I s \<Longrightarrow> I (final (serve (q_deps q) rq w n s))"
  shows "preserves I (exchange q rq)"
proof (rule hoareI)
  fix w n s
  assume "I s"
  then have "I (final (exchange q rq w n s))" using exchange_final [of q rq w n s] assms by metis
  then show "exchange q rq w n s = (Inr a, n', s') \<Longrightarrow> I s'" "exchange q rq w n s = (Inl e, n', s') \<Longrightarrow> I s'"
    for a e n' s' by simp_all
qed

lemma preserves_sum [preserves_rules]:
  "(\<And>x. v = Inl x \<Longrightarrow> preserves I (f x)) \<Longrightarrow> (\<And>y. v = Inr y \<Longrightarrow> preserves I (g y)) \<Longrightarrow>
   preserves I (case v of Inl x \<Rightarrow> f x | Inr y \<Rightarrow> g y)"
  by (cases v) simp_all

lemma preserves_payload [preserves_rules]:
  "(\<And>x. preserves I (f x)) \<Longrightarrow> (\<And>x. preserves I (g x)) \<Longrightarrow> preserves I h \<Longrightarrow>
   preserves I (case d of None \<Rightarrow> h | Some (PTask x) \<Rightarrow> f x | Some (PTasks y) \<Rightarrow> h | Some (PArchived z) \<Rightarrow> h
     | Some (PStatus a) \<Rightarrow> h | Some (PAwakened b) \<Rightarrow> h | Some (PStats c) \<Rightarrow> h | Some (PCaps e) \<Rightarrow> h)"
  by (cases d rule: option.exhaust; simp split: payload.split)

text \<open>The requests for one task: the window a request presents has its id and its owner.\<close>

definition own_request :: "int \<Rightarrow> string \<Rightarrow> http_call \<Rightarrow> bool" where
  "own_request i owner call \<longleftrightarrow>
     (case call of
        Post_finalize (Some req) \<Rightarrow> l_taskID (fin_lease req) = i \<and> l_leaseOwner (fin_lease req) = owner
      | Post_renew (Some req) \<Rightarrow> l_taskID (ren_lease req) = i \<and> l_leaseOwner (ren_lease req) = owner
      | Post_resolve (Some req) \<Rightarrow> l_taskID (res_lease req) = i \<and> l_leaseOwner (res_lease req) = owner
      | Get_meta \<Rightarrow> True
      | Get_task _ \<Rightarrow> True
      | _ \<Rightarrow> False)"

text \<open>An invariant that such requests keep is kept by the whole of \<open>processTask\<close>.\<close>

definition task_inv :: "'s queue \<Rightarrow> Client \<Rightarrow> int \<Rightarrow> string \<Rightarrow> ('s \<Rightarrow> bool) \<Rightarrow> bool" where
  "task_inv q c i owner I \<longleftrightarrow> (\<forall>call. own_request i owner call \<longrightarrow> preserves I (exchange q (newRequest c [] call)))"

lemma inv_doJSON: "task_inv q c i owner I \<Longrightarrow> own_request i owner call \<Longrightarrow> preserves I (doJSON q (newRequest c [] call))"
  unfolding doJSON_def by (intro preserves_rules) (simp add: task_inv_def)

lemma executionLease_own:
  "executionLease t = Some l \<Longrightarrow> l_taskID l = t_id t \<and> l_leaseOwner l = t_leaseOwner t"
  by (auto simp: executionLease_def split: option.splits if_splits)

text \<open>A renewal changes the expiry of the worker's copy only.\<close>

definition same_execution :: "Task \<Rightarrow> Task \<Rightarrow> bool" where
  "same_execution t t' \<longleftrightarrow> t_id t' = t_id t \<and> t_leaseOwner t' = t_leaseOwner t"

lemma same_execution_refl [simp]: "same_execution t t"
  by (simp add: same_execution_def)

lemma inv_Renew:
  assumes "task_inv q c (t_id t) (t_leaseOwner t) I"
  shows "hoare I (Client_renew q c t d) (\<lambda>t' s. I s \<and> same_execution t t') (\<lambda>_. I)"
proof (cases "executionLease t")
  case (Some l)
  have "preserves I (doJSON q (newRequest c [] (Post_renew (Some \<lparr>ren_lease = l, ren_duration = d\<rparr>))))"
    by (rule inv_doJSON [OF assms]) (use executionLease_own [OF Some] in \<open>simp add: own_request_def\<close>)
  then show ?thesis unfolding Client_renew_def Some option.case
    by (rule hoare_bind) (auto simp: hoare_def same_execution_def split: option.split payload.split)
qed (simp add: Client_renew_def hoare_def)

lemma inv_Finalize: "task_inv q c (t_id t) (t_leaseOwner t) I \<Longrightarrow> preserves I (Client_Finalize q c t co)"
  unfolding Client_Finalize_def
  by (intro preserves_rules, erule inv_doJSON) (auto simp: own_request_def dest: executionLease_own)

lemma inv_Resolve: "task_inv q c (t_id t) (t_leaseOwner t) I \<Longrightarrow> preserves I (Client_Resolve q c t out wait d)"
  unfolding Client_Resolve_def
  by (intro preserves_rules, erule inv_doJSON) (auto simp: own_request_def dest: executionLease_own)

lemma inv_ActiveTask:
  assumes "task_inv q c i owner I"
  shows "hoare I (ActiveTask q c j) (\<lambda>t s. I s \<and> t_id t = j) (\<lambda>_. I)"
proof -
  have "preserves I (doJSON q (newRequest c [] (Get_task (Itoa_signed j))))"
    by (rule inv_doJSON [OF assms]) (simp add: own_request_def)
  then show ?thesis unfolding ActiveTask_def
    by (rule hoare_bind) (auto simp: hoare_def split: option.split payload.split)
qed

text \<open>The programs that handle their errors never return one.\<close>

abbreviation settles :: "('s \<Rightarrow> bool) \<Rightarrow> ('s, 'e, 'a) prog \<Rightarrow> ('a \<Rightarrow> 's \<Rightarrow> bool) \<Rightarrow> bool" where
  "settles I m Q \<equiv> hoare I m (\<lambda>a s. I s \<and> Q a s) (\<lambda>_ _. False)"

lemma settles_returns:
  assumes "hoare P m Q (\<lambda>_ _. False)" "P s"
  shows "\<exists>a n' s'. m w n s = (Inr a, n', s') \<and> Q a s'"
  using hoareD_ok [OF assms] hoareD_err [OF assms]
  by (cases "m w n s"; cases "fst (m w n s)") auto

lemma hoare_now: "(\<And>now. hoare I (f now) Q E) \<Longrightarrow> hoare I (bindP time_now f) Q E"
  by (rule hoare_bind [where R = "\<lambda>_. I"]) (simp_all add: hoare_def)

lemma settles_ret: "(\<And>s. I s \<Longrightarrow> Q x s) \<Longrightarrow> settles I (ret x) Q"
  by (simp add: hoare_def)

lemma settles_attempt:
  "hoare I m (\<lambda>_ s. I s \<and> R s) (\<lambda>_. I) \<Longrightarrow> settles I (attempt_of m) (\<lambda>err s. err = None \<longrightarrow> R s)"
  unfolding attempt_of_def by (rule hoare_tryP, erule hoare_bind) (auto simp: hoare_def)

lemma settles_report_loop:
  assumes "hoare I m (\<lambda>_ s. I s \<and> R s) (\<lambda>_. I)"
  shows "settles I (report_loop m ended a k) (\<lambda>b s. b \<longrightarrow> R s)"
proof (induction k arbitrary: a)
  case (Suc k)
  show ?case unfolding report_loop.simps
  proof (rule hoare_bind [OF settles_attempt [OF assms]])
    fix err
    show "hoare (\<lambda>s. I s \<and> (err = None \<longrightarrow> R s)) (case err of
          None \<Rightarrow> ret True
        | Some e \<Rightarrow> if e = EConflict \<or> a = resultReportAttempts then ret False
            else if ended a then ret False else report_loop m ended (a + 1) k)
        (\<lambda>b s. I s \<and> (b \<longrightarrow> R s)) (\<lambda>_ _. False)"
      using Suc by (cases err) (auto simp: hoare_def [of _ "ret _"])
  qed
qed (simp add: hoare_def)

lemma settles_reportOutcome:
  "hoare I m (\<lambda>_ s. I s \<and> R s) (\<lambda>_. I) \<Longrightarrow> settles I (reportOutcome m ended) (\<lambda>b s. b \<longrightarrow> R s)"
  unfolding reportOutcome_def by (rule settles_report_loop)

lemma inv_report_of: "task_inv q c (t_id t) (t_leaseOwner t) I \<Longrightarrow> preserves I (report_of q c t d out)"
  by (cases out) (auto simp: report_of_def intro: inv_Finalize inv_Resolve)

lemma settles_archive_loop:
  assumes "task_inv q c (t_id t) (t_leaseOwner t) I"
  shows "hoare I (archive_loop q c t ended a k) (\<lambda>_. I) (\<lambda>_ _. False)"
proof (induction k arbitrary: a)
  case (Suc k)
  let ?again = "if ended a then ret () else archive_loop q c t ended (a + 1) k"
  have stops: "hoare I (ret ()) (\<lambda>_. I) (\<lambda>(_ :: worker_error) _. False)" by (simp add: hoare_def)
  have again: "hoare I ?again (\<lambda>_. I) (\<lambda>_ _. False)" using Suc stops by auto
  have look: "hoare I (tryP (bindP (ActiveTask q c (t_id t)) (\<lambda>latest. ret (Inr latest))) (\<lambda>e. ret (Inl e)))
     (\<lambda>r s. I s \<and> (\<forall>latest. r = Inr latest \<longrightarrow> t_id latest = t_id t)) (\<lambda>_ _. False)"
    by (rule hoare_tryP, rule hoare_bind [OF inv_ActiveTask [OF assms]]) (auto simp: hoare_def)
  have resolve: "hoare I (bindP (attempt_of (Client_Resolve q c latest ''failure'' None 0)) (\<lambda>err.
        case err of None \<Rightarrow> ret () | Some e \<Rightarrow> ?again)) (\<lambda>_. I) (\<lambda>_ _. False)"
    if "t_id latest = t_id t" "t_leaseOwner latest = t_leaseOwner t" for latest
  proof (rule hoare_bind [where R = "\<lambda>_. I"])
    have "preserves I (Client_Resolve q c latest ''failure'' None 0)"
      using inv_Resolve [of q c latest I] assms that by simp
    then show "hoare I (attempt_of (Client_Resolve q c latest ''failure'' None 0)) (\<lambda>_. I) (\<lambda>_ _. False)"
      using settles_attempt [of I _ "\<lambda>_. True"] by simp
  qed (use stops again in \<open>auto split: option.split\<close>)
  show ?case unfolding archive_loop.simps Let_def
  proof (rule hoare_bind [OF look], rule hoare_assume)
    fix r :: "worker_error + Task"
    assume r: "\<forall>latest. r = Inr latest \<longrightarrow> t_id latest = t_id t"
    show "hoare I (case r of
        Inl e \<Rightarrow> if e = ETaskNotFound then ret () else ?again
      | Inr latest \<Rightarrow> bindP time_now (\<lambda>now.
          if t_leaseOwner latest \<noteq> t_leaseOwner t \<or> (case t_leaseExpires latest of None \<Rightarrow> True | Some e \<Rightarrow> e \<le> now)
          then ret ()
          else bindP (attempt_of (Client_Resolve q c latest ''failure'' None 0)) (\<lambda>err.
            case err of None \<Rightarrow> ret () | Some e \<Rightarrow> ?again))) (\<lambda>_. I) (\<lambda>_ _. False)"
    proof (cases r)
      case (Inr latest)
      then have "t_id latest = t_id t" using r by simp
      from resolve [OF this] show ?thesis
        unfolding Inr sum.case by (intro hoare_now) (simp add: stops)
    qed (use stops again in simp)
  qed
qed (simp add: hoare_def)

lemma settles_archiveInterrupted:
  "task_inv q c (t_id t) (t_leaseOwner t) I \<Longrightarrow> hoare I (archiveInterruptedTask q c t ended) (\<lambda>_. I) (\<lambda>_ _. False)"
  unfolding archiveInterruptedTask_def by (rule settles_archive_loop)

text \<open>Heartbeats.\<close>

abbreviation session_ok :: "Task \<Rightarrow> leaseSession \<Rightarrow> bool" where
  "session_ok t ses \<equiv> same_execution t (ls_task ses)"

lemma inv_session_renew:
  assumes "task_inv q c (t_id t) (t_leaseOwner t) I" "session_ok t ses"
  shows "hoare I (session_renew q c ses d) (\<lambda>ses' s. I s \<and> session_ok t ses') (\<lambda>_ _. False)"
proof (cases "ls_err ses")
  case None
  have "task_inv q c (t_id (ls_task ses)) (t_leaseOwner (ls_task ses)) I"
    using assms by (simp add: same_execution_def)
  from inv_Renew [OF this, of d] show ?thesis
    unfolding session_renew_def None option.case
    by (rule hoare_tryP [OF hoare_bind]) (use assms(2) in \<open>auto simp: hoare_def same_execution_def\<close>)
qed (use assms(2) in \<open>simp add: session_renew_def hoare_def\<close>)

lemma inv_look:
  "session_ok t ses \<Longrightarrow> hoare I (look ses) (\<lambda>ses' s. I s \<and> session_ok t ses') (\<lambda>_ _. False)"
  by (auto simp: look_def hoare_def bindP_def split: option.split)

lemma inv_heartbeat:
  assumes "task_inv q c (t_id t) (t_leaseOwner t) I"
  shows "session_ok t ses \<Longrightarrow> hoare I (heartbeat q c bs ses) (\<lambda>ses' s. I s \<and> session_ok t ses') (\<lambda>_ _. False)"
proof (induction bs arbitrary: ses)
  case (Cons b bs)
  have next_beats: "hoare (\<lambda>s. I s \<and> session_ok t ses') (heartbeat q c bs ses')
      (\<lambda>ses'' s. I s \<and> session_ok t ses'') (\<lambda>_ _. False)" for ses'
    using Cons.IH by (rule hoare_assume)
  have looked: "hoare (\<lambda>s. I s \<and> session_ok t ses') (bindP (look ses') (\<lambda>ses''. heartbeat q c bs ses''))
      (\<lambda>ses'' s. I s \<and> session_ok t ses'') (\<lambda>_ _. False)" for ses'
    by (rule hoare_assume, rule hoare_bind [OF inv_look next_beats])
  show ?case
  proof (cases b)
    case Timer
    show ?thesis unfolding Timer heartbeat.simps
      by (rule hoare_bind [OF inv_session_renew [OF assms Cons.prems]])
         (auto split: option.split simp: looked hoare_def [of _ "ret _"])
  next
    case (ByHandler d)
    show ?thesis unfolding ByHandler heartbeat.simps
      by (rule hoare_bind [OF inv_session_renew [OF assms Cons.prems] next_beats])
  qed
qed (simp add: hoare_def)

lemma inv_startHeartbeat:
  assumes "task_inv q c (t_id t) (t_leaseOwner t) I"
  shows "hoare I (startHeartbeat q c bs t) (\<lambda>ses s. I s \<and> session_ok t ses) (\<lambda>_ _. False)"
  unfolding startHeartbeat_def
  by (rule hoare_bind [OF inv_look [of t]]) (auto intro: hoare_assume inv_heartbeat [OF assms])

lemma inv_protocol: "task_inv q c i owner I \<Longrightarrow> preserves I (RequireExecutionProtocol q c)"
  unfolding RequireExecutionProtocol_def
  by (rule hoare_bind, erule inv_doJSON) (auto simp: own_request_def hoare_def split: option.split payload.split)

lemma inv_confirm:
  assumes "task_inv q c (t_id t) (t_leaseOwner t) I"
  shows "hoare I (confirm_ownership q c t) (\<lambda>o' s. I s \<and> (\<forall>t'. o' = Some t' \<longrightarrow> same_execution t t')) (\<lambda>_ _. False)"
  unfolding confirm_ownership_def
  by (rule hoare_tryP [where R = "\<lambda>_. I"], rule hoare_bind [OF inv_protocol [OF assms]])
     (auto split: option.split intro!: hoare_bind [OF inv_Renew [OF assms]] simp: hoare_def [of _ "ret _"])

section \<open>The counters of a worker\<close>

definition at_counts :: "('s \<Rightarrow> bool) \<Rightarrow> int \<Rightarrow> int \<Rightarrow> 's worker_state \<Rightarrow> bool" where
  "at_counts I p a s \<longleftrightarrow> I (ws_store s) \<and> ws_processed s = p \<and> ws_active s = a"

lemma hoare_on_store:
  "hoare I m Q E \<Longrightarrow> hoare (at_counts I p a) (on_store m) (\<lambda>x. at_counts (Q x) p a) (\<lambda>e. at_counts (E e) p a)"
  by (fastforce simp: hoare_def on_store_def at_counts_def split: prod.splits sum.splits)

lemma settles_on_store:
  "hoare I m Q (\<lambda>_ _. False) \<Longrightarrow> hoare (at_counts I p a) (on_store m) (\<lambda>x. at_counts (Q x) p a) (\<lambda>_ _. False)"
  by (erule hoare_weaken [OF hoare_on_store]) (simp_all add: at_counts_def)

lemma at_counts_assume:
  "(b \<Longrightarrow> hoare (at_counts I p a) m Q E) \<Longrightarrow> hoare (at_counts (\<lambda>s. I s \<and> b) p a) m Q E"
  by (cases b) (simp_all add: at_counts_def hoare_def)

lemma hoare_count_up:
  "hoare (at_counts I p a) (count_up dp df da) (\<lambda>_. at_counts I (p + dp) (a + da)) (\<lambda>_ _. False)"
  by (simp add: hoare_def count_up_def at_counts_def)

text \<open>A completed task is counted only with what the confirmation of \<open>Finalize\<close> establishes.\<close>

definition counted_once :: "('s \<Rightarrow> bool) \<Rightarrow> ('s \<Rightarrow> bool) \<Rightarrow> int \<Rightarrow> int \<Rightarrow> 's worker_state \<Rightarrow> bool" where
  "counted_once I R p a s \<longleftrightarrow> at_counts I p a s \<or> at_counts (\<lambda>t. I t \<and> R t) (p + 1) a s"

lemma count_of_processed: "fst (count_of out) = 0 \<or> fst (count_of out) = 1"
  by (cases out) (simp_all add: count_of_def)

lemma settle_counts:
  assumes inv: "task_inv q c (t_id t) (t_leaseOwner t) I"
    and fin: "\<And>co. hoare I (Client_Finalize q c t co) (\<lambda>_ s. I s \<and> R s) (\<lambda>_. I)"
  shows "hoare (at_counts I p a) (settle q c env out t) (\<lambda>_. counted_once I R p a) (\<lambda>_ _. False)"
proof -
  let ?R = "\<lambda>s. fst (count_of out) = 1 \<longrightarrow> R s"
  have resolve: "hoare I (Client_Resolve q c t o' wait d) (\<lambda>_ s. I s) (\<lambda>_. I)" for o' wait d
    by (rule inv_Resolve [OF inv])
  have "hoare I (report_of q c t (re_duration env) out) (\<lambda>_ s. I s \<and> ?R s) (\<lambda>_. I)"
    using fin resolve by (cases out) (simp_all add: report_of_def count_of_def)
  note rep = settles_on_store [OF settles_reportOutcome [OF this]]
  have count: "hoare (at_counts (\<lambda>s. I s \<and> (b \<longrightarrow> ?R s)) p a)
      (if b then count_up (fst (count_of out)) (snd (count_of out)) 0 else ret ())
      (\<lambda>_ s. counted_once I R p a s \<and> (\<not> b \<longrightarrow> at_counts I p a s)) (\<lambda>_ _. False)" for b
    using count_of_processed [of out]
    by (auto simp: hoare_def count_up_def at_counts_def counted_once_def)
  have archive: "hoare (at_counts I p a) (on_store (archiveInterruptedTask q c t ended)) (\<lambda>_. counted_once I R p a) (\<lambda>_ _. False)"
    for ended
    by (rule hoare_weaken [OF settles_on_store [OF settles_archiveInterrupted [OF inv]]]) (auto simp: counted_once_def)
  have last: "hoare (\<lambda>s. counted_once I R p a s \<and> (\<not> b \<longrightarrow> at_counts I p a s))
      (if re_drained env \<and> \<not> b then on_store (archiveInterruptedTask q c t (re_archive_ended env)) else ret ())
      (\<lambda>_. counted_once I R p a) (\<lambda>_ _. False)" for b
    by (auto simp: hoare_def [of _ "ret _"] intro: hoare_pre [OF archive])
  show ?thesis
    unfolding settle_def by (rule hoare_bind [OF rep]) (rule hoare_bind [OF count], rule last)
qed

lemma execute_counts:
  assumes inv: "task_inv q c (t_id t) (t_leaseOwner t) I"
    and fin: "\<And>t' co. same_execution t t' \<Longrightarrow> hoare I (Client_Finalize q c t' co) (\<lambda>_ s. I s \<and> R s) (\<lambda>_. I)"
  shows "hoare (at_counts I p a) (execute q c env h t) (\<lambda>_. counted_once I R p a) (\<lambda>_ _. False)"
  unfolding execute_def
proof (rule hoare_bind [OF settles_on_store [OF inv_startHeartbeat [OF inv]]])
  fix ses
  show "hoare (at_counts (\<lambda>s. I s \<and> session_ok t ses) p a)
     (if re_interrupted env then on_store (archiveInterruptedTask q c (ls_task ses) (re_archive_ended env))
      else (case ls_err ses of
             Some e \<Rightarrow> ret ()
           | None \<Rightarrow> settle q c env (re_handler env h t) (ls_task ses)))
     (\<lambda>_. counted_once I R p a) (\<lambda>_ _. False)"
  proof (rule at_counts_assume)
    assume same: "session_ok t ses"
    then have inv': "task_inv q c (t_id (ls_task ses)) (t_leaseOwner (ls_task ses)) I"
      using inv by (simp add: same_execution_def)
    have "hoare (at_counts I p a) (on_store (archiveInterruptedTask q c (ls_task ses) (re_archive_ended env)))
        (\<lambda>_. counted_once I R p a) (\<lambda>_ _. False)"
      by (rule hoare_weaken [OF settles_on_store [OF settles_archiveInterrupted [OF inv']]]) (auto simp: counted_once_def)
    moreover have "hoare (at_counts I p a) (settle q c env (re_handler env h t) (ls_task ses))
        (\<lambda>_. counted_once I R p a) (\<lambda>_ _. False)"
      by (rule settle_counts [OF inv' fin [OF same]])
    ultimately show "hoare (at_counts I p a)
       (if re_interrupted env then on_store (archiveInterruptedTask q c (ls_task ses) (re_archive_ended env))
        else (case ls_err ses of
               Some e \<Rightarrow> ret ()
             | None \<Rightarrow> settle q c env (re_handler env h t) (ls_task ses)))
       (\<lambda>_. counted_once I R p a) (\<lambda>_ _. False)"
      by (auto split: option.split simp: hoare_def [of _ "ret _"] counted_once_def)
  qed
qed

lemma process_counts:
  assumes inv: "task_inv q c (t_id t) (t_leaseOwner t) I"
    and fin: "\<And>t' co. same_execution t t' \<Longrightarrow> hoare I (Client_Finalize q c t' co) (\<lambda>_ s. I s \<and> R s) (\<lambda>_. I)"
  shows "hoare (at_counts I p a) (processTask q c r env t) (\<lambda>_. counted_once I R p a) (\<lambda>_ _. False)"
proof -
  have down: "hoare (counted_once I R p (a + 1)) (count_up 0 0 (- 1)) (\<lambda>_. counted_once I R p a) (\<lambda>(_ :: worker_error) _. False)"
    by (auto simp: hoare_def count_up_def counted_once_def at_counts_def)
  have up: "hoare (at_counts I p a) (count_up 0 0 1) (\<lambda>_. at_counts I p (a + 1)) (\<lambda>(_ :: worker_error) _. False)"
    using hoare_count_up [of I p a 0 0 1] by simp
  have none: "hoare (at_counts I p (a + 1)) (bindP (on_store (attempt_of (Client_Resolve q c t ''failure'' None 0)))
      (\<lambda>_. count_up 0 1 0)) (\<lambda>_. counted_once I R p (a + 1)) (\<lambda>_ _. False)"
  proof (rule hoare_bind [where R = "\<lambda>_. at_counts I p (a + 1)"])
    show "hoare (at_counts I p (a + 1)) (on_store (attempt_of (Client_Resolve q c t ''failure'' None 0)))
        (\<lambda>_. at_counts I p (a + 1)) (\<lambda>_ _. False)"
      using settles_on_store [OF settles_attempt [of I "Client_Resolve q c t ''failure'' None 0" "\<lambda>_. True"]]
        inv_Resolve [OF inv] by simp
    show "hoare (at_counts I p (a + 1)) (count_up 0 1 0) (\<lambda>_. counted_once I R p (a + 1)) (\<lambda>_ _. False)"
      by (auto simp: hoare_def count_up_def counted_once_def at_counts_def)
  qed
  have some: "hoare (at_counts I p (a + 1)) (bindP (on_store (confirm_ownership q c t)) (\<lambda>owned.
      case owned of None \<Rightarrow> ret () | Some t' \<Rightarrow> execute q c env h t'))
      (\<lambda>_. counted_once I R p (a + 1)) (\<lambda>_ _. False)" for h
  proof (rule hoare_bind [OF settles_on_store [OF inv_confirm [OF inv]]])
    fix owned
    have "hoare (at_counts I p (a + 1)) (execute q c env h t') (\<lambda>_. counted_once I R p (a + 1)) (\<lambda>_ _. False)"
      if "same_execution t t'" for t'
      using that inv by (intro execute_counts fin) (auto simp: same_execution_def)
    then show "hoare (at_counts (\<lambda>s. I s \<and> (\<forall>t'. owned = Some t' \<longrightarrow> same_execution t t')) p (a + 1))
       (case owned of None \<Rightarrow> ret () | Some t' \<Rightarrow> execute q c env h t')
       (\<lambda>_. counted_once I R p (a + 1)) (\<lambda>_ _. False)"
      by (intro at_counts_assume) (cases owned; simp add: hoare_def [of _ "ret _"] counted_once_def)
  qed
  show ?thesis unfolding processTask_def
    by (rule hoare_bind [OF up], rule hoare_bind [OF _ down]) (use none some in \<open>auto split: option.split\<close>)
qed

section \<open>Confirmed reports\<close>

lemma decode_ok: "decode resp = Inr d \<Longrightarrow> rs_error resp = None \<and> 200 \<le> rs_status resp \<and> rs_status resp < 300 \<and> d = rs_data resp"
  by (auto simp: decode_def not_less not_le split: option.splits prod.splits if_splits)

lemma doJSON_ok:
  assumes "doJSON q rq w n s = (Inr d, n', s')"
  obtains resp where "serve (q_deps q) rq w (Suc n) (q_interf q n s) = (Inr resp, n', s')" "decode resp = Inr d"
  using assms
  by (auto simp: doJSON_def bindP_def exchange_def Let_def split: prod.splits sum.splits fault.splits)

lemma doJSON_call:
  assumes "doJSON (mysql_queue cfg digest token sch interf) (newRequest c owner call) w n s = (Inr d, n', s')"
    and "call_op (newRequest c owner call) call = Some opn \<or> call \<noteq> Get_meta"
  shows "\<exists>opn. call_op (newRequest c owner call) call = Some opn \<and>
     run_op cfg digest opn w (Suc n) (interf n s) = (Inr (), snd (run_op cfg digest opn w (Suc n) (interf n s))) \<and>
     s' = final (run_op cfg digest opn w (Suc n) (interf n s))"
proof -
  let ?rq = "newRequest c owner call" and ?deps = "mysql_deps cfg digest token sch"
  obtain resp where resp: "serve ?deps ?rq w (Suc n) (interf n s) = (Inr resp, n', s')" "decode resp = Inr d"
    using doJSON_ok [OF assms(1)] by (auto simp: mysql_queue_def)
  note dec = decode_ok [OF resp(2)]
  have spec: "case http_op ?deps ?rq of
        None \<Rightarrow> s' = interf n s \<and> (rq_call ?rq = Get_meta \<or> rs_status resp \<in> {400, 401})
      | Some opn \<Rightarrow> s' = final (run_op cfg digest opn w (Suc n) (interf n s)) \<and>
          answers opn (result (run_op cfg digest opn w (Suc n) (interf n s))) resp"
    using mysql_serves [of cfg digest token sch ?rq w "Suc n" "interf n s"] resp(1) by (auto split: option.splits)
  have call: "rq_call ?rq = call" by (simp add: newRequest_def)
  show ?thesis
  proof (cases "http_op ?deps ?rq")
    case None
    then show ?thesis using spec dec assms(2) resp(1)
      by (auto simp: call http_op_def serve_def HFail_def split: if_splits)
  next
    case (Some opn)
    then have opn: "call_op ?rq call = Some opn" by (auto simp: http_op_def call split: if_splits)
    show ?thesis
      using spec Some opn dec
      by (cases "run_op cfg digest opn w (Suc n) (interf n s)"; cases "fst (run_op cfg digest opn w (Suc n) (interf n s))")
         (auto simp: answers_def HFail_def split: if_splits)
  qed
qed

lemma discard_ok: "discard m w n s = (Inr (), n', s') \<Longrightarrow> \<exists>a. m w n s = (Inr a, n', s')"
  by (cases "m w n s"; cases "fst (m w n s)") (auto simp: discard_def bindP_def)

text \<open>The task has been archived as a success under a window of this execution.\<close>

definition receipt_for :: "Task \<Rightarrow> 'x queue_db_scheme \<Rightarrow> bool" where
  "receipt_for t s \<longleftrightarrow> (\<exists>e. has_receipt \<lparr>l_taskID = t_id t, l_leaseOwner = t_leaseOwner t, l_leaseExpires = e\<rparr> s)"

lemma executionLease_Some:
  "executionLease t = Some l \<longleftrightarrow> t_leaseOwner t \<noteq> [] \<and>
     (\<exists>e. t_leaseExpires t = Some e \<and> l = \<lparr>l_taskID = t_id t, l_leaseOwner = t_leaseOwner t, l_leaseExpires = e\<rparr>)"
  by (auto simp: executionLease_def split: option.splits)

lemma Client_Finalize_ok:
  assumes "Client_Finalize (mysql_queue cfg digest token sch interf) c t co w n s = (Inr (), n', s')"
    and "tables_ok (interf n s)"
  shows "receipt_for t s'"
proof -
  obtain l where l: "executionLease t = Some l"
    using assms(1) by (cases "executionLease t") (auto simp: Client_Finalize_def)
  let ?req = "\<lparr>fin_lease = l, fin_duration = co_duration co, fin_followups = co_followups co\<rparr>"
  from assms(1) obtain d where
    "doJSON (mysql_queue cfg digest token sch interf) (newRequest c [] (Post_finalize (Some ?req))) w n s = (Inr d, n', s')"
    by (auto simp: Client_Finalize_def l elim!: bindP_cases)
  from doJSON_call [OF this] have
    "run_op cfg digest (OpFinalize ?req) w (Suc n) (interf n s) = (Inr (), snd (run_op cfg digest (OpFinalize ?req) w (Suc n) (interf n s)))"
    "s' = final (run_op cfg digest (OpFinalize ?req) w (Suc n) (interf n s))"
    by (auto split: if_splits)
  then obtain n2 where "discard (Finalize ?req) w (Suc n) (interf n s) = (Inr (), n2, s')"
    by (cases "run_op cfg digest (OpFinalize ?req) w (Suc n) (interf n s)") simp
  then have "Finalize ?req w (Suc n) (interf n s) = (Inr (), n2, s')" using discard_ok [of "Finalize ?req"] by auto
  from this assms(2) have "has_receipt l s'"
  proof (cases rule: Finalize_cases)
    case unchanged
    then show ?thesis by (simp add: has_receipt_same)
  next
    case (archived row ts now m)
    then show ?thesis using finalize_effect_receipt [OF assms(2) archived(1,2)] by simp
  qed
  then show ?thesis using l by (auto simp: receipt_for_def executionLease_Some)
qed

lemma others_step: "others_act interf \<Longrightarrow> tables_ok s0 \<Longrightarrow> good s0 s \<Longrightarrow> good s0 (interf n s)"
  using good_trans [of s0 s "interf n s"] good_ok [of s0 s] by (simp add: others_act_def)

lemma good_task_inv:
  assumes "others_act interf" "tables_ok s0"
  shows "task_inv (mysql_queue cfg digest token sch interf) c i owner (good s0)"
  unfolding task_inv_def
proof (intro allI impI preserves_exchange)
  show "good s0 s \<Longrightarrow> good s0 (q_interf (mysql_queue cfg digest token sch interf) n s)" for n s
    using others_step [OF assms] by (simp add: mysql_queue_def)
qed (simp add: mysql_queue_def serve_good [OF assms(2)])

lemma Finalize_confirms:
  assumes "others_act interf" "tables_ok s0" "same_execution t t'"
  shows "hoare (good s0) (Client_Finalize (mysql_queue cfg digest token sch interf) c t' co)
     (\<lambda>_ s. good s0 s \<and> receipt_for t s) (\<lambda>_. good s0)"
proof (rule hoareI)
  let ?q = "mysql_queue cfg digest token sch interf"
  note inv = inv_Finalize [OF good_task_inv [OF assms(1,2)]]
  fix w n s n' s' a
  assume s: "good s0 s" and run: "Client_Finalize ?q c t' co w n s = (Inr a, n', s')"
  have "tables_ok (interf n s)" by (rule good_ok [OF others_step [OF assms(1,2) s]])
  then have "receipt_for t' s'"
    using Client_Finalize_ok [of cfg digest token sch interf c t' co w n s n' s'] run by simp
  then have "receipt_for t s'" using assms(3) by (simp add: receipt_for_def same_execution_def)
  then show "good s0 s' \<and> receipt_for t s'" using hoareD_ok [OF inv s run] by simp
next
  let ?q = "mysql_queue cfg digest token sch interf"
  fix w n s n' s' e
  assume "good s0 s" "Client_Finalize ?q c t' co w n s = (Inl e, n', s')"
  then show "good s0 s'" using hoareD_err [OF inv_Finalize [OF good_task_inv [OF assms(1,2)]]] by blast
qed

section \<open>The windows of others\<close>

definition keeps_window :: "ExecutionLease \<Rightarrow> (nat \<Rightarrow> sched_db \<Rightarrow> sched_db) \<Rightarrow> bool" where
  "keeps_window l interf \<longleftrightarrow> (\<forall>n s. tables_ok s \<longrightarrow> holds l s \<longrightarrow> tables_ok (interf n s) \<and> holds l (interf n s))"

lemma own_call_keeps:
  assumes "own_request i owner call" "owner \<noteq> l_leaseOwner l" "call_op rq call = Some opn"
  shows "keeps_ok l (run_op cfg digest opn)"
proof -
  have "l' \<noteq> l" if "l_leaseOwner l' = owner" for l' using that assms(2) by auto
  then have "l_leaseOwner (fin_lease req) = owner \<Longrightarrow> keeps_ok l (run_op cfg digest (OpFinalize req))"
    "l_leaseOwner (ren_lease rn) = owner \<Longrightarrow> keeps_ok l (run_op cfg digest (OpRenew rn))"
    "l_leaseOwner (res_lease rs) = owner \<Longrightarrow> keeps_ok l (run_op cfg digest (OpResolve rs))"
    "keeps_ok l (run_op cfg digest (OpGetTask j))" for req rn rs j
    by (simp_all add: hoare_discard keeps_Finalize keeps_Renew keeps_Resolve keeps_ok [OF keeps_calls(3)])
  note kept = this
  from assms(1,3) show ?thesis
    by (cases "(rq, call)" rule: call_op.cases)
       (auto simp: own_request_def kept simp del: run_op.simps split: if_splits)
qed

text \<open>What the other clients and the calls of an execution keep, every request of the execution keeps.\<close>

lemma kept_task_inv:
  assumes others: "\<And>n s. tables_ok s \<Longrightarrow> J s \<Longrightarrow> tables_ok (interf n s) \<and> J (interf n s)"
    and own: "\<And>rq call opn w n s. own_request i owner call \<Longrightarrow> call_op rq call = Some opn \<Longrightarrow> tables_ok s \<Longrightarrow> J s \<Longrightarrow>
      J (final (run_op cfg digest opn w n s))"
  shows "task_inv (mysql_queue cfg digest token sch interf) c i owner (\<lambda>s. tables_ok s \<and> J s)"
  unfolding task_inv_def
proof (intro allI impI preserves_exchange)
  fix call w n and s :: sched_db
  assume req: "own_request i owner call" and s: "tables_ok s \<and> J s"
  let ?rq = "newRequest c [] call"
  let ?s = "final (serve (mysql_deps cfg digest token sch) ?rq w n s)"
  have "?s = s \<or> (\<exists>opn. call_op ?rq call = Some opn \<and> ?s = final (run_op cfg digest opn w n s))"
    using mysql_serves [of cfg digest token sch ?rq w n s]
    by (auto simp: http_op_def newRequest_def split: option.splits if_splits)
  then have "tables_ok ?s \<and> J ?s"
  proof (elim disjE exE conjE)
    fix opn
    assume opn: "call_op ?rq call = Some opn" "?s = final (run_op cfg digest opn w n s)"
    have "any_call cfg digest s ?s" unfolding any_call_def opn(2) by (metis prod.collapse)
    then have "tables_ok ?s" using any_call_good s good_ok by blast
    then show ?thesis using own [OF req opn(1), of s w n] s opn(2) by simp
  qed (simp add: s)
  then show "tables_ok (final (serve (q_deps (mysql_queue cfg digest token sch interf)) ?rq w n s)) \<and>
      J (final (serve (q_deps (mysql_queue cfg digest token sch interf)) ?rq w n s))"
    by (simp add: mysql_queue_def)
qed (use others in \<open>simp_all add: mysql_queue_def\<close>)

lemma process_keeps:
  assumes "task_inv q c (t_id t) (t_leaseOwner t) I" "I (ws_store s)"
  shows "I (ws_store (final (processTask q c r env t w n s)))"
proof -
  have fin: "hoare I (Client_Finalize q c t' co) (\<lambda>_ s. I s \<and> True) (\<lambda>_. I)" if "same_execution t t'" for t' co
    using inv_Finalize [of _ _ t'] assms(1) that by (simp add: same_execution_def)
  have run: "hoare (at_counts I (ws_processed s) (ws_active s)) (processTask q c r env t)
      (\<lambda>_. counted_once I (\<lambda>_. True) (ws_processed s) (ws_active s)) (\<lambda>_ _. False)"
    by (rule process_counts [OF assms(1) fin])
  have "at_counts I (ws_processed s) (ws_active s) s" using assms(2) by (simp add: at_counts_def)
  from settles_returns [OF run this] obtain a n' s' where "processTask q c r env t w n s = (Inr a, n', s')"
    "counted_once I (\<lambda>_. True) (ws_processed s) (ws_active s) s'" by blast
  then show ?thesis by (auto simp: counted_once_def at_counts_def)
qed

lemma window_task_inv:
  assumes "owner \<noteq> l_leaseOwner l" "keeps_window l interf"
  shows "task_inv (mysql_queue cfg digest token sch interf) c i owner (\<lambda>s. tables_ok s \<and> holds l s)"
proof (rule kept_task_inv)
  show "holds l (final (run_op cfg digest opn w n s))"
    if "own_request i owner call" "call_op rq call = Some opn" "tables_ok s" "holds l s" for rq call opn w n and s :: sched_db
    using hoareD_inv [OF own_call_keeps [OF that(1) assms(1) that(2)], of s cfg digest w n] that(3,4) by simp
qed (use assms(2) in \<open>simp add: keeps_window_def\<close>)

text \<open>Whose executions of a task the archive records.\<close>

definition archived_under :: "int \<Rightarrow> string \<Rightarrow> 'x queue_db_scheme \<Rightarrow> bool" where
  "archived_under i owner s \<longleftrightarrow> (\<forall>a \<in> set (archivetask s). a_id a = i \<longrightarrow> a_leaseOwner a = Some owner)"

lemma lock_own: "hoare I (tryP (lockExecution l) (\<lambda>e. raise (f e))) (\<lambda>t s. I s \<and> t_leaseOwner t = l_leaseOwner l) (\<lambda>_. I)"
  by (rule hoareI)
     (auto simp: tryP_def holds_window_def split: prod.splits sum.splits dest!: lockExecution_ok lockExecution_err)

lemma archived_stmts:
  "preserves (archived_under i owner) (stmt err (update_rows P f))"
  "preserves (archived_under i owner) (stmt err (delete_activetask j))"
  "t_leaseOwner t = owner \<Longrightarrow> preserves (archived_under i owner) (stmt err (insert_archivetask (fenced_archive_of t l res dur now)))"
  by (rule preserves_stmt;
      auto simp: archived_under_def update_rows_def delete_activetask_def insert_archivetask_def fenced_archive_of_def)+

lemma archived_tx:
  "hoare (archived_under i owner) body (\<lambda>_. archived_under i owner) (\<lambda>_. archived_under i owner) \<Longrightarrow>
   preserves (archived_under i owner) (in_tx body)"
  by (rule preserves_transaction) (simp_all add: archived_under_def)

lemma archived_Renew: "preserves (archived_under i owner) (Renew req)"
  unfolding Renew_def Let_def by (intro archived_tx preserves_rules archived_stmts hoare_weaken [OF lock_own]) auto

lemma archived_Resolve:
  "l_leaseOwner (res_lease req) = owner \<Longrightarrow> preserves (archived_under i owner) (Resolve cfg req)"
  unfolding Resolve_def Let_def
  by (rule archived_tx, rule hoare_bind [OF lock_own], rule hoare_assume, intro preserves_rules archived_stmts) simp_all

lemma archived_Finalize:
  assumes "tables_ok s" "archived_under i owner s" "l_leaseOwner (fin_lease req) = owner" "Finalize req w n s = (r, n', s')"
  shows "archived_under i owner s'"
  using assms(4,1)
proof (cases rule: Finalize_cases)
  case unchanged
  then show ?thesis using assms(2) by (simp add: archived_under_def same_tablesD)
next
  case (archived row ts now m)
  then have "t_leaseOwner (scanTaskNoData row) = owner" using assms(3) by (simp add: holds_window_def)
  then show ?thesis using archived(5) assms(2)
    by (auto simp: archived_under_def finalize_effect_def Let_def enqueue_all_archive fenced_archive_of_def)
qed

definition spares :: "Task \<Rightarrow> (nat \<Rightarrow> sched_db \<Rightarrow> sched_db) \<Rightarrow> bool" where
  "spares t interf \<longleftrightarrow> (\<forall>n s. archived_under (t_id t) (t_leaseOwner t) s \<longrightarrow> archived_under (t_id t) (t_leaseOwner t) (interf n s))"

lemma archive_task_inv:
  assumes "others_act interf" "spares t interf"
  shows "task_inv (mysql_queue cfg digest token sch interf) c (t_id t) (t_leaseOwner t)
    (\<lambda>s. tables_ok s \<and> archived_under (t_id t) (t_leaseOwner t) s)"
proof (rule kept_task_inv)
  show "tables_ok (interf n s) \<and> archived_under (t_id t) (t_leaseOwner t) (interf n s)"
    if "tables_ok s" "archived_under (t_id t) (t_leaseOwner t) s" for n s
    using assms that good_ok [of s "interf n s"] by (simp add: others_act_def spares_def)
  fix rq call opn w n and s :: sched_db
  assume own: "own_request (t_id t) (t_leaseOwner t) call" "call_op rq call = Some opn"
    and s: "tables_ok s" "archived_under (t_id t) (t_leaseOwner t) s"
  have reads: "archived_under (t_id t) (t_leaseOwner t) (final (discard (GetTask j) w n s))" for j
    using hoareD_inv [OF hoare_discard [OF preserves_query [where I = "archived_under (t_id t) (t_leaseOwner t)"]] s(2)]
    unfolding GetTask_def .
  have fin: "archived_under (t_id t) (t_leaseOwner t) (final (discard (Finalize req) w n s))"
    if "l_leaseOwner (fin_lease req) = t_leaseOwner t" for req
    using archived_Finalize [OF s that] unfolding discard_final by (metis prod.collapse)
  have others: "archived_under (t_id t) (t_leaseOwner t) (final (discard (Renew rn) w n s))"
    "l_leaseOwner (res_lease rs) = t_leaseOwner t \<Longrightarrow> archived_under (t_id t) (t_leaseOwner t) (final (discard (Resolve cfg rs) w n s))" for rn rs
    using hoareD_inv [OF hoare_discard [OF archived_Renew] s(2)] hoareD_inv [OF hoare_discard [OF archived_Resolve] s(2)] by blast+
  from own show "archived_under (t_id t) (t_leaseOwner t) (final (run_op cfg digest opn w n s))"
    by (cases "(rq, call)" rule: call_op.cases) (auto simp: own_request_def reads fin others split: if_splits)
qed

section \<open>A run without faults\<close>

lemma doJSON_fine:
  assumes "fine w" "serve (q_deps q) rq w (Suc n) (q_interf q n s) = (Inr (OK d), n', s')"
  shows "doJSON q rq w n s = (Inr (Some d), n', s')"
  using assms by (simp add: doJSON_def bindP_def exchange_def decode_def OK_def)

definition client_ok :: "Client \<Rightarrow> string \<Rightarrow> bool" where
  "client_ok c token \<longleftrightarrow> token = [] \<or> cl_token c = token"

lemma token_client: "client_ok c token \<Longrightarrow> token_ok token b (newRequest c owner call)"
  by (auto simp: client_ok_def token_ok_def newRequest_def Let_def)

abbreviation window :: "Task \<Rightarrow> int \<Rightarrow> ExecutionLease" where
  "window t e \<equiv> \<lparr>l_taskID = t_id t, l_leaseOwner = t_leaseOwner t, l_leaseExpires = e\<rparr>"

text \<open>The worker holds the task, under a window that no reading of the clock has reached.\<close>

definition live_task :: "Task \<Rightarrow> world \<Rightarrow> sched_db \<Rightarrow> bool" where
  "live_task t w s \<longleftrightarrow> tables_ok s \<and> 0 < t_id t \<and> t_leaseOwner t \<noteq> [] \<and>
     (\<exists>e. t_leaseExpires t = Some e \<and> 0 < e \<and> (\<forall>m. w_clock w m < e) \<and> holds (window t e) s)"

definition polite :: "Task \<Rightarrow> (nat \<Rightarrow> sched_db \<Rightarrow> sched_db) \<Rightarrow> bool" where
  "polite t interf \<longleftrightarrow> (\<forall>e. keeps_window (window t e) interf)"

lemma polite_same: "polite t interf \<Longrightarrow> same_execution t t' \<Longrightarrow> polite t' interf"
  by (simp add: polite_def same_execution_def)

lemma live_interf: "live_task t w s \<Longrightarrow> polite t interf \<Longrightarrow> live_task t w (interf n s)"
  unfolding live_task_def polite_def keeps_window_def by blast

lemma Renew_fine:
  assumes "fine w" "tables_ok s" "holds l s" "\<And>m. w_clock w m < l_leaseExpires l"
  shows "\<exists>t e n' s'. Renew \<lparr>ren_lease = l, ren_duration = d\<rparr> w n s = (Inr t, n', s') \<and> t_id t = l_taskID l \<and>
     t_leaseOwner t = l_leaseOwner l \<and> t_leaseExpires t = Some e \<and> l_leaseExpires l \<le> e \<and>
     tables_ok s' \<and> holds (l\<lparr>l_leaseExpires := e\<rparr>) s'"
proof -
  obtain row where row: "select_active (l_taskID l) s = Some row" "holds_window l row"
    using holds_select [OF assms(2,3)] by blast
  note lock = lockExecution_fine [OF assms(1) row assms(4), of "Suc n"]
  let ?now = "w_clock w (n + 3)"
  let ?e = "max (?now + d) (l_leaseExpires l)"
  let ?s = "snd (update_rows (\<lambda>r. r_id r = r_id row) (\<lambda>r. r\<lparr>r_leaseExpires := Some ?e\<rparr>) s)"
  have run: "\<exists>n'. Renew \<lparr>ren_lease = l, ren_duration = d\<rparr> w n s =
      (Inr ((scanTaskNoData row)\<lparr>t_leaseExpires := Some ?e\<rparr>), n', ?s)"
    using lock assms(1)
    by (simp add: Renew_def transaction_fine tryP_def bindP_def stmt_def Let_def update_rows_def eval_nat_numeral)
  have id: "row \<in> set (activetask s)" "r_id row = l_taskID l" using select_active_Some [OF row(1)] by auto
  have own: "str_of (r_leaseOwner row) = l_leaseOwner l" using row(2) by (simp add: holds_window_def)
  obtain r0 where r0: "r0 \<in> set (activetask s)" "r_id r0 = l_taskID l" "r_leaseOwner r0 = Some (l_leaseOwner l)"
    using assms(3) by (auto simp: holds_def)
  then have "row = r0" using row_unique [OF assms(2) id(1) r0(1)] id(2) by simp
  then have "holds (l\<lparr>l_leaseExpires := ?e\<rparr>) ?s"
    using id r0 by (auto simp: holds_def update_rows_def intro!: bexI [of _ "row\<lparr>r_leaseExpires := Some ?e\<rparr>"] rev_image_eqI [of row])
  moreover have "tables_ok ?s"
  proof -
    have "any_call undefined undefined s (final (Renew \<lparr>ren_lease = l, ren_duration = d\<rparr> w n s))"
      unfolding any_call_def
      by (rule exI [of _ "OpRenew \<lparr>ren_lease = l, ren_duration = d\<rparr>"], rule exI [of _ w], rule exI [of _ n])
         (metis discard_final prod.collapse run_op.simps(12))
    then show ?thesis using run any_call_good [OF assms(2)] good_ok by fastforce
  qed
  ultimately show ?thesis
    using run id(2) own
    by (intro exI [of _ "(scanTaskNoData row)\<lparr>t_leaseExpires := Some ?e\<rparr>"] exI [of _ ?e]) auto
qed

lemma serve_renew:
  assumes "client_ok c token" "validExecutionLease (ren_lease req)" "ren_duration req \<in> {1..604800}"
    "Renew req w n s = (Inr t, n', s')"
  shows "serve (mysql_deps cfg digest token sch) (newRequest c owner (Post_renew (Some req))) w n s =
     (Inr (OK (PTask t)), n', s')"
  using assms token_client [OF assms(1)]
  by (simp add: serve_def mysql_deps_def mysql_ops_def h_renew_def tryP_def bindP_def newRequest_def)

lemma Client_renew_fine:
  assumes "fine w" "client_ok c token" "live_task t w s" "polite t interf" "d \<in> {1..604800}"
  shows "\<exists>t' n' s'. Client_renew (mysql_queue cfg digest token sch interf) c t d w n s = (Inr t', n', s') \<and>
     same_execution t t' \<and> live_task t' w s'"
proof -
  have "live_task t w (interf n s)" by (rule live_interf [OF assms(3,4)])
  then obtain e where e: "t_leaseExpires t = Some e" "0 < e" "\<And>m. w_clock w m < e" "holds (window t e) (interf n s)"
    "tables_ok (interf n s)" "0 < t_id t" "t_leaseOwner t \<noteq> []"
    unfolding live_task_def by blast
  obtain u e' n' s' where u: "Renew \<lparr>ren_lease = window t e, ren_duration = d\<rparr> w (Suc n) (interf n s) = (Inr u, n', s')"
    "t_id u = t_id t" "t_leaseOwner u = t_leaseOwner t" "t_leaseExpires u = Some e'" "e \<le> e'" "tables_ok s'"
    "holds (window t e') s'"
    using Renew_fine [OF assms(1) e(5,4), of d "Suc n"] e(3) by auto
  have "doJSON (mysql_queue cfg digest token sch interf)
      (newRequest c [] (Post_renew (Some \<lparr>ren_lease = window t e, ren_duration = d\<rparr>))) w n s = (Inr (Some (PTask u)), n', s')"
    by (rule doJSON_fine [OF assms(1)])
       (use serve_renew [OF assms(2) _ _ u(1)] e assms(5) in \<open>simp add: mysql_queue_def validExecutionLease_def\<close>)
  then have "Client_renew (mysql_queue cfg digest token sch interf) c t d w n s =
      (Inr (t\<lparr>t_leaseExpires := Some e'\<rparr>), n', s')"
    using e u by (simp add: Client_renew_def executionLease_def bindP_def)
  moreover have "live_task (t\<lparr>t_leaseExpires := Some e'\<rparr>) w s'"
    using e u by (auto simp: live_task_def) (meson less_le_trans)
  ultimately show ?thesis by (auto simp: same_execution_def)
qed

lemma protocol_fine:
  assumes "fine w" "client_ok c token"
  shows "\<exists>n'. RequireExecutionProtocol (mysql_queue cfg digest token None interf) c w n s = (Inr (), n', interf n s)"
proof -
  let ?caps = "\<lparr>ec_schedulerProtocol = 0, ec_schedulerAtomicEnqueue = False, ec_schedulerDatabaseID = [],
     ec_executionVersion = 1, ec_leaseOutcomes = True\<rparr>"
  have "serve (mysql_deps cfg digest token None) (newRequest c [] Get_meta) w (Suc n) (interf n s) =
      (Inr (OK (PCaps ?caps)), Suc n, interf n s)"
    using token_client [OF assms(2)]
    by (simp add: serve_def mysql_deps_def mysql_ops_def h_meta_def tryP_def newRequest_def)
  then have "doJSON (mysql_queue cfg digest token None interf) (newRequest c [] Get_meta) w n s =
      (Inr (Some (PCaps ?caps)), Suc n, interf n s)"
    by (intro doJSON_fine [OF assms(1)]) (simp add: mysql_queue_def)
  then show ?thesis by (simp add: RequireExecutionProtocol_def bindP_def)
qed

lemma confirm_fine:
  assumes "fine w" "client_ok c token" "live_task t w s" "polite t interf"
  shows "\<exists>t' n' s'. confirm_ownership (mysql_queue cfg digest token None interf) c t w n s = (Inr (Some t'), n', s') \<and>
     same_execution t t' \<and> live_task t' w s'"
proof -
  obtain n1 where n1: "RequireExecutionProtocol (mysql_queue cfg digest token None interf) c w n s = (Inr (), n1, interf n s)"
    using protocol_fine [OF assms(1,2)] by blast
  obtain t' n' s' where t': "Client_renew (mysql_queue cfg digest token None interf) c t 60 w n1 (interf n s) = (Inr t', n', s')"
    "same_execution t t'" "live_task t' w s'"
    using Client_renew_fine [OF assms(1,2) live_interf [OF assms(3,4)] assms(4), of 60 cfg digest None n1 n] by auto
  have "\<exists>l. executionLease t = Some l" using assms(3) by (auto simp: live_task_def executionLease_def)
  then show ?thesis using n1 t' by (auto simp: confirm_ownership_def tryP_def bindP_def)
qed

text \<open>The renewals a handler asks for are within the bounds the queue accepts.\<close>

definition beats_ok :: "beat list \<Rightarrow> bool" where
  "beats_ok bs \<longleftrightarrow> (\<forall>d. ByHandler d \<in> set bs \<longrightarrow> d \<in> {1..604800})"

lemma session_renew_fine:
  assumes "fine w" "client_ok c token" "live_task (ls_task ses) w s" "polite (ls_task ses) interf" "d \<in> {1..604800}"
    "ls_err ses = None"
  shows "\<exists>ses' n' s'. session_renew (mysql_queue cfg digest token sch interf) c ses d w n s = (Inr ses', n', s') \<and>
     ls_err ses' = None \<and> same_execution (ls_task ses) (ls_task ses') \<and> live_task (ls_task ses') w s'"
  using Client_renew_fine [OF assms(1-5), of cfg digest sch n] assms(6)
  by (auto simp: session_renew_def tryP_def bindP_def)

lemma look_fine:
  assumes "live_task (ls_task ses) w s" "ls_err ses = None"
  shows "look ses w n s = (Inr ses, Suc n, s)"
  using assms by (auto simp: look_def bindP_def live_task_def simp flip: not_less split: option.splits)

lemma heartbeat_fine:
  assumes "fine w" "client_ok c token"
  shows "live_task (ls_task ses) w s \<Longrightarrow> polite (ls_task ses) interf \<Longrightarrow> beats_ok bs \<Longrightarrow> ls_err ses = None \<Longrightarrow>
    \<exists>ses' n' s'. heartbeat (mysql_queue cfg digest token sch interf) c bs ses w n s = (Inr ses', n', s') \<and>
      ls_err ses' = None \<and> same_execution (ls_task ses) (ls_task ses') \<and> live_task (ls_task ses') w s'"
proof (induction bs arbitrary: ses n s)
  case (Cons b bs)
  let ?d = "case b of Timer \<Rightarrow> 60 | ByHandler d \<Rightarrow> d"
  have "?d \<in> {1..604800}" using Cons.prems(3) by (auto simp: beats_ok_def split: beat.split)
  from session_renew_fine [OF assms Cons.prems(1,2) this Cons.prems(4), of cfg digest sch n] obtain ses1 n1 s1 where
    one: "session_renew (mysql_queue cfg digest token sch interf) c ses ?d w n s = (Inr ses1, n1, s1)"
    "ls_err ses1 = None" "same_execution (ls_task ses) (ls_task ses1)" "live_task (ls_task ses1) w s1" by blast
  have ok: "beats_ok bs" "polite (ls_task ses1) interf"
    using Cons.prems(3) polite_same [OF Cons.prems(2) one(3)] by (auto simp: beats_ok_def)
  obtain ses2 n2 s2 where two:
    "heartbeat (mysql_queue cfg digest token sch interf) c bs ses1 w (case b of Timer \<Rightarrow> Suc n1 | _ \<Rightarrow> n1) s1 = (Inr ses2, n2, s2)"
    "ls_err ses2 = None" "same_execution (ls_task ses1) (ls_task ses2)" "live_task (ls_task ses2) w s2"
    using Cons.IH [OF one(4) ok(2,1) one(2)] by blast
  then show ?case
    using one look_fine [OF one(4,2), of n1]
    by (cases b) (auto simp: bindP_def same_execution_def)
qed auto

lemma startHeartbeat_fine:
  assumes "fine w" "client_ok c token" "live_task t w s" "polite t interf" "beats_ok bs"
  shows "\<exists>ses n' s'. startHeartbeat (mysql_queue cfg digest token sch interf) c bs t w n s = (Inr ses, n', s') \<and>
      ls_err ses = None \<and> same_execution t (ls_task ses) \<and> live_task (ls_task ses) w s'"
proof -
  let ?ses = "\<lparr>ls_task = t, ls_err = None\<rparr>"
  have "look ?ses w n s = (Inr ?ses, Suc n, s)" by (rule look_fine) (simp_all add: assms(3))
  then show ?thesis
    using heartbeat_fine [OF assms(1,2), of ?ses s interf bs cfg digest sch "Suc n"] assms(3-5)
    by (simp add: startHeartbeat_def bindP_def)
qed

definition completes :: "int \<Rightarrow> outcome \<Rightarrow> bool" where
  "completes durationUs out \<longleftrightarrow>
     (case out of
        HDone \<Rightarrow> 0 \<le> durationUs
      | HCompletion co \<Rightarrow> 0 \<le> co_duration co \<and> length (co_followups co) \<le> 1000 \<and>
          (\<forall>child \<in> set (co_followups co). er_taskClass child \<noteq> [])
      | _ \<Rightarrow> False)"

lemma serve_finalize:
  assumes "client_ok c token" "call_op (newRequest c owner (Post_finalize (Some req))) (Post_finalize (Some req)) = Some (OpFinalize req)"
    "result (Finalize req w n s) = Inr ()"
  shows "\<exists>n' s'. serve (mysql_deps cfg digest token sch) (newRequest c owner (Post_finalize (Some req))) w n s =
     (Inr (OK (PStatus ''finalized'')), n', s')"
  using assms token_client [OF assms(1)]
  by (cases "Finalize req w n s")
     (auto simp: serve_def mysql_deps_def mysql_ops_def h_finalize_def tryP_def bindP_def newRequest_def split: if_splits)

lemma Client_Finalize_fine:
  assumes "fine w" "client_ok c token" "live_task t w s" "polite t interf"
    "0 \<le> co_duration co" "length (co_followups co) \<le> 1000" "\<forall>child \<in> set (co_followups co). er_taskClass child \<noteq> []"
  shows "\<exists>n' s'. Client_Finalize (mysql_queue cfg digest token sch interf) c t co w n s = (Inr (), n', s') \<and> receipt_for t s'"
proof -
  let ?q = "mysql_queue cfg digest token sch interf"
  have "live_task t w (interf n s)" by (rule live_interf [OF assms(3,4)])
  then obtain e where e: "t_leaseExpires t = Some e" "0 < e" "\<And>m. w_clock w m < e" "holds (window t e) (interf n s)"
    "tables_ok (interf n s)" "0 < t_id t" "t_leaseOwner t \<noteq> []"
    unfolding live_task_def by blast
  let ?req = "\<lparr>fin_lease = window t e, fin_duration = co_duration co, fin_followups = co_followups co\<rparr>"
  have "result (Finalize ?req w (Suc n) (interf n s)) = Inr ()"
    by (rule Finalize_fine_result [OF assms(1) e(5)]) (use e in simp_all)
  then obtain n' s' where "serve (mysql_deps cfg digest token sch) (newRequest c [] (Post_finalize (Some ?req))) w (Suc n) (interf n s) =
      (Inr (OK (PStatus ''finalized'')), n', s')"
    using serve_finalize [OF assms(2), of "[]" ?req w "Suc n" "interf n s" cfg digest sch] e assms(5-7)
    by (auto simp: validExecutionLease_def)
  then have "doJSON ?q (newRequest c [] (Post_finalize (Some ?req))) w n s = (Inr (Some (PStatus ''finalized'')), n', s')"
    by (intro doJSON_fine [OF assms(1)]) (simp add: mysql_queue_def)
  then have "Client_Finalize ?q c t co w n s = (Inr (), n', s')"
    using e by (simp add: Client_Finalize_def executionLease_def bindP_def)
  then show ?thesis using Client_Finalize_ok e(5) by blast
qed

lemma report_first: "m w n s = (Inr (), n', s') \<Longrightarrow> reportOutcome m ended w n s = (Inr True, n', s')"
  by (simp add: reportOutcome_def resultReportAttempts_def eval_nat_numeral attempt_of_def tryP_def bindP_def)

lemma settle_fine:
  assumes "fine w" "client_ok c token" "live_task t w (ws_store s)" "polite t interf" "completes (re_duration env) out"
  shows "\<exists>n' s'. settle (mysql_queue cfg digest token sch interf) c env out t w n s = (Inr (), n', s') \<and>
     receipt_for t (ws_store s') \<and> ws_processed s' = ws_processed s + 1 \<and> ws_failed s' = ws_failed s \<and> ws_active s' = ws_active s"
proof -
  let ?q = "mysql_queue cfg digest token sch interf"
  obtain co where co: "report_of ?q c t (re_duration env) out = Client_Finalize ?q c t co" "count_of out = (1, 0)"
    "0 \<le> co_duration co" "length (co_followups co) \<le> 1000" "\<forall>child \<in> set (co_followups co). er_taskClass child \<noteq> []"
    using assms(5) by (cases out) (auto simp: completes_def report_of_def count_of_def)
  obtain n' s' where "Client_Finalize ?q c t co w n (ws_store s) = (Inr (), n', s')" and rec: "receipt_for t s'"
    using Client_Finalize_fine [OF assms(1-4) co(3-5)] by blast
  then have "reportOutcome (report_of ?q c t (re_duration env) out) (re_report_ended env) w n (ws_store s) = (Inr True, n', s')"
    using report_first co(1) by metis
  then show ?thesis using rec co(2) by (simp add: settle_def on_store_def bindP_def count_up_def)
qed

text \<open>A task that the worker holds and whose handler finishes ends in the archive.\<close>

lemma execute_fine:
  assumes "fine w" "client_ok c token" "live_task t w (ws_store s)" "polite t interf" "beats_ok (re_beats env)"
    "\<not> re_interrupted env" "completes (re_duration env) (re_handler env h t)"
  shows "\<exists>n' s'. execute (mysql_queue cfg digest token sch interf) c env h t w n s = (Inr (), n', s') \<and>
     receipt_for t (ws_store s') \<and> ws_processed s' = ws_processed s + 1 \<and> ws_failed s' = ws_failed s \<and> ws_active s' = ws_active s"
proof -
  let ?q = "mysql_queue cfg digest token sch interf"
  obtain ses n1 s1 where ses: "startHeartbeat ?q c (re_beats env) t w n (ws_store s) = (Inr ses, n1, s1)" "ls_err ses = None"
    "same_execution t (ls_task ses)" "live_task (ls_task ses) w s1"
    using startHeartbeat_fine [OF assms(1-5), of cfg digest sch n] by blast
  have "live_task (ls_task ses) w (ws_store (s\<lparr>ws_store := s1\<rparr>))" using ses(4) by simp
  from settle_fine [OF assms(1,2) this polite_same [OF assms(4) ses(3)] assms(7), of cfg digest sch n1] obtain n' s' where
    "settle ?q c env (re_handler env h t) (ls_task ses) w n1 (s\<lparr>ws_store := s1\<rparr>) = (Inr (), n', s')"
    "receipt_for (ls_task ses) (ws_store s')" "ws_processed s' = ws_processed s + 1" "ws_failed s' = ws_failed s"
    "ws_active s' = ws_active s" by auto
  then show ?thesis
    using ses(1-3) assms(6)
    by (simp add: execute_def on_store_def bindP_def receipt_for_def same_execution_def)
qed

lemma process_fine:
  assumes "fine w" "client_ok c token" "live_task t w (ws_store s)" "polite t interf" "beats_ok (re_beats env)"
    "\<not> re_interrupted env" "Has r (t_taskClass t)" "\<And>h t'. completes (re_duration env) (re_handler env h t')"
  shows "\<exists>n' s'. processTask (mysql_queue cfg digest token None interf) c r env t w n s = (Inr (), n', s') \<and>
     receipt_for t (ws_store s') \<and> ws_processed s' = ws_processed s + 1 \<and> ws_failed s' = ws_failed s \<and> ws_active s' = ws_active s"
proof -
  let ?q = "mysql_queue cfg digest token None interf"
  let ?s0 = "s\<lparr>ws_active := ws_active s + 1\<rparr>"
  obtain h where h: "Get r (t_taskClass t) = Some h" using assms(7) by (auto simp: Has_def Get_def split: if_splits)
  obtain t' n1 s1 where t': "confirm_ownership ?q c t w n (ws_store s) = (Inr (Some t'), n1, s1)" "same_execution t t'"
    "live_task t' w s1"
    using confirm_fine [OF assms(1-4), of cfg digest n] by blast
  have "live_task t' w (ws_store (?s0\<lparr>ws_store := s1\<rparr>))" using t'(3) by simp
  from execute_fine [OF assms(1,2) this polite_same [OF assms(4) t'(2)] assms(5,6,8), of cfg digest None h n1] obtain n' s' where
    "execute ?q c env h t' w n1 (?s0\<lparr>ws_store := s1\<rparr>) = (Inr (), n', s')"
    "receipt_for t' (ws_store s')" "ws_processed s' = ws_processed s + 1" "ws_failed s' = ws_failed s"
    "ws_active s' = ws_active s + 1" by auto
  then show ?thesis
    using t'(1,2) h
    by (simp add: processTask_def on_store_def bindP_def count_up_def receipt_for_def same_execution_def)
qed

section \<open>Which tasks a worker leases\<close>

lemma set_add_configured:
  "set (add_configured r conf classes) = set classes \<union> {tc \<in> set conf. Has r tc}"
  by (induction r conf classes rule: add_configured.induct) auto

lemma set_leaseableClasses:
  assumes "\<not> (HasFallback r \<and> conf = [])"
  shows "set (leaseableClasses r conf) =
     {tc. tc \<in> set (rg_handlers r) \<and> tc \<noteq> ''*'' \<and> (conf = [] \<or> tc \<in> set conf)} \<union>
     (if HasFallback r then set conf else {})"
  using assms
  by (auto simp: leaseableClasses_def Let_def set_add_configured SupportedClasses_def HasFallback_def Has_def split: if_splits)

definition in_filter :: "string list \<Rightarrow> string \<Rightarrow> bool" where
  "in_filter taskClasses tc \<longleftrightarrow> taskClasses = [] \<or> tc \<in> set taskClasses"

lemma leaseable_sound:
  assumes "co_canLease (NewConsumer r lim conf)" "in_filter (co_leaseClasses (NewConsumer r lim conf)) (t_taskClass t)"
  shows "shouldProcess (NewConsumer r lim conf) t"
proof (cases "HasFallback r \<and> conf = []")
  case True
  then show ?thesis by (auto simp: shouldProcess_def NewConsumer_def Let_def Has_def HasFallback_def)
next
  case False
  have "leaseableClasses r conf \<noteq> []"
    using assms(1) False set_leaseableClasses [OF False]
    by (cases "HasFallback r") (auto simp: NewConsumer_def Let_def)
  then have "t_taskClass t \<in> set (leaseableClasses r conf)"
    using assms(2) by (simp add: in_filter_def NewConsumer_def Let_def)
  then show ?thesis
    unfolding set_leaseableClasses [OF False]
    by (auto simp: shouldProcess_def NewConsumer_def Let_def Has_def HasFallback_def split: if_splits)
qed

lemma leaseable_complete:
  assumes "shouldProcess (NewConsumer r lim conf) t" "t_taskClass t \<noteq> ''*''"
  shows "co_canLease (NewConsumer r lim conf) \<and> in_filter (co_leaseClasses (NewConsumer r lim conf)) (t_taskClass t)"
proof (cases "HasFallback r \<and> conf = []")
  case True
  then show ?thesis by (simp add: NewConsumer_def Let_def in_filter_def leaseableClasses_def)
next
  case False
  have "t_taskClass t \<in> set (leaseableClasses r conf)"
    unfolding set_leaseableClasses [OF False]
    using assms False by (auto simp: shouldProcess_def NewConsumer_def Let_def Has_def HasFallback_def split: if_splits)
  then show ?thesis by (auto simp: NewConsumer_def Let_def in_filter_def)
qed

lemma dispatch_all:
  "\<forall>t \<in> set tasks. shouldProcess k t \<Longrightarrow> dispatch q c k ended tasks w n s = (Inr tasks, n, s)"
  by (induction tasks) (auto simp: bindP_def)

text \<open>The owner a lease request of this client asks for.\<close>

definition lease_owner :: "Client \<Rightarrow> string" where
  "lease_owner c = (if cl_leaseOwner c = [] then cl_ip c @ '':gorge-taskqueue'' else cl_leaseOwner c)"

lemma Client_Lease_fine:
  assumes "fine w" "client_ok c token" "0 < limit" "tables_ok (interf n s)" "0 < leaseDuration cfg"
  shows "\<exists>tasks n' s'. Client_Lease (mysql_queue cfg digest token sch interf) c limit classes w n s = (Inr tasks, n', s') \<and>
     Lease cfg limit (lease_owner c) classes w (Suc n) (interf n s) = (Inr tasks, n', s') \<and>
     (\<forall>t \<in> set tasks. in_filter classes (t_taskClass t))"
proof -
  let ?G = "chosen (max 1 limit) (w_clock w (Suc n)) classes (interf n s)"
  obtain tasks n' s' where lease: "Lease cfg limit (lease_owner c) classes w (Suc n) (interf n s) = (Inr tasks, n', s')"
    and tasks: "tasks = map (\<lambda>r. scanTaskWithData (interf n s) (grant (lease_owner c) (w_clock w (Suc n) + leaseDuration cfg) r))
      (sort_key order_key ?G)"
    using Lease_run [OF assms(1,4,5), of limit "lease_owner c" classes "Suc n"] by (auto simp: Let_def)
  have len: "int (length tasks) \<le> limit" using assms(3) by (simp add: tasks chosen_def)
  have cls: "\<forall>t \<in> set tasks. in_filter classes (t_taskClass t)"
    using set_chosen [of "max 1 limit" "w_clock w (Suc n)" classes "interf n s"]
    by (auto simp: tasks scanTaskWithData_def scanTask_def grant_def runnable_def taskClassClause_def in_filter_def split: if_splits)
  have "serve (mysql_deps cfg digest token sch) (newRequest c (cl_leaseOwner c)
      (Post_lease (Some \<lparr>lr_limit = limit, lr_taskClasses = classes\<rparr>))) w (Suc n) (interf n s) = (Inr (OK (PTasks tasks)), n', s')"
    using lease token_client [OF assms(2)] assms(3)
    by (simp add: serve_def mysql_deps_def mysql_ops_def h_lease_def tryP_def bindP_def newRequest_def lease_owner_def)
  then have "doJSON (mysql_queue cfg digest token sch interf) (newRequest c (cl_leaseOwner c)
      (Post_lease (Some \<lparr>lr_limit = limit, lr_taskClasses = classes\<rparr>))) w n s = (Inr (Some (PTasks tasks)), n', s')"
    by (intro doJSON_fine [OF assms(1)]) (simp add: mysql_queue_def)
  then have "Client_Lease (mysql_queue cfg digest token sch interf) c limit classes w n s = (Inr tasks, n', s')"
    using assms(3) len by (simp add: Client_Lease_def bindP_def)
  with lease cls show ?thesis by blast
qed

section \<open>The number of attempts\<close>

definition counting :: "('s, 'e, 'a) prog \<Rightarrow> ('s \<times> nat, 'e, 'a) prog" where
  "counting m = (\<lambda>w n s. case m w n (fst s) of (r, n', s') \<Rightarrow> (r, n', (s', Suc (snd s))))"

lemma counting_run: "m w n s = (r, n', s') \<Longrightarrow> counting m w n (s, k) = (r, n', (s', Suc k))"
  by (simp add: counting_def)

lemma report_loop_counts:
  "\<exists>j. snd (final (report_loop (counting m) ended a k w n (s, i))) = i + j \<and> j \<le> k \<and> (0 < k \<longrightarrow> 0 < j) \<and>
     report_loop m ended a k w n s =
       (case report_loop (counting m) ended a k w n (s, i) of (r, n', s') \<Rightarrow> (r, n', fst s'))"
proof (induction k arbitrary: a n s i)
  case (Suc k)
  obtain r n' s' where m: "m w n s = (r, n', s')" by (cases "m w n s")
  show ?case
  proof (cases r)
    case (Inr u)
    then show ?thesis using m counting_run [of m w n s, OF m, of i]
      by (simp add: attempt_of_def tryP_def bindP_def)
  next
    case (Inl e)
    show ?thesis
    proof (cases "e = EConflict \<or> a = resultReportAttempts \<or> ended a")
      case True
      then show ?thesis using m counting_run [of m w n s, OF m, of i] Inl
        by (auto simp: attempt_of_def tryP_def bindP_def)
    next
      case False
      from Suc.IH [of "a + 1" n' s' "Suc i"] obtain j where
        "snd (final (report_loop (counting m) ended (a + 1) k w n' (s', Suc i))) = Suc i + j" "j \<le> k"
        "report_loop m ended (a + 1) k w n' s' =
          (case report_loop (counting m) ended (a + 1) k w n' (s', Suc i) of (r, n', s') \<Rightarrow> (r, n', fst s'))"
        by blast
      then show ?thesis using False m counting_run [of m w n s, OF m, of i] Inl
        by (intro exI [of _ "Suc j"]) (simp add: attempt_of_def tryP_def bindP_def)
    qed
  qed
qed simp

end
