(* ===== verification/Worker_Properties.thy ===== *)
theory Worker_Properties
  imports Worker_Facts
begin

text \<open>
  The properties of the worker over the MySQL queue: its counters, the windows of other workers,
  progress, the tasks it leases and the number of its attempts.
\<close>

section \<open>Sample run\<close>

definition worker_db :: sched_db where
  "worker_db =
     \<lparr>activetask = [sample_row 1 1000 (Some ''w1'') (Some 150), sample_row 2 2000 (Some ''w2'') (Some 150), sample_row 3 1000 None None],
      archivetask = [], taskdata = [(1, ''a''), (2, ''b''), (3, ''c'')], taskdata_auto = 4,
      lisk_counter = [''worker_activetask'' \<mapsto> 3], gorgeinbox = Map.empty, schedulercontrol = None, trigger = [],
      triggerevent = Map.empty, triggerevent_auto = 1, gorgeschedule = Map.empty, innodb_tables = 0\<rparr>"

definition worker_start :: "sched_db worker_state" where
  "worker_start = \<lparr>ws_store = worker_db, ws_processed = 0, ws_failed = 0, ws_active = 0\<rparr>"

definition sample_client :: Client where
  "sample_client = \<lparr>cl_token = ''secret'', cl_leaseOwner = ''w1'', cl_ip = ''10.0.0.1''\<rparr>"

definition sample_registry :: Registry where
  "sample_registry = Register ''A'' \<lparr>rg_handlers = [], rg_fallback = False\<rparr>"

definition sample_env :: run_env where
  "sample_env = \<lparr>re_handler = (\<lambda>_ _. HDone), re_duration = 5, re_beats = [Timer, ByHandler 300], re_interrupted = False,
     re_drained = False, re_report_ended = (\<lambda>_. False), re_archive_ended = (\<lambda>_. False)\<rparr>"

definition sample_leased :: Task where
  "sample_leased = scanTaskWithData worker_db (sample_row 1 1000 (Some ''w1'') (Some 150))"

abbreviation sample_queue :: "sched_db queue" where
  "sample_queue \<equiv> mysql_queue sample_cfg sample_digest ''secret'' None (\<lambda>_ s. s)"

lemma worker_db_ok: "tables_ok worker_db"
  by (simp add: tables_ok_def table_defs lease_shape_def worker_db_def sample_row_def)

lemma alone_acts: "others_act (\<lambda>_ s. s)"
  by (simp add: others_act_def good_refl)

lemma alone_polite: "keeps_window l (\<lambda>_ s. s)" "polite t (\<lambda>_ s. s)"
  by (simp_all add: keeps_window_def polite_def)

lemma sample_leased_sel [simp]: "t_id sample_leased = 1" "t_leaseOwner sample_leased = ''w1''" "t_taskClass sample_leased = ''A''"
    "t_leaseExpires sample_leased = Some 150"
  by (simp_all add: sample_leased_def scanTaskWithData_def scanTask_def sample_row_def str_of_def)

section \<open>Counters\<close>

text \<open>C22. A worker counts a task as processed only once the queue has recorded it: whatever requests
  and replies are lost, whichever statements fail, whatever others do in between and however the
  handler, the heartbeat and the shutdown turn out, a run of a task ends without an error,
  restores the number of active tasks, keeps the tables well-formed, and advances the processed
  counter by at most one, and then only if the archive holds the success of this execution.\<close>

theorem worker_counts_recorded:
  assumes "tables_ok (ws_store s)" "others_act interf"
    and "processTask (mysql_queue cfg digest token scheduler interf) c r env t w n s = (res, n', s')"
  shows "res = Inr () \<and> ws_active s' = ws_active s \<and> good (ws_store s) (ws_store s') \<and>
    (ws_processed s' = ws_processed s \<or>
     ws_processed s' = ws_processed s + 1 \<and>
       (\<exists>e. has_receipt \<lparr>l_taskID = t_id t, l_leaseOwner = t_leaseOwner t, l_leaseExpires = e\<rparr> (ws_store s')))"
proof -
  let ?I = "good (ws_store s)"
  have "hoare (at_counts ?I (ws_processed s) (ws_active s)) (processTask (mysql_queue cfg digest token scheduler interf) c r env t)
      (\<lambda>_. counted_once ?I (receipt_for t) (ws_processed s) (ws_active s)) (\<lambda>_ _. False)"
    by (rule process_counts [OF good_task_inv [OF assms(2,1)] Finalize_confirms [OF assms(2,1)]])
  moreover have "at_counts ?I (ws_processed s) (ws_active s) s"
    by (simp add: at_counts_def good_refl [OF assms(1)])
  ultimately show ?thesis
    using hoareD_ok hoareD_err assms(3)
    by (cases res) (fastforce simp: counted_once_def at_counts_def receipt_for_def)+
qed

text \<open>The sample: the handler finishes, but the reply to the first report is lost and a retry finds the receipt.\<close>

definition lossy_report :: world where
  "lossy_report = \<lparr>w_fault = (\<lambda>n. if n = 24 then Lost else Fine), w_clock = (\<lambda>_. 100)\<rparr>"

theorem worker_counts_recorded_witness:
  "ws_active (final (processTask sample_queue sample_client sample_registry sample_env sample_leased lossy_report 0 worker_start)) = 0 \<and>
   tables_ok (ws_store (final (processTask sample_queue sample_client sample_registry sample_env sample_leased lossy_report 0 worker_start)))"
proof -
  obtain res n' s' where run:
    "processTask sample_queue sample_client sample_registry sample_env sample_leased lossy_report 0 worker_start = (res, n', s')"
    by (cases "processTask sample_queue sample_client sample_registry sample_env sample_leased lossy_report 0 worker_start")
  have "tables_ok (ws_store worker_start)" by (simp add: worker_start_def worker_db_ok)
  from worker_counts_recorded [OF this alone_acts run] run show ?thesis by (auto simp: worker_start_def dest: good_ok)
qed

section \<open>The windows of other workers\<close>

text \<open>C24. A worker ends no execution but its own. Whatever fails and whatever its own run comes to, and even if other workers take the task
  over while it runs: when the run ends, every archive entry of the task carries this worker's name, provided the others wrote none under
  another name. The quarantine of an interrupted task in particular, in whatever state of the queue it starts, leaves the window of another
  owner as it is, and so does a whole run, provided the others leave that window alone.\<close>

theorem worker_respects_windows:
  assumes "tables_ok (ws_store s)"
  shows "(others_act interf \<and> spares t interf \<and> archived_under (t_id t) (t_leaseOwner t) (ws_store s) \<longrightarrow>
       archived_under (t_id t) (t_leaseOwner t)
         (ws_store (final (processTask (mysql_queue cfg digest token scheduler interf) c r env t w n s)))) \<and>
     (l_leaseOwner l \<noteq> t_leaseOwner t \<and> keeps_window l interf \<and> holds l (ws_store s) \<longrightarrow>
       holds l (final (archiveInterruptedTask (mysql_queue cfg digest token scheduler interf) c t ended w n (ws_store s))) \<and>
       holds l (ws_store (final (processTask (mysql_queue cfg digest token scheduler interf) c r env t w n s))))"
proof (intro conjI impI; elim conjE)
  assume "others_act interf" "spares t interf" "archived_under (t_id t) (t_leaseOwner t) (ws_store s)"
  then show "archived_under (t_id t) (t_leaseOwner t)
      (ws_store (final (processTask (mysql_queue cfg digest token scheduler interf) c r env t w n s)))"
    using process_keeps [OF archive_task_inv] assms by blast
next
  let ?q = "mysql_queue cfg digest token scheduler interf"
  assume "l_leaseOwner l \<noteq> t_leaseOwner t" "keeps_window l interf" and l: "holds l (ws_store s)"
  then have inv: "task_inv ?q c (t_id t) (t_leaseOwner t) (\<lambda>s. tables_ok s \<and> holds l s)" using window_task_inv by metis
  show "holds l (ws_store (final (processTask ?q c r env t w n s)))" using process_keeps [OF inv] assms l by blast
  show "holds l (final (archiveInterruptedTask ?q c t ended w n (ws_store s)))"
    using settles_returns [OF settles_archiveInterrupted [OF inv], of "ws_store s" ended w n] assms l by auto
qed

text \<open>The sample: worker \<open>w2\<close> takes task 1 over from the fifth tick on, while \<open>w1\<close> is still at work on it.\<close>

definition takeover :: "nat \<Rightarrow> sched_db \<Rightarrow> sched_db" where
  "takeover n s =
     (if n < 5 then s
      else snd (update_rows (\<lambda>r. r_id r = 1) (\<lambda>r. r\<lparr>r_leaseOwner := Some ''w2'', r_leaseExpires := Some 500\<rparr>) s))"

definition taken_lease :: ExecutionLease where
  "taken_lease = \<lparr>l_taskID = 1, l_leaseOwner = ''w2'', l_leaseExpires = 500\<rparr>"

lemma takeover_acts: "others_act takeover" "spares sample_leased takeover" "keeps_window taken_lease takeover"
proof -
  have good: "good s (takeover n s)" if "tables_ok s" for n s
    using update_rows_good [OF good_refl [OF that] that] by (auto simp: takeover_def same_task_def lease_shape_def good_refl [OF that])
  then show "others_act takeover" by (simp add: others_act_def)
  show "spares sample_leased takeover" by (simp add: spares_def takeover_def archived_under_def update_rows_def)
  have "holds taken_lease (takeover n s)" if l: "holds taken_lease s" for n s
  proof -
    obtain r where r: "r \<in> set (activetask s)" "r_id r = 1" using l by (auto simp: holds_def taken_lease_def)
    then show ?thesis using l
      by (auto simp: takeover_def holds_def taken_lease_def update_rows_def intro!: rev_bexI [of "r\<lparr>r_leaseOwner := Some ''w2'', r_leaseExpires := Some 500\<rparr>"])
  qed
  then show "keeps_window taken_lease takeover" unfolding keeps_window_def using good good_ok by blast
qed

theorem worker_respects_windows_witness:
  "archived_under 1 ''w1'' (ws_store (final (processTask (mysql_queue sample_cfg sample_digest ''secret'' None takeover) sample_client sample_registry
     (sample_env\<lparr>re_interrupted := True\<rparr>) sample_leased (calm 100) 0 worker_start))) \<and>
   holds taken_lease (final (archiveInterruptedTask (mysql_queue sample_cfg sample_digest ''secret'' None takeover) sample_client sample_leased
     (\<lambda>_. False) (calm 100) 5 (takeover 5 worker_db)))"
proof
  have ok: "tables_ok (ws_store worker_start)" "tables_ok (takeover 5 worker_db)"
    using worker_db_ok takeover_acts(1) good_ok by (auto simp: worker_start_def others_act_def)
  have "archived_under 1 ''w1'' (ws_store worker_start)" by (simp add: archived_under_def worker_start_def worker_db_def)
  then show "archived_under 1 ''w1'' (ws_store (final (processTask (mysql_queue sample_cfg sample_digest ''secret'' None takeover) sample_client sample_registry
     (sample_env\<lparr>re_interrupted := True\<rparr>) sample_leased (calm 100) 0 worker_start)))"
    using worker_respects_windows [OF ok(1), of takeover sample_leased] takeover_acts by simp
  have "holds taken_lease (takeover 5 worker_db)"
    by (simp add: holds_def taken_lease_def takeover_def worker_db_def update_rows_def sample_row_def)
  then show "holds taken_lease (final (archiveInterruptedTask (mysql_queue sample_cfg sample_digest ''secret'' None takeover) sample_client sample_leased
     (\<lambda>_. False) (calm 100) 5 (takeover 5 worker_db)))"
    using worker_respects_windows [of "worker_start\<lparr>ws_store := takeover 5 worker_db\<rparr>" takeover sample_leased, where l = taken_lease] takeover_acts ok(2)
    by (simp add: taken_lease_def)
qed

section \<open>Progress\<close>

text \<open>C23. Progress: when no request is lost and no statement fails, a worker that holds a task under a
  window no clock has reached, whose handler completes it within the bounds the queue accepts
  and which others leave alone, does finish it. The run ends with the task archived as a success
  under a window of this execution and counted once, however often the heartbeat or the handler
  renewed the window on the way.\<close>

theorem worker_completes:
  assumes "fine w" "client_ok c token" "live_task t w (ws_store s)" "polite t interf" "Has r (t_taskClass t)"
    and "\<not> re_interrupted env" "beats_ok (re_beats env)" "\<And>h t'. completes (re_duration env) (re_handler env h t')"
  shows "\<exists>n' s'. processTask (mysql_queue cfg digest token None interf) c r env t w n s = (Inr (), n', s') \<and>
    (\<exists>e. has_receipt \<lparr>l_taskID = t_id t, l_leaseOwner = t_leaseOwner t, l_leaseExpires = e\<rparr> (ws_store s')) \<and>
    ws_processed s' = ws_processed s + 1 \<and> ws_failed s' = ws_failed s \<and> ws_active s' = ws_active s"
  using process_fine [OF assms(1-4,7,6,5,8)] by (simp add: receipt_for_def)

lemma sample_live: "live_task sample_leased (calm 100) (ws_store worker_start)"
  by (simp add: live_task_def worker_start_def worker_db_ok holds_def)
     (simp add: worker_db_def sample_row_def)

theorem worker_completes_witness:
  "\<exists>e. has_receipt \<lparr>l_taskID = 1, l_leaseOwner = ''w1'', l_leaseExpires = e\<rparr> (ws_store (final
     (processTask sample_queue sample_client sample_registry sample_env sample_leased (calm 100) 0 worker_start)))"
proof -
  have "client_ok sample_client ''secret''" by (simp add: client_ok_def sample_client_def)
  moreover have "Has sample_registry (t_taskClass sample_leased)" by (simp add: Has_def sample_registry_def Register_def)
  moreover have "\<not> re_interrupted sample_env" "beats_ok (re_beats sample_env)" by (auto simp: sample_env_def beats_ok_def)
  moreover have "completes (re_duration sample_env) (re_handler sample_env h t')" for h t'
    by (simp add: completes_def sample_env_def)
  ultimately show ?thesis
    using worker_completes [OF fine_calm _ sample_live alone_polite(2), of sample_client "''secret''" sample_registry sample_env
        sample_cfg sample_digest 0] by auto
qed

section \<open>Leasing\<close>

text \<open>The classes a worker asks for are exactly those it can process: a task passes the filter that
  a worker sends with its lease requests, if and only if the worker would process it. The one
  class left out is \<open>*\<close>, which the registry uses as the name of its fallback.\<close>

theorem leaseable_exact:
  assumes "t_taskClass t \<noteq> ''*''"
  shows "co_canLease (NewConsumer r lim conf) \<and>
      (co_leaseClasses (NewConsumer r lim conf) = [] \<or> t_taskClass t \<in> set (co_leaseClasses (NewConsumer r lim conf))) \<longleftrightarrow>
    shouldProcess (NewConsumer r lim conf) t"
  using leaseable_sound [of r lim conf t] leaseable_complete [OF _ assms, of r lim conf] by (auto simp: in_filter_def)

theorem leaseable_exact_witness: "shouldProcess (NewConsumer sample_registry 5 [''A'', ''B'']) sample_leased"
proof -
  have "t_taskClass sample_leased \<noteq> ''*''" by simp
  from leaseable_exact [OF this, of sample_registry 5 "[''A'', ''B'']"] show ?thesis
    by (simp add: NewConsumer_def leaseableClasses_def SupportedClasses_def sample_registry_def Register_def HasFallback_def Let_def)
qed

text \<open>A round of the lease loop that meets no fault changes the queue by its one lease only: it
  takes up every task the lease granted, at most as many as it has room for, and none has to be
  handed back as unsupported.\<close>

theorem poll_takes_leased:
  assumes "fine w" "client_ok c token" "tables_ok (interf n s)" "0 < leaseDuration cfg" "0 < lim" "0 < available"
    and "co_canLease (NewConsumer r lim conf)"
  shows "\<exists>tasks n' s'.
    poll (mysql_queue cfg digest token scheduler interf) c (NewConsumer r lim conf) available ended w n s = (Inr tasks, n', s') \<and>
    Lease cfg (min lim available) (lease_owner c) (leaseableClasses r conf) w (Suc n) (interf n s) = (Inr tasks, n', s') \<and>
    int (length tasks) \<le> available \<and> (\<forall>t \<in> set tasks. shouldProcess (NewConsumer r lim conf) t)"
proof -
  let ?q = "mysql_queue cfg digest token scheduler interf" and ?k = "NewConsumer r lim conf"
  have k: "co_leaseLimit ?k = lim" "co_leaseClasses ?k = leaseableClasses r conf" by (simp_all add: NewConsumer_def Let_def)
  have pos: "0 < min lim available" using assms(5,6) by simp
  obtain tasks n' s' where t: "Client_Lease ?q c (min lim available) (leaseableClasses r conf) w n s = (Inr tasks, n', s')"
    "Lease cfg (min lim available) (lease_owner c) (leaseableClasses r conf) w (Suc n) (interf n s) = (Inr tasks, n', s')"
    "\<forall>t \<in> set tasks. in_filter (leaseableClasses r conf) (t_taskClass t)"
    using Client_Lease_fine [where interf = interf and n = n and s = s, OF assms(1,2) pos assms(3,4)] by blast
  have ok: "\<forall>t \<in> set tasks. shouldProcess ?k t" using leaseable_sound [OF assms(7)] t(3) k(2) by simp
  have "int (length tasks) \<le> available"
    using t(1) pos by (auto simp: Client_Lease_def split: if_splits option.splits payload.splits elim!: bindP_cases)
  moreover have "poll ?q c ?k available ended w n s = (Inr tasks, n', s')"
    using t(1) dispatch_all [OF ok] assms(6,7) by (simp add: poll_def k tryP_def bindP_def)
  ultimately show ?thesis using t(2) ok by blast
qed

theorem poll_takes_leased_witness:
  "\<exists>tasks n' s'. poll sample_queue sample_client (NewConsumer sample_registry 5 []) 2 (\<lambda>_. False) (calm 100) 0 worker_db =
     (Inr tasks, n', s') \<and> length tasks \<le> 2"
proof -
  have "client_ok sample_client ''secret''" by (simp add: client_ok_def sample_client_def)
  moreover have "0 < leaseDuration sample_cfg" by (simp add: sample_cfg_def)
  moreover have "co_canLease (NewConsumer sample_registry 5 [])"
    by (simp add: NewConsumer_def leaseableClasses_def SupportedClasses_def sample_registry_def Register_def HasFallback_def Let_def)
  ultimately show ?thesis
    using poll_takes_leased [OF fine_calm, where c = sample_client and token = "''secret''" and interf = "\<lambda>_ s. s" and n = 0
        and s = worker_db and cfg = sample_cfg and lim = 5 and available = 2 and r = sample_registry and conf = "[]" and t1 = 100
        and digest = sample_digest and scheduler = None and ended = "\<lambda>_. False"] worker_db_ok by auto
qed

section \<open>Attempts\<close>

text \<open>Reporting ends: whatever is reported and however its attempts fail, \<open>reportOutcome\<close> returns
  after at least one and at most five attempts.\<close>

theorem reportOutcome_ends:
  "\<exists>k n' s' b. reportOutcome (counting report) ended w n (s, 0) = (Inr b, n', (s', k)) \<and> 1 \<le> k \<and> k \<le> 5 \<and>
     reportOutcome report ended w n s = (Inr b, n', s')"
proof -
  obtain k where k: "snd (final (report_loop (counting report) ended 1 5 w n (s, 0))) = k" "k \<le> 5" "0 < k"
    "report_loop report ended 1 5 w n s =
      (case report_loop (counting report) ended 1 5 w n (s, 0) of (r, n', s') \<Rightarrow> (r, n', fst s'))"
    using report_loop_counts [of report ended 1 5 w n s 0] by auto
  have "settles (\<lambda>_. True) (reportOutcome report ended) (\<lambda>_ _. True)"
    using settles_reportOutcome [of "\<lambda>_. True" report "\<lambda>_. True" ended] hoare_trivial [of "\<lambda>_. True" report] by simp
  from settles_returns [OF this TrueI, of w n s] obtain b n' s' where "reportOutcome report ended w n s = (Inr b, n', s')"
    by blast
  then show ?thesis
    using k unfolding reportOutcome_def resultReportAttempts_def
    by (cases "report_loop (counting report) ended 1 5 w n (s, 0)") auto
qed

end
