(* ===== verification/Uploads.thy ===== *)
theory Uploads
  imports Prelude "HOL-Library.AList" "HOL-Library.Char_ord" "HOL-Library.List_Lexorder"
begin

text \<open>
  Resumable uploads: \<open>src/go/internal/filestorage/uploads.go\<close>. The volume is a list of directories, one
  per upload, each with its manifest and its chunk files. A call to the file system is a
  statement that the world can fail: a durable write that is broken has not renamed its
  temporary file, one that is lost has renamed it and failed to sync. A crash is a run whose
  remaining calls all fail; the temporary file that a process leaves when it dies inside a durable write
  is not modelled: no call reads it, and a cancellation removes it with the other files of the directory. A read
  returns its bytes when it is made, where the code hands out open files that are read later and never change. The lock serialises the operations on one upload, and they touch
  nothing else, so operations run one after the other. SHA-256 is a parameter; bytes are
  characters. \<open>ended\<close> tells at which checks the context has been cancelled.
\<close>

section \<open>Data\<close>

definition UploadChunkSize :: int where "UploadChunkSize = 4 * 2 ^ 20"
definition MaxUploadSize :: int where "MaxUploadSize = 64 * 2 ^ 30"

record UploadChunk =
  k_start :: int
  k_end :: int
  k_digest :: string
  k_complete :: bool

datatype upload_state = Uploading | Completed | Cancelled

record Upload =
  u_id :: string
  u_size :: int
  u_expires :: int
  u_state :: upload_state
  u_digest :: string
  u_cleaned :: bool
  u_chunks :: "UploadChunk list"

datatype manifest = Absent | Garbage | Stored Upload

text \<open>The files besides the manifest, by name.\<close>

record updir =
  ud_manifest :: manifest
  ud_files :: "(string \<times> string) list"

type_synonym volume = "(string \<times> updir) list"

datatype upload_error =
    ErrBadHandle
  | ErrUploadConflict
  | ErrUploadExpired
  | ErrNotExist
  | ErrSize
  | ErrManifest
  | ErrIntegrity
  | ErrContext
  | ErrIO
  | IndexPanic

type_synonym 'a upload_prog = "(volume, upload_error, 'a) prog"

definition hex_digit :: "char \<Rightarrow> bool" where
  "hex_digit c \<longleftrightarrow> (CHR ''0'' \<le> c \<and> c \<le> CHR ''9'') \<or> (CHR ''a'' \<le> c \<and> c \<le> CHR ''f'')"

definition uploadID :: "string \<Rightarrow> bool" where
  "uploadID i \<longleftrightarrow> length i = 32 \<and> list_all hex_digit i"

text \<open>\<open>strconv.FormatInt\<close> of a chunk's offset, which is never negative.\<close>

definition chunk_name :: "int \<Rightarrow> string" where
  "chunk_name start = Itoa (nat start)"

section \<open>Files\<close>

definition lock :: "string \<Rightarrow> unit upload_prog" where
  "lock i = (if \<not> uploadID i then raise ErrBadHandle else stmt ErrIO (\<lambda>v. (Inr (), v)))"

definition dir_of :: "string \<Rightarrow> volume \<Rightarrow> updir" where
  "dir_of i v = (case map_of v i of None \<Rightarrow> \<lparr>ud_manifest = Absent, ud_files = []\<rparr> | Some d \<Rightarrow> d)"

definition mkdir :: "string \<Rightarrow> unit upload_prog" where
  "mkdir i = stmt ErrIO (\<lambda>v. (Inr (), AList.update i (dir_of i v) v))"

definition write_chunk :: "string \<Rightarrow> int \<Rightarrow> string \<Rightarrow> unit upload_prog" where
  "write_chunk i start data = stmt ErrIO (\<lambda>v.
     (Inr (), AList.update i ((dir_of i v)\<lparr>ud_files := AList.update (chunk_name start) data (ud_files (dir_of i v))\<rparr>) v))"

definition read_file :: "string \<Rightarrow> string \<Rightarrow> string upload_prog" where
  "read_file i name = stmt ErrIO (\<lambda>v.
     (case map_of (ud_files (dir_of i v)) name of None \<Rightarrow> Inl ErrNotExist | Some d \<Rightarrow> Inr d, v))"

definition remove_file :: "string \<Rightarrow> string \<Rightarrow> unit upload_prog" where
  "remove_file i name = stmt ErrIO (\<lambda>v.
     (Inr (), AList.update i ((dir_of i v)\<lparr>ud_files := filter (\<lambda>f. fst f \<noteq> name) (ud_files (dir_of i v))\<rparr>) v))"

definition load :: "string \<Rightarrow> Upload upload_prog" where
  "load i = stmt ErrIO (\<lambda>v.
     (case ud_manifest (dir_of i v) of
        Absent \<Rightarrow> Inl ErrNotExist
      | Garbage \<Rightarrow> Inl ErrManifest
      | Stored s \<Rightarrow> if u_id s \<noteq> i then Inl ErrManifest else Inr s, v))"

text \<open>The callers that tell a missing manifest apart from every other error.\<close>

definition find_upload :: "string \<Rightarrow> Upload option upload_prog" where
  "find_upload i =
     tryP (bindP (load i) (\<lambda>s. ret (Some s))) (\<lambda>e. if e = ErrNotExist then ret None else raise e)"

definition save :: "Upload \<Rightarrow> unit upload_prog" where
  "save s = stmt ErrIO (\<lambda>v. (Inr (), AList.update (u_id s) ((dir_of (u_id s) v)\<lparr>ud_manifest := Stored s\<rparr>) v))"

definition uploadLive :: "Upload \<Rightarrow> unit upload_prog" where
  "uploadLive s =
     bindP time_now (\<lambda>now.
     if u_state s = Cancelled \<or> (u_state s \<noteq> Completed \<and> u_expires s \<le> now) then raise ErrUploadExpired else ret ())"

section \<open>Operations\<close>

function make_chunks :: "int \<Rightarrow> int \<Rightarrow> UploadChunk list" where
  "make_chunks start bytes =
     (if start < bytes
      then \<lparr>k_start = start, k_end = min (start + UploadChunkSize) bytes, k_digest = [], k_complete = False\<rparr> #
           make_chunks (start + UploadChunkSize) bytes
      else [])"
  by pat_completeness auto
termination by (relation "measure (\<lambda>(start, bytes). nat (bytes - start))") (auto simp: UploadChunkSize_def)

declare make_chunks.simps [simp del]

definition new_upload :: "string \<Rightarrow> int \<Rightarrow> int \<Rightarrow> Upload" where
  "new_upload i bytes now =
     \<lparr>u_id = i, u_size = bytes, u_expires = now + 7 * 24 * 3600, u_state = Uploading, u_digest = [], u_cleaned = False,
      u_chunks = make_chunks 0 bytes\<rparr>"

definition Upload_Create :: "string \<Rightarrow> int \<Rightarrow> Upload upload_prog" where
  "Upload_Create i bytes =
     (if bytes \<le> 0 \<or> bytes > MaxUploadSize then raise ErrSize
      else
        bindP (lock i) (\<lambda>_.
        bindP (find_upload i) (\<lambda>found.
        case found of
          Some s \<Rightarrow>
            if u_size s \<noteq> bytes then raise ErrUploadConflict
            else bindP (uploadLive s) (\<lambda>_. ret s)
        | None \<Rightarrow>
            bindP (mkdir i) (\<lambda>_.
            bindP time_now (\<lambda>now.
            bindP (save (new_upload i bytes now)) (\<lambda>_.
            ret (new_upload i bytes now)))))))"

definition live_upload :: "string \<Rightarrow> Upload upload_prog" where
  "live_upload i = bindP (lock i) (\<lambda>_. bindP (load i) (\<lambda>s. bindP (uploadLive s) (\<lambda>_. ret s)))"

definition Upload_Status :: "string \<Rightarrow> Upload upload_prog" where
  "Upload_Status i = live_upload i"

definition Upload_Put :: "(string \<Rightarrow> string) \<Rightarrow> string \<Rightarrow> int \<Rightarrow> string \<Rightarrow> Upload upload_prog" where
  "Upload_Put sha i start data =
     bindP (live_upload i) (\<lambda>s.
     if start < 0 \<or> start mod UploadChunkSize \<noteq> 0 \<or> u_size s \<le> start then raise ErrUploadConflict
     else
       let k = nat (start div UploadChunkSize) in
       if length (u_chunks s) \<le> k then raise IndexPanic
       else
         let chunk = u_chunks s ! k in
         if int (length data) \<noteq> k_end chunk - k_start chunk then raise ErrUploadConflict
         else if k_complete chunk then
           (if sha data \<noteq> k_digest chunk then raise ErrUploadConflict else ret s)
         else if u_state s \<noteq> Uploading then raise ErrUploadConflict
         else
           let s' = s\<lparr>u_chunks := (u_chunks s)[k := chunk\<lparr>k_digest := sha data, k_complete := True\<rparr>]\<rparr> in
           bindP (write_chunk i start data) (\<lambda>_.
           bindP (save s') (\<lambda>_. ret s')))"

text \<open>
  Opening a chunk file and copying it into the hashes: at most one byte past its end. A failed
  copy ends a hash with its own error and a read with \<open>broken\<close>, the integrity error.
\<close>

definition copy_file :: "string \<Rightarrow> string upload_prog" where
  "copy_file data = stmt ErrIO (\<lambda>v. (Inr data, v))"

definition read_chunk :: "(string \<Rightarrow> string) \<Rightarrow> upload_error \<Rightarrow> string \<Rightarrow> UploadChunk \<Rightarrow> string upload_prog" where
  "read_chunk sha broken i c =
     bindP (read_file i (chunk_name (k_start c))) (\<lambda>opened.
     bindP (tryP (copy_file opened) (\<lambda>_. raise broken)) (\<lambda>data.
     let got = take (nat (k_end c - k_start c + 1)) data in
     if int (length got) \<noteq> k_end c - k_start c \<or> sha got \<noteq> k_digest c then raise ErrIntegrity else ret data))"

fun hash_loop ::
  "(string \<Rightarrow> string) \<Rightarrow> (nat \<Rightarrow> bool) \<Rightarrow> string \<Rightarrow> UploadChunk list \<Rightarrow> string \<Rightarrow> string upload_prog" where
  "hash_loop sha ended i [] full = ret (sha full)"
| "hash_loop sha ended i (c # cs) full =
     (if \<not> k_complete c then raise ErrUploadConflict
      else if ended (length cs) then raise ErrContext
      else bindP (read_chunk sha ErrIO i c) (\<lambda>data. hash_loop sha ended i cs (full @ data)))"

definition hashChunks :: "(string \<Rightarrow> string) \<Rightarrow> (nat \<Rightarrow> bool) \<Rightarrow> Upload \<Rightarrow> string upload_prog" where
  "hashChunks sha ended s = hash_loop sha ended (u_id s) (u_chunks s) []"

definition Upload_Complete :: "(string \<Rightarrow> string) \<Rightarrow> (nat \<Rightarrow> bool) \<Rightarrow> string \<Rightarrow> Upload upload_prog" where
  "Upload_Complete sha ended i =
     bindP (live_upload i) (\<lambda>s.
     if u_state s = Completed then ret s
     else
       bindP (hashChunks sha ended s) (\<lambda>digest.
       let s' = s\<lparr>u_digest := digest, u_state := Completed\<rparr> in
       bindP (save s') (\<lambda>_. ret s')))"

definition Upload_Verify :: "(string \<Rightarrow> string) \<Rightarrow> (nat \<Rightarrow> bool) \<Rightarrow> string \<Rightarrow> Upload upload_prog" where
  "Upload_Verify sha ended i =
     bindP (live_upload i) (\<lambda>s.
     if u_state s \<noteq> Completed then raise ErrUploadConflict
     else
       bindP (hashChunks sha ended s) (\<lambda>digest.
       if digest \<noteq> u_digest s then raise ErrIntegrity else ret s))"

text \<open>\<open>os.Remove\<close> of a name that is gone is no error.\<close>

fun remove_all :: "(nat \<Rightarrow> bool) \<Rightarrow> string \<Rightarrow> string list \<Rightarrow> unit upload_prog" where
  "remove_all ended i [] = ret ()"
| "remove_all ended i (name # names) =
     (if ended (length names) then raise ErrContext
      else bindP (remove_file i name) (\<lambda>_. remove_all ended i names))"

definition list_files :: "string \<Rightarrow> string list upload_prog" where
  "list_files i = stmt ErrIO (\<lambda>v. (Inr (sort (map fst (ud_files (dir_of i v)))), v))"

definition sync_dir :: "unit upload_prog" where
  "sync_dir = stmt ErrIO (\<lambda>v. (Inr (), v))"

definition cancelLocked :: "(nat \<Rightarrow> bool) \<Rightarrow> Upload \<Rightarrow> unit upload_prog" where
  "cancelLocked ended s =
     (if u_state s = Cancelled \<and> u_cleaned s then ret ()
      else
        let s' = s\<lparr>u_state := Cancelled\<rparr> in
        bindP (save s') (\<lambda>_.
        bindP (list_files (u_id s)) (\<lambda>names.
        bindP (remove_all ended (u_id s) names) (\<lambda>_.
        bindP sync_dir (\<lambda>_.
        save (s'\<lparr>u_cleaned := True\<rparr>))))))"

definition tombstone :: "string \<Rightarrow> Upload" where
  "tombstone i =
     \<lparr>u_id = i, u_size = 0, u_expires = 0, u_state = Cancelled, u_digest = [], u_cleaned = False, u_chunks = []\<rparr>"

definition Upload_Cancel :: "(nat \<Rightarrow> bool) \<Rightarrow> string \<Rightarrow> unit upload_prog" where
  "Upload_Cancel ended i =
     bindP (lock i) (\<lambda>_.
     bindP (find_upload i) (\<lambda>found.
     case found of
       None \<Rightarrow> bindP (mkdir i) (\<lambda>_. cancelLocked ended (tombstone i))
     | Some s \<Rightarrow> cancelLocked ended s))"

fun read_loop ::
  "(string \<Rightarrow> string) \<Rightarrow> string \<Rightarrow> int \<Rightarrow> int \<Rightarrow> UploadChunk list \<Rightarrow> string \<Rightarrow> string upload_prog" where
  "read_loop sha i start end' [] acc = ret acc"
| "read_loop sha i start end' (c # cs) acc =
     (if k_end c \<le> start \<or> end' \<le> k_start c then read_loop sha i start end' cs acc
      else
        bindP (read_chunk sha ErrIntegrity i c) (\<lambda>data.
        let a = max start (k_start c) - k_start c; b = min end' (k_end c) - k_start c in
        read_loop sha i start end' cs (acc @ take (nat (b - a)) (drop (nat a) data))))"

definition Upload_Read :: "(string \<Rightarrow> string) \<Rightarrow> string \<Rightarrow> int \<Rightarrow> int \<Rightarrow> (string \<times> int) upload_prog" where
  "Upload_Read sha i start end0 =
     bindP (live_upload i) (\<lambda>s.
     if u_state s \<noteq> Completed then raise ErrUploadConflict
     else
       let end' = (if end0 < 0 then u_size s else end0) in
       if start < 0 \<or> end' < start \<or> u_size s < end' \<or> end' - start > UploadChunkSize then raise ErrUploadConflict
       else bindP (read_loop sha i start end' (u_chunks s) []) (\<lambda>data. ret (data, end' - start)))"

section \<open>Sweeping\<close>

definition eligible :: "int \<Rightarrow> Upload \<Rightarrow> bool" where
  "eligible now s \<longleftrightarrow> (u_state s = Cancelled \<and> \<not> u_cleaned s) \<or> (u_state s = Uploading \<and> u_expires s \<le> now)"

text \<open>
  A lock error and every error of a manifest but its absence end the sweep.
\<close>

fun sweep :: "(nat \<Rightarrow> bool) \<Rightarrow> int \<Rightarrow> string list \<Rightarrow> unit upload_prog" where
  "sweep ended limit [] = ret ()"
| "sweep ended limit (i # is) =
     (if limit \<le> 0 then ret ()
      else if \<not> uploadID i then sweep ended limit is
      else if ended (length is) then raise ErrContext
      else
        bindP (lock i) (\<lambda>_.
        bindP (find_upload i) (\<lambda>found.
        case found of
          None \<Rightarrow> sweep ended limit is
        | Some s \<Rightarrow>
            bindP time_now (\<lambda>now.
            if eligible now s
            then bindP (cancelLocked ended s) (\<lambda>_. sweep ended (limit - 1) is)
            else sweep ended limit is))))"

definition SweepExpired :: "(nat \<Rightarrow> bool) \<Rightarrow> int \<Rightarrow> unit upload_prog" where
  "SweepExpired ended limit =
     bindP (stmt ErrIO (\<lambda>v. (Inr (sort (map fst v)), v))) (\<lambda>entries. sweep ended limit entries)"

end
