(* ===== verification/Uploads_Facts.thy ===== *)
theory Uploads_Facts
  imports Uploads
begin

text \<open>
  Facts about uploads: the invariant of a directory, how a directory can evolve, that every
  operation keeps both whatever fails, and which bytes a read returns.
\<close>

section \<open>Names\<close>

lemma digit_char_inj: "a < 10 \<Longrightarrow> b < 10 \<Longrightarrow> digit_char a = digit_char b \<Longrightarrow> a = b"
  by (auto simp: digit_char_def)

lemma Itoa_not_Nil [simp]: "Itoa n \<noteq> []"
  by (cases "n < 10") (simp_all add: Itoa.simps [of n])

lemma Itoa_inj: "Itoa n = Itoa m \<Longrightarrow> n = m"
proof (induction n arbitrary: m rule: Itoa.induct)
  case (1 n)
  show ?case
  proof (cases "n < 10")
    case True
    then have n: "Itoa n = [digit_char n]" by (simp add: Itoa.simps [of n])
    have "m < 10"
    proof (rule ccontr)
      assume "\<not> m < 10"
      then have "Itoa m = Itoa (m div 10) @ [digit_char (m mod 10)]" by (simp add: Itoa.simps [of m])
      then show False using n 1(2) by simp
    qed
    then show ?thesis using n 1(2) True digit_char_inj by (simp add: Itoa.simps [of m])
  next
    case False
    then have n: "Itoa n = Itoa (n div 10) @ [digit_char (n mod 10)]" by (simp add: Itoa.simps [of n])
    have "\<not> m < 10"
    proof
      assume "m < 10"
      then have "Itoa m = [digit_char m]" by (simp add: Itoa.simps [of m])
      then show False using n 1(2) Itoa_not_Nil [of "n div 10", THEN not_sym] by simp
    qed
    then have "Itoa m = Itoa (m div 10) @ [digit_char (m mod 10)]" by (simp add: Itoa.simps [of m])
    then have "Itoa (n div 10) = Itoa (m div 10)" "digit_char (n mod 10) = digit_char (m mod 10)" using n 1(2) by simp_all
    then have "n div 10 = m div 10" "n mod 10 = m mod 10" using 1(1) False digit_char_inj by simp_all
    then show ?thesis by (metis div_mult_mod_eq)
  qed
qed

lemma chunk_name_inj: "0 \<le> a \<Longrightarrow> 0 \<le> b \<Longrightarrow> chunk_name a = chunk_name b \<Longrightarrow> a = b"
  using Itoa_inj by (fastforce simp: chunk_name_def)

section \<open>The layout of chunks\<close>

definition span :: "UploadChunk \<Rightarrow> int \<times> int" where
  "span c = (k_start c, k_end c)"

lemma chunk_size_pos: "0 < UploadChunkSize"
  by (simp add: UploadChunkSize_def)

text \<open>The chunk at index \<open>k\<close> starts at \<open>k\<close> times the chunk size.\<close>

lemma make_chunks_nth:
  "0 \<le> start \<Longrightarrow> k < length (make_chunks start bytes) \<Longrightarrow>
   span (make_chunks start bytes ! k) =
     (start + int k * UploadChunkSize, min (start + (int k + 1) * UploadChunkSize) bytes) \<and>
   start + int k * UploadChunkSize < bytes \<and> \<not> k_complete (make_chunks start bytes ! k)"
proof (induction start bytes arbitrary: k rule: make_chunks.induct)
  case (1 start bytes)
  show ?case
  proof (cases "start < bytes")
    case True
    note mc = make_chunks.simps [of start bytes]
    show ?thesis
    proof (cases k)
      case 0
      then show ?thesis using True by (simp add: mc span_def)
    next
      case (Suc j)
      have "0 \<le> start + UploadChunkSize" "j < length (make_chunks (start + UploadChunkSize) bytes)"
        using 1(2,3) True Suc chunk_size_pos by (simp_all add: mc)
      from 1(1) [OF True this] show ?thesis using True Suc by (simp add: mc algebra_simps)
    qed
  next
    case False
    then show ?thesis using 1(3) by (simp add: make_chunks.simps [of start bytes])
  qed
qed

lemma make_chunks_length:
  "0 \<le> k \<Longrightarrow> start + k * UploadChunkSize < bytes \<Longrightarrow> nat k < length (make_chunks start bytes)"
proof (induction start bytes arbitrary: k rule: make_chunks.induct)
  case (1 start bytes)
  have lt: "start < bytes" using 1(2,3) chunk_size_pos by (smt (verit) mult_nonneg_nonneg)
  show ?case
  proof (cases "k = 0")
    case True
    then show ?thesis using lt by (simp add: make_chunks.simps [of start bytes])
  next
    case False
    then have "0 \<le> k - 1" "start + UploadChunkSize + (k - 1) * UploadChunkSize < bytes"
      using 1(2,3) by (simp_all add: algebra_simps)
    from 1(1) [OF lt this] show ?thesis using lt False 1(2) by (simp add: make_chunks.simps [of start bytes] nat_diff_distrib)
  qed
qed

section \<open>The invariant\<close>

definition has_layout :: "Upload \<Rightarrow> bool" where
  "has_layout s \<longleftrightarrow> 0 \<le> u_size s \<and> u_size s \<le> MaxUploadSize \<and>
     map span (u_chunks s) = map span (make_chunks 0 (u_size s))"

definition chunk_ok :: "(string \<Rightarrow> string) \<Rightarrow> (string \<times> string) list \<Rightarrow> UploadChunk \<Rightarrow> bool" where
  "chunk_ok sha files c \<longleftrightarrow>
     (\<exists>data. map_of files (chunk_name (k_start c)) = Some data \<and> int (length data) = k_end c - k_start c \<and>
        sha data = k_digest c)"

definition file_of :: "(string \<times> string) list \<Rightarrow> UploadChunk \<Rightarrow> string" where
  "file_of files c = the (map_of files (chunk_name (k_start c)))"

definition content :: "(string \<times> string) list \<Rightarrow> Upload \<Rightarrow> string" where
  "content files s = concat (map (file_of files) (u_chunks s))"

definition upload_ok :: "(string \<Rightarrow> string) \<Rightarrow> string \<Rightarrow> (string \<times> string) list \<Rightarrow> Upload \<Rightarrow> bool" where
  "upload_ok sha i files s \<longleftrightarrow> u_id s = i \<and> has_layout s \<and>
     (u_state s \<noteq> Cancelled \<longrightarrow> 0 < u_size s \<and> \<not> u_cleaned s \<and> (\<forall>c \<in> set (u_chunks s). k_complete c \<longrightarrow> chunk_ok sha files c)) \<and>
     (u_state s = Completed \<longrightarrow> (\<forall>c \<in> set (u_chunks s). k_complete c) \<and> u_digest s = sha (content files s)) \<and>
     (u_cleaned s \<longrightarrow> files = [])"

definition dir_ok :: "(string \<Rightarrow> string) \<Rightarrow> string \<Rightarrow> updir \<Rightarrow> bool" where
  "dir_ok sha i d \<longleftrightarrow>
     (case ud_manifest d of Absent \<Rightarrow> ud_files d = [] | Garbage \<Rightarrow> False | Stored s \<Rightarrow> upload_ok sha i (ud_files d) s)"

definition volume_ok :: "(string \<Rightarrow> string) \<Rightarrow> volume \<Rightarrow> bool" where
  "volume_ok sha v \<longleftrightarrow> (\<forall>i. dir_ok sha i (dir_of i v))"

text \<open>
  How a directory evolves: a session never disappears and keeps its size and deadline, its state
  only moves forward, and while it is not cancelled a complete chunk keeps its digest and bytes.
\<close>

fun rank :: "upload_state \<Rightarrow> nat" where
  "rank Uploading = 0" | "rank Completed = 1" | "rank Cancelled = 2"

definition keeps_chunk :: "(string \<times> string) list \<Rightarrow> (string \<times> string) list \<Rightarrow> UploadChunk \<Rightarrow> UploadChunk \<Rightarrow> bool" where
  "keeps_chunk files files' c c' \<longleftrightarrow> span c' = span c \<and>
     (k_complete c \<longrightarrow> k_complete c' \<and> k_digest c' = k_digest c \<and>
        map_of files' (chunk_name (k_start c)) = map_of files (chunk_name (k_start c)))"

definition session_step :: "(string \<times> string) list \<Rightarrow> (string \<times> string) list \<Rightarrow> Upload \<Rightarrow> Upload \<Rightarrow> bool" where
  "session_step files files' s s' \<longleftrightarrow> u_id s' = u_id s \<and> u_size s' = u_size s \<and> u_expires s' = u_expires s \<and>
     rank (u_state s) \<le> rank (u_state s') \<and> (u_cleaned s \<longrightarrow> u_cleaned s') \<and>
     (u_state s \<noteq> Uploading \<longrightarrow> u_digest s' = u_digest s) \<and>
     (u_state s' \<noteq> Cancelled \<longrightarrow> list_all2 (keeps_chunk files files') (u_chunks s) (u_chunks s'))"

definition dir_step :: "updir \<Rightarrow> updir \<Rightarrow> bool" where
  "dir_step d d' \<longleftrightarrow>
     (case ud_manifest d of
        Stored s \<Rightarrow> (\<exists>s'. ud_manifest d' = Stored s' \<and> session_step (ud_files d) (ud_files d') s s')
      | _ \<Rightarrow> True)"

lemma keeps_chunk_refl [simp]: "keeps_chunk fs fs c c"
  by (simp add: keeps_chunk_def)

lemma session_step_refl [simp]: "session_step fs fs s s"
  by (simp add: session_step_def list.rel_refl)

lemma dir_step_refl [simp]: "dir_step d d"
  by (simp add: dir_step_def split: manifest.split)

lemma keeps_chunk_trans:
  "keeps_chunk a b c c' \<Longrightarrow> keeps_chunk b d c' c'' \<Longrightarrow> keeps_chunk a d c c''"
  by (auto simp: keeps_chunk_def span_def)

lemma session_step_trans:
  assumes "session_step a b s s'" "session_step b d s' s''"
  shows "session_step a d s s''"
proof -
  have "list_all2 (keeps_chunk a d) (u_chunks s) (u_chunks s'')" if "u_state s'' \<noteq> Cancelled"
  proof (rule list_all2_trans [OF keeps_chunk_trans])
    have "u_state s' \<noteq> Cancelled" using assms(2) that by (cases "u_state s''"; cases "u_state s'") (auto simp: session_step_def)
    then show "list_all2 (keeps_chunk a b) (u_chunks s) (u_chunks s')" using assms(1) by (simp add: session_step_def)
    show "list_all2 (keeps_chunk b d) (u_chunks s') (u_chunks s'')" using assms(2) that by (simp add: session_step_def)
  qed
  moreover have "u_digest s'' = u_digest s" if "u_state s \<noteq> Uploading"
    using assms that by (cases "u_state s"; cases "u_state s'") (auto simp: session_step_def)
  ultimately show ?thesis using assms by (simp add: session_step_def)
qed

lemma dir_step_trans: "dir_step d d' \<Longrightarrow> dir_step d' d'' \<Longrightarrow> dir_step d d''"
  by (auto simp: dir_step_def split: manifest.splits intro: session_step_trans)

definition sound :: "(string \<Rightarrow> string) \<Rightarrow> volume \<Rightarrow> volume \<Rightarrow> bool" where
  "sound sha v0 v \<longleftrightarrow> volume_ok sha v \<and> (\<forall>i. dir_step (dir_of i v0) (dir_of i v))"

lemma sound_refl: "volume_ok sha v \<Longrightarrow> sound sha v v"
  by (simp add: sound_def)

lemma sound_trans: "sound sha a b \<Longrightarrow> sound sha b c \<Longrightarrow> sound sha a c"
  unfolding sound_def using dir_step_trans by blast

lemma dir_of_update: "dir_of j (AList.update i d v) = (if j = i then d else dir_of j v)"
  by (simp add: dir_of_def update_conv)

lemma sound_update:
  assumes "sound sha v0 v" "dir_ok sha i d" "dir_step (dir_of i v) d"
  shows "sound sha v0 (AList.update i d v)"
  using assms dir_step_trans [of "dir_of i v0" "dir_of i v" d] by (auto simp: sound_def volume_ok_def dir_of_update)

lemma dir_of_same [simp]: "dir_of j (AList.update i (dir_of i v) v) = dir_of j v"
  by (simp add: dir_of_update)

section \<open>What the file operations keep\<close>

abbreviation holding :: "(string \<Rightarrow> string) \<Rightarrow> volume \<Rightarrow> string \<Rightarrow> Upload \<Rightarrow> volume \<Rightarrow> bool" where
  "holding sha v0 i s v \<equiv> sound sha v0 v \<and> ud_manifest (dir_of i v) = Stored s"

lemma holding_ok: "holding sha v0 i s v \<Longrightarrow> upload_ok sha i (ud_files (dir_of i v)) s"
  unfolding sound_def volume_ok_def dir_ok_def by (metis manifest.simps(10))

lemma reads_lock: "hoare P (lock i) (\<lambda>_. P) (\<lambda>_. P)"
  by (simp add: lock_def hoare_def stmt_def split: fault.split)

lemma reads_file: "hoare P (read_file i name) (\<lambda>_. P) (\<lambda>_. P)"
  by (auto simp: read_file_def hoare_def stmt_def split: fault.split option.split)

lemma load_holding:
  "hoare (sound sha v0) (load i) (holding sha v0 i)
     (\<lambda>e v. sound sha v0 v \<and> (e = ErrNotExist \<longrightarrow> ud_manifest (dir_of i v) = Absent))"
  by (auto simp: load_def hoare_def stmt_def split: fault.split manifest.split)

lemma find_upload_holding:
  "hoare (sound sha v0) (find_upload i)
     (\<lambda>found v. sound sha v0 v \<and> (case found of None \<Rightarrow> ud_manifest (dir_of i v) = Absent | Some s \<Rightarrow> ud_manifest (dir_of i v) = Stored s))
     (\<lambda>_. sound sha v0)"
  unfolding find_upload_def
  by (rule hoare_tryP, rule hoare_bind [OF load_holding]) (auto simp: hoare_def)

lemma uploadLive_keeps: "hoare P (uploadLive s) (\<lambda>_ v. P v \<and> u_state s \<noteq> Cancelled) (\<lambda>_. P)"
  by (auto simp: uploadLive_def hoare_def bindP_def)

lemma live_upload_holding:
  "hoare (sound sha v0) (live_upload i) (\<lambda>s v. holding sha v0 i s v \<and> u_state s \<noteq> Cancelled) (\<lambda>_. sound sha v0)"
  unfolding live_upload_def
proof (rule hoare_bind [OF reads_lock], rule hoare_bind)
  show "hoare (sound sha v0) (load i) (holding sha v0 i) (\<lambda>_. sound sha v0)"
    by (rule hoare_weaken [OF load_holding]) auto
  show "hoare (holding sha v0 i s) (bindP (uploadLive s) (\<lambda>_. ret s))
      (\<lambda>s v. holding sha v0 i s v \<and> u_state s \<noteq> Cancelled) (\<lambda>_. sound sha v0)" for s
  proof (rule hoare_bind)
    show "hoare (holding sha v0 i s) (uploadLive s) (\<lambda>_ v. holding sha v0 i s v \<and> u_state s \<noteq> Cancelled) (\<lambda>_. sound sha v0)"
      by (rule hoare_weaken [OF uploadLive_keeps [of "holding sha v0 i s"]]) auto
  qed (simp add: hoare_def)
qed

lemma mkdir_keeps:
  "hoare (\<lambda>v. sound sha v0 v \<and> ud_manifest (dir_of i v) = Absent) (mkdir i)
     (\<lambda>_ v. sound sha v0 v \<and> ud_manifest (dir_of i v) = Absent) (\<lambda>_. sound sha v0)"
  by (auto simp: mkdir_def hoare_def stmt_def sound_def volume_ok_def split: fault.split)

text \<open>Saving a manifest that fits its files and continues the one before.\<close>

lemma save_sound:
  assumes "\<And>v. P v \<Longrightarrow> sound sha v0 v \<and> upload_ok sha (u_id s) (ud_files (dir_of (u_id s) v)) s \<and>
      (\<forall>s0. ud_manifest (dir_of (u_id s) v) = Stored s0 \<longrightarrow>
         session_step (ud_files (dir_of (u_id s) v)) (ud_files (dir_of (u_id s) v)) s0 s)"
  shows "hoare P (save s)
     (\<lambda>_ v. holding sha v0 (u_id s) s v \<and> (\<exists>v1. P v1 \<and> ud_files (dir_of (u_id s) v) = ud_files (dir_of (u_id s) v1)))
     (\<lambda>_. sound sha v0)"
proof -
  let ?i = "u_id s"
  let ?save = "\<lambda>v. AList.update ?i ((dir_of ?i v)\<lparr>ud_manifest := Stored s\<rparr>) v"
  have snd: "sound sha v0 (?save v)" if "P v" for v
  proof (rule sound_update)
    show "sound sha v0 v" using assms [OF that] by simp
    show "dir_ok sha ?i ((dir_of ?i v)\<lparr>ud_manifest := Stored s\<rparr>)" using assms [OF that] by (simp add: dir_ok_def)
    show "dir_step (dir_of ?i v) ((dir_of ?i v)\<lparr>ud_manifest := Stored s\<rparr>)"
      using assms [OF that] by (auto simp: dir_step_def split: manifest.split)
  qed
  show ?thesis
  proof (rule hoareI)
    fix w n v a n' v'
    assume P: "P v" and "save s w n v = (Inr a, n', v')"
    then have "v' = ?save v" by (auto simp: save_def stmt_def split: fault.splits)
    then show "holding sha v0 ?i s v' \<and> (\<exists>v1. P v1 \<and> ud_files (dir_of ?i v') = ud_files (dir_of ?i v1))"
      using snd [OF P] P by (auto simp: dir_of_update)
  next
    fix w n v e n' v'
    assume P: "P v" and "save s w n v = (Inl e, n', v')"
    then have "v' = v \<or> v' = ?save v" by (auto simp: save_def stmt_def split: fault.splits)
    then show "sound sha v0 v'" using snd [OF P] assms [OF P] by auto
  qed
qed

lemma save_keeps_sound:
  assumes "\<And>v. P v \<Longrightarrow> sound sha v0 v \<and> upload_ok sha (u_id s) (ud_files (dir_of (u_id s) v)) s \<and>
      (\<forall>s0. ud_manifest (dir_of (u_id s) v) = Stored s0 \<longrightarrow>
         session_step (ud_files (dir_of (u_id s) v)) (ud_files (dir_of (u_id s) v)) s0 s)"
  shows "hoare P (save s) (\<lambda>_. sound sha v0) (\<lambda>_. sound sha v0)"
  by (rule hoare_weaken [OF save_sound [of P, OF assms]]) auto

section \<open>The layout of a manifest\<close>

lemma layout_nth:
  assumes "has_layout s" "k < length (u_chunks s)"
  shows "span (u_chunks s ! k) = (int k * UploadChunkSize, min ((int k + 1) * UploadChunkSize) (u_size s))"
    "int k * UploadChunkSize < u_size s"
proof -
  have eq: "map span (u_chunks s) = map span (make_chunks 0 (u_size s))" using assms(1) by (simp add: has_layout_def)
  then have len: "k < length (make_chunks 0 (u_size s))" using assms(2) by (metis length_map)
  have "span (u_chunks s ! k) = span (make_chunks 0 (u_size s) ! k)"
    using eq assms(2) len by (metis nth_map)
  then show "span (u_chunks s ! k) = (int k * UploadChunkSize, min ((int k + 1) * UploadChunkSize) (u_size s))"
    "int k * UploadChunkSize < u_size s"
    using make_chunks_nth [OF _ len] by simp_all
qed

lemma layout_length:
  assumes "has_layout s" "0 \<le> start" "start < u_size s" "start mod UploadChunkSize = 0"
  shows "nat (start div UploadChunkSize) < length (u_chunks s)"
proof -
  have "start = start div UploadChunkSize * UploadChunkSize" using div_mult_mod_eq [of start UploadChunkSize] assms(4) by simp
  then have "nat (start div UploadChunkSize) < length (make_chunks 0 (u_size s))"
    using make_chunks_length [of "start div UploadChunkSize" 0 "u_size s"] assms(2,3) chunk_size_pos
    by (simp add: pos_imp_zdiv_nonneg_iff)
  then show ?thesis using assms(1) by (metis has_layout_def length_map)
qed

lemma layout_inj:
  assumes "has_layout s" "j < length (u_chunks s)" "k < length (u_chunks s)"
    "chunk_name (k_start (u_chunks s ! j)) = chunk_name (k_start (u_chunks s ! k))"
  shows "j = k"
proof -
  have "k_start (u_chunks s ! m) = int m * UploadChunkSize" if "m < length (u_chunks s)" for m
    using layout_nth(1) [OF assms(1) that] by (simp add: span_def)
  then have "int j * UploadChunkSize = int k * UploadChunkSize"
    using assms(2-4) chunk_name_inj [of "int j * UploadChunkSize" "int k * UploadChunkSize"] chunk_size_pos by simp
  then show ?thesis using chunk_size_pos by simp
qed

section \<open>Storing a chunk\<close>

lemma write_chunk_sound:
  assumes "k < length (u_chunks s)" "\<not> k_complete (u_chunks s ! k)" "u_state s = Uploading" "start = k_start (u_chunks s ! k)"
  shows "hoare (holding sha v0 i s) (write_chunk i start data)
     (\<lambda>_ v. holding sha v0 i s v \<and> map_of (ud_files (dir_of i v)) (chunk_name start) = Some data) (\<lambda>_. sound sha v0)"
proof -
  let ?w = "\<lambda>v. AList.update i ((dir_of i v)\<lparr>ud_files := AList.update (chunk_name start) data (ud_files (dir_of i v))\<rparr>) v"
  have snd: "sound sha v0 (?w v)" if h: "holding sha v0 i s v" for v
  proof (rule sound_update)
    note ok = holding_ok [OF h]
    let ?fs = "ud_files (dir_of i v)" and ?fs' = "AList.update (chunk_name start) data (ud_files (dir_of i v))"
    have lay: "has_layout s" using ok by (simp add: upload_ok_def)
    have other: "map_of ?fs' (chunk_name (k_start c)) = map_of ?fs (chunk_name (k_start c))"
      if c: "c \<in> set (u_chunks s)" "k_complete c" for c
    proof -
      obtain j where j: "j < length (u_chunks s)" "c = u_chunks s ! j" using c(1) by (auto simp: in_set_conv_nth)
      then have "j \<noteq> k" using c(2) assms(2) by auto
      then have "chunk_name (k_start c) \<noteq> chunk_name start" using layout_inj [OF lay j(1) assms(1)] j(2) assms(4) by auto
      then show ?thesis by (simp add: update_conv)
    qed
    then have "upload_ok sha i ?fs' s" using ok assms(3) by (auto simp: upload_ok_def chunk_ok_def)
    then show "dir_ok sha i ((dir_of i v)\<lparr>ud_files := ?fs'\<rparr>)" using h by (simp add: dir_ok_def)
    have "session_step ?fs ?fs' s s"
      using other by (auto simp: session_step_def keeps_chunk_def intro!: list.rel_refl_strong)
    then show "dir_step (dir_of i v) ((dir_of i v)\<lparr>ud_files := ?fs'\<rparr>)" using h by (simp add: dir_step_def)
  qed (use h in simp)
  show ?thesis
  proof (rule hoareI)
    fix w n v a n' v'
    assume P: "holding sha v0 i s v" and "write_chunk i start data w n v = (Inr a, n', v')"
    then have "v' = ?w v" by (auto simp: write_chunk_def stmt_def split: fault.splits)
    then show "holding sha v0 i s v' \<and> map_of (ud_files (dir_of i v')) (chunk_name start) = Some data"
      using snd [OF P] P by (simp add: dir_of_update update_conv)
  next
    fix w n v e n' v'
    assume P: "holding sha v0 i s v" and "write_chunk i start data w n v = (Inl e, n', v')"
    then have "v' = v \<or> v' = ?w v" by (auto simp: write_chunk_def stmt_def split: fault.splits)
    then show "sound sha v0 v'" using snd [OF P] P by auto
  qed
qed

definition mark :: "(string \<Rightarrow> string) \<Rightarrow> nat \<Rightarrow> string \<Rightarrow> Upload \<Rightarrow> Upload" where
  "mark sha k data s =
     s\<lparr>u_chunks := (u_chunks s)[k := (u_chunks s ! k)\<lparr>k_digest := sha data, k_complete := True\<rparr>]\<rparr>"

lemma mark_sel [simp]:
  "u_id (mark sha k data s) = u_id s" "u_size (mark sha k data s) = u_size s" "u_expires (mark sha k data s) = u_expires s"
  "u_state (mark sha k data s) = u_state s" "u_cleaned (mark sha k data s) = u_cleaned s" "u_digest (mark sha k data s) = u_digest s"
  by (simp_all add: mark_def)

lemma mark_ok:
  assumes "upload_ok sha i files s" "k < length (u_chunks s)" "u_state s = Uploading"
    "map_of files (chunk_name (k_start (u_chunks s ! k))) = Some data"
    "int (length data) = k_end (u_chunks s ! k) - k_start (u_chunks s ! k)"
  shows "upload_ok sha i files (mark sha k data s)"
proof -
  let ?c = "(u_chunks s ! k)\<lparr>k_digest := sha data, k_complete := True\<rparr>"
  have "map span (u_chunks (mark sha k data s)) = (map span (u_chunks s))[k := span ?c]"
    by (simp add: mark_def map_update)
  also have "\<dots> = map span (u_chunks s)" using assms(2) by (simp add: span_def list_update_same_conv)
  finally have "has_layout (mark sha k data s)" using assms(1) by (simp add: upload_ok_def has_layout_def)
  moreover have "\<forall>c \<in> set (u_chunks (mark sha k data s)). k_complete c \<longrightarrow> chunk_ok sha files c"
    using assms(1,3-5) set_update_subset_insert [of "u_chunks s" k ?c]
    by (auto simp: mark_def upload_ok_def chunk_ok_def)
  ultimately show ?thesis using assms(1,3) by (simp add: upload_ok_def)
qed

lemma mark_step:
  assumes "k < length (u_chunks s)" "\<not> k_complete (u_chunks s ! k)"
  shows "session_step files files s (mark sha k data s)"
proof -
  have "list_all2 (keeps_chunk files files) (u_chunks s) ((u_chunks s)[k := (u_chunks s ! k)\<lparr>k_digest := sha data, k_complete := True\<rparr>])"
    using assms by (auto simp: list_all2_conv_all_nth nth_list_update keeps_chunk_def span_def)
  then show ?thesis by (simp add: session_step_def) (simp add: mark_def)
qed

lemma Upload_Put_sound: "preserves (sound sha v0) (Upload_Put sha i start data)"
  unfolding Upload_Put_def
proof (rule hoare_bind [OF live_upload_holding])
  fix s :: Upload
  let ?k = "nat (start div UploadChunkSize)"
  let ?c = "u_chunks s ! ?k"
  have refuse: "hoare (\<lambda>v. holding sha v0 i s v \<and> b) (raise e) (\<lambda>_. sound sha v0) (\<lambda>_. sound sha v0)" for b e
    by (simp add: hoare_def)
  have give: "hoare (\<lambda>v. holding sha v0 i s v \<and> b) (ret s) (\<lambda>_. sound sha v0) (\<lambda>_. sound sha v0)" for b
    by (simp add: hoare_def)
  have store: "hoare (\<lambda>v. holding sha v0 i s v \<and> u_state s \<noteq> Cancelled)
      (bindP (write_chunk i start data) (\<lambda>_. bindP (save (mark sha ?k data s)) (\<lambda>_. ret (mark sha ?k data s))))
      (\<lambda>_. sound sha v0) (\<lambda>_. sound sha v0)"
    if c: "0 \<le> start" "start mod UploadChunkSize = 0" "?k < length (u_chunks s)" "int (length data) = k_end ?c - k_start ?c"
      "\<not> k_complete ?c" "u_state s = Uploading"
  proof -
    have "hoare (holding sha v0 i s)
      (bindP (write_chunk i start data) (\<lambda>_. bindP (save (mark sha ?k data s)) (\<lambda>_. ret (mark sha ?k data s))))
      (\<lambda>_. sound sha v0) (\<lambda>_. sound sha v0)"
    proof (cases "\<exists>v. holding sha v0 i s v")
      case True
      then have ok: "u_id s = i" "has_layout s" using holding_ok by (auto simp: upload_ok_def)
      have "k_start ?c = int ?k * UploadChunkSize" using layout_nth(1) [OF ok(2) c(3)] by (simp add: span_def)
      also have "\<dots> = start"
        using div_mult_mod_eq [of start UploadChunkSize] c(1,2) chunk_size_pos by (simp add: pos_imp_zdiv_nonneg_iff)
      finally have start: "start = k_start ?c" by simp
      show ?thesis
        by (rule hoare_bind [OF write_chunk_sound [OF c(3,5,6) start]], rule hoare_bind [OF save_keeps_sound])
           (use ok(1) c start mark_ok [of sha i _ s ?k data] mark_step [OF c(3,5)] holding_ok in \<open>auto simp: hoare_def\<close>)
    qed (auto simp: hoare_def)
    then show ?thesis by (rule hoare_pre) simp
  qed
  show "hoare (\<lambda>v. holding sha v0 i s v \<and> u_state s \<noteq> Cancelled)
     (if start < 0 \<or> start mod UploadChunkSize \<noteq> 0 \<or> u_size s \<le> start then raise ErrUploadConflict
      else let k = ?k in
       if length (u_chunks s) \<le> k then raise IndexPanic
       else let chunk = u_chunks s ! k in
         if int (length data) \<noteq> k_end chunk - k_start chunk then raise ErrUploadConflict
         else if k_complete chunk then (if sha data \<noteq> k_digest chunk then raise ErrUploadConflict else ret s)
         else if u_state s \<noteq> Uploading then raise ErrUploadConflict
         else let s' = s\<lparr>u_chunks := (u_chunks s)[k := chunk\<lparr>k_digest := sha data, k_complete := True\<rparr>]\<rparr> in
           bindP (write_chunk i start data) (\<lambda>_. bindP (save s') (\<lambda>_. ret s')))
     (\<lambda>_. sound sha v0) (\<lambda>_. sound sha v0)"
    unfolding Let_def mark_def [symmetric] by (intro hoare_split_if refuse give store) auto
qed

section \<open>Reading\<close>

lemma read_chunk_file:
  "hoare (\<lambda>v. v = v1) (read_chunk sha broken i c)
     (\<lambda>data v. v = v1 \<and> map_of (ud_files (dir_of i v1)) (chunk_name (k_start c)) = Some data \<and>
        int (length data) = k_end c - k_start c \<and> sha data = k_digest c) (\<lambda>_ v. v = v1)"
proof -
  have whole: "take (nat (e - b + 1)) data = data" if "int (length (take (nat (e - b + 1)) data)) = e - b" for e b :: int and data :: string
    using that by (simp add: min_def split: if_splits)
  have "hoare (\<lambda>v. v = v1) (read_file i (chunk_name (k_start c)))
      (\<lambda>data v. v = v1 \<and> map_of (ud_files (dir_of i v1)) (chunk_name (k_start c)) = Some data) (\<lambda>_ v. v = v1)"
    by (auto simp: read_file_def hoare_def stmt_def split: fault.split option.split)
  then show ?thesis unfolding read_chunk_def Let_def
    by (rule hoare_bind)
      (use whole in \<open>auto simp: hoare_def copy_file_def tryP_def bindP_def stmt_def raise_def ret_def split: fault.split\<close>)
qed

lemma hash_loop_digest:
  "hoare (\<lambda>v. v = v1) (hash_loop sha ended i cs full)
     (\<lambda>r v. v = v1 \<and> (\<forall>c \<in> set cs. k_complete c) \<and> r = sha (full @ concat (map (file_of (ud_files (dir_of i v1))) cs)))
     (\<lambda>_ v. v = v1)"
proof (induction cs arbitrary: full)
  case (Cons c cs)
  have stop: "hoare (\<lambda>v. v = v1) (raise e) (\<lambda>r v. v = v1 \<and> (\<forall>d \<in> set (c # cs). k_complete d) \<and>
      r = sha (full @ concat (map (file_of (ud_files (dir_of i v1))) (c # cs)))) (\<lambda>_ v. v = v1)" for e
    by (simp add: hoare_def)
  have go: "hoare (\<lambda>v. v = v1) (bindP (read_chunk sha ErrIO i c) (\<lambda>data. hash_loop sha ended i cs (full @ data)))
      (\<lambda>r v. v = v1 \<and> (\<forall>d \<in> set (c # cs). k_complete d) \<and>
      r = sha (full @ concat (map (file_of (ud_files (dir_of i v1))) (c # cs)))) (\<lambda>_ v. v = v1)" if "k_complete c"
  proof (rule hoare_bind [OF read_chunk_file])
    fix data
    show "hoare (\<lambda>v. v = v1 \<and> map_of (ud_files (dir_of i v1)) (chunk_name (k_start c)) = Some data \<and>
        int (length data) = k_end c - k_start c \<and> sha data = k_digest c) (hash_loop sha ended i cs (full @ data))
      (\<lambda>r v. v = v1 \<and> (\<forall>d \<in> set (c # cs). k_complete d) \<and>
      r = sha (full @ concat (map (file_of (ud_files (dir_of i v1))) (c # cs)))) (\<lambda>_ v. v = v1)"
    proof (rule hoare_assume)
      assume "map_of (ud_files (dir_of i v1)) (chunk_name (k_start c)) = Some data \<and>
        int (length data) = k_end c - k_start c \<and> sha data = k_digest c"
      then have "file_of (ud_files (dir_of i v1)) c = data" by (simp add: file_of_def)
      then show "hoare (\<lambda>v. v = v1) (hash_loop sha ended i cs (full @ data))
        (\<lambda>r v. v = v1 \<and> (\<forall>d \<in> set (c # cs). k_complete d) \<and>
        r = sha (full @ concat (map (file_of (ud_files (dir_of i v1))) (c # cs)))) (\<lambda>_ v. v = v1)"
        by (intro hoare_weaken [OF Cons.IH [of "full @ data"]]) (use that in auto)
    qed
  qed
  show ?case unfolding hash_loop.simps using stop go by auto
qed (simp add: hoare_def)

lemma hashChunks_digest:
  "hoare (\<lambda>v. holding sha v0 i s v \<and> b) (hashChunks sha ended s)
     (\<lambda>r v. (holding sha v0 i s v \<and> b) \<and> (\<forall>c \<in> set (u_chunks s). k_complete c) \<and> r = sha (content (ud_files (dir_of i v)) s))
     (\<lambda>_. sound sha v0)"
proof (rule hoareI)
  fix w n v a n' v'
  assume h: "holding sha v0 i s v \<and> b" and "hashChunks sha ended s w n v = (Inr a, n', v')"
  moreover have "u_id s = i" using holding_ok h by (auto simp: upload_ok_def)
  ultimately show "(holding sha v0 i s v' \<and> b) \<and> (\<forall>c \<in> set (u_chunks s). k_complete c) \<and> a = sha (content (ud_files (dir_of i v')) s)"
    using hoareD_ok [OF hash_loop_digest refl] unfolding hashChunks_def content_def by fastforce
next
  fix w n v e n' v'
  assume "holding sha v0 i s v \<and> b" "hashChunks sha ended s w n v = (Inl e, n', v')"
  then show "sound sha v0 v'" using hoareD_err [OF hash_loop_digest refl] unfolding hashChunks_def by blast
qed

lemma Upload_Complete_sound: "preserves (sound sha v0) (Upload_Complete sha ended i)"
  unfolding Upload_Complete_def
proof (rule hoare_bind [OF live_upload_holding])
  fix s :: Upload
  have complete: "hoare (\<lambda>v. holding sha v0 i s v \<and> u_state s \<noteq> Cancelled)
      (bindP (hashChunks sha ended s) (\<lambda>digest. bindP (save (s\<lparr>u_digest := digest, u_state := Completed\<rparr>)) (\<lambda>_.
         ret (s\<lparr>u_digest := digest, u_state := Completed\<rparr>)))) (\<lambda>_. sound sha v0) (\<lambda>_. sound sha v0)"
    if up: "u_state s \<noteq> Completed"
  proof (rule hoare_bind [OF hashChunks_digest], rule hoare_bind [OF save_keeps_sound])
    fix digest v
    let ?s = "s\<lparr>u_digest := digest, u_state := Completed\<rparr>"
    assume h: "(holding sha v0 i s v \<and> u_state s \<noteq> Cancelled) \<and> (\<forall>c \<in> set (u_chunks s). k_complete c) \<and>
        digest = sha (content (ud_files (dir_of i v)) s)"
    then have ok: "upload_ok sha i (ud_files (dir_of i v)) s" "u_state s = Uploading" using holding_ok up by (blast, cases "u_state s") auto
    have "content (ud_files (dir_of i v)) ?s = content (ud_files (dir_of i v)) s" by (simp add: content_def)
    moreover have "session_step (ud_files (dir_of i v)) (ud_files (dir_of i v)) s ?s"
      using ok(2) by (simp add: session_step_def list.rel_refl)
    ultimately show "sound sha v0 v \<and> upload_ok sha (u_id ?s) (ud_files (dir_of (u_id ?s) v)) ?s \<and>
      (\<forall>s0. ud_manifest (dir_of (u_id ?s) v) = Stored s0 \<longrightarrow>
         session_step (ud_files (dir_of (u_id ?s) v)) (ud_files (dir_of (u_id ?s) v)) s0 ?s)"
      using ok h by (auto simp: upload_ok_def has_layout_def)
  qed (simp add: hoare_def)
  show "hoare (\<lambda>v. holding sha v0 i s v \<and> u_state s \<noteq> Cancelled)
     (if u_state s = Completed then ret s
      else bindP (hashChunks sha ended s) (\<lambda>digest.
       let s' = s\<lparr>u_digest := digest, u_state := Completed\<rparr> in bindP (save s') (\<lambda>_. ret s')))
     (\<lambda>_. sound sha v0) (\<lambda>_. sound sha v0)"
    unfolding Let_def using complete by (auto simp: hoare_def [of _ "ret _"])
qed

lemma Upload_Verify_sound: "preserves (sound sha v0) (Upload_Verify sha ended i)"
  unfolding Upload_Verify_def
proof (rule hoare_bind [OF live_upload_holding])
  fix s :: Upload
  have "hoare (\<lambda>v. holding sha v0 i s v \<and> u_state s \<noteq> Cancelled)
      (bindP (hashChunks sha ended s) (\<lambda>digest. if digest \<noteq> u_digest s then raise ErrIntegrity else ret s))
      (\<lambda>_. sound sha v0) (\<lambda>_. sound sha v0)"
    by (rule hoare_bind [OF hashChunks_digest]) (auto simp: hoare_def)
  then show "hoare (\<lambda>v. holding sha v0 i s v \<and> u_state s \<noteq> Cancelled)
     (if u_state s \<noteq> Completed then raise ErrUploadConflict
      else bindP (hashChunks sha ended s) (\<lambda>digest. if digest \<noteq> u_digest s then raise ErrIntegrity else ret s))
     (\<lambda>_. sound sha v0) (\<lambda>_. sound sha v0)"
    by (auto simp: hoare_def [of _ "raise _"])
qed

lemma Upload_Create_sound: "preserves (sound sha v0) (Upload_Create i bytes)"
proof (cases "bytes \<le> 0 \<or> bytes > MaxUploadSize")
  case False
  have new_ok: "upload_ok sha i files (new_upload i bytes now)" for files now
  proof -
    have "\<not> k_complete c" if "c \<in> set (make_chunks 0 bytes)" for c
      using that make_chunks_nth [of 0 _ bytes] by (auto simp: in_set_conv_nth)
    then show ?thesis using False by (simp add: upload_ok_def has_layout_def new_upload_def)
  qed
  have id: "u_id (new_upload i bytes now) = i" for now by (simp add: new_upload_def)
  have fresh: "hoare (\<lambda>v. sound sha v0 v \<and> ud_manifest (dir_of i v) = Absent)
      (bindP (mkdir i) (\<lambda>_. bindP time_now (\<lambda>now. bindP (save (new_upload i bytes now)) (\<lambda>_. ret (new_upload i bytes now)))))
      (\<lambda>_. sound sha v0) (\<lambda>_. sound sha v0)"
  proof (rule hoare_bind [OF mkdir_keeps], rule hoare_bind)
    show "hoare (\<lambda>v. sound sha v0 v \<and> ud_manifest (dir_of i v) = Absent) time_now
        (\<lambda>_ v. sound sha v0 v \<and> ud_manifest (dir_of i v) = Absent) (\<lambda>_. sound sha v0)" by (simp add: hoare_def)
    show "hoare (\<lambda>v. sound sha v0 v \<and> ud_manifest (dir_of i v) = Absent)
        (bindP (save (new_upload i bytes now)) (\<lambda>_. ret (new_upload i bytes now))) (\<lambda>_. sound sha v0) (\<lambda>_. sound sha v0)" for now
      by (rule hoare_bind [OF save_keeps_sound]) (use new_ok id in \<open>auto simp: hoare_def\<close>)
  qed
  have conflict: "hoare (holding sha v0 i s) (raise e) (\<lambda>_. sound sha v0) (\<lambda>_. sound sha v0)" for s e
    by (simp add: hoare_def)
  have again: "hoare (holding sha v0 i s) (bindP (uploadLive s) (\<lambda>_. ret s)) (\<lambda>_. sound sha v0) (\<lambda>_. sound sha v0)" for s
    using hoare_bind [OF uploadLive_keeps [of "holding sha v0 i s" s]]
    by (auto simp: hoare_def uploadLive_def bindP_def)
  show ?thesis unfolding Upload_Create_def if_not_P [OF False]
    by (rule hoare_bind [OF reads_lock], rule hoare_bind [OF find_upload_holding]) (auto split: option.split intro: fresh conflict again)
qed (simp add: Upload_Create_def hoare_def)

section \<open>Cancelling\<close>

lemma remove_file_sound:
  assumes "u_state s = Cancelled" "\<not> u_cleaned s"
  shows "hoare (\<lambda>v. holding sha v0 i s v \<and> fst ` set (ud_files (dir_of i v)) \<subseteq> insert name N) (remove_file i name)
     (\<lambda>_ v. holding sha v0 i s v \<and> fst ` set (ud_files (dir_of i v)) \<subseteq> N) (\<lambda>_. sound sha v0)"
proof -
  let ?w = "\<lambda>v. AList.update i ((dir_of i v)\<lparr>ud_files := filter (\<lambda>f. fst f \<noteq> name) (ud_files (dir_of i v))\<rparr>) v"
  have snd: "sound sha v0 (?w v)" if h: "holding sha v0 i s v" for v
  proof (rule sound_update)
    have "upload_ok sha i (filter (\<lambda>f. fst f \<noteq> name) (ud_files (dir_of i v))) s"
      using holding_ok [OF h] assms by (simp add: upload_ok_def)
    then show "dir_ok sha i ((dir_of i v)\<lparr>ud_files := filter (\<lambda>f. fst f \<noteq> name) (ud_files (dir_of i v))\<rparr>)"
      using h by (simp add: dir_ok_def)
    show "dir_step (dir_of i v) ((dir_of i v)\<lparr>ud_files := filter (\<lambda>f. fst f \<noteq> name) (ud_files (dir_of i v))\<rparr>)"
      using h assms(1) by (simp add: dir_step_def session_step_def)
  qed (use h in simp)
  show ?thesis
  proof (rule hoareI)
    fix w n v a n' v'
    assume P: "holding sha v0 i s v \<and> fst ` set (ud_files (dir_of i v)) \<subseteq> insert name N"
      and "remove_file i name w n v = (Inr a, n', v')"
    then have "v' = ?w v" by (auto simp: remove_file_def stmt_def split: fault.splits)
    then show "holding sha v0 i s v' \<and> fst ` set (ud_files (dir_of i v')) \<subseteq> N"
      using snd [of v] P by (auto simp: dir_of_update)
  next
    fix w n v e n' v'
    assume P: "holding sha v0 i s v \<and> fst ` set (ud_files (dir_of i v)) \<subseteq> insert name N"
      and "remove_file i name w n v = (Inl e, n', v')"
    then have "v' = v \<or> v' = ?w v" by (auto simp: remove_file_def stmt_def split: fault.splits)
    then show "sound sha v0 v'" using snd [of v] P by auto
  qed
qed

lemma remove_all_sound:
  assumes "u_state s = Cancelled" "\<not> u_cleaned s"
  shows "hoare (\<lambda>v. holding sha v0 i s v \<and> fst ` set (ud_files (dir_of i v)) \<subseteq> set names) (remove_all ended i names)
     (\<lambda>_ v. holding sha v0 i s v \<and> ud_files (dir_of i v) = []) (\<lambda>_. sound sha v0)"
proof (induction names)
  case (Cons name names)
  show ?case unfolding remove_all.simps list.set
  proof (rule hoare_split_if)
    show "hoare (\<lambda>v. holding sha v0 i s v \<and> fst ` set (ud_files (dir_of i v)) \<subseteq> insert name (set names))
        (bindP (remove_file i name) (\<lambda>_. remove_all ended i names))
        (\<lambda>_ v. holding sha v0 i s v \<and> ud_files (dir_of i v) = []) (\<lambda>_. sound sha v0)"
      by (rule hoare_bind [OF remove_file_sound [OF assms] Cons.IH])
  qed (simp add: hoare_def)
qed (simp add: hoare_def)

lemma session_cancel [simp]:
  "u_state s' = Cancelled \<Longrightarrow> u_id s' = u_id s \<Longrightarrow> u_size s' = u_size s \<Longrightarrow> u_expires s' = u_expires s \<Longrightarrow>
   u_digest s' = u_digest s \<Longrightarrow> (u_cleaned s \<longrightarrow> u_cleaned s') \<Longrightarrow> session_step fs fs' s s'"
  by (cases "u_state s") (simp_all add: session_step_def)

text \<open>A cancellation that succeeds leaves the tombstone and no byte.\<close>

abbreviation buried :: "string \<Rightarrow> volume \<Rightarrow> bool" where
  "buried i v \<equiv> (\<exists>s. ud_manifest (dir_of i v) = Stored s \<and> u_state s = Cancelled \<and> u_cleaned s \<and> ud_files (dir_of i v) = [])"

lemma cancelLocked_sound:
  assumes "u_id s = i" "\<And>v. P v \<Longrightarrow> sound sha v0 v"
    "\<And>v. P v \<Longrightarrow> upload_ok sha i (ud_files (dir_of i v)) s"
    "\<And>v s0. P v \<Longrightarrow> ud_manifest (dir_of i v) = Stored s0 \<Longrightarrow> s0 = s"
    "\<And>v. P v \<Longrightarrow> u_cleaned s \<Longrightarrow> ud_manifest (dir_of i v) = Stored s"
  shows "hoare P (cancelLocked ended s) (\<lambda>_ v. sound sha v0 v \<and> buried i v) (\<lambda>_. sound sha v0)"
proof (cases "u_state s = Cancelled \<and> u_cleaned s")
  case True
  have "buried i v" if "P v" for v
    using True assms(5) [OF that] assms(3) [OF that] by (simp add: upload_ok_def)
  then show ?thesis using True assms(2) by (auto simp: cancelLocked_def hoare_def)
next
  case False
  let ?s = "s\<lparr>u_state := Cancelled\<rparr>"
  have unclean: "\<not> u_cleaned s" if "P v" for v
    using False assms(3) [OF that] by (auto simp: upload_ok_def)
  have save1: "hoare P (save ?s) (\<lambda>_. holding sha v0 i ?s) (\<lambda>_. sound sha v0)"
  proof -
    have "hoare P (save ?s) (\<lambda>_ v. holding sha v0 (u_id ?s) ?s v \<and> (\<exists>v1. P v1 \<and> ud_files (dir_of (u_id ?s) v) = ud_files (dir_of (u_id ?s) v1)))
        (\<lambda>_. sound sha v0)"
    proof (rule save_sound)
      fix v
      assume P: "P v"
      show "sound sha v0 v \<and> upload_ok sha (u_id ?s) (ud_files (dir_of (u_id ?s) v)) ?s \<and>
        (\<forall>s0. ud_manifest (dir_of (u_id ?s) v) = Stored s0 \<longrightarrow>
           session_step (ud_files (dir_of (u_id ?s) v)) (ud_files (dir_of (u_id ?s) v)) s0 ?s)"
        using assms(1) assms(2-4) [OF P] unclean [OF P] by (auto simp: upload_ok_def has_layout_def)
    qed
    then show ?thesis by (rule hoare_weaken) (use assms(1) in auto)
  qed
  have rest: "hoare (holding sha v0 i ?s)
      (bindP (list_files i) (\<lambda>names. bindP (remove_all ended i names) (\<lambda>_. bindP sync_dir (\<lambda>_. save (?s\<lparr>u_cleaned := True\<rparr>)))))
      (\<lambda>_ v. sound sha v0 v \<and> buried i v) (\<lambda>_. sound sha v0)" if "\<not> u_cleaned s"
  proof (rule hoare_bind)
    show "hoare (holding sha v0 i ?s) (list_files i)
        (\<lambda>names v. holding sha v0 i ?s v \<and> fst ` set (ud_files (dir_of i v)) \<subseteq> set names) (\<lambda>_. sound sha v0)"
      by (auto simp: list_files_def hoare_def stmt_def split: fault.split)
    fix names
    show "hoare (\<lambda>v. holding sha v0 i ?s v \<and> fst ` set (ud_files (dir_of i v)) \<subseteq> set names)
        (bindP (remove_all ended i names) (\<lambda>_. bindP sync_dir (\<lambda>_. save (?s\<lparr>u_cleaned := True\<rparr>))))
        (\<lambda>_ v. sound sha v0 v \<and> buried i v) (\<lambda>_. sound sha v0)"
    proof (rule hoare_bind [OF remove_all_sound], simp, simp add: that, rule hoare_bind)
      show "hoare (\<lambda>v. holding sha v0 i ?s v \<and> ud_files (dir_of i v) = []) sync_dir
          (\<lambda>_ v. holding sha v0 i ?s v \<and> ud_files (dir_of i v) = []) (\<lambda>_. sound sha v0)"
        by (auto simp: sync_dir_def hoare_def stmt_def split: fault.split)
      let ?t = "?s\<lparr>u_cleaned := True\<rparr>"
      have "hoare (\<lambda>v. holding sha v0 i ?s v \<and> ud_files (dir_of i v) = []) (save ?t)
          (\<lambda>_ v. holding sha v0 (u_id ?t) ?t v \<and> (\<exists>v1. (holding sha v0 i ?s v1 \<and> ud_files (dir_of i v1) = []) \<and>
             ud_files (dir_of (u_id ?t) v) = ud_files (dir_of (u_id ?t) v1))) (\<lambda>_. sound sha v0)"
      proof (rule save_sound)
        fix v
        assume h: "holding sha v0 i ?s v \<and> ud_files (dir_of i v) = []"
        then have "upload_ok sha i [] ?s" using holding_ok [of sha v0 v i ?s] by simp
        then show "sound sha v0 v \<and> upload_ok sha (u_id ?t) (ud_files (dir_of (u_id ?t) v)) ?t \<and>
          (\<forall>s0. ud_manifest (dir_of (u_id ?t) v) = Stored s0 \<longrightarrow>
             session_step (ud_files (dir_of (u_id ?t) v)) (ud_files (dir_of (u_id ?t) v)) s0 ?t)"
          using h assms(1) by (auto simp: upload_ok_def has_layout_def)
      qed
      then show "hoare (\<lambda>v. holding sha v0 i ?s v \<and> ud_files (dir_of i v) = []) (save ?t)
          (\<lambda>_ v. sound sha v0 v \<and> buried i v) (\<lambda>_. sound sha v0)"
        by (rule hoare_weaken) (use assms(1) in auto)
    qed
  qed
  show ?thesis
  proof (cases "\<exists>v. P v")
    case True
    then have "\<not> u_cleaned s" using unclean by blast
    with False show ?thesis unfolding cancelLocked_def Let_def
      using hoare_bind [OF save1 rest] assms(1) by simp
  qed (simp add: hoare_def)
qed

lemma cancel_held: "hoare (holding sha v0 i s) (cancelLocked ended s) (\<lambda>_ v. sound sha v0 v \<and> buried i v) (\<lambda>_. sound sha v0)"
proof (cases "u_id s = i")
  case True
  then show ?thesis by (rule cancelLocked_sound) (auto intro: holding_ok [OF conjI])
next
  case False
  then show ?thesis using holding_ok by (fastforce simp: hoare_def upload_ok_def)
qed

lemma Upload_Cancel_buries:
  "hoare (sound sha v0) (Upload_Cancel ended i) (\<lambda>_ v. sound sha v0 v \<and> buried i v) (\<lambda>_. sound sha v0)"
proof -
  have tomb: "upload_ok sha i files (tombstone i)" for files
    by (simp add: upload_ok_def tombstone_def has_layout_def make_chunks.simps MaxUploadSize_def)
  have fresh: "hoare (\<lambda>v. sound sha v0 v \<and> ud_manifest (dir_of i v) = Absent)
      (bindP (mkdir i) (\<lambda>_. cancelLocked ended (tombstone i))) (\<lambda>_ v. sound sha v0 v \<and> buried i v) (\<lambda>_. sound sha v0)"
    by (rule hoare_bind [OF mkdir_keeps], rule cancelLocked_sound) (auto simp: tomb, simp_all add: tombstone_def)
  show ?thesis unfolding Upload_Cancel_def
    by (rule hoare_bind [OF reads_lock], rule hoare_bind [OF find_upload_holding])
       (auto split: option.split intro: fresh cancel_held)
qed

lemma Upload_Cancel_sound: "preserves (sound sha v0) (Upload_Cancel ended i)"
  by (rule hoare_weaken [OF Upload_Cancel_buries]) auto

lemma sweep_sound: "preserves (sound sha v0) (sweep ended limit is)"
proof (induction "is" arbitrary: limit)
  case (Cons i "is")
  have cancel: "hoare (holding sha v0 i s) (bindP (cancelLocked ended s) (\<lambda>_. sweep ended k is)) (\<lambda>_. sound sha v0) (\<lambda>_. sound sha v0)" for s k
    by (rule hoare_bind [OF cancel_held]) (rule hoare_pre [OF Cons.IH], simp)
  have skip: "hoare (holding sha v0 i s) (sweep ended k is) (\<lambda>_. sound sha v0) (\<lambda>_. sound sha v0)" for s k
    by (rule hoare_pre [OF Cons.IH]) simp
  have found: "hoare (holding sha v0 i s) (bindP time_now (\<lambda>now.
      if eligible now s then bindP (cancelLocked ended s) (\<lambda>_. sweep ended (limit - 1) is) else sweep ended limit is))
      (\<lambda>_. sound sha v0) (\<lambda>_. sound sha v0)" for s
    by (rule hoare_bind [where R = "\<lambda>_. holding sha v0 i s"]) (simp_all add: hoare_def [of _ time_now] cancel skip)
  have missing: "hoare (\<lambda>v. sound sha v0 v \<and> ud_manifest (dir_of i v) = Absent) (sweep ended k is) (\<lambda>_. sound sha v0) (\<lambda>_. sound sha v0)" for k
    by (rule hoare_pre [OF Cons.IH]) simp
  have look: "preserves (sound sha v0) (bindP (lock i) (\<lambda>_. bindP (find_upload i) (\<lambda>found.
      case found of None \<Rightarrow> sweep ended limit is
      | Some s \<Rightarrow> bindP time_now (\<lambda>now.
          if eligible now s then bindP (cancelLocked ended s) (\<lambda>_. sweep ended (limit - 1) is) else sweep ended limit is))))"
    by (rule hoare_bind [OF reads_lock], rule hoare_bind [OF find_upload_holding])
       (auto split: option.split intro: missing found)
  show ?case unfolding sweep.simps by (intro hoare_split_if look Cons.IH) (simp_all add: hoare_def)
qed (simp add: hoare_def)

lemma SweepExpired_sound: "preserves (sound sha v0) (SweepExpired ended limit)"
  unfolding SweepExpired_def by (rule hoare_bind [OF _ sweep_sound]) (simp add: hoare_def stmt_def split: fault.split)

section \<open>The bytes of a read\<close>

fun tiled :: "int \<Rightarrow> (int \<times> int) list \<Rightarrow> int \<Rightarrow> bool" where
  "tiled p [] q \<longleftrightarrow> p = q"
| "tiled p ((a, b) # xs) q \<longleftrightarrow> a = p \<and> p < b \<and> tiled b xs q"

lemma tiled_le: "tiled p xs q \<Longrightarrow> p \<le> q"
  by (induction p xs q rule: tiled.induct) auto

lemma make_chunks_tiled: "start \<le> bytes \<Longrightarrow> tiled start (map span (make_chunks start bytes)) bytes"
proof (induction start bytes rule: make_chunks.induct)
  case (1 start bytes)
  show ?case
  proof (cases "start + UploadChunkSize \<le> bytes")
    case True
    then show ?thesis using 1 chunk_size_pos by (simp add: make_chunks.simps [of start bytes] span_def)
  next
    case False
    then have "make_chunks (start + UploadChunkSize) bytes = []" by (simp add: make_chunks.simps)
    then show ?thesis using False 1(2) by (auto simp: make_chunks.simps [of start bytes] span_def)
  qed
qed

lemma layout_tiled: "has_layout s \<Longrightarrow> tiled 0 (map span (u_chunks s)) (u_size s)"
  using make_chunks_tiled [of 0 "u_size s"] by (simp add: has_layout_def)

definition part :: "int \<Rightarrow> int \<Rightarrow> string \<Rightarrow> int \<times> int \<Rightarrow> string" where
  "part st en data c =
     (if snd c \<le> st \<or> en \<le> fst c then []
      else take (nat (min en (snd c) - max st (fst c))) (drop (nat (max st (fst c) - fst c)) data))"

text \<open>The parts of adjacent chunks make up one slice.\<close>

lemma parts_slice:
  assumes "tiled p (map g cs) q" "\<And>c. c \<in> set cs \<Longrightarrow> int (length (f c)) = snd (g c) - fst (g c)" "st \<le> en"
  shows "concat (map (\<lambda>c. part st en (f c) (g c)) cs) =
     take (nat (min en q - max st p)) (drop (nat (max st p - p)) (concat (map f cs))) \<and>
     int (length (concat (map f cs))) = q - p"
  using assms(1,2)
proof (induction cs arbitrary: p)
  case (Cons c cs)
  obtain b where c: "g c = (p, b)" "p < b" "tiled b (map g cs) q" using Cons.prems(1) by (cases "g c") auto
  have len: "int (length (f c)) = b - p" using Cons.prems(2) [of c] c(1) by simp
  let ?R = "concat (map f cs)"
  have IH: "concat (map (\<lambda>c. part st en (f c) (g c)) cs) = take (nat (min en q - max st b)) (drop (nat (max st b - b)) ?R)"
    "int (length ?R) = q - b"
    using Cons.IH [OF c(3)] Cons.prems(2) by simp_all
  have bq: "b \<le> q" using tiled_le [OF c(3)] .
  have "part st en (f c) (p, b) @ take (nat (min en q - max st b)) (drop (nat (max st b - b)) ?R) =
      take (nat (min en q - max st p)) (drop (nat (max st p - p)) (f c @ ?R))"
  proof -
    consider (after) "b \<le> st" | (before) "\<not> b \<le> st" "en \<le> p" | (inside) "\<not> b \<le> st" "\<not> en \<le> p" "en \<le> b"
      | (across) "\<not> b \<le> st" "\<not> en \<le> p" "\<not> en \<le> b" by blast
    then show ?thesis
    proof cases
      case after
      have "drop (nat (st - p)) (f c @ ?R) = drop (nat (st - b)) ?R"
      proof -
        have "nat (st - p) - length (f c) = nat (st - b)" "length (f c) \<le> nat (st - p)" using after len c(2) by linarith+
        then show ?thesis by simp
      qed
      then show ?thesis using after c(2) by (simp add: part_def max_def)
    next
      case before
      then show ?thesis using assms(3) c(2) bq by (simp add: part_def)
    next
      case inside
      let ?k = "nat (max st p - p)"
      have "min en q - max st b \<le> 0" using inside bq by auto
      moreover have "nat (en - max st p) \<le> length (drop ?k (f c))" using inside len c(2) by auto
      ultimately show ?thesis using inside bq by (simp add: part_def min_absorb1)
    next
      case across
      let ?k = "nat (max st p - p)"
      let ?m = "nat (min en q - max st p)"
      have l: "length (drop ?k (f c)) = nat (b - max st p)" "?k - length (f c) = 0" using across len c(2) by auto
      have m: "nat (b - max st p) \<le> ?m" "?m - nat (b - max st p) = nat (min en q - b)" using across bq c(2) by auto
      have "part st en (f c) (p, b) = drop ?k (f c)" using across l(1) by (simp add: part_def)
      moreover have "take ?m (drop ?k (f c @ ?R)) = drop ?k (f c) @ take (nat (min en q - b)) ?R"
        using m(1) by (simp only: drop_append take_append l m(2) drop_0 take_all)
      moreover have "max st b = b" using across by simp
      ultimately show ?thesis by simp
    qed
  qed
  then show ?case using IH c len by simp
qed simp

lemma read_loop_parts:
  "hoare (\<lambda>v. v = v1) (read_loop sha i st en cs acc)
     (\<lambda>r v. v = v1 \<and> r = acc @ concat (map (\<lambda>c. part st en (file_of (ud_files (dir_of i v1)) c) (span c)) cs))
     (\<lambda>_ v. v = v1)"
proof (induction cs arbitrary: acc)
  case (Cons c cs)
  let ?fs = "ud_files (dir_of i v1)"
  let ?Q = "\<lambda>r v. v = v1 \<and> r = acc @ concat (map (\<lambda>c. part st en (file_of ?fs c) (span c)) (c # cs))"
  have read: "hoare (\<lambda>v. v = v1) (read_chunk sha ErrIntegrity i c)
      (\<lambda>data v. v = v1 \<and> file_of ?fs c = data) (\<lambda>_ v. v = v1)"
    by (rule hoare_weaken [OF read_chunk_file]) (auto simp: file_of_def)
  show ?case unfolding read_loop.simps Let_def
  proof (rule hoare_split_if)
    assume "k_end c \<le> st \<or> en \<le> k_start c"
    then show "hoare (\<lambda>v. v = v1) (read_loop sha i st en cs acc) ?Q (\<lambda>_ v. v = v1)"
      by (intro hoare_weaken [OF Cons.IH [of acc]]) (auto simp: part_def span_def)
  next
    assume c: "\<not> (k_end c \<le> st \<or> en \<le> k_start c)"
    show "hoare (\<lambda>v. v = v1)
        (bindP (read_chunk sha ErrIntegrity i c) (\<lambda>data.
          read_loop sha i st en cs (acc @ take (nat (min en (k_end c) - k_start c - (max st (k_start c) - k_start c)))
            (drop (nat (max st (k_start c) - k_start c)) data)))) ?Q (\<lambda>_ v. v = v1)"
    proof (rule hoare_bind [OF read])
      show "hoare (\<lambda>v. v = v1 \<and> file_of ?fs c = data) (read_loop sha i st en cs
          (acc @ take (nat (min en (k_end c) - k_start c - (max st (k_start c) - k_start c)))
            (drop (nat (max st (k_start c) - k_start c)) data))) ?Q (\<lambda>_ v. v = v1)" for data
        using c by (intro hoare_assume hoare_weaken [OF Cons.IH]) (auto simp: part_def span_def)
    qed
  qed
qed (simp add: hoare_def)

definition slice :: "int \<Rightarrow> int \<Rightarrow> string \<Rightarrow> string" where
  "slice st len d = take (nat len) (drop (nat st) d)"

lemma completed_lengths:
  assumes "upload_ok sha i files s" "u_state s = Completed" "c \<in> set (u_chunks s)"
  shows "int (length (file_of files c)) = snd (span c) - fst (span c)"
  using assms by (auto simp: upload_ok_def chunk_ok_def file_of_def span_def)

text \<open>A read that succeeds returns a slice of the content whose digest the manifest records.\<close>

lemma Upload_Read_slice:
  assumes "volume_ok sha v" "Upload_Read sha i st en0 w n v = (Inr (x, len), n', v')"
  shows "v' = v \<and> (\<exists>s. ud_manifest (dir_of i v) = Stored s \<and> u_state s = Completed \<and>
     u_digest s = sha (content (ud_files (dir_of i v)) s) \<and>
     int (length (content (ud_files (dir_of i v)) s)) = u_size s \<and> 0 \<le> st \<and> 0 \<le> len \<and> st + len \<le> u_size s \<and>
     x = slice st len (content (ud_files (dir_of i v)) s))"
proof -
  obtain s n1 v1 where live: "live_upload i w n v = (Inr s, n1, v1)"
    and rest: "(if u_state s \<noteq> Completed then raise ErrUploadConflict
      else let en = (if en0 < 0 then u_size s else en0) in
       if st < 0 \<or> en < st \<or> u_size s < en \<or> en - st > UploadChunkSize then raise ErrUploadConflict
       else bindP (read_loop sha i st en (u_chunks s) []) (\<lambda>data. ret (data, en - st))) w n1 v1 = (Inr (x, len), n', v')"
    using assms(2) unfolding Upload_Read_def by (auto dest!: bindP_ok)
  have v1: "v1 = v" "ud_manifest (dir_of i v) = Stored s"
    using live by (auto simp: live_upload_def lock_def load_def uploadLive_def bindP_def stmt_def
        split: if_splits fault.splits sum.splits manifest.splits)
  have ok: "upload_ok sha i (ud_files (dir_of i v)) s"
    using assms(1) v1(2) by (metis dir_ok_def manifest.simps(10) volume_ok_def)
  define en where "en = (if en0 < 0 then u_size s else en0)"
  have st: "u_state s = Completed" "0 \<le> st" "st \<le> en" "en \<le> u_size s"
    and loop: "bindP (read_loop sha i st en (u_chunks s) []) (\<lambda>data. ret (data, en - st)) w n1 v = (Inr (x, len), n', v')"
    using rest v1(1) unfolding en_def [symmetric] Let_def by (auto split: if_splits)
  have len: "len = en - st" using loop by (auto dest!: bindP_ok)
  from loop have "\<exists>n2. read_loop sha i st en (u_chunks s) [] w n1 v = (Inr x, n2, v')" by (auto dest!: bindP_ok)
  then have x: "v' = v" "x = concat (map (\<lambda>c. part st en (file_of (ud_files (dir_of i v)) c) (span c)) (u_chunks s))"
    using hoareD_ok [OF read_loop_parts [of v] refl] by fastforce+
  have lay: "has_layout s" using ok by (simp add: upload_ok_def)
  note sl = parts_slice [OF layout_tiled [OF lay] completed_lengths [OF ok st(1)] st(3)]
  have "x = slice st len (content (ud_files (dir_of i v)) s)"
    using sl st len unfolding x(2) by (simp add: slice_def content_def)
  moreover have "int (length (content (ud_files (dir_of i v)) s)) = u_size s" using sl by (simp add: content_def)
  moreover have "u_digest s = sha (content (ud_files (dir_of i v)) s)" using ok st(1) by (simp add: upload_ok_def)
  ultimately show ?thesis using x(1) v1(2) st len by auto
qed

section \<open>Histories\<close>

datatype upload_op =
    U_Create string int
  | U_Status string
  | U_Put string int string
  | U_Complete "nat \<Rightarrow> bool" string
  | U_Verify "nat \<Rightarrow> bool" string
  | U_Cancel "nat \<Rightarrow> bool" string
  | U_Read string int int
  | U_Sweep "nat \<Rightarrow> bool" int

fun run_upload :: "(string \<Rightarrow> string) \<Rightarrow> upload_op \<Rightarrow> unit upload_prog" where
  "run_upload sha (U_Create i bytes) = bindP (Upload_Create i bytes) (\<lambda>_. ret ())"
| "run_upload sha (U_Status i) = bindP (Upload_Status i) (\<lambda>_. ret ())"
| "run_upload sha (U_Put i start data) = bindP (Upload_Put sha i start data) (\<lambda>_. ret ())"
| "run_upload sha (U_Complete ended i) = bindP (Upload_Complete sha ended i) (\<lambda>_. ret ())"
| "run_upload sha (U_Verify ended i) = bindP (Upload_Verify sha ended i) (\<lambda>_. ret ())"
| "run_upload sha (U_Cancel ended i) = Upload_Cancel ended i"
| "run_upload sha (U_Read i start end0) = bindP (Upload_Read sha i start end0) (\<lambda>_. ret ())"
| "run_upload sha (U_Sweep ended limit) = SweepExpired ended limit"

text \<open>Operations of any number of clients, one after the other, each in a world of its own.\<close>

inductive upload_history :: "(string \<Rightarrow> string) \<Rightarrow> volume \<Rightarrow> volume \<Rightarrow> bool" for sha where
  Idle: "upload_history sha v v"
| Next: "upload_history sha v v1 \<Longrightarrow> run_upload sha op w n v1 = (r, n', v2) \<Longrightarrow> upload_history sha v v2"

inductive_cases upload_historyE: "upload_history sha v v'"

lemma reading_preserves:
  assumes "\<And>s0. preserves (\<lambda>s. s = s0) m"
  shows "preserves I m"
proof (rule hoareI)
  show "I s'" if "I s" "m w n s = (Inr a, n', s')" for w n s a n' s' using hoareD_ok [OF assms refl that(2)] that(1) by simp
  show "I s'" if "I s" "m w n s = (Inl e, n', s')" for w n s e n' s' using hoareD_err [OF assms refl that(2)] that(1) by simp
qed

lemma read_loop_keeps: "preserves (\<lambda>v. v = v1) (read_loop sha i st en cs acc)"
  by (rule hoare_weaken [OF read_loop_parts]) auto

lemma live_upload_run:
  assumes "live_upload i w n v = (r, n', v')"
  shows "v' = v \<and> (\<forall>s. r = Inr s \<longrightarrow> ud_manifest (dir_of i v) = Stored s)"
  using assms by (auto simp: live_upload_def lock_def load_def uploadLive_def bindP_def stmt_def
      split: if_splits fault.splits sum.splits manifest.splits)

lemma Upload_Read_sound: "preserves (sound sha v0) (Upload_Read sha i st en)"
  unfolding Upload_Read_def
proof (rule hoare_bind [OF live_upload_holding])
  fix s :: Upload
  have loop: "preserves (sound sha v0) (read_loop sha i st e cs acc)" for e cs acc
    by (rule reading_preserves, rule read_loop_keeps)
  then have "preserves (sound sha v0) (bindP (read_loop sha i st e (u_chunks s) []) (\<lambda>data. ret (data, e - st)))" for e
    by (rule hoare_bind) (simp add: hoare_def)
  then show "hoare (\<lambda>v. holding sha v0 i s v \<and> u_state s \<noteq> Cancelled)
    (if u_state s \<noteq> Completed then raise ErrUploadConflict
     else let e = if en < 0 then u_size s else en in
       if st < 0 \<or> e < st \<or> u_size s < e \<or> UploadChunkSize < e - st then raise ErrUploadConflict
       else bindP (read_loop sha i st e (u_chunks s) []) (\<lambda>data. ret (data, e - st)))
    (\<lambda>_. sound sha v0) (\<lambda>_. sound sha v0)"
    unfolding Let_def by (intro hoare_split_if) (auto simp: hoare_def split: prod.splits sum.splits)
qed

lemma run_upload_sound: "preserves (sound sha v0) (run_upload sha op)"
proof -
  have void: "preserves (sound sha v0) (bindP m (\<lambda>_. ret ()))" if "preserves (sound sha v0) m" for m :: "'a upload_prog"
    using that by (rule hoare_bind) (simp add: hoare_def)
  have status: "preserves (sound sha v0) (Upload_Status i)" for i
    unfolding Upload_Status_def by (rule hoare_weaken [OF live_upload_holding]) auto
  show ?thesis
    by (cases op) (simp_all add: void status Upload_Create_sound Upload_Put_sound Upload_Complete_sound
      Upload_Verify_sound Upload_Cancel_sound Upload_Read_sound SweepExpired_sound)
qed

lemma upload_history_sound: "upload_history sha v v' \<Longrightarrow> volume_ok sha v \<Longrightarrow> sound sha v v'"
proof (induction rule: upload_history.induct)
  case (Next v v1 op w n r n' v2)
  then show ?case using hoareD_inv [OF run_upload_sound, of sha v v1 op w n] by simp
qed (rule sound_refl)

lemma empty_volume_ok: "volume_ok sha []"
  by (simp add: volume_ok_def dir_ok_def dir_of_def)

text \<open>What a completed upload holds, it holds until it is cancelled.\<close>

lemma completed_content:
  assumes "sound sha v v'" "volume_ok sha v" "ud_manifest (dir_of i v) = Stored s" "u_state s = Completed"
    "ud_manifest (dir_of i v') = Stored s'" "u_state s' \<noteq> Cancelled"
  shows "u_state s' = Completed \<and> u_size s' = u_size s \<and> u_digest s' = u_digest s \<and>
     content (ud_files (dir_of i v')) s' = content (ud_files (dir_of i v)) s"
proof -
  let ?f = "ud_files (dir_of i v)" and ?f' = "ud_files (dir_of i v')"
  have "dir_step (dir_of i v) (dir_of i v')" using assms(1) by (simp add: sound_def)
  then have step: "session_step ?f ?f' s s'" by (simp add: dir_step_def assms(3,5))
  then have all: "list_all2 (keeps_chunk ?f ?f') (u_chunks s) (u_chunks s')" using assms(6) by (simp add: session_step_def)
  have whole: "\<forall>c \<in> set (u_chunks s). k_complete c"
    using holding_ok [OF conjI [OF sound_refl [OF assms(2)] assms(3)]] assms(4) by (simp add: upload_ok_def)
  have "map (file_of ?f') (u_chunks s') = map (file_of ?f) (u_chunks s)"
  proof (rule nth_equalityI)
    show "length (map (file_of ?f') (u_chunks s')) = length (map (file_of ?f) (u_chunks s))" using all by (simp add: list_all2_lengthD)
    fix j assume "j < length (map (file_of ?f') (u_chunks s'))"
    then have "keeps_chunk ?f ?f' (u_chunks s ! j) (u_chunks s' ! j)" "j < length (u_chunks s)"
      using all by (auto simp: list_all2_conv_all_nth)
    then show "map (file_of ?f') (u_chunks s') ! j = map (file_of ?f) (u_chunks s) ! j"
      using whole all by (auto simp: keeps_chunk_def span_def file_of_def list_all2_lengthD)
  qed
  moreover have "u_state s' = Completed" using step assms(4,6) by (cases "u_state s'") (auto simp: session_step_def)
  ultimately show ?thesis using step assms(4) by (simp add: session_step_def content_def)
qed

section \<open>An upload that meets no failure\<close>

definition piece :: "string \<Rightarrow> UploadChunk \<Rightarrow> string" where
  "piece d c = slice (k_start c) (k_end c - k_start c) d"

definition upload_all :: "(string \<Rightarrow> string) \<Rightarrow> string \<Rightarrow> string \<Rightarrow> Upload upload_prog" where
  "upload_all sha i d =
     bindP (Upload_Create i (int (length d))) (\<lambda>_.
     bindP (forP (make_chunks 0 (int (length d))) (\<lambda>c. Upload_Put sha i (k_start c) (piece d c))) (\<lambda>_.
     Upload_Complete sha (\<lambda>_. False) i))"

text \<open>The session after its first \<open>k\<close> chunks have been stored.\<close>

definition filled :: "(string \<Rightarrow> string) \<Rightarrow> world \<Rightarrow> string \<Rightarrow> string \<Rightarrow> nat \<Rightarrow> Upload \<Rightarrow> volume \<Rightarrow> bool" where
  "filled sha w i d k s v \<longleftrightarrow> uploadID i \<and> ud_manifest (dir_of i v) = Stored s \<and> u_id s = i \<and> u_state s = Uploading \<and>
     u_size s = int (length d) \<and> has_layout s \<and> (\<forall>n. w_clock w n < u_expires s) \<and>
     (\<forall>j < length (u_chunks s). let c = u_chunks s ! j in
        if j < k then k_complete c \<and> k_digest c = sha (piece d c) \<and> map_of (ud_files (dir_of i v)) (chunk_name (k_start c)) = Some (piece d c)
        else \<not> k_complete c)"

lemma live_upload_fine:
  assumes "fine w" "uploadID i" "ud_manifest (dir_of i v) = Stored s" "u_id s = i"
    "u_state s = Completed \<or> (u_state s = Uploading \<and> (\<forall>n. w_clock w n < u_expires s))"
  shows "live_upload i w n v = (Inr s, n + 3, v)"
  using assms by (auto simp: live_upload_def lock_def load_def uploadLive_def bindP_def stmt_def time_now_def ret_def
      not_le numeral_3_eq_3)

lemma slice_length: "0 \<le> a \<Longrightarrow> 0 \<le> l \<Longrightarrow> a + l \<le> int (length d) \<Longrightarrow> int (length (slice a l d)) = l"
  by (simp add: slice_def)

lemma piece_length:
  assumes "has_layout s" "u_size s = int (length d)" "k < length (u_chunks s)"
  shows "int (length (piece d (u_chunks s ! k))) = k_end (u_chunks s ! k) - k_start (u_chunks s ! k)"
proof -
  have "0 \<le> k_start (u_chunks s ! k)" "k_start (u_chunks s ! k) \<le> k_end (u_chunks s ! k)" "k_end (u_chunks s ! k) \<le> int (length d)"
    using layout_nth [OF assms(1,3)] assms(2) chunk_size_pos by (simp_all add: span_def algebra_simps)
  then show ?thesis unfolding piece_def by (simp add: slice_length)
qed

lemma Upload_Put_fine:
  assumes "filled sha w i d k s v" "fine w" "k < length (u_chunks s)"
  shows "\<exists>s' n' v'. Upload_Put sha i (k_start (u_chunks s ! k)) (piece d (u_chunks s ! k)) w n v = (Inr s', n', v') \<and>
     filled sha w i d (Suc k) s' v'"
proof -
  let ?c = "u_chunks s ! k" and ?x = "piece d (u_chunks s ! k)"
  have f: "uploadID i" "ud_manifest (dir_of i v) = Stored s" "u_id s = i" "u_state s = Uploading"
    "u_size s = int (length d)" "has_layout s" "\<forall>n. w_clock w n < u_expires s" "\<not> k_complete ?c"
    using assms(1,3) by (auto simp: filled_def Let_def)
  have at: "k_start ?c = int k * UploadChunkSize" "k_start ?c < u_size s" "0 \<le> k_start ?c"
    "k_start ?c div UploadChunkSize = int k" "k_start ?c mod UploadChunkSize = 0"
    using layout_nth [OF f(6) assms(3)] chunk_size_pos by (simp_all add: span_def)
  define v1 where "v1 = AList.update i ((dir_of i v)\<lparr>ud_files := AList.update (chunk_name (k_start ?c)) ?x (ud_files (dir_of i v))\<rparr>) v"
  define v2 where "v2 = AList.update i ((dir_of i v1)\<lparr>ud_manifest := Stored (mark sha k ?x s)\<rparr>) v1"
  have run: "write_chunk i (k_start ?c) ?x w m v = (Inr (), Suc m, v1)" "save (mark sha k ?x s) w m v1 = (Inr (), Suc m, v2)" for m
    using assms(2) f(3) by (simp_all add: write_chunk_def save_def stmt_def v1_def v2_def)
  have live: "live_upload i w n v = (Inr s, n + 3, v)" using live_upload_fine [OF assms(2) f(1-3)] f(4,7) by blast
  have "Upload_Put sha i (k_start ?c) ?x w n v = (Inr (mark sha k ?x s), n + 5, v2)"
    using f(8) at(2-5) piece_length [OF f(6,5) assms(3)] assms(3)
    by (simp add: Upload_Put_def Let_def bindP_def live mark_def [symmetric] run ret_def f(4))
  moreover have "filled sha w i d (Suc k) (mark sha k ?x s) v2"
  proof -
    have files: "ud_files (dir_of i v2) = AList.update (chunk_name (k_start ?c)) ?x (ud_files (dir_of i v))"
      "ud_manifest (dir_of i v2) = Stored (mark sha k ?x s)"
      by (simp_all add: v2_def v1_def dir_of_update)
    have spans: "map span (u_chunks (mark sha k ?x s)) = map span (u_chunks s)"
      by (simp add: mark_def map_update) (simp add: span_def list_update_same_conv assms(3))
    have "let c = u_chunks (mark sha k ?x s) ! j in
        if j < Suc k then k_complete c \<and> k_digest c = sha (piece d c) \<and> map_of (ud_files (dir_of i v2)) (chunk_name (k_start c)) = Some (piece d c)
        else \<not> k_complete c" if j: "j < length (u_chunks s)" for j
    proof (cases "j = k")
      case True
      then show ?thesis using j by (simp add: files update_conv mark_def piece_def)
    next
      case False
      then have "chunk_name (k_start (u_chunks s ! j)) \<noteq> chunk_name (k_start ?c)"
        using layout_inj [OF f(6) j assms(3)] by blast
      then show ?thesis using False j assms(1) by (auto simp: files update_conv mark_def filled_def Let_def split: if_splits)
    qed
    moreover have "length (u_chunks (mark sha k ?x s)) = length (u_chunks s)" by (simp add: mark_def)
    ultimately show ?thesis using f(1-7) files(2) spans unfolding filled_def has_layout_def by simp
  qed
  ultimately show ?thesis by blast
qed

lemma filled_layout: "filled sha w i d k s v \<Longrightarrow> map span (u_chunks s) = map span (make_chunks 0 (int (length d)))"
  by (simp add: filled_def has_layout_def)

lemma puts_fine:
  assumes "fine w" "cs = drop k (make_chunks 0 (int (length d)))" "filled sha w i d k s v"
  shows "\<exists>ss n' s' v'. forP cs (\<lambda>c. Upload_Put sha i (k_start c) (piece d c)) w n v = (Inr ss, n', v') \<and>
     filled sha w i d (k + length cs) s' v'"
  using assms(2,3)
proof (induction cs arbitrary: k s v n)
  case (Cons c cs)
  let ?mc = "make_chunks 0 (int (length d))"
  have lt: "k < length ?mc" using Cons.prems(1) by (cases "k < length ?mc") auto
  then have k: "c = ?mc ! k" "cs = drop (Suc k) ?mc" using Cons.prems(1) by (simp_all flip: Cons_nth_drop_Suc)
  have "k < length (u_chunks s)" "span (u_chunks s ! k) = span c"
    using filled_layout [OF Cons.prems(2)] k(1) lt by (metis length_map, metis length_map nth_map)
  then obtain s1 n1 v1 where put: "Upload_Put sha i (k_start c) (piece d c) w n v = (Inr s1, n1, v1)" "filled sha w i d (Suc k) s1 v1"
    using Upload_Put_fine [OF Cons.prems(2) assms(1), of n] by (auto simp: span_def piece_def)
  show ?case using Cons.IH [OF k(2) put(2), of n1] by (auto simp: bindP_def ret_def put(1))
qed (auto simp: ret_def)

lemma Upload_Create_fine:
  assumes "fine w" "uploadID i" "ud_manifest (dir_of i v) = Absent" "d \<noteq> []" "int (length d) \<le> MaxUploadSize"
    "\<forall>m n. w_clock w m < w_clock w n + 7 * 24 * 3600"
  shows "\<exists>s n' v'. Upload_Create i (int (length d)) w n v = (Inr s, n', v') \<and> filled sha w i d 0 s v'"
proof -
  let ?s = "new_upload i (int (length d)) (w_clock w (n + 3))"
  define v' where "v' = AList.update i ((dir_of i (AList.update i (dir_of i v) v))\<lparr>ud_manifest := Stored ?s\<rparr>) (AList.update i (dir_of i v) v)"
  have "find_upload i w m v = (Inr None, Suc m, v)" for m
    using assms(1,3) by (simp add: find_upload_def tryP_def bindP_def load_def stmt_def ret_def)
  then have "Upload_Create i (int (length d)) w n v = (Inr ?s, n + 5, v')"
    using assms by (simp add: Upload_Create_def lock_def bindP_def mkdir_def save_def stmt_def time_now_def ret_def v'_def
        new_upload_def numeral_eq_Suc)
  moreover have "filled sha w i d 0 ?s v'"
    using assms make_chunks_nth [of 0 _ "int (length d)"]
    by (simp add: filled_def v'_def dir_of_update new_upload_def has_layout_def Let_def)
  ultimately show ?thesis by blast
qed

lemma read_chunk_fine:
  assumes "fine w" "chunk_ok sha (ud_files (dir_of i v)) c"
  shows "read_chunk sha broken i c w n v = (Inr (file_of (ud_files (dir_of i v)) c), Suc (Suc n), v)"
  using assms by (auto simp: chunk_ok_def read_chunk_def read_file_def copy_file_def tryP_def bindP_def stmt_def file_of_def Let_def ret_def)

lemma hash_loop_fine:
  assumes "fine w" "\<forall>c \<in> set cs. k_complete c \<and> chunk_ok sha (ud_files (dir_of i v)) c"
  shows "\<exists>n'. hash_loop sha (\<lambda>_. False) i cs full w n v = (Inr (sha (full @ concat (map (file_of (ud_files (dir_of i v))) cs))), n', v)"
  using assms(2)
proof (induction cs arbitrary: full n)
  case (Cons c cs)
  then show ?case
    using read_chunk_fine [OF assms(1), of sha i v c ErrIO n] Cons.IH [of "full @ file_of (ud_files (dir_of i v)) c" "Suc (Suc n)"]
    by (simp add: bindP_def)
qed (simp add: ret_def)

lemma read_loop_fine:
  assumes "fine w" "\<forall>c \<in> set cs. chunk_ok sha (ud_files (dir_of i v)) c"
  shows "\<exists>r n'. read_loop sha i st en cs acc w n v = (Inr r, n', v)"
  using assms(2)
proof (induction cs arbitrary: acc n)
  case (Cons c cs)
  then show ?case using read_chunk_fine [OF assms(1), of sha i v c ErrIntegrity n] by (simp add: bindP_def Let_def)
qed (simp add: ret_def)

lemma pieces_concat:
  assumes "tiled p xs q" "0 \<le> p" "q = int (length d)"
  shows "concat (map (\<lambda>(a, b). slice a (b - a) d) xs) = drop (nat p) d"
  using assms
proof (induction p xs q rule: tiled.induct)
  case (2 p a b xs q)
  then have IH: "concat (map (\<lambda>(a, b). slice a (b - a) d) xs) = drop (nat b) d" by simp
  have "nat p + nat (b - p) = nat b" using 2(2,3) by auto
  then show ?case using IH 2(2) by (simp add: slice_def) (metis append_take_drop_id drop_drop add.commute)
qed simp

text \<open>The session with all its chunks holds the data it was given.\<close>

lemma filled_all:
  assumes "filled sha w i d (length (make_chunks 0 (int (length d)))) s v"
  shows "\<forall>c \<in> set (u_chunks s). k_complete c \<and> chunk_ok sha (ud_files (dir_of i v)) c"
    "content (ud_files (dir_of i v)) s = d"
proof -
  let ?f = "ud_files (dir_of i v)"
  have len: "length (u_chunks s) = length (make_chunks 0 (int (length d)))"
    using filled_layout [OF assms] by (metis length_map)
  have lay: "has_layout s" "u_size s = int (length d)" using assms by (simp_all add: filled_def)
  have each: "k_complete c \<and> k_digest c = sha (piece d c) \<and> map_of ?f (chunk_name (k_start c)) = Some (piece d c) \<and>
      int (length (piece d c)) = k_end c - k_start c" if "c \<in> set (u_chunks s)" for c
    using that assms len piece_length [OF lay] by (auto simp: filled_def in_set_conv_nth Let_def)
  then show "\<forall>c \<in> set (u_chunks s). k_complete c \<and> chunk_ok sha ?f c" by (simp add: chunk_ok_def)
  have "content ?f s = concat (map (\<lambda>(a, b). slice a (b - a) d) (map span (u_chunks s)))"
    unfolding content_def using each by (intro arg_cong [where f = concat]) (simp add: file_of_def piece_def span_def)
  then show "content ?f s = d" using pieces_concat [OF layout_tiled [OF lay(1)]] lay(2) by simp
qed

lemma Upload_Complete_fine:
  assumes "fine w" "filled sha w i d (length (make_chunks 0 (int (length d)))) s v"
  shows "\<exists>n' v'. Upload_Complete sha (\<lambda>_. False) i w n v = (Inr (s\<lparr>u_digest := sha d, u_state := Completed\<rparr>), n', v') \<and>
     ud_manifest (dir_of i v') = Stored (s\<lparr>u_digest := sha d, u_state := Completed\<rparr>) \<and>
     ud_files (dir_of i v') = ud_files (dir_of i v)"
proof -
  have f: "uploadID i" "ud_manifest (dir_of i v) = Stored s" "u_id s = i" "u_state s = Uploading" "\<forall>n. w_clock w n < u_expires s"
    using assms(2) by (simp_all add: filled_def)
  have live: "live_upload i w n v = (Inr s, n + 3, v)" using live_upload_fine [OF assms(1) f(1-3)] f(4,5) by blast
  obtain n1 where "hash_loop sha (\<lambda>_. False) i (u_chunks s) [] w (n + 3) v = (Inr (sha d), n1, v)"
    using hash_loop_fine [OF assms(1) filled_all(1) [OF assms(2)], of "[]" "n + 3"] filled_all(2) [OF assms(2)]
    by (auto simp: content_def)
  then show ?thesis using assms(1) f(3,4)
    by (simp add: Upload_Complete_def bindP_def live hashChunks_def Let_def save_def stmt_def ret_def dir_of_update)
qed

lemma Upload_Read_fine:
  assumes "volume_ok sha v" "fine w" "uploadID i" "ud_manifest (dir_of i v) = Stored s" "u_state s = Completed"
    "0 \<le> a" "a \<le> b" "b \<le> u_size s" "b - a \<le> UploadChunkSize"
  shows "\<exists>n'. Upload_Read sha i a b w n v = (Inr (slice a (b - a) (content (ud_files (dir_of i v)) s), b - a), n', v)"
proof -
  have ok: "upload_ok sha i (ud_files (dir_of i v)) s"
    using holding_ok [OF conjI [OF sound_refl [OF assms(1)] assms(4)]] .
  then have "\<forall>c \<in> set (u_chunks s). chunk_ok sha (ud_files (dir_of i v)) c" "u_id s = i" using assms(5) by (auto simp: upload_ok_def)
  then obtain r n' where loop: "read_loop sha i a b (u_chunks s) [] w (n + 3) v = (Inr r, n', v)"
    and live: "live_upload i w n v = (Inr s, n + 3, v)"
    using read_loop_fine [OF assms(2)] live_upload_fine [OF assms(2-4)] assms(5) by blast
  have "Upload_Read sha i a b w n v = (Inr (r, b - a), n', v)"
    using assms(5-9) by (simp add: Upload_Read_def bindP_def live Let_def loop ret_def)
  with Upload_Read_slice [OF assms(1) this] assms(4) show ?thesis by auto
qed

lemma upload_all_sound: "preserves (sound sha v0) (upload_all sha i d)"
proof -
  have "preserves (sound sha v0) (forP cs (\<lambda>c. Upload_Put sha i (k_start c) (piece d c)))" for cs
    by (rule preserves_forP) (rule Upload_Put_sound)
  then show ?thesis unfolding upload_all_def
    by (intro hoare_bind [OF Upload_Create_sound] hoare_bind [OF _ Upload_Complete_sound])
qed

lemma upload_all_fine:
  assumes "fine w" "uploadID i" "ud_manifest (dir_of i v) = Absent" "d \<noteq> []" "int (length d) \<le> MaxUploadSize"
    "\<forall>m n. w_clock w m < w_clock w n + 7 * 24 * 3600"
  shows "\<exists>s n' v'. upload_all sha i d w n v = (Inr s, n', v') \<and> ud_manifest (dir_of i v') = Stored s \<and>
     u_state s = Completed \<and> u_digest s = sha d \<and> u_size s = int (length d) \<and> content (ud_files (dir_of i v')) s = d"
proof -
  obtain s1 n1 v1 where 1: "Upload_Create i (int (length d)) w n v = (Inr s1, n1, v1)" "filled sha w i d 0 s1 v1"
    using Upload_Create_fine [OF assms] by blast
  obtain ss s2 n2 v2 where 2: "forP (make_chunks 0 (int (length d))) (\<lambda>c. Upload_Put sha i (k_start c) (piece d c)) w n1 v1 = (Inr ss, n2, v2)"
    "filled sha w i d (length (make_chunks 0 (int (length d)))) s2 v2"
    using puts_fine [OF assms(1) _ 1(2), of "make_chunks 0 (int (length d))" n1] by auto
  obtain n3 v3 where 3: "Upload_Complete sha (\<lambda>_. False) i w n2 v2 = (Inr (s2\<lparr>u_digest := sha d, u_state := Completed\<rparr>), n3, v3)"
    "ud_manifest (dir_of i v3) = Stored (s2\<lparr>u_digest := sha d, u_state := Completed\<rparr>)" "ud_files (dir_of i v3) = ud_files (dir_of i v2)"
    using Upload_Complete_fine [OF assms(1) 2(2), of n2] by blast
  have "upload_all sha i d w n v = (Inr (s2\<lparr>u_digest := sha d, u_state := Completed\<rparr>), n3, v3)"
    by (simp add: upload_all_def bindP_def 1(1) 2(1) 3(1))
  moreover have "u_size s2 = int (length d)" "content (ud_files (dir_of i v2)) s2 = d"
    using 2(2) filled_all(2) [OF 2(2)] by (simp_all add: filled_def)
  ultimately show ?thesis using 3(2,3) by (simp add: content_def)
qed

lemma buried_stays:
  assumes "buried i v" "sound sha v v'"
  shows "buried i v'"
proof -
  obtain s where s: "ud_manifest (dir_of i v) = Stored s" "u_state s = Cancelled" "u_cleaned s" using assms(1) by blast
  have "dir_step (dir_of i v) (dir_of i v')" using assms(2) by (simp add: sound_def)
  then obtain s' where s': "ud_manifest (dir_of i v') = Stored s'" "session_step (ud_files (dir_of i v)) (ud_files (dir_of i v')) s s'"
    using s(1) by (auto simp: dir_step_def)
  then have "u_state s' = Cancelled" "u_cleaned s'" using s(2,3) by (cases "u_state s'"; auto simp: session_step_def)+
  moreover have "upload_ok sha i (ud_files (dir_of i v')) s'" using holding_ok [OF conjI [OF assms(2) s'(1)]] .
  ultimately show ?thesis using s'(1) by (auto simp: upload_ok_def)
qed

text \<open>A cancelled upload answers nothing but its cancellation.\<close>

lemma buried_refuses: "buried i v \<Longrightarrow> \<exists>e n'. live_upload i w n v = (Inl e, n', v)"
  by (auto simp: live_upload_def lock_def load_def uploadLive_def bindP_def stmt_def time_now_def raise_def split: fault.split)

lemma upload_history_trans: "upload_history sha b c \<Longrightarrow> upload_history sha a b \<Longrightarrow> upload_history sha a c"
  by (induction rule: upload_history.induct) (auto intro: upload_history.Next)

lemma upload_history_op: "upload_history sha v (final (run_upload sha op w n v))"
proof -
  obtain r n' v' where "run_upload sha op w n v = (r, n', v')" by (cases "run_upload sha op w n v") auto
  then show ?thesis using upload_history.Next [OF upload_history.Idle] by simp
qed

lemma void_run [simp]: "final (bindP m (\<lambda>_. ret ()) w n v) = final (m w n v)"
  by (simp add: bindP_def ret_def split: prod.split sum.split)

lemmas history_calls =
  upload_history_op [where op = "U_Create i bytes", simplified]
  upload_history_op [where op = "U_Put i start data", simplified]
  upload_history_op [where op = "U_Complete ended i", simplified]
  upload_history_op [where op = "U_Cancel ended i", simplified]
  for i bytes start data ended

lemma history_bind:
  assumes "\<And>n v. upload_history sha v (final (m w n v))" "\<And>a n v. upload_history sha v (final (f a w n v))"
  shows "upload_history sha v (final (bindP m f w n v))"
  using assms(1) [of v n] by (auto simp: bindP_def intro: upload_history_trans [OF assms(2)] split: prod.split sum.split)

lemma upload_all_history: "upload_history sha v (final (upload_all sha i d w n v))"
proof -
  have "upload_history sha v (final (forP cs (\<lambda>c. Upload_Put sha i (k_start c) (piece d c)) w n v))" for cs n v
  proof (induction cs arbitrary: n v)
    case (Cons c cs)
    then show ?case by (auto intro!: history_bind history_calls simp: ret_def upload_history.Idle)
  qed (simp add: ret_def upload_history.Idle)
  then show ?thesis unfolding upload_all_def by (intro history_bind history_calls)
qed

end
