(* ===== verification/Uploads_Properties.thy ===== *)
theory Uploads_Properties
  imports Uploads_Facts
begin

text \<open>
  What resumable uploads promise, over all histories of calls on a fresh volume: the volume
  stays consistent, a cancellation is final, reads agree with the recorded digest and with
  each other, and an upload that meets no failure can be read back.
\<close>

definition demo_id :: string where "demo_id = replicate 32 (CHR ''a'')"

lemma demo_uploadID: "uploadID demo_id"
  by (simp add: demo_id_def uploadID_def list_all_iff hex_digit_def less_eq_char_def)

text \<open>
  C26. Whatever calls on a volume follow each other, and wherever each of them fails or stops, the volume
  stays well-formed: every manifest can be read and names its own directory, its chunks tile
  the declared size, a complete chunk has a file of its length and digest, a completed upload
  records the digest of its whole content. And no call takes back what an earlier one
  established: a session keeps its size and deadline, its state only moves from uploading over
  completed to cancelled, and a complete chunk keeps its digest and its bytes until the upload
  is cancelled.
\<close>

theorem upload_history_safe:
  assumes "upload_history sha [] v" "upload_history sha v v'"
  shows "volume_ok sha v' \<and> (\<forall>i. dir_step (dir_of i v) (dir_of i v'))"
  using upload_history_sound [OF assms(2)] upload_history_sound [OF assms(1) empty_volume_ok] by (simp add: sound_def)

theorem upload_history_safe_witness:
  "volume_ok (\<lambda>x. x) (final (Upload_Cancel (\<lambda>_. False) demo_id (calm 0) 0
     (final (upload_all (\<lambda>x. x) demo_id ''hello'' (calm 0) 0 []))))"
  using upload_history_safe [OF upload_all_history history_calls(4)] by blast

text \<open>
  C28. A cancellation that succeeds is final: from then on, after any further calls, creations and
  puts included, the upload is cancelled and has no file, and every call that needs it is refused.
\<close>

theorem upload_cancel_final:
  assumes "upload_history sha [] v" "Upload_Cancel ended i w n v = (Inr (), n', v')" "upload_history sha v' v''"
  shows "(\<exists>s. ud_manifest (dir_of i v'') = Stored s \<and> u_state s = Cancelled) \<and> ud_files (dir_of i v'') = [] \<and>
     (\<exists>e. result (Upload_Put sha i start data w2 n2 v'') = Inl e) \<and>
     (\<exists>e. result (Upload_Complete sha ended2 i w2 n2 v'') = Inl e) \<and>
     (\<exists>e. result (Upload_Read sha i a b w2 n2 v'') = Inl e)"
proof -
  have "volume_ok sha v" using upload_history_sound [OF assms(1) empty_volume_ok] by (simp add: sound_def)
  from hoareD_ok [OF Upload_Cancel_buries sound_refl [OF this] assms(2)] have v': "sound sha v v'" "buried i v'" by auto
  then have "sound sha v' v''" using upload_history_sound [OF assms(3)] by (simp add: sound_def)
  with v'(2) have dead: "buried i v''" by (rule buried_stays)
  obtain e m where "live_upload i w2 n2 v'' = (Inl e, m, v'')" using buried_refuses [OF dead] by blast
  then show ?thesis using dead by (auto simp: Upload_Put_def Upload_Complete_def Upload_Read_def run_bind_Inl)
qed

theorem upload_cancel_final_witness:
  "\<exists>e. result (Upload_Put (\<lambda>x. x) demo_id 0 ''hello'' (calm 9) 0
     (final (Upload_Create demo_id 5 (calm 5) 0 (final (Upload_Cancel (\<lambda>_. False) demo_id (calm 0) 0 []))))) = Inl e"
proof -
  have "\<exists>n' v'. Upload_Cancel (\<lambda>_. False) demo_id (calm 0) 0 [] = (Inr (), n', v')"
    using demo_uploadID by (simp add: Upload_Cancel_def lock_def find_upload_def load_def tombstone_def cancelLocked_def list_files_def
        dir_of_def mkdir_def save_def sync_dir_def Let_def prog_defs)
  then obtain n' v' where run: "Upload_Cancel (\<lambda>_. False) demo_id (calm 0) 0 [] = (Inr (), n', v')" by blast
  show ?thesis
    using upload_cancel_final [where sha = "\<lambda>x. x", OF upload_history.Idle run history_calls(1)] unfolding run by simp
qed

text \<open>
  C27. Two reads that succeed, at any two moments of a history and over any ranges, return slices of
  one content whose length is the declared size and whose digest is the one the manifest records.
\<close>

theorem upload_reads_agree:
  assumes "upload_history sha [] v" "Upload_Read sha i a b w n v = (Inr (x, l), n', v1)"
    and "upload_history sha v1 v2" "Upload_Read sha i a2 b2 w2 n2 v2 = (Inr (x2, l2), n2', v3)"
  shows "\<exists>s d. ud_manifest (dir_of i v) = Stored s \<and> sha d = u_digest s \<and> int (length d) = u_size s \<and>
     x = slice a l d \<and> x2 = slice a2 l2 d"
proof -
  have ok: "volume_ok sha v" using upload_history_sound [OF assms(1) empty_volume_ok] by (simp add: sound_def)
  from Upload_Read_slice [OF ok assms(2)] obtain s where s: "v1 = v" "ud_manifest (dir_of i v) = Stored s" "u_state s = Completed"
    "u_digest s = sha (content (ud_files (dir_of i v)) s)" "int (length (content (ud_files (dir_of i v)) s)) = u_size s"
    "x = slice a l (content (ud_files (dir_of i v)) s)" by blast
  have snd: "sound sha v v2" using upload_history_sound [OF assms(3)] ok s(1) by simp
  then have "volume_ok sha v2" by (simp add: sound_def)
  from Upload_Read_slice [OF this assms(4)] obtain s2 where s2: "ud_manifest (dir_of i v2) = Stored s2" "u_state s2 = Completed"
    "x2 = slice a2 l2 (content (ud_files (dir_of i v2)) s2)" by blast
  have "content (ud_files (dir_of i v2)) s2 = content (ud_files (dir_of i v)) s"
    using completed_content [OF snd ok s(2,3) s2(1)] s2(2) by simp
  then show ?thesis using s s2(3) by metis
qed

theorem upload_reads_agree_witness:
  "\<exists>v x x2 s d. upload_history (\<lambda>x. x) [] v \<and> result (Upload_Read (\<lambda>x. x) demo_id 0 4 (calm 0) 0 v) = Inr (x, 4) \<and>
     result (Upload_Read (\<lambda>x. x) demo_id 3 5 (calm 9) 0 v) = Inr (x2, 2) \<and> ud_manifest (dir_of demo_id v) = Stored s \<and>
     d = u_digest s \<and> int (length d) = u_size s \<and> x = slice 0 4 d \<and> x2 = slice 3 2 d"
proof -
  let ?v = "final (upload_all (\<lambda>x. x) demo_id ''hello'' (calm 0) 0 [])"
  have h: "upload_history (\<lambda>x. x) [] ?v" by (rule upload_all_history)
  have ok: "volume_ok (\<lambda>x. x) ?v" using upload_history_sound [OF h empty_volume_ok] by (simp add: sound_def)
  obtain s where s: "ud_manifest (dir_of demo_id ?v) = Stored s" "u_state s = Completed" "u_size s = 5"
    using upload_all_fine [of "calm 0" demo_id "[]" "''hello''" "\<lambda>x. x" 0] demo_uploadID by (auto simp: dir_of_def MaxUploadSize_def)
  note read = Upload_Read_fine [OF ok _ demo_uploadID s(1,2), unfolded s(3) UploadChunkSize_def]
  obtain x n' where r1: "Upload_Read (\<lambda>x. x) demo_id 0 4 (calm 0) 0 ?v = (Inr (x, 4), n', ?v)" using read [of "calm 0" 0 4 0] by auto
  obtain x2 n2 where r2: "Upload_Read (\<lambda>x. x) demo_id 3 5 (calm 9) 0 ?v = (Inr (x2, 2), n2, ?v)" using read [of "calm 9" 3 5 0] by auto
  show ?thesis using upload_reads_agree [OF h r1 upload_history.Idle r2] h r1 r2 by auto
qed

text \<open>
  C29. In a world without failures, creating an upload for some data within the size limit, putting
  its chunks and completing it within the week succeeds and records the digest of the data. Every
  read of at most one chunk size within the data then returns exactly those bytes.
\<close>

theorem upload_roundtrip:
  assumes "upload_history sha [] v" "ud_manifest (dir_of i v) = Absent" "uploadID i" "d \<noteq> []" "int (length d) \<le> MaxUploadSize"
    and "fine w" "\<forall>m n. w_clock w m < w_clock w n + 7 * 24 * 3600"
  shows "\<exists>s n' v'. upload_all sha i d w n v = (Inr s, n', v') \<and> u_digest s = sha d \<and>
     (\<forall>a b w2 n2. fine w2 \<and> 0 \<le> a \<and> a \<le> b \<and> b \<le> int (length d) \<and> b - a \<le> UploadChunkSize \<longrightarrow>
        result (Upload_Read sha i a b w2 n2 v') = Inr (slice a (b - a) d, b - a))"
proof -
  obtain s n' v' where run: "upload_all sha i d w n v = (Inr s, n', v')" and s: "ud_manifest (dir_of i v') = Stored s"
    "u_state s = Completed" "u_digest s = sha d" "u_size s = int (length d)" "content (ud_files (dir_of i v')) s = d"
    using upload_all_fine [OF assms(6,3,2,4,5,7)] by blast
  have "sound sha [] v" using upload_history_sound [OF assms(1) empty_volume_ok] .
  then have "sound sha [] v'" by (rule hoareD_ok [OF upload_all_sound _ run])
  then have "volume_ok sha v'" by (simp add: sound_def)
  then have "result (Upload_Read sha i a b w2 n2 v') = Inr (slice a (b - a) d, b - a)"
    if "fine w2" "0 \<le> a" "a \<le> b" "b \<le> int (length d)" "b - a \<le> UploadChunkSize" for a b w2 n2
    using Upload_Read_fine [OF _ that(1) assms(3) s(1,2) that(2,3) _ that(5), of sha n2] that(4) s(4,5) by auto
  then show ?thesis using run s(3) by blast
qed

theorem upload_roundtrip_witness:
  "\<exists>s n' v'. upload_all (\<lambda>x. x) demo_id ''hello'' (calm 0) 0 [] = (Inr s, n', v') \<and>
     result (Upload_Read (\<lambda>x. x) demo_id 1 4 (calm 9) 0 v') = Inr (''ell'', 3)"
proof -
  have "\<exists>s n' v'. upload_all (\<lambda>x. x) demo_id ''hello'' (calm 0) 0 [] = (Inr s, n', v') \<and> u_digest s = ''hello'' \<and>
     (\<forall>a b w2 n2. fine w2 \<and> 0 \<le> a \<and> a \<le> b \<and> b \<le> int (length ''hello'') \<and> b - a \<le> UploadChunkSize \<longrightarrow>
        result (Upload_Read (\<lambda>x. x) demo_id a b w2 n2 v') = Inr (slice a (b - a) ''hello'', b - a))"
    by (rule upload_roundtrip [OF upload_history.Idle]) (simp_all add: demo_uploadID dir_of_def MaxUploadSize_def)
  then obtain s n' v' where run: "upload_all (\<lambda>x. x) demo_id ''hello'' (calm 0) 0 [] = (Inr s, n', v')"
    and reads: "\<And>a b w2 n2. fine w2 \<and> 0 \<le> a \<and> a \<le> b \<and> b \<le> int (length ''hello'') \<and> b - a \<le> UploadChunkSize \<Longrightarrow>
        result (Upload_Read (\<lambda>x. x) demo_id a b w2 n2 v') = Inr (slice a (b - a) ''hello'', b - a)" by blast
  have "result (Upload_Read (\<lambda>x. x) demo_id 1 4 (calm 9) 0 v') = Inr (''ell'', 3)"
    using reads [of "calm 9" 1 4 0] by (simp add: UploadChunkSize_def slice_def)
  then show ?thesis using run by blast
qed

end
