(* ===== verification/Webhook.thy ===== *)
theory Webhook
  imports Prose Json_Valid
begin

text \<open>
  Webhook delivery: \<open>src/go/internal/webhook/model.go\<close>, \<open>store.go\<close> and \<open>dispatcher.go\<close> with the
  payload of \<open>src/go/internal/contracts/webhook.go\<close>. The two tables of the herald database are lists of
  rows; the log of requests made to the hooks is added to the state, because that effect is outside
  the database. The properties column is what \<open>json.Unmarshal\<close> makes of it: an error leaves
  what was decoded before it, keys that the structure does not name are not kept, and a written value is read back
  as it was written. One call of the HTTP client is one request, also where the client follows a redirect. HMAC-SHA256 and the parser of request URIs are parameters, and so
  is the network: the answer to a request at each point of a run. Every call of the store is one
  statement, so a run of one process is a sequence of steps that runs of others may interleave.
  The lock per hook only delays a process and the loop around \<open>poll\<close> only repeats it; neither is modelled.
\<close>

section \<open>Data\<close>

definition RetryNever :: string where "RetryNever = ''never''"
definition RetryForever :: string where "RetryForever = ''forever''"
definition StatusQueued :: string where "StatusQueued = ''queued''"
definition StatusFailed :: string where "StatusFailed = ''failed''"
definition StatusSent :: string where "StatusSent = ''sent''"
definition ResultNone :: string where "ResultNone = ''none''"
definition ResultOkay :: string where "ResultOkay = ''okay''"
definition ResultFail :: string where "ResultFail = ''fail''"
definition ErrorTypeHook :: string where "ErrorTypeHook = ''hook''"
definition ErrorTypeHTTP :: string where "ErrorTypeHTTP = ''http''"
definition ErrorTypeTimeout :: string where "ErrorTypeTimeout = ''timeout''"
definition ErrorCodeDisabled :: string where "ErrorCodeDisabled = ''disabled''"
definition ErrorCodeHookNotFound :: string where "ErrorCodeHookNotFound = ''not-found''"
definition ErrorCodeInvalidProperties :: string where "ErrorCodeInvalidProperties = ''invalid-properties''"
definition ErrorCodeRequestBuild :: string where "ErrorCodeRequestBuild = ''request-build-error''"
definition ErrorCodeTimeout :: string where "ErrorCodeTimeout = ''timeout''"
definition HookStatusDisabled :: string where "HookStatusDisabled = ''disabled''"

record RequestProperties =
  rp_Retry :: string
  rp_ErrorType :: string
  rp_ErrorCode :: string
  rp_TransactionPHIDs :: "string list"
  rp_TriggerPHIDs :: "string list"
  rp_Silent :: bool
  rp_Test :: bool
  rp_Secure :: bool

datatype properties = Decoded RequestProperties | Undecodable RequestProperties

record Request =
  q_ID :: int
  q_PHID :: string
  q_WebhookPHID :: string
  q_ObjectPHID :: string
  q_Status :: string
  q_Properties :: properties
  q_LastRequestResult :: string
  q_LastRequestEpoch :: int
  q_DateCreated :: int
  q_DateModified :: int

record Hook =
  h_ID :: int
  h_PHID :: string
  h_Name :: string
  h_WebhookURI :: string
  h_Status :: string
  h_HmacKey :: string

definition Disabled :: "Hook \<Rightarrow> bool" where
  "Disabled h \<longleftrightarrow> h_Status h = HookStatusDisabled"

record Outcome =
  o_Status :: string
  o_RequestResult :: string
  o_Epoch :: int
  o_Properties :: RequestProperties

definition delivered :: "RequestProperties \<Rightarrow> string \<Rightarrow> int \<Rightarrow> Outcome" where
  "delivered props statusCode epoch =
     \<lparr>o_Status = StatusSent, o_RequestResult = ResultOkay, o_Epoch = epoch,
      o_Properties = props\<lparr>rp_ErrorType := ErrorTypeHTTP, rp_ErrorCode := statusCode\<rparr>\<rparr>"

definition attemptFailed :: "RequestProperties \<Rightarrow> string \<Rightarrow> string \<Rightarrow> int \<Rightarrow> Outcome" where
  "attemptFailed props errorType errorCode epoch =
     \<lparr>o_Status = (if rp_Retry props = RetryForever then StatusQueued else StatusFailed), o_RequestResult = ResultFail,
      o_Epoch = epoch, o_Properties = props\<lparr>rp_ErrorType := errorType, rp_ErrorCode := errorCode\<rparr>\<rparr>"

definition configFailed :: "RequestProperties \<Rightarrow> string \<Rightarrow> string \<Rightarrow> Outcome" where
  "configFailed props errorType errorCode =
     \<lparr>o_Status = StatusFailed, o_RequestResult = ResultNone, o_Epoch = 0,
      o_Properties = props\<lparr>rp_ErrorType := errorType, rp_ErrorCode := errorCode\<rparr>\<rparr>"

section \<open>The store\<close>

record Post =
  p_request :: int
  p_uri :: string
  p_body :: string
  p_signature :: string

record herald =
  webhookrequest :: "Request list"
  webhook :: "Hook list"
  posted :: "Post list"

datatype herald_error = HeraldError string

type_synonym 'a herald_prog = "(herald, herald_error, 'a) prog"

record ClaimQuery =
  cq_Limit :: nat
  cq_LeaseCutoff :: int
  cq_FailCutoff :: int

definition newClaimQuery :: "int \<Rightarrow> nat \<Rightarrow> int \<Rightarrow> int \<Rightarrow> ClaimQuery" where
  "newClaimQuery now limit leaseSec retryBackoffSec =
     \<lparr>cq_Limit = limit, cq_LeaseCutoff = now - leaseSec, cq_FailCutoff = now - retryBackoffSec\<rparr>"

definition claimable :: "ClaimQuery \<Rightarrow> Request \<Rightarrow> bool" where
  "claimable q r \<longleftrightarrow> q_Status r = StatusQueued \<and>
     (q_DateModified r = q_DateCreated r \<or> q_DateModified r \<le> cq_LeaseCutoff q) \<and>
     (q_LastRequestResult r \<noteq> ResultFail \<or> q_LastRequestEpoch r \<le> cq_FailCutoff q)"

definition FetchClaimable :: "ClaimQuery \<Rightarrow> Request list herald_prog" where
  "FetchClaimable q = stmt (HeraldError ''query claimable requests'') (\<lambda>s.
     (Inr (take (cq_Limit q) (sort_key q_ID (filter (claimable q) (webhookrequest s)))), s))"

definition matches_claim :: "int \<Rightarrow> int \<Rightarrow> Request \<Rightarrow> bool" where
  "matches_claim i version r \<longleftrightarrow> q_ID r = i \<and> q_Status r = StatusQueued \<and> q_DateModified r = version"

definition claimStmt :: "int \<Rightarrow> int \<Rightarrow> int \<Rightarrow> herald \<Rightarrow> (herald_error + nat) \<times> herald" where
  "claimStmt i version now s =
     (Inr (length (filter (matches_claim i version) (webhookrequest s))),
      s\<lparr>webhookrequest :=
          map (\<lambda>r. if matches_claim i version r then r\<lparr>q_DateModified := max (q_DateModified r + 1) now\<rparr> else r) (webhookrequest s)\<rparr>)"

definition Claim :: "int \<Rightarrow> int \<Rightarrow> bool herald_prog" where
  "Claim i version =
     bindP time_now (\<lambda>now.
     bindP (stmt (HeraldError ''claim request'') (claimStmt i version now)) (\<lambda>affected.
     ret (affected = 1)))"

definition GetWebhook :: "string \<Rightarrow> Hook option herald_prog" where
  "GetWebhook phid = stmt (HeraldError ''scan webhook'') (\<lambda>s. (Inr (find (\<lambda>h. h_PHID h = phid) (webhook s)), s))"

definition CountRecentFailures :: "string \<Rightarrow> int \<Rightarrow> nat herald_prog" where
  "CountRecentFailures hookPHID since = stmt (HeraldError ''count recent failures'') (\<lambda>s.
     (Inr (length (filter (\<lambda>r. q_WebhookPHID r = hookPHID \<and> q_LastRequestResult r = ResultFail \<and> since \<le> q_LastRequestEpoch r)
        (webhookrequest s))), s))"

definition write_result :: "Outcome \<Rightarrow> int \<Rightarrow> Request \<Rightarrow> Request" where
  "write_result out now r =
     r\<lparr>q_Status := o_Status out, q_LastRequestResult := o_RequestResult out, q_LastRequestEpoch := o_Epoch out,
       q_Properties := Decoded (o_Properties out), q_DateModified := now\<rparr>"

definition UpdateResult :: "int \<Rightarrow> Outcome \<Rightarrow> unit herald_prog" where
  "UpdateResult i out =
     bindP time_now (\<lambda>now.
     stmt (HeraldError ''update request'') (\<lambda>s.
       (Inr (), s\<lparr>webhookrequest := map (\<lambda>r. if q_ID r = i then write_result out now r else r) (webhookrequest s)\<rparr>)))"

record DeliveryStats =
  ds_QueuedCount :: nat
  ds_SentCount :: nat
  ds_FailedCount :: nat
  ds_ActiveWebhooks :: nat

definition count_status :: "string \<Rightarrow> nat herald_prog" where
  "count_status status = stmt (HeraldError (''count '' @ status)) (\<lambda>s.
     (Inr (length (filter (\<lambda>r. q_Status r = status) (webhookrequest s))), s))"

definition Webhook_Stats :: "DeliveryStats herald_prog" where
  "Webhook_Stats =
     bindP (count_status StatusQueued) (\<lambda>queued.
     bindP (count_status StatusSent) (\<lambda>sent.
     bindP (count_status StatusFailed) (\<lambda>failed.
     bindP (stmt (HeraldError ''count active webhooks'') (\<lambda>s.
        (Inr (length (filter (\<lambda>h. h_Status h \<noteq> HookStatusDisabled) (webhook s))), s))) (\<lambda>active.
     ret \<lparr>ds_QueuedCount = queued, ds_SentCount = sent, ds_FailedCount = failed, ds_ActiveWebhooks = active\<rparr>))))"

definition CountHooks :: "nat herald_prog" where
  "CountHooks = stmt (HeraldError ''count webhooks'') (\<lambda>s. (Inr (length (webhook s)), s))"

section \<open>The payload\<close>

text \<open>\<open>phid_get_type\<close>: the second of at most three parts between dashes.\<close>

definition phidType :: "string \<Rightarrow> string" where
  "phidType phid = (case SplitOn (CHR ''-'') phid of _ # t # _ \<Rightarrow> t | _ \<Rightarrow> [])"

text \<open>What \<open>json.MarshalIndent\<close> with two spaces makes of strings, numbers, booleans, slices and structs.\<close>

datatype json = JStr string | JInt int | JBool bool | JArr "json list" | JObj "(string \<times> json) list"

definition hex_char :: "nat \<Rightarrow> char" where
  "hex_char n = (if n < 10 then char_of (48 + n) else char_of (87 + n))"

definition escape_byte :: "char \<Rightarrow> string" where
  "escape_byte c =
     (if c = CHR 0x22 \<or> c = CHR 0x5C then [CHR 0x5C, c]
      else if c = CHR 0x08 then [CHR 0x5C, CHR ''b'']
      else if c = CHR 0x0C then [CHR 0x5C, CHR ''f'']
      else if c = CHR 0x0A then [CHR 0x5C, CHR ''n'']
      else if c = CHR 0x0D then [CHR 0x5C, CHR ''r'']
      else if c = CHR 0x09 then [CHR 0x5C, CHR ''t'']
      else if byte c < 32 \<or> c = CHR ''<'' \<or> c = CHR ''>'' \<or> c = CHR ''&''
      then [CHR 0x5C, CHR ''u'', CHR ''0'', CHR ''0'', hex_char (byte c div 16), hex_char (byte c mod 16)]
      else [c])"

definition escape_rune :: "string \<Rightarrow> string" where
  "escape_rune r =
     (if r = [CHR 0xE2, CHR 0x80, CHR 0xA8] then CHR 0x5C # ''u2028''
      else if r = [CHR 0xE2, CHR 0x80, CHR 0xA9] then CHR 0x5C # ''u2029''
      else r)"

function json_escape :: "string \<Rightarrow> string" where
  "json_escape s =
     (case s of
        [] \<Rightarrow> []
      | c # r \<Rightarrow>
          (case DecodeRune s of
             None \<Rightarrow> CHR 0x5C # ''ufffd'' @ json_escape r
           | Some k \<Rightarrow>
               if k = 1 then escape_byte c @ json_escape r
               else escape_rune (take k s) @ json_escape (drop k s)))"
  by pat_completeness auto
termination by (relation "measure length") (auto dest: DecodeRune_pos)

declare json_escape.simps [simp del]

definition json_string :: "string \<Rightarrow> string" where
  "json_string s = CHR 0x22 # json_escape s @ [CHR 0x22]"

definition FormatInt :: "int \<Rightarrow> string" where
  "FormatInt i = (if i < 0 then CHR ''-'' # Itoa (nat (- i)) else Itoa (nat i))"

definition indent :: "nat \<Rightarrow> string" where
  "indent d = newline # replicate (2 * d) (CHR '' '')"

fun MarshalIndent :: "nat \<Rightarrow> json \<Rightarrow> string"
  and elements :: "nat \<Rightarrow> json list \<Rightarrow> string"
  and members :: "nat \<Rightarrow> (string \<times> json) list \<Rightarrow> string" where
  "MarshalIndent d (JStr s) = json_string s"
| "MarshalIndent d (JInt i) = FormatInt i"
| "MarshalIndent d (JBool b) = (if b then ''true'' else ''false'')"
| "MarshalIndent d (JArr vs) = (if vs = [] then ''[]'' else CHR ''['' # elements (Suc d) vs @ indent d @ '']'')"
| "MarshalIndent d (JObj ms) = (if ms = [] then ''{}'' else CHR 0x7B # members (Suc d) ms @ indent d @ [CHR 0x7D])"
| "elements d [] = []"
| "elements d (v # vs) = indent d @ MarshalIndent d v @ (if vs = [] then [] else CHR '','' # elements d vs)"
| "members d [] = []"
| "members d ((k, v) # ms) =
     indent d @ json_string k @ '': '' @ MarshalIndent d v @ (if ms = [] then [] else CHR '','' # members d ms)"

definition payload_json :: "Request \<Rightarrow> RequestProperties \<Rightarrow> json" where
  "payload_json req props =
     JObj
       [(''object'', JObj [(''type'', JStr (phidType (q_ObjectPHID req))), (''phid'', JStr (q_ObjectPHID req))]),
        (''triggers'', JArr (map (\<lambda>phid. JObj [(''phid'', JStr phid)]) (rp_TriggerPHIDs props))),
        (''action'', JObj
          [(''test'', JBool (rp_Test props)), (''silent'', JBool (rp_Silent props)), (''secure'', JBool (rp_Secure props)),
           (''epoch'', JInt (q_DateCreated req))]),
        (''transactions'', JArr (map (\<lambda>phid. JObj [(''phid'', JStr phid)]) (rp_TransactionPHIDs props)))]"

text \<open>A value of this shape always encodes, so the branch for a failed encoding is not reached.\<close>

definition buildPayload :: "Request \<Rightarrow> RequestProperties \<Rightarrow> string" where
  "buildPayload req props = MarshalIndent 0 (payload_json req props) @ [newline]"

section \<open>The dispatcher\<close>

text \<open>
  What the client returns: a status, or an error with whether the context had ended, whether the
  error says it is a timeout, and its text.
\<close>

datatype reply = Answer nat | Broke bool bool string

record Dispatcher =
  dp_maxConcurrent :: nat
  dp_leaseSec :: int
  dp_retryBackoffSec :: int
  dp_errorBackoffSec :: int
  dp_errorThreshold :: int
  dp_hmac :: "string \<Rightarrow> string \<Rightarrow> string"
  dp_parses :: "string \<Rightarrow> bool"
  dp_net :: "nat \<Rightarrow> reply"

definition ClaimLease :: "int \<Rightarrow> int \<Rightarrow> int" where
  "ClaimLease ClaimLeaseSec DeliveryTimeout = (if ClaimLeaseSec < DeliveryTimeout then DeliveryTimeout else ClaimLeaseSec)"

definition classifyTransportError :: "bool \<Rightarrow> bool \<Rightarrow> string \<Rightarrow> string \<times> string" where
  "classifyTransportError ended timeout text =
     (if ended then (ErrorTypeTimeout, ErrorCodeTimeout)
      else if timeout then (ErrorTypeTimeout, ErrorCodeTimeout)
      else (ErrorTypeHTTP, text))"

definition client_Do :: "(nat \<Rightarrow> reply) \<Rightarrow> Post \<Rightarrow> reply herald_prog" where
  "client_Do net p = (\<lambda>w n s. (Inr (net n), Suc n, s\<lparr>posted := posted s @ [p]\<rparr>))"

text \<open>A result that cannot be written is logged and dropped.\<close>

definition record_result :: "Request \<Rightarrow> Outcome \<Rightarrow> unit herald_prog" where
  "record_result req out = tryP (UpdateResult (q_ID req) out) (\<lambda>_. ret ())"

definition deliver :: "Dispatcher \<Rightarrow> Request \<Rightarrow> Hook \<Rightarrow> RequestProperties \<Rightarrow> unit herald_prog" where
  "deliver d req hook props =
     (let payload = buildPayload req props in
      if \<not> dp_parses d (h_WebhookURI hook) then
        bindP time_now (\<lambda>now. record_result req (attemptFailed props ErrorTypeHook ErrorCodeRequestBuild now))
      else
        bindP (client_Do (dp_net d) \<lparr>p_request = q_ID req, p_uri = h_WebhookURI hook, p_body = payload,
                 p_signature = dp_hmac d payload (h_HmacKey hook)\<rparr>) (\<lambda>resp.
        bindP time_now (\<lambda>now.
        case resp of
          Broke ended timeout text \<Rightarrow>
            (case classifyTransportError ended timeout text of
               (errorType, errorCode) \<Rightarrow> record_result req (attemptFailed props errorType errorCode now))
        | Answer code \<Rightarrow>
            if 200 \<le> code \<and> code < 300 then record_result req (delivered props (Itoa code) now)
            else record_result req (attemptFailed props ErrorTypeHTTP (Itoa code) now))))"

definition inErrorBackoff :: "Dispatcher \<Rightarrow> string \<Rightarrow> bool herald_prog" where
  "inErrorBackoff d hookPHID =
     bindP time_now (\<lambda>now.
     tryP
       (bindP (CountRecentFailures hookPHID (now - dp_errorBackoffSec d)) (\<lambda>failures.
        ret (\<not> int failures < dp_errorThreshold d)))
       (\<lambda>_. ret True))"

definition processRequest :: "Dispatcher \<Rightarrow> Request \<Rightarrow> unit herald_prog" where
  "processRequest d req =
     (case q_Properties req of
        Undecodable props \<Rightarrow> record_result req (configFailed props ErrorTypeHook ErrorCodeInvalidProperties)
      | Decoded props \<Rightarrow>
          tryP
            (bindP (GetWebhook (q_WebhookPHID req)) (\<lambda>found.
             case found of
               None \<Rightarrow> record_result req (configFailed props ErrorTypeHook ErrorCodeHookNotFound)
             | Some hook \<Rightarrow>
                 if Disabled hook then record_result req (configFailed props ErrorTypeHook ErrorCodeDisabled)
                 else
                   bindP (inErrorBackoff d (h_PHID hook)) (\<lambda>backoff.
                   if backoff then ret ()
                   else
                     bindP (Claim (q_ID req) (q_DateModified req)) (\<lambda>claimed.
                     if \<not> claimed then ret () else deliver d req hook props))))
            (\<lambda>_. ret ()))"

text \<open>One tick; \<open>started\<close> is how many requests are taken up before the context ends.\<close>

definition Webhook_poll :: "Dispatcher \<Rightarrow> nat \<Rightarrow> unit herald_prog" where
  "Webhook_poll d started =
     bindP time_now (\<lambda>now.
     tryP
       (bindP (FetchClaimable (newClaimQuery now (dp_maxConcurrent d) (dp_leaseSec d) (dp_retryBackoffSec d))) (\<lambda>requests.
        bindP (forP (take started requests) (processRequest d)) (\<lambda>_. ret ())))
       (\<lambda>_. ret ()))"

end
