(* ===== verification/Webhook_Facts.thy ===== *)
theory Webhook_Facts
  imports Webhook "HOL-Library.Multiset" "HOL-Library.Sublist"
begin

text \<open>
  Facts about webhook delivery: the steps that any number of dispatchers, the application that queues
  requests and its garbage collector make on one database, that every run of the code is such a
  sequence of steps, what a claim excludes, and that a payload is JSON.
\<close>

section \<open>Interleaved steps\<close>

text \<open>
  What has happened: the ids ever used, the claims that were won and not yet used for a request
  to the hook, those that were, the requests whose result was written, and those whose
  result was written by a clock behind the version in the row.
\<close>

record ledger =
  lg_ids :: "int set"
  lg_open :: "(int \<times> int) list"
  lg_posts :: "(int \<times> int) list"
  lg_written :: "int set"
  lg_behind :: "int set"

definition fresh_ledger :: "herald \<Rightarrow> ledger" where
  "fresh_ledger s = \<lparr>lg_ids = q_ID ` set (webhookrequest s), lg_open = [], lg_posts = [], lg_written = {}, lg_behind = {}\<rparr>"

definition won :: "int \<Rightarrow> int \<Rightarrow> herald_error + bool \<Rightarrow> ledger \<Rightarrow> ledger" where
  "won i v r L = (if r = Inr True then L\<lparr>lg_open := (i, v) # lg_open L\<rparr> else L)"

definition wrote :: "int \<Rightarrow> int \<Rightarrow> herald \<Rightarrow> ledger \<Rightarrow> ledger" where
  "wrote i now s L =
     L\<lparr>lg_written := insert i (lg_written L),
       lg_behind := (if \<exists>r \<in> set (webhookrequest s). q_ID r = i \<and> now < q_DateModified r then insert i (lg_behind L) else lg_behind L)\<rparr>"

definition used :: "int \<times> int \<Rightarrow> ledger \<Rightarrow> ledger" where
  "used p L = L\<lparr>lg_open := remove1 p (lg_open L), lg_posts := p # lg_posts L\<rparr>"

inductive webhook_step :: "ledger \<Rightarrow> herald \<Rightarrow> ledger \<Rightarrow> herald \<Rightarrow> bool" where
  Claiming: "Claim i v w n s = (r, n', s') \<Longrightarrow> webhook_step L s (won i v r L) s'"
| Recording: "UpdateResult i out w n s = (r, n', s') \<Longrightarrow> webhook_step L s (wrote i (w_clock w n) s L) s'"
| Posting: "(i, v) \<in> set (lg_open L) \<Longrightarrow> p_request p = i \<Longrightarrow> webhook_step L s (used (i, v) L) (s\<lparr>posted := posted s @ [p]\<rparr>)"
| Queueing: "q_ID r \<notin> lg_ids L \<Longrightarrow> q_DateModified r = q_DateCreated r \<Longrightarrow>
    webhook_step L s (L\<lparr>lg_ids := insert (q_ID r) (lg_ids L)\<rparr>) (s\<lparr>webhookrequest := webhookrequest s @ [r]\<rparr>)"
| Collecting: "webhook_step L s L (s\<lparr>webhookrequest := filter keep (webhookrequest s)\<rparr>)"
| Hooks: "webhook_step L s L (s\<lparr>webhook := hs\<rparr>)"

inductive webhook_history :: "herald \<Rightarrow> ledger \<Rightarrow> herald \<Rightarrow> bool" for s0 where
  Start: "webhook_history s0 (fresh_ledger s0) s0"
| Step: "webhook_history s0 L s \<Longrightarrow> webhook_step L s L' s' \<Longrightarrow> webhook_history s0 L' s'"

section \<open>What each step does to the rows\<close>

definition advanced :: "int \<Rightarrow> int \<Rightarrow> int \<Rightarrow> Request \<Rightarrow> Request" where
  "advanced i v now r = (if matches_claim i v r then r\<lparr>q_DateModified := max (q_DateModified r + 1) now\<rparr> else r)"

lemma advanced_sel [simp]: "q_ID (advanced i v now r) = q_ID r" "q_DateCreated (advanced i v now r) = q_DateCreated r"
  "q_DateModified r \<le> q_DateModified (advanced i v now r)"
  by (simp_all add: advanced_def le_max_iff_disj)

lemma Claim_run:
  assumes "Claim i v w n s = (r, n', s')"
  shows "s' = s \<or> webhookrequest s' = map (advanced i v (w_clock w n)) (webhookrequest s)"
    "r = Inr True \<Longrightarrow> length (filter (matches_claim i v) (webhookrequest s)) = 1 \<and>
       webhookrequest s' = map (advanced i v (w_clock w n)) (webhookrequest s)"
  using assms by (auto simp: Claim_def claimStmt_def bindP_def stmt_def time_now_def ret_def advanced_def [abs_def]
      split: fault.splits)

lemma UpdateResult_rows:
  assumes "UpdateResult i out w n s = (r, n', s')"
  shows "s' = s \<or>
     s' = s\<lparr>webhookrequest := map (\<lambda>r. if q_ID r = i then write_result out (w_clock w n) r else r) (webhookrequest s)\<rparr>"
  using assms by (auto simp: UpdateResult_def bindP_def stmt_def time_now_def split: fault.splits)

lemma write_result_sel [simp]: "q_ID (write_result out now r) = q_ID r" "q_DateModified (write_result out now r) = now"
  "q_DateCreated (write_result out now r) = q_DateCreated r"
  by (simp_all add: write_result_def)

section \<open>A version of a request is delivered once\<close>

abbreviation covered :: "ledger \<Rightarrow> (int \<times> int) list" where
  "covered L \<equiv> lg_open L @ lg_posts L"

definition ledger_ok :: "ledger \<Rightarrow> Request list \<Rightarrow> bool" where
  "ledger_ok L rows \<longleftrightarrow> distinct (map q_ID rows) \<and> q_ID ` set rows \<subseteq> lg_ids L \<and> fst ` set (covered L) \<subseteq> lg_ids L \<and>
     (\<forall>r \<in> set rows. q_ID r \<notin> lg_behind L \<longrightarrow> (\<forall>v. (q_ID r, v) \<in> set (covered L) \<longrightarrow> v < q_DateModified r)) \<and>
     distinct (filter (\<lambda>p. fst p \<notin> lg_behind L) (covered L))"

lemma ledger_ok_map:
  assumes "ledger_ok L rows" "\<And>r. q_ID (f r) = q_ID r"
    "\<And>r. r \<in> set rows \<Longrightarrow> q_ID r \<notin> lg_behind L \<Longrightarrow> q_DateModified r \<le> q_DateModified (f r)"
  shows "ledger_ok L (map f rows)"
proof -
  have ids: "map q_ID (map f rows) = map q_ID rows" using assms(2) by simp
  then have "q_ID ` set (map f rows) = q_ID ` set rows" by (metis set_map)
  moreover have "v < q_DateModified (f r)" if "r \<in> set rows" "q_ID r \<notin> lg_behind L" "(q_ID r, v) \<in> set (covered L)" for r v
  proof -
    have "v < q_DateModified r" using assms(1) that unfolding ledger_ok_def by blast
    also have "\<dots> \<le> q_DateModified (f r)" using assms(3) that by blast
    finally show ?thesis .
  qed
  ultimately show ?thesis using assms(1,2) unfolding ledger_ok_def ids by auto
qed

lemma ledger_ok_sub:
  assumes "ledger_ok L rows"
  shows "ledger_ok L (filter keep rows)"
  using assms distinct_map_filter [of q_ID rows keep] unfolding ledger_ok_def by auto

lemma ledger_ok_claim:
  assumes "ledger_ok L (webhookrequest s)" "Claim i v w n s = (r, n', s')"
  shows "ledger_ok (won i v r L) (webhookrequest s')"
proof (cases "r = Inr True")
  case False
  have "ledger_ok L (webhookrequest s')"
    using Claim_run(1) [OF assms(2)] assms(1) ledger_ok_map [OF assms(1), of "advanced i v (w_clock w n)"] by auto
  with False show ?thesis by (simp add: won_def)
next
  case True
  let ?f = "advanced i v (w_clock w n)" and ?rows = "webhookrequest s"
  have rows: "webhookrequest s' = map ?f ?rows" and "filter (matches_claim i v) ?rows \<noteq> []"
    using Claim_run(2) [OF assms(2) True] by auto
  then obtain q where q: "q \<in> set ?rows" "matches_claim i v q" by (auto simp: filter_empty_conv)
  then have q': "q_ID q = i" "q_DateModified q = v" by (simp_all add: matches_claim_def)
  have new: "(i, v) \<notin> set (covered L)" if "i \<notin> lg_behind L"
    using assms(1) q(1) q' that unfolding ledger_ok_def by blast
  have ok: "ledger_ok L (map ?f ?rows)" by (rule ledger_ok_map [OF assms(1)]) simp_all
  have this_row: "v < q_DateModified row" if row: "row \<in> set (map ?f ?rows)" "q_ID row = i" for row
  proof -
    obtain x where x: "x \<in> set ?rows" "row = ?f x" using row(1) by auto
    then have "x = q" using assms(1) q(1) q'(1) row(2) map_of_key_unique [of q_ID ?rows x q] by (simp add: ledger_ok_def)
    then show ?thesis using x(2) q by (simp add: advanced_def matches_claim_def)
  qed
  have i: "i \<in> lg_ids L" using assms(1) q(1) q'(1) by (auto simp: ledger_ok_def)
  show ?thesis unfolding rows using ok this_row new i True by (auto simp: ledger_ok_def won_def)
qed

lemma ledger_ok_record:
  assumes "ledger_ok L (webhookrequest s)" "UpdateResult i out w n s = (r, n', s')"
  shows "ledger_ok (wrote i (w_clock w n) s L) (webhookrequest s')"
proof -
  let ?L = "wrote i (w_clock w n) s L"
  have sub: "lg_behind L \<subseteq> lg_behind ?L" "lg_ids ?L = lg_ids L" "covered ?L = covered L" by (auto simp: wrote_def)
  have "distinct (filter (\<lambda>p. fst p \<notin> lg_behind ?L) (covered L))"
  proof -
    have "filter (\<lambda>p. fst p \<notin> lg_behind ?L) (covered L) =
        filter (\<lambda>p. fst p \<notin> lg_behind ?L) (filter (\<lambda>p. fst p \<notin> lg_behind L) (covered L))"
      unfolding filter_filter by (rule filter_cong) (use sub(1) in auto)
    then show ?thesis using assms(1) by (simp only: ledger_ok_def distinct_filter)
  qed
  then have ok: "ledger_ok ?L (webhookrequest s)" using assms(1) sub unfolding ledger_ok_def by auto
  have "ledger_ok ?L (map (\<lambda>r. if q_ID r = i then write_result out (w_clock w n) r else r) (webhookrequest s))"
    by (rule ledger_ok_map [OF ok]) (auto simp: wrote_def not_less split: if_splits)
  then show ?thesis using UpdateResult_rows [OF assms(2)] ok by auto
qed

lemma ledger_ok_post:
  assumes "ledger_ok L rows" "p \<in> set (lg_open L)"
  shows "ledger_ok (used p L) rows"
proof -
  have m: "mset (covered (used p L)) = mset (covered L)" using assms(2) by (simp add: used_def)
  then have "set (covered (used p L)) = set (covered L)"
    "mset (filter (\<lambda>p. fst p \<notin> lg_behind L) (covered (used p L))) = mset (filter (\<lambda>p. fst p \<notin> lg_behind L) (covered L))"
    by (metis set_mset_mset, metis mset_filter)
  moreover have "lg_ids (used p L) = lg_ids L" "lg_behind (used p L) = lg_behind L" by (simp_all add: used_def)
  ultimately show ?thesis using assms(1) mset_eq_imp_distinct_iff unfolding ledger_ok_def by metis
qed

lemma step_ledger: "webhook_step L s L' s' \<Longrightarrow> ledger_ok L (webhookrequest s) \<Longrightarrow> ledger_ok L' (webhookrequest s')"
proof (induction rule: webhook_step.induct)
  case (Queueing r L s)
  then show ?case by (force simp: ledger_ok_def)
qed (simp_all add: ledger_ok_claim ledger_ok_record ledger_ok_post ledger_ok_sub)

definition posts_agree :: "herald \<Rightarrow> ledger \<Rightarrow> herald \<Rightarrow> bool" where
  "posts_agree s0 L s \<longleftrightarrow> map p_request (posted s) = map p_request (posted s0) @ rev (map fst (lg_posts L))"

lemma step_posts: "webhook_step L s L' s' \<Longrightarrow> posts_agree s0 L s \<Longrightarrow> posts_agree s0 L' s'"
proof (induction rule: webhook_step.induct)
  case (Claiming i v w n s r n' s' L)
  then have "posted s' = posted s"
    by (auto simp: Claim_def claimStmt_def bindP_def stmt_def time_now_def ret_def split: fault.splits)
  then show ?case using Claiming by (simp add: won_def posts_agree_def)
next
  case (Recording i out w n s r n' s' L)
  then show ?case using UpdateResult_rows [OF Recording(1)] by (auto simp: wrote_def posts_agree_def)
qed (simp_all add: used_def posts_agree_def)

section \<open>Runs are histories\<close>

abbreviation steps :: "herald \<Rightarrow> (ledger \<Rightarrow> bool) \<Rightarrow> 'a herald_prog \<Rightarrow> ('a \<Rightarrow> ledger \<Rightarrow> bool) \<Rightarrow> bool" where
  "steps s0 P m Q \<equiv> walks (webhook_history s0) P m Q (\<lambda>_ _. True)"

lemma steps_reads:
  "steps s0 P time_now (\<lambda>_. P)" "steps s0 P (FetchClaimable q) (\<lambda>_. P)" "steps s0 P (GetWebhook h) (\<lambda>_. P)"
  "steps s0 P (inErrorBackoff d h) (\<lambda>_. P)"
  by (rule walks_reading; simp add: FetchClaimable_def GetWebhook_def inErrorBackoff_def CountRecentFailures_def prog_defs
      split: fault.split)+

lemma steps_record: "steps s0 P (record_result req out) (\<lambda>_ _. True)"
proof (rule walksI)
  fix L s w n
  assume "webhook_history s0 L s" "P L"
  then have "webhook_history s0 (wrote (q_ID req) (w_clock w n) s L) (final (UpdateResult (q_ID req) out w n s))"
    by (cases "UpdateResult (q_ID req) out w n s") (auto intro: webhook_history.Step webhook_step.Recording)
  moreover have "final (record_result req out w n s) = final (UpdateResult (q_ID req) out w n s)"
    by (simp add: record_result_def tryP_def ret_def split: prod.split sum.split)
  ultimately show "\<exists>L'. webhook_history s0 L' (final (record_result req out w n s)) \<and>
      (case result (record_result req out w n s) of Inl e \<Rightarrow> True | Inr a \<Rightarrow> True)" by (auto split: sum.split)
qed

lemma steps_claim: "steps s0 P (Claim i v) (\<lambda>claimed L. claimed \<longrightarrow> (i, v) \<in> set (lg_open L))"
proof (rule walksI)
  fix L s w n
  assume h: "webhook_history s0 L s" "P L"
  obtain r n' s' where run: "Claim i v w n s = (r, n', s')" by (cases "Claim i v w n s") auto
  have "webhook_history s0 (won i v r L) s'" using webhook_history.Step [OF h(1) webhook_step.Claiming [OF run]] .
  moreover have "(i, v) \<in> set (lg_open (won i v r L))" if "r = Inr True" using that by (simp add: won_def)
  ultimately show "\<exists>L'. webhook_history s0 L' (final (Claim i v w n s)) \<and>
      (case result (Claim i v w n s) of Inl e \<Rightarrow> True | Inr claimed \<Rightarrow> claimed \<longrightarrow> (i, v) \<in> set (lg_open L'))"
    using run by (intro exI [of _ "won i v r L"]) (auto split: sum.split)
qed

lemma steps_post:
  "p_request p = i \<Longrightarrow> steps s0 (\<lambda>L. (i, v) \<in> set (lg_open L)) (client_Do net p) (\<lambda>_ _. True)"
  by (auto simp: walks_def client_Do_def intro: webhook_history.Step webhook_step.Posting)

lemma steps_deliver: "steps s0 (\<lambda>L. (q_ID req, v) \<in> set (lg_open L)) (deliver d req hook props) (\<lambda>_ _. True)"
  unfolding deliver_def Let_def
  by (intro walks_if walks_bind [OF steps_reads(1)] steps_record walks_bind [OF steps_post])
    (auto split: reply.split prod.split intro: steps_record)

lemma steps_processRequest: "steps s0 (\<lambda>_. True) (processRequest d req) (\<lambda>_ _. True)"
proof -
  have claim: "steps s0 (\<lambda>_. True) (bindP (Claim (q_ID req) (q_DateModified req)) (\<lambda>claimed.
      if \<not> claimed then ret () else deliver d req hook props)) (\<lambda>_ _. True)" for hook props
    by (rule walks_bind [OF steps_claim], rule walks_if)
      (auto intro: walks_ret walks_weaken [OF steps_deliver [of s0 req "q_DateModified req"]])
  show ?thesis unfolding processRequest_def
    by (auto split: properties.split option.split intro!: steps_record walks_try [where R = "\<lambda>_ _. True"]
        walks_bind [OF steps_reads(3)] walks_bind [OF steps_reads(4)] walks_if walks_ret claim)
qed

lemma steps_poll: "steps s0 (\<lambda>_. True) (Webhook_poll d k) (\<lambda>_ _. True)"
  unfolding Webhook_poll_def
  by (intro walks_bind [OF steps_reads(1)] walks_try [where R = "\<lambda>_ _. True"] walks_bind [OF steps_reads(2)] walks_ret
      walks_bind [OF walks_for [where P = "\<lambda>_. True"]] steps_processRequest) auto

section \<open>Whole attempts\<close>

text \<open>
  Next to the single calls of other dispatchers stand whole runs of \<open>processRequest\<close>. The ledger of a run is what can be
  observed of it: whether it made a request, and whether one of its clock readings was
  behind the version in the row, or a reading after its claim, whose statement is the fifth tick of a run, not past the version it had read.
\<close>

definition runs_behind :: "Request \<Rightarrow> world \<Rightarrow> nat \<Rightarrow> nat \<Rightarrow> herald \<Rightarrow> bool" where
  "runs_behind req w n n' s \<longleftrightarrow>
     (\<exists>m \<in> {n..<n'}. \<exists>r \<in> set (webhookrequest s). q_ID r = q_ID req \<and> w_clock w m < q_DateModified r) \<or>
     (\<exists>m \<in> {n + 5..<n'}. w_clock w m \<le> q_DateModified req)"

definition ran :: "Request \<Rightarrow> bool \<Rightarrow> bool \<Rightarrow> ledger \<Rightarrow> ledger" where
  "ran req behind post L =
     L\<lparr>lg_posts := (if post then (q_ID req, q_DateModified req) # lg_posts L else lg_posts L),
       lg_written := insert (q_ID req) (lg_written L),
       lg_behind := (if behind then insert (q_ID req) (lg_behind L) else lg_behind L)\<rparr>"

inductive dispatched :: "herald \<Rightarrow> ledger \<Rightarrow> herald \<Rightarrow> bool" for s0 where
  Begin: "dispatched s0 (fresh_ledger s0) s0"
| Other: "dispatched s0 L s \<Longrightarrow> webhook_step L s L' s' \<Longrightarrow> dispatched s0 L' s'"
| Running: "dispatched s0 L s \<Longrightarrow> processRequest d req w n s = (r, n', s') \<Longrightarrow>
    dispatched s0 (ran req (runs_behind req w n n' s) (posted s' \<noteq> posted s) L) s'"

text \<open>What a run does, in the order of its calls.\<close>

definition recorded_at :: "int \<Rightarrow> int \<Rightarrow> herald \<Rightarrow> herald \<Rightarrow> bool" where
  "recorded_at i now s s' \<longleftrightarrow> webhookrequest s' = webhookrequest s \<or>
     (\<exists>out. webhookrequest s' = map (\<lambda>r. if q_ID r = i then write_result out now r else r) (webhookrequest s))"

definition post_of :: "int \<Rightarrow> herald \<Rightarrow> herald \<Rightarrow> bool" where
  "post_of i s s' \<longleftrightarrow> posted s' = posted s \<or> (\<exists>p. p_request p = i \<and> posted s' = posted s @ [p])"

lemma record_result_run:
  assumes "record_result req out w n s = (r, n', s')"
  shows "n' = n + 2 \<and> posted s' = posted s \<and> recorded_at (q_ID req) (w_clock w n) s s'"
  using assms by (auto simp: record_result_def UpdateResult_def recorded_at_def prog_defs split: fault.splits)

lemma deliver_run:
  assumes "deliver d req hook props w n s = (r, n', s')"
  shows "\<exists>m \<in> {n..<n'}. recorded_at (q_ID req) (w_clock w m) s s' \<and> post_of (q_ID req) s s'"
proof (cases "dp_parses d (h_WebhookURI hook)")
  case False
  then obtain out where "record_result req out w (Suc n) s = (r, n', s')"
    using assms by (auto simp: deliver_def Let_def bindP_def)
  from record_result_run [OF this] show ?thesis by (auto simp: post_of_def intro!: bexI [of _ "Suc n"])
next
  case True
  define p where "p = \<lparr>p_request = q_ID req, p_uri = h_WebhookURI hook, p_body = buildPayload req props,
                 p_signature = dp_hmac d (buildPayload req props) (h_HmacKey hook)\<rparr>"
  obtain out where "record_result req out w (n + 2) (s\<lparr>posted := posted s @ [p]\<rparr>) = (r, n', s')"
    using assms True
    by (auto simp: deliver_def Let_def bindP_def client_Do_def p_def split: reply.splits if_splits prod.splits)
  from record_result_run [OF this] show ?thesis
    by (intro bexI [of _ "n + 2"]) (auto simp: post_of_def recorded_at_def p_def)
qed

lemma inErrorBackoff_run: "\<exists>b. inErrorBackoff d h w n s = (Inr b, n + 2, s)"
  by (auto simp: inErrorBackoff_def CountRecentFailures_def prog_defs split: fault.split)

lemma Claim_end: "\<exists>r s'. Claim i v w n s = (r, n + 2, s') \<and> posted s' = posted s"
  by (simp add: Claim_def claimStmt_def prog_defs split: fault.split)

lemma processRequest_cases:
  assumes "processRequest d req w n s = (r, n', s')"
  obtains (alone) m where "m \<in> {n..<n'}" "recorded_at (q_ID req) (w_clock w m) s s'" "posted s' = posted s"
  | (lost) c s1 where "Claim (q_ID req) (q_DateModified req) w (n + 3) s = (c, n + 5, s1)" "s' = s1" "posted s1 = posted s"
  | (won) s1 m where "Claim (q_ID req) (q_DateModified req) w (n + 3) s = (Inr True, n + 5, s1)" "posted s1 = posted s"
      "m \<in> {n + 5..<n'}" "recorded_at (q_ID req) (w_clock w m) s1 s'" "post_of (q_ID req) s1 s'"
proof (cases "q_Properties req")
  case (Undecodable props)
  then have "record_result req (configFailed props ErrorTypeHook ErrorCodeInvalidProperties) w n s = (r, n', s')"
    using assms by (simp add: processRequest_def)
  from record_result_run [OF this] show ?thesis by (intro alone [of n]) auto
next
  case (Decoded props)
  note run = assms [unfolded processRequest_def Decoded properties.case]
  have idle: thesis if "s' = s" "n' = Suc n" using alone [of n] that by (simp add: recorded_at_def)
  have config: thesis if "tryP (record_result req out) (\<lambda>_. ret ()) w (Suc n) s = (r, n', s')" for out
  proof -
    have "\<exists>r. record_result req out w (Suc n) s = (r, n', s')"
      using that by (auto simp: tryP_def split: prod.splits sum.splits)
    then show thesis using record_result_run alone [of "Suc n"] by force
  qed
  show ?thesis
  proof (cases "w_fault w n")
    case Fine
    show ?thesis
    proof (cases "find (\<lambda>h. h_PHID h = q_WebhookPHID req) (webhook s)")
      case None
      then show ?thesis using run Fine config by (auto simp: GetWebhook_def tryP_def bindP_def stmt_def)
    next
      case (Some hook)
      show ?thesis
      proof (cases "Disabled hook")
        case True
        then show ?thesis using run Fine Some config by (auto simp: GetWebhook_def tryP_def bindP_def stmt_def)
      next
        case False
        obtain b where b: "inErrorBackoff d (h_PHID hook) w (Suc n) s = (Inr b, n + 3, s)"
          using inErrorBackoff_run [of d "h_PHID hook" w "Suc n" s] by (auto simp: eval_nat_numeral)
        obtain c s1 where c: "Claim (q_ID req) (q_DateModified req) w (n + 3) s = (c, n + 5, s1)" "posted s1 = posted s"
          using Claim_end [of "q_ID req" "q_DateModified req" w "n + 3" s] by (auto simp: eval_nat_numeral)
        show ?thesis
        proof (cases "b \<or> c \<noteq> Inr True")
          case True
          then show ?thesis using run Fine Some False b c alone [of n] lost
            by (cases b; cases c) (auto simp: GetWebhook_def tryP_def bindP_def stmt_def recorded_at_def)
        next
          case won_it: False
          obtain r1 n1 s2 where del: "deliver d req hook props w (n + 5) s1 = (r1, n1, s2)" by (cases "deliver d req hook props w (n + 5) s1")
          then have "n' = n1" "s' = s2" using run Fine Some False b c won_it
            by (auto simp: GetWebhook_def tryP_def bindP_def stmt_def split: sum.splits)
          then show ?thesis using deliver_run [OF del] won c won_it by blast
        qed
      qed
    qed
  qed (use run idle in \<open>auto simp: GetWebhook_def tryP_def bindP_def stmt_def\<close>)
qed

text \<open>A ledger that covers less and forgives more is as good.\<close>

lemma distinct_count_le: "distinct xs \<longleftrightarrow> (\<forall>x. count (mset xs) x \<le> 1)"
proof -
  have "count (mset xs) x \<le> 1 \<longleftrightarrow> count (mset xs) x = (if x \<in> set xs then 1 else 0)" for x
    using count_mset_gt_0 [of x xs] by (cases "x \<in> set xs") (auto simp: count_mset_0_iff le_Suc_eq)
  then show ?thesis by (simp add: distinct_count_atmost_1)
qed

lemma ledger_ok_mono:
  assumes "ledger_ok L rows" "mset (covered L') \<subseteq># mset (covered L)" "lg_ids L' = lg_ids L" "lg_behind L \<subseteq> lg_behind L'"
  shows "ledger_ok L' rows"
proof -
  have sub: "set (covered L') \<subseteq> set (covered L)" using assms(2) by (metis set_mset_mono set_mset_mset)
  have "count (mset (filter (\<lambda>p. fst p \<notin> lg_behind L') (covered L'))) x \<le> count (mset (filter (\<lambda>p. fst p \<notin> lg_behind L) (covered L))) x" for x
    using mset_subset_eq_count [OF assms(2), of x] assms(4) by (auto simp: mset_filter)
  moreover have "distinct (filter (\<lambda>p. fst p \<notin> lg_behind L) (covered L))" using assms(1) by (simp add: ledger_ok_def)
  ultimately have "distinct (filter (\<lambda>p. fst p \<notin> lg_behind L') (covered L'))"
    unfolding distinct_count_le by (meson le_trans)
  then show ?thesis using assms(1,3,4) sub unfolding ledger_ok_def by blast
qed

lemma ledger_ok_written:
  assumes "ledger_ok L (webhookrequest s)" "recorded_at i now s s'"
    "\<And>r u. r \<in> set (webhookrequest s) \<Longrightarrow> q_ID r = i \<Longrightarrow> i \<notin> lg_behind L \<Longrightarrow> (i, u) \<in> set (covered L) \<Longrightarrow> u < now"
  shows "ledger_ok L (webhookrequest s')"
  using assms(2) unfolding recorded_at_def
proof
  assume "\<exists>out. webhookrequest s' = map (\<lambda>r. if q_ID r = i then write_result out now r else r) (webhookrequest s)"
  then obtain out where rows: "webhookrequest s' = map (\<lambda>r. if q_ID r = i then write_result out now r else r) (webhookrequest s)" by blast
  have ids: "map q_ID (webhookrequest s') = map q_ID (webhookrequest s)" unfolding rows by simp
  then have "q_ID ` set (webhookrequest s') = q_ID ` set (webhookrequest s)" by (metis set_map)
  moreover have "v < q_DateModified r" if r: "r \<in> set (webhookrequest s')" "q_ID r \<notin> lg_behind L" "(q_ID r, v) \<in> set (covered L)" for r v
  proof -
    obtain x where x: "x \<in> set (webhookrequest s)" "r = (if q_ID x = i then write_result out now x else x)" using r(1) rows by auto
    show ?thesis
    proof (cases "q_ID x = i")
      case True
      then show ?thesis using assms(3) [of x v] x r by simp
    next
      case False
      then have "r \<in> set (webhookrequest s)" using x by simp
      then show ?thesis using assms(1) r(2,3) unfolding ledger_ok_def by blast
    qed
  qed
  ultimately show ?thesis using assms(1) ids unfolding ledger_ok_def by metis
qed (use assms(1) in simp)

lemma run_ledger:
  assumes "ledger_ok L (webhookrequest s)" "processRequest d req w n s = (r, n', s')"
  shows "ledger_ok (ran req (runs_behind req w n n' s) (posted s' \<noteq> posted s) L) (webhookrequest s')"
proof -
  let ?i = "q_ID req" and ?v = "q_DateModified req" and ?b = "runs_behind req w n n' s"
  let ?forgive = "\<lambda>L. L\<lparr>lg_behind := (if ?b then insert (q_ID req) (lg_behind L) else lg_behind L)\<rparr>"
  have forgiven: "ledger_ok (?forgive M) rows" if "ledger_ok M rows" for M rows
    by (rule ledger_ok_mono [OF that]) auto
  have unposted: "ledger_ok (ran req ?b False L) rows" if "ledger_ok (?forgive L) rows" for rows
    by (rule ledger_ok_mono [OF that]) (auto simp: ran_def)
  from assms(2) show ?thesis
  proof (cases rule: processRequest_cases)
    case (alone m)
    have "u < w_clock w m" if "x \<in> set (webhookrequest s)" "q_ID x = ?i" "?i \<notin> lg_behind (?forgive L)" "(?i, u) \<in> set (covered (?forgive L))" for x u
    proof -
      have "q_DateModified x \<le> w_clock w m" using that alone(1) by (auto simp: runs_behind_def not_less split: if_splits)
      moreover have "u < q_DateModified x" using assms(1) that unfolding ledger_ok_def by (auto split: if_splits)
      ultimately show ?thesis by simp
    qed
    then have "ledger_ok (?forgive L) (webhookrequest s')" using ledger_ok_written [OF forgiven [OF assms(1)] alone(2)] by blast
    then show ?thesis using unposted alone(3) by simp
  next
    case (lost c s1)
    have "ledger_ok (won ?i ?v c L) (webhookrequest s1)" by (rule ledger_ok_claim [OF assms(1) lost(1)])
    then have "ledger_ok L (webhookrequest s1)" by (rule ledger_ok_mono) (auto simp: won_def)
    then show ?thesis using unposted [OF forgiven] lost(2,3) by simp
  next
    case (won s1 m)
    let ?L = "won ?i ?v (Inr True) L"
    have claimed: "ledger_ok ?L (webhookrequest s1)" by (rule ledger_ok_claim [OF assms(1) won(1)])
    have "u < w_clock w m" if "?i \<notin> lg_behind (?forgive ?L)" "(?i, u) \<in> set (covered (?forgive ?L))" for u
    proof -
      have nb: "\<not> ?b" "?i \<notin> lg_behind L" using that(1) by (auto simp: won_def split: if_splits)
      then have late: "?v < w_clock w m" using won(3) by (auto simp: runs_behind_def not_le)
      have "filter (matches_claim ?i ?v) (webhookrequest s) \<noteq> []" using Claim_run(2) [OF won(1)] by auto
      then obtain x where "x \<in> set (webhookrequest s)" "q_ID x = ?i" "q_DateModified x = ?v"
        by (auto simp: filter_empty_conv matches_claim_def)
      then have "u = ?v \<or> u < ?v" using assms(1) that(2) nb unfolding ledger_ok_def by (auto simp: won_def)
      then show ?thesis using late by auto
    qed
    then have ok: "ledger_ok (?forgive ?L) (webhookrequest s')" using ledger_ok_written [OF forgiven [OF claimed] won(4)] by blast
    show ?thesis
      by (rule ledger_ok_mono [OF ok]) (auto simp: ran_def won_def)
  qed
qed

lemma run_posts:
  assumes "processRequest d req w n s = (r, n', s')"
  shows "post_of (q_ID req) s s'"
  using assms by (cases rule: processRequest_cases) (auto simp: post_of_def)

lemma dispatched_ok:
  assumes "dispatched s0 L s" "distinct (map q_ID (webhookrequest s0))"
  shows "ledger_ok L (webhookrequest s) \<and> posts_agree s0 L s"
  using assms
proof (induction rule: dispatched.induct)
  case Begin
  then show ?case by (simp add: ledger_ok_def fresh_ledger_def posts_agree_def)
next
  case (Other L s L' s')
  then show ?case using step_ledger step_posts by blast
next
  case (Running L s d req w n r n' s')
  then have "posts_agree s0 L s" "ledger_ok L (webhookrequest s)" by blast+
  then show ?case using run_ledger [OF _ Running.hyps(2)] run_posts [OF Running.hyps(2)]
    by (auto simp: posts_agree_def ran_def post_of_def)
qed

text \<open>The requests of a tick.\<close>

lemma forP_posts:
  "forP reqs (processRequest d) w n s = (r, n', s') \<Longrightarrow> \<exists>ps. posted s' = posted s @ ps \<and> subseq (map p_request ps) (map q_ID reqs)"
proof (induction reqs arbitrary: n s r)
  case (Cons req reqs)
  obtain r1 n1 s1 where one: "processRequest d req w n s = (r1, n1, s1)" by (cases "processRequest d req w n s")
  have first: "post_of (q_ID req) s s1" by (rule run_posts [OF one])
  show ?case
  proof (cases r1)
    case (Inl e)
    then have "s' = s1" using Cons.prems one by (simp add: bindP_def)
    then show ?thesis using first by (auto simp: post_of_def)
  next
    case (Inr a)
    then obtain r2 where "forP reqs (processRequest d) w n1 s1 = (r2, n', s')" using Cons.prems one
      by (cases "forP reqs (processRequest d) w n1 s1") (auto simp: bindP_def split: sum.splits)
    from Cons.IH [OF this] obtain ps where ps: "posted s' = posted s1 @ ps" "subseq (map p_request ps) (map q_ID reqs)" by blast
    then show ?thesis using first by (auto simp: post_of_def intro: exI [of _ "_ # ps"])
  qed
qed simp

section \<open>The lease\<close>

definition leased_since :: "int \<Rightarrow> int \<Rightarrow> int \<Rightarrow> Request list \<Rightarrow> bool" where
  "leased_since i v t rows \<longleftrightarrow>
     (\<forall>r \<in> set rows. q_ID r = i \<longrightarrow> v < q_DateModified r \<and> t \<le> q_DateModified r \<and> q_DateCreated r < q_DateModified r)"

lemma leased_since_claim:
  "leased_since i v t (webhookrequest s) \<Longrightarrow> Claim j u w n s = (r, n', s') \<Longrightarrow> leased_since i v t (webhookrequest s')"
proof -
  assume a: "leased_since i v t (webhookrequest s)" and run: "Claim j u w n s = (r, n', s')"
  have "v < q_DateModified (advanced j u now x) \<and> t \<le> q_DateModified (advanced j u now x) \<and> q_DateCreated x < q_DateModified (advanced j u now x)"
    if "x \<in> set (webhookrequest s)" "q_ID x = i" for x now
  proof -
    have "v < q_DateModified x \<and> t \<le> q_DateModified x \<and> q_DateCreated x < q_DateModified x" using a that by (simp add: leased_since_def)
    then show ?thesis using advanced_sel(3) [of x j u now] by linarith
  qed
  then show ?thesis using a Claim_run(1) [OF run] by (auto simp: leased_since_def)
qed

lemma leased_since_step:
  assumes "webhook_step L s L' s'" "i \<in> lg_ids L" "i \<notin> lg_written L \<longrightarrow> leased_since i v t (webhookrequest s)"
  shows "i \<in> lg_ids L' \<and> (i \<notin> lg_written L' \<longrightarrow> leased_since i v t (webhookrequest s'))"
  using assms
proof (induction rule: webhook_step.induct)
  case (Claiming j u w n s r n' s' L)
  then show ?case using leased_since_claim [OF _ Claiming(1)] by (auto simp: won_def)
next
  case (Recording j out w n s r n' s' L)
  have "leased_since i v t (webhookrequest s')" if new: "i \<notin> lg_written L" "i \<noteq> j"
  proof -
    have "leased_since i v t (webhookrequest s)" using Recording.prems(2) new(1) by blast
    then show ?thesis using UpdateResult_rows [OF Recording(1)] new(2) by (elim disjE) (auto simp: leased_since_def)
  qed
  then show ?case using Recording.prems(1) by (simp add: wrote_def)
next
  case (Queueing r L s)
  then have "q_ID r \<noteq> i" by blast
  then show ?case using Queueing.prems by (simp add: leased_since_def)
qed (auto simp: used_def leased_since_def)

lemma leased_since_history:
  assumes "webhook_history s1 L s" "leased_since i v t (webhookrequest s1)" "i \<in> q_ID ` set (webhookrequest s1)"
  shows "i \<in> lg_ids L \<and> (i \<notin> lg_written L \<longrightarrow> leased_since i v t (webhookrequest s))"
  using assms
proof (induction rule: webhook_history.induct)
  case (Step L s L' s')
  then show ?case using leased_since_step [OF Step.hyps(2)] by blast
qed (simp add: fresh_ledger_def)

lemma claim_leases:
  assumes "distinct (map q_ID (webhookrequest s))" "Claim i v w n s = (Inr True, n', s1)"
    "\<forall>r \<in> set (webhookrequest s). q_DateCreated r \<le> q_DateModified r"
  shows "leased_since i v (w_clock w n) (webhookrequest s1)" "i \<in> q_ID ` set (webhookrequest s1)"
proof -
  let ?rows = "webhookrequest s"
  have rows: "webhookrequest s1 = map (advanced i v (w_clock w n)) ?rows" and "filter (matches_claim i v) ?rows \<noteq> []"
    using Claim_run(2) [OF assms(2)] by auto
  then obtain q where q: "q \<in> set ?rows" "matches_claim i v q" by (auto simp: filter_empty_conv)
  show "leased_since i v (w_clock w n) (webhookrequest s1)" unfolding rows leased_since_def
  proof (intro ballI impI)
    fix r
    assume r: "r \<in> set (map (advanced i v (w_clock w n)) ?rows)" "q_ID r = i"
    then obtain x where x: "x \<in> set ?rows" "r = advanced i v (w_clock w n) x" by auto
    then have "x = q" using q r(2) map_of_key_unique [OF assms(1), of x q] by (simp add: matches_claim_def)
    then show "v < q_DateModified r \<and> w_clock w n \<le> q_DateModified r \<and> q_DateCreated r < q_DateModified r"
      using x(2) q assms(3) by (auto simp: advanced_def matches_claim_def)
  qed
  show "i \<in> q_ID ` set (webhookrequest s1)" using q unfolding rows by (auto simp: matches_claim_def image_image)
qed

lemma leased_not_fetched:
  assumes "leased_since i v t (webhookrequest s)" "now < t + lease"
    "FetchClaimable (newClaimQuery now limit lease backoff) w n s = (Inr rs, n', s')"
  shows "i \<notin> q_ID ` set rs"
  using assms
  by (auto simp: FetchClaimable_def stmt_def leased_since_def claimable_def newClaimQuery_def dest!: in_set_takeD split: fault.splits)

lemma leased_not_claimed:
  assumes "leased_since i v t (webhookrequest s)" "u \<le> v"
  shows "result (Claim i u w n s) \<noteq> Inr True"
proof -
  have "filter (matches_claim i u) (webhookrequest s) = []"
    using assms by (auto simp: leased_since_def matches_claim_def filter_empty_conv)
  then show ?thesis by (simp add: Claim_def claimStmt_def prog_defs split: fault.split)
qed

section \<open>One delivery without failures\<close>

definition outcome_of :: "reply \<Rightarrow> RequestProperties \<Rightarrow> int \<Rightarrow> Outcome" where
  "outcome_of rep props now =
     (case rep of
        Answer code \<Rightarrow> if 200 \<le> code \<and> code < 300 then delivered props (Itoa code) now
                       else attemptFailed props ErrorTypeHTTP (Itoa code) now
      | Broke ended timeout text \<Rightarrow>
          attemptFailed props (fst (classifyTransportError ended timeout text)) (snd (classifyTransportError ended timeout text)) now)"

lemma processRequest_calm:
  assumes "q_Properties req = Decoded props" "find (\<lambda>h. h_PHID h = q_WebhookPHID req) (webhook s) = Some hook" "\<not> Disabled hook"
    "result (inErrorBackoff d (h_PHID hook) (calm t) (n + 1) s) = Inr False"
    "length (filter (matches_claim (q_ID req) (q_DateModified req)) (webhookrequest s)) = 1" "dp_parses d (h_WebhookURI hook)"
  shows "\<exists>m n'. processRequest d req (calm t) n s = (Inr (), n',
     s\<lparr>webhookrequest := map (\<lambda>r. if q_ID r = q_ID req then write_result (outcome_of (dp_net d m) props t) t r else r)
          (map (advanced (q_ID req) (q_DateModified req) t) (webhookrequest s)),
       posted := posted s @ [\<lparr>p_request = q_ID req, p_uri = h_WebhookURI hook, p_body = buildPayload req props,
          p_signature = dp_hmac d (buildPayload req props) (h_HmacKey hook)\<rparr>]\<rparr>)"
proof -
  have adv: "(\<lambda>r. if matches_claim (q_ID req) (q_DateModified req) r then r\<lparr>q_DateModified := max (q_DateModified r + 1) t\<rparr> else r) =
      advanced (q_ID req) (q_DateModified req) t"
    by (simp add: advanced_def fun_eq_iff)
  have open_hook: "inErrorBackoff d (h_PHID hook) (calm t) (Suc n) s = (Inr False, n + 3, s)"
    using assms(4) by (auto simp: inErrorBackoff_def CountRecentFailures_def prog_defs)
  have claim: "Claim (q_ID req) (q_DateModified req) (calm t) (n + 3) s =
      (Inr True, n + 5, s\<lparr>webhookrequest := map (advanced (q_ID req) (q_DateModified req) t) (webhookrequest s)\<rparr>)"
    using assms(5) by (simp add: Claim_def claimStmt_def prog_defs adv)
  show ?thesis
    using assms(1-3,6) open_hook claim
    by (cases "dp_net d (n + 5)")
      (auto simp: processRequest_def GetWebhook_def deliver_def client_Do_def record_result_def UpdateResult_def outcome_of_def
        prog_defs Let_def split: prod.split intro!: exI [of _ "n + 5"])
qed

section \<open>The payload is JSON\<close>

lemma hex_char_hex: "n < 16 \<Longrightarrow> is_hex (hex_char n)"
  by (auto simp: is_hex_def is_digit_def hex_char_def)

lemma scan_escape_byte: "byte c < 128 \<Longrightarrow> scan_string (escape_byte c @ t) = scan_string t"
proof -
  assume "byte c < 128"
  then have "is_hex (hex_char (byte c div 16))" "is_hex (hex_char (byte c mod 16))" by (auto intro!: hex_char_hex)
  moreover have "is_hex (CHR ''0'')" by (simp add: is_hex_def is_digit_def)
  ultimately show ?thesis by (auto simp: escape_byte_def)
qed

lemma scan_high: "(\<And>c. c \<in> set r \<Longrightarrow> 128 \<le> byte c) \<Longrightarrow> scan_string (r @ t) = scan_string t"
proof (induction r)
  case (Cons c r)
  have "128 \<le> byte c" using Cons.prems by simp
  then have "c \<noteq> CHR 0x22" "c \<noteq> CHR 0x5C" "\<not> byte c < 32" by auto
  then show ?case using Cons by simp
qed simp

lemma DecodeRune_rune_len: "DecodeRune (c # r) = Some k \<Longrightarrow> rune_len c = k"
  by (simp add: DecodeRune_def split: if_splits)

lemma rune_len_one: "rune_len c = 1 \<Longrightarrow> byte c < 128"
  by (simp add: rune_len_def split: if_splits)

lemma DecodeRune_high:
  assumes "DecodeRune s = Some k" "k \<noteq> 1" "c \<in> set (take k s)"
  shows "128 \<le> byte c"
proof -
  obtain a r where s: "s = a # r" using assms(1) by (cases s) (auto simp: DecodeRune_def)
  have k: "rune_len a = k" "second_ok (byte a) (r ! 0)" "\<forall>j < k - 2. continuation (r ! Suc j)" "k - 1 \<le> length r"
    using assms(1,2) by (auto simp: s DecodeRune_def split: if_splits)
  have a: "128 \<le> byte a" "2 \<le> k" using k(1) assms(2) DecodeRune_pos [OF assms(1)] by (auto simp: rune_len_def split: if_splits)
  have "c = a \<or> c \<in> set (take (k - 1) r)" using assms(3) a(2) by (cases k) (auto simp: s)
  then show ?thesis
  proof
    assume "c \<in> set (take (k - 1) r)"
    then obtain j where j: "j < k - 1" "c = r ! j" using k(4) by (auto simp: in_set_conv_nth)
    then show ?thesis using k(2,3)
      by (cases j) (auto simp: second_ok_def continuation_def Let_def split: if_splits)
  qed (use a in simp)
qed

lemma scan_escape_rune:
  assumes "DecodeRune s = Some k" "k \<noteq> 1"
  shows "scan_string (escape_rune (take k s) @ t) = scan_string t"
proof -
  have "is_hex (CHR ''2'')" "is_hex (CHR ''0'')" "is_hex (CHR ''8'')" "is_hex (CHR ''9'')" by (simp_all add: is_hex_def is_digit_def)
  then show ?thesis using scan_high [OF DecodeRune_high [OF assms]] by (simp add: escape_rune_def)
qed

lemma scan_json_escape: "scan_string (json_escape s @ t) = scan_string t"
proof (induction s rule: json_escape.induct)
  case (1 s)
  show ?case
  proof (cases s)
    case (Cons c r)
    show ?thesis
    proof (cases "DecodeRune s")
      case None
      have "is_hex (CHR ''f'')" "is_hex (CHR ''d'')" by (simp_all add: is_hex_def)
      then show ?thesis using 1(1) [OF Cons None] None Cons by (simp add: json_escape.simps [of "c # r"])
    next
      case (Some k)
      show ?thesis
      proof (cases "k = 1")
        case True
        then have "byte c < 128" using rune_len_one [OF DecodeRune_rune_len] Some Cons by simp
        then show ?thesis using 1(2) [OF Cons Some True] Some Cons True
          by (simp add: json_escape.simps [of "c # r"] scan_escape_byte)
      next
        case False
        then show ?thesis using 1(3) [OF Cons Some False] Some Cons scan_escape_rune [OF Some False]
          by (simp add: json_escape.simps [of "c # r"])
      qed
    qed
  qed (simp add: json_escape.simps)
qed

lemma scan_json_string: "scan_string (json_escape s @ CHR 0x22 # t) = Some t"
  by (simp add: scan_json_escape)

definition stops :: "string \<Rightarrow> bool" where
  "stops t \<longleftrightarrow> (case t of [] \<Rightarrow> True | c # _ \<Rightarrow> \<not> is_digit c \<and> c \<noteq> CHR ''.'' \<and> c \<noteq> CHR ''e'' \<and> c \<noteq> CHR ''E'')"

lemma digit_char_digit: "n < 10 \<Longrightarrow> is_digit (digit_char n)"
  by (auto simp: is_digit_def digit_char_def)

lemma Itoa_digits: "\<forall>c \<in> set (Itoa n). is_digit c" "Itoa n \<noteq> []" "0 < n \<Longrightarrow> hd (Itoa n) \<noteq> CHR ''0''"
proof -
  have "(\<forall>c \<in> set (Itoa n). is_digit c) \<and> Itoa n \<noteq> [] \<and> (0 < n \<longrightarrow> hd (Itoa n) \<noteq> CHR ''0'')"
  proof (induction n rule: Itoa.induct)
    case (1 n)
    have "digit_char n \<noteq> CHR ''0''" if "0 < n" "n < 10" using that by (auto simp: digit_char_def dest!: arg_cong [where f = "of_char :: char \<Rightarrow> nat"])
    then show ?case using 1 by (auto simp: Itoa.simps [of n] digit_char_digit)
  qed
  then show "\<forall>c \<in> set (Itoa n). is_digit c" "Itoa n \<noteq> []" "0 < n \<Longrightarrow> hd (Itoa n) \<noteq> CHR ''0''" by blast+
qed

lemma scan_fraction_stops: "stops t \<Longrightarrow> scan_fraction t = Some t"
  by (auto simp: scan_fraction_def scan_exponent_def stops_def split: list.splits)

lemma dropWhile_digits: "\<forall>c \<in> set r. is_digit c \<Longrightarrow> stops t \<Longrightarrow> dropWhile is_digit (r @ t) = t"
  by (induction r) (auto simp: stops_def split: list.splits)

lemma scan_FormatInt: "stops t \<Longrightarrow> scan_number (FormatInt i @ t) = Some t"
proof -
  assume t: "stops t"
  have nat: "(case Itoa n @ t of c # u \<Rightarrow>
      if c = CHR ''0'' then scan_fraction u else if is_digit c then scan_fraction (dropWhile is_digit u) else None | [] \<Rightarrow> None) = Some t"
    and minus: "hd (Itoa n) \<noteq> CHR ''-''" for n
  proof -
    obtain c r where cr: "Itoa n = c # r" using Itoa_digits(2) by (cases "Itoa n") auto
    have dig: "is_digit c" "\<forall>x \<in> set r. is_digit x" using Itoa_digits(1) [of n] cr by auto
    then show "hd (Itoa n) \<noteq> CHR ''-''" using cr by (auto simp: is_digit_def)
    have "r = []" if "c = CHR ''0''"
      using that Itoa_digits(3) [of n] cr by (cases "n = 0") (auto simp: Itoa.simps)
    then show "(case Itoa n @ t of c # u \<Rightarrow>
      if c = CHR ''0'' then scan_fraction u else if is_digit c then scan_fraction (dropWhile is_digit u) else None | [] \<Rightarrow> None) = Some t"
      using dig t dropWhile_digits [of "[]" t] by (simp add: cr scan_fraction_stops)
  qed
  show ?thesis
  proof (cases "i < 0")
    case False
    then show ?thesis using nat [of "nat i"] minus [of "nat i"] Itoa_digits(2) [of "nat i"]
      by (cases "Itoa (nat i)") (simp_all add: FormatInt_def scan_number_def)
  qed (use nat [of "nat (- i)"] in \<open>simp add: FormatInt_def scan_number_def\<close>)
qed

fun cost :: "json \<Rightarrow> nat" and costs :: "json list \<Rightarrow> nat" and costm :: "(string \<times> json) list \<Rightarrow> nat" where
  "cost (JStr s) = 1"
| "cost (JInt i) = 1"
| "cost (JBool b) = 1"
| "cost (JArr vs) = Suc (costs vs)"
| "cost (JObj ms) = Suc (costm ms)"
| "costs [] = 0"
| "costs (v # vs) = Suc (cost v + costs vs)"
| "costm [] = 0"
| "costm ((k, v) # ms) = Suc (cost v + costm ms)"

fun deep :: "json \<Rightarrow> nat" and deeps :: "json list \<Rightarrow> nat" and deepm :: "(string \<times> json) list \<Rightarrow> nat" where
  "deep (JStr s) = 0"
| "deep (JInt i) = 0"
| "deep (JBool b) = 0"
| "deep (JArr vs) = Suc (deeps vs)"
| "deep (JObj ms) = Suc (deepm ms)"
| "deeps [] = 0"
| "deeps (v # vs) = max (deep v) (deeps vs)"
| "deepm [] = 0"
| "deepm ((k, v) # ms) = max (deep v) (deepm ms)"

lemma indent_ws: "\<forall>c \<in> set (indent d). is_ws c"
  by (auto simp: indent_def is_ws_def)

lemma skip_ws_indent [simp]: "skip_ws (indent d @ s) = skip_ws s"
  using indent_ws by (simp add: skip_ws_def dropWhile_append)

lemma scan_value_ws: "skip_ws s = skip_ws s' \<Longrightarrow> scan_value n depth s = scan_value n depth s'"
  by (cases n) simp_all

lemma is_ws_samples [simp]: "\<not> is_ws (CHR 0x22)" "\<not> is_ws (CHR ''t'')" "\<not> is_ws (CHR ''f'')" "\<not> is_ws (CHR ''['')" "\<not> is_ws (CHR '']'')"
  "\<not> is_ws (CHR 0x7B)" "\<not> is_ws (CHR 0x7D)" "\<not> is_ws (CHR '','')" "\<not> is_ws (CHR '':'')" "is_ws (CHR '' '')"
  by (simp_all add: is_ws_def)

lemma FormatInt_first:
  obtains c r where "FormatInt i = c # r" "is_digit c \<or> c = CHR ''-''"
proof (cases "i < 0")
  case False
  then show ?thesis using that Itoa_digits(1,2) [of "nat i"] by (cases "Itoa (nat i)") (auto simp: FormatInt_def)
qed (use that in \<open>auto simp: FormatInt_def\<close>)

lemma skip_ws_cons: "\<not> is_ws c \<Longrightarrow> skip_ws (c # s) = c # s"
  by (simp add: skip_ws_def)

lemma stops_samples: "stops (CHR '','' # t)" "stops (indent d @ t)" "stops (newline # t)"
  by (simp_all add: stops_def is_digit_def indent_def)

lemma scan_value_int: "stops t \<Longrightarrow> scan_value (Suc n) depth (FormatInt i @ t) = Some t"
proof -
  assume t: "stops t"
  obtain c r where c: "FormatInt i = c # r" "is_digit c \<or> c = CHR ''-''" by (rule FormatInt_first)
  then have "\<not> is_ws c" "c \<noteq> CHR 0x7B" "c \<noteq> CHR 0x5B" "c \<noteq> CHR 0x22" "c \<noteq> CHR ''t''" "c \<noteq> CHR ''f''" "c \<noteq> CHR ''n''"
    by (auto simp: is_digit_def is_ws_def)
  then show ?thesis using scan_FormatInt [OF t, of i] c(1) by (simp add: skip_ws_cons)
qed

lemma elements_first: "vs \<noteq> [] \<Longrightarrow> \<exists>u. elements d vs = indent d @ u"
  by (cases vs) auto

lemma MarshalIndent_first:
  "\<exists>c r. MarshalIndent d v = c # r \<and> \<not> is_ws c \<and> c \<noteq> CHR 0x5D \<and> c \<noteq> CHR 0x7D"
proof (cases v)
  case (JInt i)
  obtain c r where "FormatInt i = c # r" "is_digit c \<or> c = CHR ''-''" by (rule FormatInt_first)
  then show ?thesis using JInt by (auto simp: is_digit_def is_ws_def)
qed (auto simp: json_string_def)

lemma scan_MarshalIndent:
  "\<lbrakk>cost v \<le> n; depth + deep v \<le> maxNestingDepth; stops t\<rbrakk> \<Longrightarrow> scan_value n depth (MarshalIndent d v @ t) = Some t"
  "\<lbrakk>vs \<noteq> []; costs vs \<le> n; depth + deeps vs \<le> maxNestingDepth\<rbrakk> \<Longrightarrow>
     scan_elements n depth (elements d vs @ indent e @ CHR '']'' # t) = Some t"
  "\<lbrakk>ms \<noteq> []; costm ms \<le> n; depth + deepm ms \<le> maxNestingDepth\<rbrakk> \<Longrightarrow>
     scan_members n depth (members d ms @ indent e @ CHR 0x7D # t) = Some t"
proof (induction d v and d vs and d ms arbitrary: n depth t and n depth t e and n depth t e rule: MarshalIndent_elements_members.induct)
  case (1 d s)
  then show ?case by (cases n) (simp_all add: json_string_def skip_ws_cons scan_json_string)
next
  case (2 d i)
  then obtain m where "n = Suc m" by (cases n) auto
  then show ?case using 2 scan_value_int by simp
next
  case (3 d b)
  then show ?case by (cases n) (simp_all add: skip_ws_cons literal_def)
next
  case (4 d vs)
  then obtain m where m: "n = Suc m" by (cases n) auto
  show ?case
  proof (cases "vs = []")
    case False
    then obtain v vs' where vs: "vs = v # vs'" by (cases vs) auto
    obtain c r where "MarshalIndent (Suc d) v = c # r" "\<not> is_ws c" "c \<noteq> CHR 0x5D" using MarshalIndent_first by blast
    then have "skip_ws (elements (Suc d) vs @ indent d @ CHR '']'' # t) = c # r @ (if vs' = [] then [] else CHR '','' # elements (Suc d) vs') @ indent d @ CHR '']'' # t"
      by (simp add: vs skip_ws_cons)
    then show ?thesis using 4(1) [where n = m and depth = "depth + 1" and t = t and e = d] 4(2,3) False m \<open>c \<noteq> CHR 0x5D\<close> by (simp add: skip_ws_cons)
  qed (use m 4 in \<open>simp add: skip_ws_cons\<close>)
next
  case (5 d ms)
  then obtain m where m: "n = Suc m" by (cases n) auto
  show ?case
  proof (cases "ms = []")
    case False
    then obtain k v ms' where ms: "ms = (k, v) # ms'" by (cases ms) auto
    have "\<exists>r. skip_ws (members (Suc d) ms @ indent d @ CHR 0x7D # t) = CHR 0x22 # r"
      by (simp add: ms json_string_def skip_ws_cons)
    then show ?thesis using 5(1) [where n = m and depth = "depth + 1" and t = t and e = d] 5(2,3) False m by (auto simp: skip_ws_cons)
  qed (use m 5 in \<open>simp add: skip_ws_cons\<close>)
next
  case (7 d v vs)
  then obtain m where m: "n = Suc m" by (cases n) auto
  let ?rest = "(if vs = [] then [] else CHR '','' # elements d vs) @ indent e @ CHR '']'' # t"
  have "scan_value m depth (indent d @ MarshalIndent d v @ ?rest) = scan_value m depth (MarshalIndent d v @ ?rest)"
    by (rule scan_value_ws) simp
  also have "\<dots> = Some ?rest" using 7(1) [where n = m and depth = depth and t = ?rest] 7(4,5) m by (auto simp: stops_samples)
  finally show ?case using 7(2) [where n = m and depth = depth and t = t and e = e] 7(4,5) m by (simp add: skip_ws_cons)
next
  case (9 d k v ms)
  then obtain m where m: "n = Suc m" by (cases n) auto
  let ?rest = "(if ms = [] then [] else CHR '','' # members d ms) @ indent e @ CHR 0x7D # t"
  have "scan_value m depth (CHR '' '' # MarshalIndent d v @ ?rest) = scan_value m depth (MarshalIndent d v @ ?rest)"
    by (rule scan_value_ws) (simp add: skip_ws_def)
  also have "\<dots> = Some ?rest" using 9(1) [where n = m and depth = depth and t = ?rest] 9(4,5) m by (auto simp: stops_samples)
  finally show ?case using 9(2) [where n = m and depth = depth and t = t and e = e] 9(4,5) m by (simp add: json_string_def skip_ws_cons scan_json_string)
qed simp_all

lemma MarshalIndent_cost:
  "cost v \<le> length (MarshalIndent d v)"
  "costs vs \<le> length (elements d vs)"
  "costm ms \<le> length (members d ms)"
proof (induction d v and d vs and d ms rule: MarshalIndent_elements_members.induct)
  case (2 d i)
  obtain c r where "FormatInt i = c # r" by (rule FormatInt_first)
  then show ?case by simp
qed (auto simp: json_string_def indent_def)

lemma deep_phids: "deeps (map (\<lambda>phid. JObj [(''phid'', JStr phid)]) phids) \<le> 1"
  by (induction phids) auto

lemma payload_deep: "deep (payload_json req props) \<le> 3"
  using deep_phids [of "rp_TriggerPHIDs props"] deep_phids [of "rp_TransactionPHIDs props"]
  by (simp add: payload_json_def)

lemma buildPayload_valid: "json_valid (buildPayload req props)"
proof -
  let ?v = "payload_json req props"
  have "scan_value (2 * length (buildPayload req props) + 2) 0 (MarshalIndent 0 ?v @ [newline]) = Some [newline]"
  proof (rule scan_MarshalIndent(1))
    show "cost ?v \<le> 2 * length (buildPayload req props) + 2"
      using MarshalIndent_cost(1) [of ?v 0] by (simp add: buildPayload_def)
    show "0 + deep ?v \<le> maxNestingDepth" using payload_deep [of req props] by (simp add: maxNestingDepth_def)
  qed (simp add: stops_samples)
  moreover have "skip_ws [newline] = []" by (simp add: skip_ws_def is_ws_def)
  ultimately show ?thesis by (simp add: json_valid_def buildPayload_def)
qed

end
