(* ===== verification/Webhook_Properties.thy ===== *)
theory Webhook_Properties
  imports Webhook_Facts
begin

text \<open>
  The properties of webhook delivery and their instances on a database with one hook and one
  request that is retried forever.
\<close>

section \<open>A small database\<close>

definition demo_props :: RequestProperties where
  "demo_props = \<lparr>rp_Retry = RetryForever, rp_ErrorType = [], rp_ErrorCode = [], rp_TransactionPHIDs = [], rp_TriggerPHIDs = [],
     rp_Silent = False, rp_Test = False, rp_Secure = False\<rparr>"

definition demo_request :: Request where
  "demo_request = \<lparr>q_ID = 1, q_PHID = ''PHID-HWBR-1'', q_WebhookPHID = ''PHID-HWBH-1'', q_ObjectPHID = ''PHID-TASK-1'',
     q_Status = StatusQueued, q_Properties = Decoded demo_props, q_LastRequestResult = ResultNone, q_LastRequestEpoch = 0,
     q_DateCreated = 100, q_DateModified = 100\<rparr>"

definition demo_hook :: Hook where
  "demo_hook = \<lparr>h_ID = 1, h_PHID = ''PHID-HWBH-1'', h_Name = ''hook'', h_WebhookURI = ''http://hook/'', h_Status = ''enabled'',
     h_HmacKey = ''key''\<rparr>"

definition demo_herald :: herald where
  "demo_herald = \<lparr>webhookrequest = [demo_request], webhook = [demo_hook], posted = []\<rparr>"

definition demo_dispatcher :: "nat \<Rightarrow> Dispatcher" where
  "demo_dispatcher code = \<lparr>dp_maxConcurrent = 8, dp_leaseSec = ClaimLease 30 15, dp_retryBackoffSec = 60, dp_errorBackoffSec = 300,
     dp_errorThreshold = 10, dp_hmac = (\<lambda>payload key. key), dp_parses = (\<lambda>_. True), dp_net = (\<lambda>_. Answer code)\<rparr>"

lemmas demo_defs = demo_props_def demo_request_def demo_hook_def demo_herald_def demo_dispatcher_def ClaimLease_def
  RetryForever_def StatusQueued_def StatusFailed_def StatusSent_def ResultNone_def ResultOkay_def ResultFail_def ErrorTypeHTTP_def
  HookStatusDisabled_def Disabled_def

lemma demo_distinct: "distinct (map q_ID (webhookrequest demo_herald))"
  by (simp add: demo_herald_def)

lemma claim_matches_once:
  assumes "distinct (map q_ID (webhookrequest s))" "req \<in> set (webhookrequest s)" "q_Status req = StatusQueued"
  shows "filter (matches_claim (q_ID req) (q_DateModified req)) (webhookrequest s) = [req]"
proof -
  have "filter (matches_claim (q_ID req) (q_DateModified req)) (webhookrequest s) = filter (\<lambda>r. r = req) (webhookrequest s)"
    using map_of_key_unique [OF assms(1)] assms(2,3) by (intro filter_cong) (auto simp: matches_claim_def)
  also have "\<dots> = [req]"
    using assms(1,2) by (auto simp: distinct_map intro: filter_only)
  finally show ?thesis .
qed

lemma poll_posts:
  assumes "distinct (map q_ID (webhookrequest s))"
  shows "\<exists>ps. posted (final (Webhook_poll d k w n s)) = posted s @ ps \<and> distinct (map p_request ps) \<and>
     set (map p_request ps) \<subseteq> q_ID ` {r \<in> set (webhookrequest s). q_Status r = StatusQueued}"
proof -
  let ?q = "newClaimQuery (w_clock w n) (dp_maxConcurrent d) (dp_leaseSec d) (dp_retryBackoffSec d)"
  let ?reqs = "take k (take (cq_Limit ?q) (sort_key q_ID (filter (claimable ?q) (webhookrequest s))))"
  have dist: "distinct (map q_ID ?reqs)"
    unfolding take_map [symmetric] using distinct_map_filter [OF assms, of "claimable ?q"]
    by (intro distinct_take) (simp add: distinct_map inj_on_def)
  have sub: "q_ID ` set ?reqs \<subseteq> q_ID ` {r \<in> set (webhookrequest s). q_Status r = StatusQueued}"
    by (auto simp: claimable_def dest!: in_set_takeD)
  obtain r n' s' where run: "forP ?reqs (processRequest d) w (n + 2) s = (r, n', s')" by (cases "forP ?reqs (processRequest d) w (n + 2) s")
  have ends: "final (Webhook_poll d k w n s) = s \<or> final (Webhook_poll d k w n s) = s'"
    using run by (auto simp: Webhook_poll_def FetchClaimable_def tryP_def bindP_def stmt_def split: fault.split sum.split)
  obtain ps where ps: "posted s' = posted s @ ps" "subseq (map p_request ps) (map q_ID ?reqs)" using forP_posts [OF run] by blast
  then obtain N where N: "map p_request ps = nths (map q_ID ?reqs) N" unfolding subseq_conv_nths by blast
  have "distinct (map p_request ps)" unfolding N by (rule distinct_nthsI [OF dist])
  moreover have "set (map p_request ps) \<subseteq> q_ID ` {r \<in> set (webhookrequest s). q_Status r = StatusQueued}"
    unfolding N using set_nths_subset [of "map q_ID ?reqs" N] sub unfolding set_map by (rule subset_trans)
  ultimately have new: "\<exists>ps. posted s' = posted s @ ps \<and> distinct (map p_request ps) \<and>
      set (map p_request ps) \<subseteq> q_ID ` {r \<in> set (webhookrequest s). q_Status r = StatusQueued}" using ps(1) by blast
  show ?thesis using ends
  proof
    assume "final (Webhook_poll d k w n s) = s"
    then show ?thesis by (intro exI [of _ "[]"]) simp
  qed (use new in simp)
qed

section \<open>Properties\<close>

text \<open>
  C30. Any number of dispatchers may work on one database, next to the application that queues requests and its garbage collector. Over every
  history of whole runs of \<open>processRequest\<close>, single calls of other dispatchers, each of whose posts uses up a claim it has won, and
  steps of the application, whatever fails: a run makes a request to a hook only
  if its own claim of the row at the version it had read succeeded, and no request is posted twice for the same version of its row. The exceptions are
  requests for which a run or a result had a clock behind the row's version, or not past the version the run had read once it had
  claimed the row. A tick posts each
  queued request at most once.
\<close>

theorem webhook_once_per_version:
  assumes "distinct (map q_ID (webhookrequest s0))" "dispatched s0 L s"
  shows "map p_request (posted s) = map p_request (posted s0) @ rev (map fst (lg_posts L)) \<and>
     distinct (filter (\<lambda>p. fst p \<notin> lg_behind L) (lg_posts L)) \<and>
     (posted (final (processRequest d req w n s)) \<noteq> posted s \<longrightarrow>
        result (Claim (q_ID req) (q_DateModified req) w (n + 3) s) = Inr True) \<and>
     (\<exists>ps. posted (final (Webhook_poll d k w n s)) = posted s @ ps \<and> distinct (map p_request ps) \<and>
        set (map p_request ps) \<subseteq> q_ID ` {r \<in> set (webhookrequest s). q_Status r = StatusQueued})"
proof -
  have ok: "ledger_ok L (webhookrequest s)" "posts_agree s0 L s" using dispatched_ok [OF assms(2,1)] by blast+
  have claim: "result (Claim (q_ID req) (q_DateModified req) w (n + 3) s) = Inr True" if "posted (final (processRequest d req w n s)) \<noteq> posted s"
  proof -
    obtain r n' s' where run: "processRequest d req w n s = (r, n', s')" by (cases "processRequest d req w n s")
    from run show ?thesis by (cases rule: processRequest_cases) (use that run in simp_all)
  qed
  have "distinct (map q_ID (webhookrequest s))" using ok(1) by (simp add: ledger_ok_def)
  from poll_posts [OF this] claim ok show ?thesis by (simp add: ledger_ok_def posts_agree_def)
qed

lemma demo_run:
  "\<exists>n' s'. processRequest (demo_dispatcher 200) demo_request (calm 101) 0 demo_herald = (Inr (), n', s') \<and> posted s' \<noteq> posted demo_herald"
  by (simp add: demo_defs processRequest_def GetWebhook_def inErrorBackoff_def CountRecentFailures_def Claim_def claimStmt_def
      matches_claim_def deliver_def client_Do_def record_result_def UpdateResult_def delivered_def write_result_def Let_def prog_defs)

theorem webhook_once_per_version_witness:
  "\<exists>L s. dispatched demo_herald L s \<and> lg_posts L = [(1, 100)] \<and> lg_behind L = {} \<and> map p_request (posted s) = [1] \<and>
     result (Claim 1 100 (calm 101) 3 demo_herald) = Inr True"
proof -
  obtain n' s' where run: "processRequest (demo_dispatcher 200) demo_request (calm 101) 0 demo_herald = (Inr (), n', s')" "posted s' \<noteq> posted demo_herald"
    using demo_run by blast
  let ?L = "ran demo_request (runs_behind demo_request (calm 101) 0 n' demo_herald) True (fresh_ledger demo_herald)"
  have "\<not> runs_behind demo_request (calm 101) 0 n' demo_herald" by (simp add: runs_behind_def demo_herald_def demo_request_def)
  then have L: "lg_posts ?L = [(1, 100)]" "lg_behind ?L = {}" by (simp_all add: ran_def fresh_ledger_def demo_request_def)
  have h: "dispatched demo_herald ?L s'" using dispatched.Running [OF dispatched.Begin run(1)] run(2) by simp
  from webhook_once_per_version [OF demo_distinct h] have posts: "map p_request (posted s') = [1]"
    using L(1) by (simp add: demo_herald_def)
  have "result (Claim 1 100 (calm 101) 3 demo_herald) = Inr True"
    using webhook_once_per_version [OF demo_distinct dispatched.Begin, where d = "demo_dispatcher 200" and req = demo_request
      and w = "calm 101" and n = 0] run by (simp add: demo_request_def)
  then show ?thesis using h L posts by (intro exI [of _ ?L] exI [of _ s'] conjI)
qed

text \<open>
  C31. A claim is a lease: from the moment a dispatcher has won a request until a result is written for it,
  whatever else happens, no dispatcher with that lease lists the request before the lease
  has passed, and a candidate read before the claim cannot be claimed any more.
\<close>

theorem webhook_claim_excludes:
  assumes "distinct (map q_ID (webhookrequest s))" "\<forall>r \<in> set (webhookrequest s). q_DateCreated r \<le> q_DateModified r"
    and "Claim i v w n s = (Inr True, n', s1)" "webhook_history s1 L s2" "i \<notin> lg_written L"
  shows "(u \<le> v \<longrightarrow> result (Claim i u w2 n2 s2) \<noteq> Inr True) \<and>
     (\<forall>now rs. now < w_clock w n + lease \<and>
        result (FetchClaimable (newClaimQuery now limit lease backoff) w2 n2 s2) = Inr rs \<longrightarrow> i \<notin> q_ID ` set rs)"
proof -
  have leased: "leased_since i v (w_clock w n) (webhookrequest s2)"
    using leased_since_history [OF assms(4) claim_leases [OF assms(1,3,2)]] assms(5) by blast
  have "i \<notin> q_ID ` set rs" if "now < w_clock w n + lease"
      "result (FetchClaimable (newClaimQuery now limit lease backoff) w2 n2 s2) = Inr rs" for now rs
    using leased_not_fetched [OF leased that(1)] that(2)
    by (cases "FetchClaimable (newClaimQuery now limit lease backoff) w2 n2 s2") auto
  then show ?thesis using leased_not_claimed [OF leased] by blast
qed

theorem webhook_claim_excludes_witness:
  "\<exists>n' s1. Claim 1 100 (calm 100) 0 demo_herald = (Inr True, n', s1) \<and> result (Claim 1 100 (calm 100) 0 s1) \<noteq> Inr True \<and>
     result (FetchClaimable (newClaimQuery 129 8 30 60) (calm 129) 0 s1) \<noteq> Inr [demo_request]"
proof -
  have "\<exists>n' s1. Claim 1 100 (calm 100) 0 demo_herald = (Inr True, n', s1)"
    by (simp add: Claim_def claimStmt_def matches_claim_def demo_defs prog_defs)
  then obtain n' s1 where run: "Claim 1 100 (calm 100) 0 demo_herald = (Inr True, n', s1)" by blast
  have old: "\<forall>r \<in> set (webhookrequest demo_herald). q_DateCreated r \<le> q_DateModified r" by (simp add: demo_defs)
  have "1 \<notin> lg_written (fresh_ledger s1)" by (simp add: fresh_ledger_def)
  note ex = webhook_claim_excludes [OF demo_distinct old run webhook_history.Start this]
  have "result (FetchClaimable (newClaimQuery 129 8 30 60) (calm 129) 0 s1) \<noteq> Inr [demo_request]"
    using ex [where lease = 30] by (force simp: demo_request_def)
  then show ?thesis using run ex by blast
qed

text \<open>
  The bytes that are posted are one JSON value, and a retry posts the same bytes: they do not
  depend on what earlier attempts left in the row.
\<close>

theorem webhook_payload_stable:
  "json_valid (buildPayload req props) \<and>
   buildPayload (write_result (attemptFailed props errorType errorCode epoch) now req)
     (o_Properties (attemptFailed props errorType errorCode epoch)) = buildPayload req props"
  using buildPayload_valid by (simp add: buildPayload_def payload_json_def write_result_def attemptFailed_def)

text \<open>
  Without failures, a request whose hook is enabled and not in backoff, and whose row still has
  the version that was read, is posted once with the signature of its payload, and the row records
  what the receiver answered: \<open>sent\<close> after an answer of the 200s, otherwise back in the queue or
  retired as its retry mode says.
\<close>

theorem webhook_delivers:
  assumes "q_Properties req = Decoded props" "find (\<lambda>h. h_PHID h = q_WebhookPHID req) (webhook s) = Some hook" "\<not> Disabled hook"
    and "result (inErrorBackoff d (h_PHID hook) (calm t) (n + 1) s) = Inr False" "dp_parses d (h_WebhookURI hook)"
    and "distinct (map q_ID (webhookrequest s))" "req \<in> set (webhookrequest s)" "q_Status req = StatusQueued"
  shows "\<exists>m n' s'. processRequest d req (calm t) n s = (Inr (), n', s') \<and>
     posted s' = posted s @ [\<lparr>p_request = q_ID req, p_uri = h_WebhookURI hook, p_body = buildPayload req props,
       p_signature = dp_hmac d (buildPayload req props) (h_HmacKey hook)\<rparr>] \<and>
     webhookrequest s' = map (\<lambda>r. if q_ID r = q_ID req then write_result (outcome_of (dp_net d m) props t) t r else r) (webhookrequest s)"
proof -
  note one = claim_matches_once [OF assms(6-8)]
  have "(\<lambda>r. if q_ID r = q_ID req then write_result out t r else r) (advanced (q_ID req) (q_DateModified req) t r) =
      (if q_ID r = q_ID req then write_result out t r else r)" for out r
    by (simp add: advanced_def write_result_def matches_claim_def)
  then show ?thesis
    using processRequest_calm [OF assms(1-4) _ assms(5)] one by (fastforce simp: comp_def)
qed

theorem webhook_delivers_witness:
  "\<exists>n' s' m. processRequest (demo_dispatcher 200) demo_request (calm 100) 0 demo_herald = (Inr (), n', s') \<and>
     map p_request (posted s') = [1] \<and>
     webhookrequest s' = [write_result (outcome_of (dp_net (demo_dispatcher 200) m) demo_props 100) 100 demo_request]"
proof -
  have "find (\<lambda>h. h_PHID h = q_WebhookPHID demo_request) (webhook demo_herald) = Some demo_hook" "\<not> Disabled demo_hook"
    "q_Properties demo_request = Decoded demo_props" "demo_request \<in> set (webhookrequest demo_herald)" "q_Status demo_request = StatusQueued"
    "dp_parses (demo_dispatcher 200) (h_WebhookURI demo_hook)"
    "result (inErrorBackoff (demo_dispatcher 200) (h_PHID demo_hook) (calm 100) (0 + 1) demo_herald) = Inr False"
    by (simp_all add: demo_defs inErrorBackoff_def CountRecentFailures_def prog_defs)
  from webhook_delivers [OF this(3,1,2,7,6) demo_distinct this(4,5)] show ?thesis
    by (fastforce simp: demo_herald_def demo_request_def)
qed

text \<open>
  C32. The version can fall back. A request that was queued in the current second is read by two dispatchers. The first claims it, its
  receiver refuses within the same second, and the result write sets the version of the row back to the second both
  had read. No candidate query with a retry backoff lists the request now, but the second dispatcher wins its stale claim and posts the
  request again at once.
\<close>

theorem webhook_version_falls_back:
  assumes req: "q_Properties req = Decoded props" "rp_Retry props = RetryForever" "req \<in> set (webhookrequest s)" "q_Status req = StatusQueued"
      "q_DateModified req = t" "distinct (map q_ID (webhookrequest s))"
    and hook: "find (\<lambda>h. h_PHID h = q_WebhookPHID req) (webhook s) = Some hook" "\<not> Disabled hook" "dp_parses d (h_WebhookURI hook)"
      "dp_parses d2 (h_WebhookURI hook)"
    and refused: "\<forall>m code. dp_net d m = Answer code \<longrightarrow> \<not> (200 \<le> code \<and> code < 300)"
    and first: "result (inErrorBackoff d (h_PHID hook) (calm t) (n + 1) s) = Inr False" "processRequest d req (calm t) n s = (r, n', s1)"
    and second: "result (inErrorBackoff d2 (h_PHID hook) (calm t) (n2 + 1) s1) = Inr False"
  shows "(\<exists>row \<in> set (webhookrequest s1). q_ID row = q_ID req \<and> q_DateModified row = t \<and> q_LastRequestResult row = ResultFail) \<and>
     (\<forall>rs. 0 < backoff \<and> result (FetchClaimable (newClaimQuery t limit lease backoff) w3 n3 s1) = Inr rs \<longrightarrow> q_ID req \<notin> q_ID ` set rs) \<and>
     (\<exists>p p'. p_request p = q_ID req \<and> p_request p' = q_ID req \<and> posted (final (processRequest d2 req (calm t) n2 s1)) = posted s @ [p, p'])"
proof -
  let ?i = "q_ID req"
  have "length (filter (matches_claim ?i (q_DateModified req)) (webhookrequest s)) = 1"
    using claim_matches_once [OF req(6,3,4)] by simp
  from processRequest_calm [OF req(1) hook(1,2) first(1) this hook(3)] obtain m where
    s1: "s1 = s\<lparr>webhookrequest := map (\<lambda>r. if q_ID r = ?i then write_result (outcome_of (dp_net d m) props t) t r else r)
          (map (advanced ?i (q_DateModified req) t) (webhookrequest s)),
       posted := posted s @ [\<lparr>p_request = ?i, p_uri = h_WebhookURI hook, p_body = buildPayload req props,
          p_signature = dp_hmac d (buildPayload req props) (h_HmacKey hook)\<rparr>]\<rparr>"
    using first(2) by auto
  define out where "out = outcome_of (dp_net d m) props t"
  have out: "o_Status out = StatusQueued" "o_RequestResult out = ResultFail" "o_Epoch out = t"
    using refused req(2) by (auto simp: out_def outcome_of_def attemptFailed_def split: reply.split)
  define row where "row = write_result out t (advanced ?i (q_DateModified req) t req)"
  have row: "q_ID row = ?i" "q_DateModified row = t" "q_LastRequestResult row = ResultFail" "q_Status row = StatusQueued" "q_LastRequestEpoch row = t"
    using out by (simp_all add: row_def write_result_def)
  have mem: "row \<in> set (webhookrequest s1)" using req(3) by (auto simp: s1 row_def out_def intro!: rev_image_eqI [of req])
  have dist: "distinct (map q_ID (webhookrequest s1))" 
  proof -
    have "map q_ID (webhookrequest s1) = map q_ID (webhookrequest s)" by (simp add: s1)
    then show ?thesis using req(6) by simp
  qed
  have "length (filter (matches_claim ?i (q_DateModified req)) (webhookrequest s1)) = 1"
    using claim_matches_once [OF dist mem row(4)] row(1,2) req(5) by simp
  moreover have "find (\<lambda>h. h_PHID h = q_WebhookPHID req) (webhook s1) = Some hook" using hook(1) by (simp add: s1)
  ultimately obtain p' where "p_request p' = ?i" "posted (final (processRequest d2 req (calm t) n2 s1)) = posted s1 @ [p']"
    using processRequest_calm [OF req(1) _ hook(2) second _ hook(4)] by fastforce
  moreover have "?i \<notin> q_ID ` set rs" if "0 < backoff"
      "result (FetchClaimable (newClaimQuery t limit lease backoff) w3 n3 s1) = Inr rs" for rs
  proof
    assume "?i \<in> q_ID ` set rs"
    then obtain x where x: "x \<in> set rs" "q_ID x = ?i" by auto
    have "x \<in> set (webhookrequest s1)" "claimable (newClaimQuery t limit lease backoff) x"
      using that(2) x(1) by (auto simp: FetchClaimable_def stmt_def dest!: in_set_takeD split: fault.splits)
    then show False using map_of_key_unique [OF dist, of x row] mem x(2) row that(1) by (auto simp: claimable_def newClaimQuery_def)
  qed
  ultimately show ?thesis using mem row by (auto simp: s1)
qed

theorem webhook_version_falls_back_witness:
  "\<exists>r n' s1. processRequest (demo_dispatcher 500) demo_request (calm 100) 0 demo_herald = (r, n', s1) \<and>
     map p_request (posted (final (processRequest (demo_dispatcher 500) demo_request (calm 100) 0 s1))) = [1, 1]"
proof -
  obtain r n' s1 where run: "processRequest (demo_dispatcher 500) demo_request (calm 100) 0 demo_herald = (r, n', s1)"
    by (cases "processRequest (demo_dispatcher 500) demo_request (calm 100) 0 demo_herald")
  have backoff: "result (inErrorBackoff (demo_dispatcher 500) (h_PHID demo_hook) (calm 100) (0 + 1) s) = Inr False"
    if "length (webhookrequest s) = 1" for s
  proof -
    have "length (filter P (webhookrequest s)) < 10" for P using that length_filter_le [of P "webhookrequest s"] by simp
    then show ?thesis by (simp add: inErrorBackoff_def CountRecentFailures_def demo_dispatcher_def prog_defs)
  qed
  have "length (webhookrequest s1) = 1"
    using run by (auto simp: demo_defs processRequest_def GetWebhook_def inErrorBackoff_def CountRecentFailures_def Claim_def claimStmt_def
      matches_claim_def deliver_def client_Do_def record_result_def UpdateResult_def attemptFailed_def write_result_def Let_def prog_defs)
  note two = webhook_version_falls_back [where req = demo_request and s = demo_herald and hook = demo_hook and props = demo_props and t = 100,
      OF _ _ _ _ _ demo_distinct _ _ _ _ _ backoff run backoff [OF this]]
  have "\<exists>p p'. p_request p = q_ID demo_request \<and> p_request p' = q_ID demo_request \<and>
      posted (final (processRequest (demo_dispatcher 500) demo_request (calm 100) 0 s1)) = posted demo_herald @ [p, p']"
    by (rule two [THEN conjunct2, THEN conjunct2]) (simp_all add: demo_defs)
  then show ?thesis using run by (auto simp: demo_herald_def demo_request_def)
qed

end
