(* ===== verification/Mail.thy ===== *)
theory Mail
  imports Prelude "HOL-Library.Char_ord" "HOL-Library.List_Lexorder" "HOL-Library.Product_Lexorder"
begin

text \<open>
  Durable mail delivery: \<open>src/go/internal/mailer/delivery.go\<close> with the dispatcher of \<open>dispatch.go\<close> and
  the classification of errors in \<open>outcome.go\<close> and \<open>adapter.go\<close>. The two tables of the ledger are lists of
  rows. The submissions that reach a provider are added to the state with the delivery and the attempt they are
  made for, which no adapter sees, and with whether the provider took the message, which only the provider
  knows. The providers, the authorization callback, the ends of contexts, the digest of a
  request and the random delay are parameters; that an adapter calls an error safe only if the provider did not take the
  message is a hypothesis of the theorems, not a fact about the adapters under \<open>src/\<close>. Waiting for a slot is a call that the world can
  fail. Errors keep the chain that \<open>errors.As\<close> searches.
\<close>

section \<open>Data\<close>

record Address =
  ad_Name :: string
  ad_Address :: string

record Attachment =
  at_Filename :: string
  at_MimeType :: string
  at_Data :: string

record EmailMessage =
  em_From :: Address
  em_ReplyTo :: "Address option"
  em_To :: "Address list"
  em_CC :: "Address list"
  em_Subject :: string
  em_TextBody :: string
  em_HTMLBody :: string
  em_Headers :: "(string \<times> string) list"
  em_Attachments :: "Attachment list"

record MailAuthorization =
  ma_Version :: int
  ma_MailID :: int
  ma_DeliveryID :: string
  ma_MessageHash :: string

record MailDeliveryRequest =
  md_Authorization :: "MailAuthorization option"
  md_AllowSend :: "bool option"
  md_SchemaVersion :: int
  md_DeliveryID :: string
  md_MailID :: int
  md_Deadline :: int
  md_Message :: EmailMessage
  md_MailerURI :: string
  md_AdapterKey :: string
  md_MailerKeys :: "string list"

record MailDeliveryResult =
  mr_DeliveryID :: string
  mr_State :: string
  mr_Revision :: int
  mr_Attempt :: int
  mr_NextAttempt :: int
  mr_MailerKey :: string
  mr_MessageID :: string

record SendResult =
  sr_MailerKey :: string
  sr_MessageID :: string

section \<open>Errors\<close>

datatype mail_error =
    Plain string
  | Wrapped string mail_error
  | PermanentError mail_error
  | SafeRetryError mail_error bool
  | SourceGateError mail_error

fun IsPermanent :: "mail_error \<Rightarrow> bool" where
  "IsPermanent (PermanentError e) = True"
| "IsPermanent (Wrapped m e) = IsPermanent e"
| "IsPermanent (SafeRetryError e b) = IsPermanent e"
| "IsPermanent (SourceGateError e) = IsPermanent e"
| "IsPermanent (Plain m) = False"

fun CanRetry :: "mail_error \<Rightarrow> bool" where
  "CanRetry (SafeRetryError e b) = True"
| "CanRetry (Wrapped m e) = CanRetry e"
| "CanRetry (PermanentError e) = CanRetry e"
| "CanRetry (SourceGateError e) = CanRetry e"
| "CanRetry (Plain m) = False"

fun isSourceGateError :: "mail_error \<Rightarrow> bool" where
  "isSourceGateError (SourceGateError e) = True"
| "isSourceGateError (Wrapped m e) = isSourceGateError e"
| "isSourceGateError (PermanentError e) = isSourceGateError e"
| "isSourceGateError (SafeRetryError e b) = isSourceGateError e"
| "isSourceGateError (Plain m) = False"

definition classifyProviderStatus :: "string \<Rightarrow> nat \<Rightarrow> string \<Rightarrow> mail_error option" where
  "classifyProviderStatus provider status body =
     (if 200 \<le> status \<and> status < 300 then None
      else
        let err = Plain (provider @ '': HTTP '' @ Itoa status @ '': '' @ body) in
        if status = 401 \<or> status = 403 then Some (SafeRetryError err True)
        else if status = 429 then Some (SafeRetryError err False)
        else if 400 \<le> status \<and> status < 500 then Some (PermanentError err)
        else Some err)"

datatype delivery_error =
    MailDb string
  | ErrMailRow
  | ErrDeliveryConflict
  | ErrDeliveryCancelConflict
  | ErrFenceLost
  | ErrNotReady mail_error
  | ErrSlot

section \<open>The ledger\<close>

record mail_row =
  g_deliveryID :: string
  g_payloadHash :: string
  g_payload :: MailDeliveryRequest
  g_deadline :: int
  g_state :: string
  g_revision :: int
  g_attempt :: int
  g_nextAttempt :: int
  g_startedEpoch :: int
  g_result :: "MailDeliveryResult option"
  g_projectionPending :: bool
  g_projectionNextAttempt :: int
  g_projectionAttempts :: int
  g_projectionLastError :: string

record attempt_row =
  a_deliveryID :: string
  a_attempt :: int
  a_startedEpoch :: int
  a_finishedEpoch :: "int option"
  a_outcome :: string

record Submission =
  sb_delivery :: string
  sb_attempt :: int
  sb_mailer :: string
  sb_message :: EmailMessage
  sb_taken :: bool

record mail_db =
  mail_delivery :: "mail_row list"
  mail_attempt :: "attempt_row list"
  submitted :: "Submission list"

type_synonym ('e, 'a) mail_prog = "(mail_db, 'e, 'a) prog"

abbreviation mail_tx :: "(delivery_error, 'a) mail_prog \<Rightarrow> (delivery_error, 'a) mail_prog" where
  "mail_tx \<equiv> transaction (MailDb ''tx'') (\<lambda>s0 s. s0)"

definition find_delivery :: "string \<Rightarrow> mail_db \<Rightarrow> mail_row option" where
  "find_delivery i s = find (\<lambda>g. g_deliveryID g = i) (mail_delivery s)"

definition prepared_row :: "MailDeliveryRequest \<Rightarrow> string \<Rightarrow> mail_row" where
  "prepared_row req hash =
     \<lparr>g_deliveryID = md_DeliveryID req, g_payloadHash = hash, g_payload = req, g_deadline = md_Deadline req, g_state = ''prepared'',
      g_revision = 0, g_attempt = 0, g_nextAttempt = 0, g_startedEpoch = 0, g_result = None, g_projectionPending = False,
      g_projectionNextAttempt = 0, g_projectionAttempts = 0, g_projectionLastError = []\<rparr>"

definition insert_delivery :: "MailDeliveryRequest \<Rightarrow> string \<Rightarrow> mail_db \<Rightarrow> (delivery_error + unit) \<times> mail_db" where
  "insert_delivery req hash s =
     (Inr (), case find_delivery (md_DeliveryID req) s of
        Some _ \<Rightarrow> s
      | None \<Rightarrow> s\<lparr>mail_delivery := mail_delivery s @ [prepared_row req hash]\<rparr>)"

definition update_delivery :: "(mail_row \<Rightarrow> bool) \<Rightarrow> (mail_row \<Rightarrow> mail_row) \<Rightarrow> mail_db \<Rightarrow> mail_db" where
  "update_delivery p f s = s\<lparr>mail_delivery := map (\<lambda>g. if p g then f g else g) (mail_delivery s)\<rparr>"

definition update_attempt :: "(attempt_row \<Rightarrow> bool) \<Rightarrow> (attempt_row \<Rightarrow> attempt_row) \<Rightarrow> mail_db \<Rightarrow> mail_db" where
  "update_attempt p f s = s\<lparr>mail_attempt := map (\<lambda>a. if p a then f a else a) (mail_attempt s)\<rparr>"

definition terminalDelivery :: "string \<Rightarrow> bool" where
  "terminalDelivery state \<longleftrightarrow>
     state = ''accepted'' \<or> state = ''failed'' \<or> state = ''unknown'' \<or> state = ''expired'' \<or> state = ''cancelled''"

definition fenced :: "MailDeliveryResult \<Rightarrow> string \<Rightarrow> mail_row \<Rightarrow> bool" where
  "fenced out oldState g \<longleftrightarrow> g_deliveryID g = mr_DeliveryID out \<and> g_state g = oldState \<and> g_attempt g = mr_Attempt out"

definition settle_row :: "MailDeliveryResult \<Rightarrow> mail_row \<Rightarrow> mail_row" where
  "settle_row out g =
     g\<lparr>g_state := mr_State out, g_revision := mr_Revision out, g_nextAttempt := mr_NextAttempt out, g_result := Some out,
       g_projectionPending := terminalDelivery (mr_State out), g_projectionNextAttempt := 0, g_projectionAttempts := 0,
       g_projectionLastError := []\<rparr>"

definition saveDelivery :: "MailDeliveryResult \<Rightarrow> string \<Rightarrow> (delivery_error, unit) mail_prog" where
  "saveDelivery out oldState =
     bindP (stmt (MailDb ''update delivery'') (\<lambda>s.
        (Inr (length (filter (fenced out oldState) (mail_delivery s))), update_delivery (fenced out oldState) (settle_row out) s)))
       (\<lambda>n. if n \<noteq> 1 then raise ErrFenceLost else ret ())"

definition settleStaleSubmission :: "MailDeliveryResult \<Rightarrow> (delivery_error, unit) mail_prog" where
  "settleStaleSubmission out =
     bindP (saveDelivery out ''submitting'') (\<lambda>_.
     bindP time_now (\<lambda>now.
     stmt (MailDb ''update attempt'') (\<lambda>s.
       (Inr (), update_attempt
          (\<lambda>a. a_deliveryID a = mr_DeliveryID out \<and> a_attempt a = mr_Attempt out \<and> a_outcome a = ''submitting'')
          (\<lambda>a. a\<lparr>a_outcome := ''unknown'', a_finishedEpoch := Some now\<rparr>) s))))"

section \<open>The dispatcher\<close>

record namedAdapter =
  na_key :: string
  na_priority :: int
  na_type :: string

record MailerSpec =
  ms_Key :: string
  ms_Type :: string
  ms_Priority :: int
  ms_Options :: "(string \<times> string) list"

record mail_env =
  me_adapters :: "namedAdapter list"
  me_MaxRetries :: int
  me_provider :: "nat \<Rightarrow> bool \<times> (mail_error + string)"
  me_AuthorizeAttempt :: "(nat \<Rightarrow> mail_error option) option"
  me_ended :: "nat \<Rightarrow> bool"
  me_digest :: "MailDeliveryRequest \<Rightarrow> string"
  me_jitter :: int

text \<open>
  \<open>NewAdapter\<close> of a spec is a parameter; \<open>strings.TrimSpace\<close> is used only to see whether a key is blank.
\<close>

definition blank :: "string \<Rightarrow> bool" where
  "blank s \<longleftrightarrow> list_all (\<lambda>c. c \<in> {CHR '' '', CHR 0x09, CHR 0x0A, CHR 0x0B, CHR 0x0C, CHR 0x0D}) s"

fun build_adapters ::
  "(MailerSpec \<Rightarrow> mail_error + string) \<Rightarrow> MailerSpec list \<Rightarrow> string set \<Rightarrow> int \<Rightarrow> mail_error + namedAdapter list" where
  "build_adapters NewAdapter [] keys nextPriority = Inr []"
| "build_adapters NewAdapter (spec # specs) keys nextPriority =
     (if blank (ms_Key spec) then Inl (Plain ''mailer key must be nonempty'')
      else if ms_Key spec \<in> keys then Inl (Plain (''duplicate mailer key '' @ ms_Key spec))
      else
        (case NewAdapter spec of
           Inl e \<Rightarrow> Inl (Wrapped (''mailer '' @ ms_Key spec) e)
         | Inr typ \<Rightarrow>
             let pri = (if ms_Priority spec = 0 then nextPriority else ms_Priority spec);
                 nxt = (if ms_Priority spec = 0 then nextPriority - 1 else nextPriority) in
             (case build_adapters NewAdapter specs (insert (ms_Key spec) keys) nxt of
                Inl e \<Rightarrow> Inl e
              | Inr rest \<Rightarrow> Inr (\<lparr>na_key = ms_Key spec, na_priority = pri, na_type = typ\<rparr> # rest))))"

definition NewDispatcher :: "(MailerSpec \<Rightarrow> mail_error + string) \<Rightarrow> MailerSpec list \<Rightarrow> mail_error + namedAdapter list" where
  "NewDispatcher NewAdapter specs =
     (case build_adapters NewAdapter specs {} (- 1) of
        Inl e \<Rightarrow> Inl e
      | Inr adapters \<Rightarrow> Inr (sort_key (\<lambda>a. - na_priority a) adapters))"

definition MailerKeys :: "namedAdapter list \<Rightarrow> string list" where
  "MailerKeys adapters = map na_key adapters"

definition Mailer_Ready :: "namedAdapter list \<Rightarrow> mail_error option" where
  "Mailer_Ready adapters = (if adapters = [] then Some (Plain ''no mailers configured'') else None)"

definition ReadyFor :: "namedAdapter list \<Rightarrow> string list \<Rightarrow> mail_error option" where
  "ReadyFor adapters keys =
     (case Mailer_Ready adapters of
        Some e \<Rightarrow> Some (SafeRetryError e True)
      | None \<Rightarrow>
          if keys = [] then None
          else if \<exists>a \<in> set adapters. na_key a \<in> set keys then None
          else Some (SafeRetryError (Plain ''no matching mailers for keys'') True))"

definition ctx_Err :: "mail_env \<Rightarrow> ('e, bool) mail_prog" where
  "ctx_Err env = (\<lambda>w n s. (Inr (me_ended env n), Suc n, s))"

definition run_gate :: "(nat \<Rightarrow> mail_error option) option \<Rightarrow> ('e, mail_error option) mail_prog" where
  "run_gate gate = (\<lambda>w n s. (Inr (case gate of None \<Rightarrow> None | Some g \<Rightarrow> g n), Suc n, s))"

definition adapter_Send :: "mail_env \<Rightarrow> string \<times> int \<Rightarrow> namedAdapter \<Rightarrow> EmailMessage \<Rightarrow> ('e, mail_error + string) mail_prog" where
  "adapter_Send env for na msg = (\<lambda>w n s.
     (Inr (snd (me_provider env n)), Suc n,
      s\<lparr>submitted := submitted s @
          [\<lparr>sb_delivery = fst for, sb_attempt = snd for, sb_mailer = na_key na, sb_message = msg, sb_taken = fst (me_provider env n)\<rparr>]\<rparr>))"

text \<open>The attempts through one adapter; \<open>k\<close> is how many retries are left.\<close>

fun sendThroughAuthorized ::
  "mail_env \<Rightarrow> string \<times> int \<Rightarrow> (nat \<Rightarrow> mail_error option) option \<Rightarrow> namedAdapter \<Rightarrow> EmailMessage \<Rightarrow> nat \<Rightarrow> (mail_error, string) mail_prog" where
  "sendThroughAuthorized env for gate na msg k =
     bindP (ctx_Err env) (\<lambda>ended.
     if ended then raise (SafeRetryError (Plain ''context'') False)
     else
       bindP (run_gate gate) (\<lambda>refused.
       case refused of
         Some e \<Rightarrow> raise (SourceGateError e)
       | None \<Rightarrow>
           bindP (adapter_Send env for na msg) (\<lambda>reply.
           case reply of
             Inr messageID \<Rightarrow> ret messageID
           | Inl e \<Rightarrow>
               if IsPermanent e \<or> \<not> CanRetry e then raise e
               else
                 (case k of
                    0 \<Rightarrow> raise (Wrapped (na_key na) e)
                  | Suc k' \<Rightarrow>
                      bindP (ctx_Err env) (\<lambda>ended.
                      if ended then raise (SafeRetryError (Plain ''context'') False)
                      else sendThroughAuthorized env for gate na msg k')))))"

fun send_adapters ::
  "mail_env \<Rightarrow> string \<times> int \<Rightarrow> (nat \<Rightarrow> mail_error option) option \<Rightarrow> EmailMessage \<Rightarrow> namedAdapter list \<Rightarrow> mail_error option \<Rightarrow>
   (mail_error, SendResult) mail_prog" where
  "send_adapters env for gate msg [] lastErr =
     (case lastErr of
        None \<Rightarrow> raise (SafeRetryError (Plain ''no matching mailers for keys'') True)
      | Some e \<Rightarrow> raise (Wrapped ''all mailers failed'' e))"
| "send_adapters env for gate msg (na # adapters) lastErr =
     bindP (ctx_Err env) (\<lambda>ended.
     if ended then raise (SafeRetryError (Plain ''context'') False)
     else
       tryP
         (bindP (sendThroughAuthorized env for gate na msg (nat (me_MaxRetries env))) (\<lambda>messageID.
          ret \<lparr>sr_MailerKey = na_key na, sr_MessageID = messageID\<rparr>))
         (\<lambda>e. if isSourceGateError e \<or> IsPermanent e \<or> \<not> CanRetry e then raise e
              else send_adapters env for gate msg adapters (Some e)))"

definition sendAuthorized ::
  "mail_env \<Rightarrow> string \<times> int \<Rightarrow> EmailMessage \<Rightarrow> string list \<Rightarrow> (nat \<Rightarrow> mail_error option) option \<Rightarrow> (mail_error, SendResult) mail_prog" where
  "sendAuthorized env for msg mailerKeys gate =
     (case Mailer_Ready (me_adapters env) of
        Some e \<Rightarrow> raise (SafeRetryError e True)
      | None \<Rightarrow>
          send_adapters env for gate msg
            (if mailerKeys = [] then me_adapters env else filter (\<lambda>a. na_key a \<in> set mailerKeys) (me_adapters env)) None)"

definition SendWith :: "mail_env \<Rightarrow> string \<times> int \<Rightarrow> EmailMessage \<Rightarrow> string list \<Rightarrow> (mail_error, SendResult) mail_prog" where
  "SendWith env for msg keys = sendAuthorized env for msg keys None"

definition SendAuthorized ::
  "mail_env \<Rightarrow> string \<times> int \<Rightarrow> EmailMessage \<Rightarrow> string list \<Rightarrow> (nat \<Rightarrow> mail_error option) option \<Rightarrow> (mail_error, SendResult) mail_prog" where
  "SendAuthorized env for msg keys gate =
     (if gate = None then raise (PermanentError (Plain ''mail authorization source missing''))
      else sendAuthorized env for msg keys gate)"

text \<open>The gate of a delivery: without a source every attempt is refused for good.\<close>

definition delivery_gate :: "mail_env \<Rightarrow> nat \<Rightarrow> mail_error option" where
  "delivery_gate env n =
     (case me_AuthorizeAttempt env of
        None \<Rightarrow> Some (PermanentError (Plain ''mail authorization source missing''))
      | Some authorize \<Rightarrow> authorize n)"

section \<open>Deliveries\<close>

definition acquire_slot :: "(delivery_error, unit) mail_prog" where
  "acquire_slot = stmt ErrSlot (\<lambda>s. (Inr (), s))"

text \<open>Taking the delivery: the row and its attempt say so before anything is submitted.\<close>

definition take_delivery :: "MailDeliveryRequest \<Rightarrow> MailDeliveryResult \<Rightarrow> int \<Rightarrow> (delivery_error, bool \<times> MailDeliveryResult) mail_prog" where
  "take_delivery req out now =
     (let sub = out\<lparr>mr_State := ''submitting'', mr_Attempt := mr_Attempt out + 1, mr_Revision := mr_Revision out + 1,
                    mr_NextAttempt := now + 5\<rparr> in
      bindP (stmt (MailDb ''claim delivery'') (\<lambda>s.
         (Inr (), update_delivery (\<lambda>g. g_deliveryID g = md_DeliveryID req)
            (\<lambda>g. g\<lparr>g_state := ''submitting'', g_attempt := mr_Attempt sub, g_revision := mr_Revision sub, g_startedEpoch := now,
                   g_result := Some sub\<rparr>) s))) (\<lambda>_.
      bindP (stmt (MailDb ''insert attempt'') (\<lambda>s.
         if \<exists>a \<in> set (mail_attempt s). a_deliveryID a = md_DeliveryID req \<and> a_attempt a = mr_Attempt sub
         then (Inl (MailDb ''duplicate attempt''), s)
         else
           (Inr (), s\<lparr>mail_attempt := mail_attempt s @
              [\<lparr>a_deliveryID = md_DeliveryID req, a_attempt = mr_Attempt sub, a_startedEpoch = now, a_finishedEpoch = None,
                a_outcome = ''submitting''\<rparr>]\<rparr>))) (\<lambda>_.
      ret (True, sub))))"

definition decide_delivery ::
  "mail_env \<Rightarrow> MailDeliveryRequest \<Rightarrow> bool \<Rightarrow> mail_row \<Rightarrow> int \<Rightarrow> (delivery_error, bool \<times> MailDeliveryResult) mail_prog" where
  "decide_delivery env req allow g now =
     (let out = \<lparr>mr_DeliveryID = md_DeliveryID req, mr_State = g_state g, mr_Revision = g_revision g, mr_Attempt = g_attempt g,
                  mr_NextAttempt = g_nextAttempt g, mr_MailerKey = [], mr_MessageID = []\<rparr> in
      if terminalDelivery (g_state g) then ret (False, case g_result g of None \<Rightarrow> out | Some stored \<Rightarrow> stored)
      else if g_state g = ''submitting'' then
        (if now - g_startedEpoch g < 120 then ret (False, out\<lparr>mr_NextAttempt := now + 5\<rparr>)
         else
           let stale = out\<lparr>mr_State := ''unknown'', mr_Revision := mr_Revision out + 1, mr_NextAttempt := 0\<rparr> in
           bindP (settleStaleSubmission stale) (\<lambda>_. ret (False, stale)))
      else if md_Deadline req \<le> now then
        (let late = out\<lparr>mr_State := ''expired'', mr_Revision := mr_Revision out + 1, mr_NextAttempt := 0\<rparr> in
         bindP (saveDelivery late (g_state g)) (\<lambda>_. ret (False, late)))
      else if g_nextAttempt g > now then ret (False, out)
      else if \<not> allow then ret (False, out\<lparr>mr_NextAttempt := now + 60\<rparr>)
      else
        (case ReadyFor (me_adapters env) (md_MailerKeys req) of
           Some e \<Rightarrow> raise (ErrNotReady e)
         | None \<Rightarrow> take_delivery req out now))"

text \<open>
  The first transaction. It returns whether this call has to submit the message, and the result so far.
\<close>

definition claim_delivery :: "mail_env \<Rightarrow> MailDeliveryRequest \<Rightarrow> bool \<Rightarrow> (delivery_error, bool \<times> MailDeliveryResult) mail_prog" where
  "claim_delivery env req allow =
     bindP (stmt (MailDb ''insert delivery'') (insert_delivery req (me_digest env req))) (\<lambda>_.
     bindP (stmt (MailDb ''select delivery'') (\<lambda>s.
        (case find_delivery (md_DeliveryID req) s of None \<Rightarrow> Inl ErrMailRow | Some g \<Rightarrow> Inr g, s))) (\<lambda>g.
     if g_payloadHash g \<noteq> me_digest env req then raise ErrDeliveryConflict
     else bindP time_now (\<lambda>now. decide_delivery env req allow g now)))"

text \<open>The dispatcher's outcome as a value.\<close>

definition outcome_prog :: "('e, 'a) mail_prog \<Rightarrow> ('f, 'e + 'a) mail_prog" where
  "outcome_prog m = (\<lambda>w n s. (Inr (result (m w n s)), fst (snd (m w n s)), final (m w n s)))"

definition submit_delivery :: "mail_env \<Rightarrow> MailDeliveryRequest \<Rightarrow> MailDeliveryResult \<Rightarrow> (delivery_error, mail_error + SendResult) mail_prog" where
  "submit_delivery env req out =
     outcome_prog
       (case md_Authorization req of
          Some _ \<Rightarrow> SendAuthorized env (mr_DeliveryID out, mr_Attempt out) (md_Message req) (md_MailerKeys req) (Some (delivery_gate env))
        | None \<Rightarrow> SendWith env (mr_DeliveryID out, mr_Attempt out) (md_Message req) (md_MailerKeys req))"

definition judge_outcome :: "mail_env \<Rightarrow> MailDeliveryResult \<Rightarrow> mail_error + SendResult \<Rightarrow> int \<Rightarrow> MailDeliveryResult" where
  "judge_outcome env out sent now =
     (let base = out\<lparr>mr_NextAttempt := 0, mr_Revision := mr_Revision out + 1\<rparr> in
      case sent of
        Inr receipt \<Rightarrow> base\<lparr>mr_State := ''accepted'', mr_MailerKey := sr_MailerKey receipt, mr_MessageID := sr_MessageID receipt\<rparr>
      | Inl e \<Rightarrow>
          if IsPermanent e then base\<lparr>mr_State := ''failed''\<rparr>
          else if CanRetry e then
            (if mr_Attempt out \<ge> 12 then base\<lparr>mr_State := ''failed''\<rparr>
             else base\<lparr>mr_State := ''retry_wait'',
                       mr_NextAttempt := now + 30 * 2 ^ nat (min (mr_Attempt out - 1) 7) + me_jitter env\<rparr>)
          else base\<lparr>mr_State := ''unknown''\<rparr>)"

definition report_delivery :: "MailDeliveryResult \<Rightarrow> (delivery_error, unit) mail_prog" where
  "report_delivery out =
     bindP (saveDelivery out ''submitting'') (\<lambda>_.
     bindP time_now (\<lambda>now.
     stmt (MailDb ''update attempt'') (\<lambda>s.
       (Inr (), update_attempt (\<lambda>a. a_deliveryID a = mr_DeliveryID out \<and> a_attempt a = mr_Attempt out)
          (\<lambda>a. a\<lparr>a_outcome := mr_State out, a_finishedEpoch := Some now\<rparr>) s))))"

definition Deliver :: "mail_env \<Rightarrow> MailDeliveryRequest \<Rightarrow> (delivery_error, MailDeliveryResult) mail_prog" where
  "Deliver env req0 =
     bindP acquire_slot (\<lambda>_.
     let allow = (case md_AllowSend req0 of None \<Rightarrow> True | Some b \<Rightarrow> b); req = req0\<lparr>md_AllowSend := None\<rparr> in
     bindP (mail_tx (claim_delivery env req allow)) (\<lambda>(claimed, out).
     if \<not> claimed then ret out
     else
       bindP (submit_delivery env req out) (\<lambda>sent.
       bindP time_now (\<lambda>now.
       let done = judge_outcome env out sent now in
       bindP (mail_tx (report_delivery done)) (\<lambda>_. ret done)))))"

definition zero_result :: MailDeliveryResult where
  "zero_result = \<lparr>mr_DeliveryID = [], mr_State = [], mr_Revision = 0, mr_Attempt = 0, mr_NextAttempt = 0, mr_MailerKey = [], mr_MessageID = []\<rparr>"

definition cancel_body :: "string \<Rightarrow> (delivery_error, MailDeliveryResult) mail_prog" where
  "cancel_body i =
     bindP (stmt (MailDb ''select delivery'') (\<lambda>s. (case find_delivery i s of None \<Rightarrow> Inl ErrMailRow | Some g \<Rightarrow> Inr g, s))) (\<lambda>g.
     if g_state g = ''cancelled'' then ret (case g_result g of None \<Rightarrow> zero_result | Some stored \<Rightarrow> stored)
     else if g_state g \<noteq> ''prepared'' \<and> g_state g \<noteq> ''retry_wait'' then raise ErrDeliveryCancelConflict
     else
       let out = \<lparr>mr_DeliveryID = i, mr_State = ''cancelled'', mr_Revision = g_revision g + 1, mr_Attempt = g_attempt g, mr_NextAttempt = 0,
                   mr_MailerKey = [], mr_MessageID = []\<rparr> in
       bindP (saveDelivery out (g_state g)) (\<lambda>_. ret out))"

definition Mail_Cancel :: "string \<Rightarrow> (delivery_error, MailDeliveryResult) mail_prog" where
  "Mail_Cancel i = mail_tx (cancel_body i)"

text \<open>\<open>locked\<close> are the rows that other transactions hold.\<close>

definition select_stale :: "(string \<Rightarrow> bool) \<Rightarrow> string \<Rightarrow> int \<Rightarrow> mail_db \<Rightarrow> mail_row list" where
  "select_stale locked kind now s =
     take 32
       (if kind = ''submitting'' then
          sort_key (\<lambda>g. (g_startedEpoch g, g_deliveryID g))
            (filter (\<lambda>g. g_state g = kind \<and> g_startedEpoch g \<le> now - 120 \<and> \<not> locked (g_deliveryID g)) (mail_delivery s))
        else
          sort_key (\<lambda>g. (g_deadline g, g_deliveryID g))
            (filter (\<lambda>g. g_state g = kind \<and> g_deadline g \<le> now \<and> \<not> locked (g_deliveryID g)) (mail_delivery s)))"

definition stale_result :: "string \<Rightarrow> mail_row \<Rightarrow> MailDeliveryResult" where
  "stale_result kind g =
     \<lparr>mr_DeliveryID = g_deliveryID g, mr_State = (if kind = ''submitting'' then ''unknown'' else ''expired''),
      mr_Revision = g_revision g + 1, mr_Attempt = g_attempt g, mr_NextAttempt = 0, mr_MailerKey = [], mr_MessageID = []\<rparr>"

definition recover_kind :: "(string \<Rightarrow> bool) \<Rightarrow> int \<Rightarrow> string \<Rightarrow> (delivery_error, unit list) mail_prog" where
  "recover_kind locked now kind =
     mail_tx
       (bindP (stmt (MailDb ''select stale'') (\<lambda>s. (Inr (select_stale locked kind now s), s))) (\<lambda>rows.
        forP rows (\<lambda>g.
          if kind = ''submitting'' then settleStaleSubmission (stale_result kind g) else saveDelivery (stale_result kind g) kind)))"

definition Recover :: "(string \<Rightarrow> bool) \<Rightarrow> (delivery_error, unit) mail_prog" where
  "Recover locked =
     bindP time_now (\<lambda>now.
     bindP (forP [''submitting'', ''prepared'', ''retry_wait''] (recover_kind locked now)) (\<lambda>_. ret ()))"

end
