(* ===== verification/Mail_Facts.thy ===== *)
theory Mail_Facts
  imports Mail
begin

text \<open>
  Facts about durable mail delivery: the steps of any number of processes on one ledger, the invariant that
  ties the states of the ledger to what the providers took, and that every call of the service
  is a sequence of such steps.
\<close>

section \<open>Interleaved steps\<close>

text \<open>
  A flight is a process between its claim and its report: the delivery, the attempt, and what its
  submissions have met so far.
\<close>

datatype flight = Clean | Took | Murky

type_synonym flights = "nat \<rightharpoonup> string \<times> int \<times> flight"

definition safe_error :: "mail_error \<Rightarrow> bool" where
  "safe_error e \<longleftrightarrow> CanRetry e \<or> IsPermanent e"

text \<open>
  What the adapters promise: a message id means that the provider took the message, a retryable
  or a permanent error that it did not.
\<close>

definition fair :: "bool \<times> (mail_error + string) \<Rightarrow> bool" where
  "fair p \<longleftrightarrow> (case snd p of Inr _ \<Rightarrow> fst p | Inl e \<Rightarrow> safe_error e \<longrightarrow> \<not> fst p)"

definition honest :: "mail_env \<Rightarrow> bool" where
  "honest env \<longleftrightarrow> (\<forall>n. fair (me_provider env n))"

definition after :: "mail_error + 'a \<Rightarrow> flight" where
  "after reply = (case reply of Inr _ \<Rightarrow> Took | Inl e \<Rightarrow> if safe_error e then Clean else Murky)"

definition reports :: "flight \<Rightarrow> int \<Rightarrow> string \<Rightarrow> bool" where
  "reports f a st \<longleftrightarrow> st = ''unknown'' \<or> (f = Took \<and> st = ''accepted'') \<or> (f = Clean \<and> st = ''failed'') \<or>
     (f = Clean \<and> st = ''retry_wait'' \<and> a < 12)"

definition taking_off :: "nat \<Rightarrow> delivery_error + bool \<times> MailDeliveryResult \<Rightarrow> flights \<Rightarrow> flights" where
  "taking_off p r L =
     (case r of Inr (True, out) \<Rightarrow> L(p \<mapsto> (mr_DeliveryID out, mr_Attempt out, Clean)) | _ \<Rightarrow> L)"

definition empty_mail :: mail_db where
  "empty_mail = \<lparr>mail_delivery = [], mail_attempt = [], submitted = []\<rparr>"

inductive mail_history :: "flights \<Rightarrow> mail_db \<Rightarrow> bool" where
  Start: "mail_history Map.empty empty_mail"
| Claiming: "mail_history L s \<Longrightarrow> L p = None \<Longrightarrow> mail_tx (claim_delivery env req allow) w n s = (r, n', s') \<Longrightarrow>
    mail_history (taking_off p r L) s'"
| Submitting: "mail_history L s \<Longrightarrow> L p = Some (i, a, Clean) \<Longrightarrow> fair (sb_taken b, reply) \<Longrightarrow> sb_delivery b = i \<Longrightarrow> sb_attempt b = a \<Longrightarrow>
    mail_history (L(p \<mapsto> (i, a, after reply))) (s\<lparr>submitted := submitted s @ [b]\<rparr>)"
| Reporting: "mail_history L s \<Longrightarrow> L p = Some (mr_DeliveryID out, mr_Attempt out, f) \<Longrightarrow> reports f (mr_Attempt out) (mr_State out) \<Longrightarrow>
    mail_tx (report_delivery out) w n s = (r, n', s') \<Longrightarrow> mail_history (L(p := None)) s'"
| Cancelling: "mail_history L s \<Longrightarrow> Mail_Cancel i w n s = (r, n', s') \<Longrightarrow> mail_history L s'"
| Recovering: "mail_history L s \<Longrightarrow> kind \<in> {''submitting'', ''prepared'', ''retry_wait''} \<Longrightarrow>
    recover_kind locked now kind w n s = (r, n', s') \<Longrightarrow> mail_history L s'"

section \<open>The invariant\<close>

definition flights_of :: "string \<Rightarrow> flights \<Rightarrow> (nat \<times> int \<times> flight) set" where
  "flights_of i L = {(p, a, f). L p = Some (i, a, f)}"

definition taken :: "string \<Rightarrow> mail_db \<Rightarrow> nat" where
  "taken i s = length (filter (\<lambda>b. sb_delivery b = i \<and> sb_taken b) (submitted s))"

definition entry_ok :: "mail_row option \<Rightarrow> (nat \<times> int \<times> flight) set \<Rightarrow> nat \<Rightarrow> bool" where
  "entry_ok row F c \<longleftrightarrow>
     (case row of
        None \<Rightarrow> F = {} \<and> c = 0
      | Some g \<Rightarrow> 0 \<le> g_attempt g \<and> g_attempt g \<le> 12 \<and>
          (if g_state g \<in> {''prepared'', ''retry_wait''} then F = {} \<and> c = 0 \<and> g_attempt g < 12
           else if g_state g \<in> {''failed'', ''expired'', ''cancelled''} then F = {} \<and> c = 0
           else if g_state g = ''accepted'' then F = {} \<and> c = 1
           else g_state g \<in> {''submitting'', ''unknown''} \<and> c \<le> 1 \<and>
             (F = {} \<or> (\<exists>p f. F = {(p, g_attempt g, f)} \<and> (f = Clean \<longrightarrow> c = 0) \<and> (f = Took \<longrightarrow> c = 1)))))"

definition mail_ok :: "flights \<Rightarrow> mail_db \<Rightarrow> bool" where
  "mail_ok L s \<longleftrightarrow> distinct (map g_deliveryID (mail_delivery s)) \<and> (\<forall>i. entry_ok (find_delivery i s) (flights_of i L) (taken i s))"

lemma mail_okD: "mail_ok L s \<Longrightarrow> entry_ok (find_delivery i s) (flights_of i L) (taken i s)"
  by (simp add: mail_ok_def)

lemma mail_ok_step:
  assumes "mail_ok L s" "map g_deliveryID (mail_delivery s') = map g_deliveryID (mail_delivery s)"
    "\<And>j. j \<noteq> i \<Longrightarrow> find_delivery j s' = find_delivery j s" "\<And>j. j \<noteq> i \<Longrightarrow> flights_of j L' = flights_of j L"
    "\<And>j. j \<noteq> i \<Longrightarrow> taken j s' = taken j s" "entry_ok (find_delivery i s') (flights_of i L') (taken i s')"
  shows "mail_ok L' s'"
  unfolding mail_ok_def
proof (intro conjI allI)
  show "entry_ok (find_delivery j s') (flights_of j L') (taken j s')" for j
    using mail_okD [OF assms(1), of j] assms(3-6) by (cases "j = i") simp_all
qed (use assms(1,2) in \<open>simp add: mail_ok_def\<close>)

section \<open>Rows\<close>

lemma find_update:
  assumes "\<And>g. g_deliveryID (f g) = g_deliveryID g"
  shows "find_delivery j (update_delivery p f s) = map_option (\<lambda>g. if p g then f g else g) (find_delivery j s)"
proof -
  have "find (\<lambda>g. g_deliveryID g = j) (map (\<lambda>g. if p g then f g else g) gs) =
      map_option (\<lambda>g. if p g then f g else g) (find (\<lambda>g. g_deliveryID g = j) gs)" for gs
    using assms by (induction gs) auto
  then show ?thesis by (simp add: find_delivery_def update_delivery_def)
qed

lemma find_delivery_Some: "find_delivery i s = Some g \<Longrightarrow> g \<in> set (mail_delivery s) \<and> g_deliveryID g = i"
  by (auto simp: find_delivery_def find_Some_iff)

lemma find_delivery_in:
  assumes "distinct (map g_deliveryID (mail_delivery s))" "g \<in> set (mail_delivery s)"
  shows "find_delivery (g_deliveryID g) s = Some g"
proof (cases "find_delivery (g_deliveryID g) s")
  case None
  then show ?thesis using assms(2) by (auto simp: find_delivery_def find_None_iff)
next
  case (Some g')
  then show ?thesis using find_delivery_Some [OF Some] map_of_key_unique [OF assms(1), of g' g] assms(2) by simp
qed

lemma update_sel [simp]:
  "submitted (update_delivery p f s) = submitted s" "submitted (update_attempt q h s) = submitted s"
  "mail_delivery (update_attempt q h s) = mail_delivery s" "find_delivery i (update_attempt q h s) = find_delivery i s"
  by (simp_all add: update_delivery_def update_attempt_def find_delivery_def)

lemma settle_row_sel [simp]:
  "g_deliveryID (settle_row out g) = g_deliveryID g" "g_state (settle_row out g) = mr_State out"
  "g_attempt (settle_row out g) = g_attempt g" "g_result (settle_row out g) = Some out"
  by (simp_all add: settle_row_def)

lemma update_ids:
  "(\<And>g. g_deliveryID (f g) = g_deliveryID g) \<Longrightarrow>
   map g_deliveryID (mail_delivery (update_delivery p f s)) = map g_deliveryID (mail_delivery s)"
  by (simp add: update_delivery_def)

text \<open>A fenced write that succeeds settles the one row it names.\<close>

definition settles_row :: "MailDeliveryResult \<Rightarrow> string \<Rightarrow> mail_db \<Rightarrow> mail_db \<Rightarrow> bool" where
  "settles_row out old s s' \<longleftrightarrow>
     (\<exists>g. find_delivery (mr_DeliveryID out) s = Some g \<and> g_state g = old \<and> g_attempt g = mr_Attempt out \<and>
        find_delivery (mr_DeliveryID out) s' = Some (settle_row out g)) \<and>
     (\<forall>j. j \<noteq> mr_DeliveryID out \<longrightarrow> find_delivery j s' = find_delivery j s) \<and>
     map g_deliveryID (mail_delivery s') = map g_deliveryID (mail_delivery s) \<and> submitted s' = submitted s"

lemma saveDelivery_settles:
  assumes "distinct (map g_deliveryID (mail_delivery s))" "saveDelivery out old w n s = (Inr (), n', s')"
  shows "settles_row out old s s'"
proof -
  have s': "s' = update_delivery (fenced out old) (settle_row out) s" "length (filter (fenced out old) (mail_delivery s)) = 1"
    using assms(2) by (auto simp: saveDelivery_def bindP_def stmt_def ret_def raise_def split: fault.splits if_splits)
  then obtain g where g: "g \<in> set (mail_delivery s)" "fenced out old g"
    by (metis filter_empty_conv list.size(3) zero_neq_one)
  then have "find_delivery (mr_DeliveryID out) s = Some g" using find_delivery_in [OF assms(1) g(1)] by (simp add: fenced_def)
  moreover have "find_delivery j s' = find_delivery j s" if "j \<noteq> mr_DeliveryID out" for j
    using that find_delivery_Some [of j s] by (cases "find_delivery j s") (auto simp: s'(1) find_update fenced_def)
  ultimately show ?thesis using g(2) by (auto simp: settles_row_def s'(1) find_update update_ids fenced_def)
qed

lemma settles_then_attempt: "settles_row out old s s' \<Longrightarrow> settles_row out old s (update_attempt p f s')"
  by (simp add: settles_row_def)

lemma bodies_settle:
  assumes "distinct (map g_deliveryID (mail_delivery s))"
  shows "settleStaleSubmission out w n s = (Inr u, n', s') \<Longrightarrow> settles_row out ''submitting'' s s'"
    and "report_delivery out w n s = (Inr u, n', s') \<Longrightarrow> settles_row out ''submitting'' s s'"
  unfolding settleStaleSubmission_def report_delivery_def
  by (auto dest!: bindP_ok intro!: settles_then_attempt elim: saveDelivery_settles [OF assms]
      simp: stmt_def time_now_def split: fault.splits)

section \<open>Every step keeps the invariant\<close>

lemma taken_same: "submitted s' = submitted s \<Longrightarrow> taken i s' = taken i s"
  by (simp add: taken_def)

lemma entry_settle:
  assumes "entry_ok (Some g) F c" "g_state g = old"
    "(old = ''submitting'' \<and> mr_State out = ''unknown'') \<or>
     (old \<in> {''prepared'', ''retry_wait''} \<and> mr_State out \<in> {''expired'', ''cancelled''})"
  shows "entry_ok (Some (settle_row out g)) F c"
  using assms by (auto simp: entry_ok_def)

lemma mail_ok_settle:
  assumes "mail_ok L s" "settles_row out old s s'"
    "(old = ''submitting'' \<and> mr_State out = ''unknown'') \<or>
     (old \<in> {''prepared'', ''retry_wait''} \<and> mr_State out \<in> {''expired'', ''cancelled''})"
  shows "mail_ok L s'"
proof -
  let ?i = "mr_DeliveryID out"
  obtain g where g: "find_delivery ?i s = Some g" "g_state g = old" "find_delivery ?i s' = Some (settle_row out g)"
    and same: "submitted s' = submitted s" "\<And>j. j \<noteq> ?i \<Longrightarrow> find_delivery j s' = find_delivery j s"
      "map g_deliveryID (mail_delivery s') = map g_deliveryID (mail_delivery s)"
    using assms(2) unfolding settles_row_def by blast
  have "entry_ok (Some g) (flights_of ?i L) (taken ?i s)" using mail_okD [OF assms(1), of ?i] g(1) by simp
  then have "entry_ok (Some (settle_row out g)) (flights_of ?i L) (taken ?i s)" by (rule entry_settle [OF _ g(2) assms(3)])
  then show ?thesis
    by (intro mail_ok_step [OF assms(1) same(3), where i = ?i]) (simp_all add: g(3) same taken_same [OF same(1)])
qed

lemma flights_landed:
  assumes "L p = Some (i, a, f)"
  shows "j \<noteq> i \<Longrightarrow> flights_of j (L(p := None)) = flights_of j L" "flights_of i (L(p := None)) = flights_of i L - {(p, a, f)}"
  using assms by (auto simp: flights_of_def split: if_splits)

lemma entry_flying:
  assumes "entry_ok row F c" "(p, a, f) \<in> F"
  shows "\<exists>g. row = Some g \<and> g_state g \<in> {''submitting'', ''unknown''} \<and> g_attempt g = a \<and> F = {(p, a, f)} \<and> c \<le> 1 \<and>
     0 \<le> a \<and> a \<le> 12 \<and> (f = Clean \<longrightarrow> c = 0) \<and> (f = Took \<longrightarrow> c = 1)"
  using assms by (cases row) (auto simp: entry_ok_def split: if_splits)

lemma mail_ok_report:
  assumes "mail_ok L s" "L p = Some (mr_DeliveryID out, mr_Attempt out, f)" "reports f (mr_Attempt out) (mr_State out)"
    "s' = s \<or> settles_row out ''submitting'' s s'"
  shows "mail_ok (L(p := None)) s'"
proof -
  let ?i = "mr_DeliveryID out"
  have fl: "(p, mr_Attempt out, f) \<in> flights_of ?i L" using assms(2) by (simp add: flights_of_def)
  from entry_flying [OF mail_okD [OF assms(1)] fl] obtain g where
    g: "find_delivery ?i s = Some g" "g_state g \<in> {''submitting'', ''unknown''}" "g_attempt g = mr_Attempt out"
      "flights_of ?i L = {(p, mr_Attempt out, f)}" "taken ?i s \<le> 1" "0 \<le> mr_Attempt out" "mr_Attempt out \<le> 12"
      "f = Clean \<longrightarrow> taken ?i s = 0" "f = Took \<longrightarrow> taken ?i s = 1" by blast
  have none: "flights_of ?i (L(p := None)) = {}" using flights_landed(2) [of L p, OF assms(2)] g(4) by simp
  show ?thesis
  proof (rule mail_ok_step [OF assms(1), where i = ?i])
    show "entry_ok (find_delivery ?i s') (flights_of ?i (L(p := None))) (taken ?i s')"
      using assms(4)
    proof
      assume "s' = s"
      then show ?thesis using g none by (auto simp: entry_ok_def)
    next
      assume "settles_row out ''submitting'' s s'"
      then have "find_delivery ?i s' = Some (settle_row out g)" "taken ?i s' = taken ?i s"
        using g(1) by (auto simp: settles_row_def intro: taken_same)
      then show ?thesis using g none assms(3) by (auto simp: entry_ok_def reports_def)
    qed
  qed (use assms(4) flights_landed(1) [of L p, OF assms(2)] in \<open>auto simp: settles_row_def intro: taken_same\<close>)
qed

lemma mail_ok_submit:
  assumes "mail_ok L s" "L p = Some (i, a, Clean)" "fair (sb_taken b, reply)" "sb_delivery b = i"
  shows "mail_ok (L(p \<mapsto> (i, a, after reply))) (s\<lparr>submitted := submitted s @ [b]\<rparr>)"
proof -
  let ?s = "s\<lparr>submitted := submitted s @ [b]\<rparr>" and ?L = "L(p \<mapsto> (i, a, after reply))"
  have "(p, a, Clean) \<in> flights_of i L" using assms(2) by (simp add: flights_of_def)
  from entry_flying [OF mail_okD [OF assms(1)] this] obtain g where
    g: "find_delivery i s = Some g" "g_state g \<in> {''submitting'', ''unknown''}" "g_attempt g = a"
      "flights_of i L = {(p, a, Clean)}" "taken i s = 0" "0 \<le> a" "a \<le> 12" by blast
  have uniq: "q = p" if "L q = Some (i, x, y)" for q x y
  proof -
    have "(q, x, y) \<in> flights_of i L" using that by (simp add: flights_of_def)
    then show ?thesis using g(4) by simp
  qed
  have fl: "flights_of i ?L = {(p, a, after reply)}" "\<And>j. j \<noteq> i \<Longrightarrow> flights_of j ?L = flights_of j L"
    using assms(2) by (auto simp: flights_of_def split: if_splits dest: uniq)
  have t: "taken i ?s = (if sb_taken b then 1 else 0)" "\<And>j. j \<noteq> i \<Longrightarrow> taken j ?s = taken j s"
    using g(5) assms(4) by (simp_all add: taken_def)
  have same: "find_delivery j ?s = find_delivery j s" for j by (simp add: find_delivery_def)
  show ?thesis
  proof (rule mail_ok_step [OF assms(1), where i = i])
    show "entry_ok (find_delivery i ?s) (flights_of i ?L) (taken i ?s)"
      using g fl(1) t(1) assms(3) by (auto simp: same entry_ok_def fair_def after_def split: sum.splits if_splits)
  qed (simp_all add: same fl t)
qed

lemma prepared_row_sel [simp]:
  "g_deliveryID (prepared_row req hash) = md_DeliveryID req" "g_state (prepared_row req hash) = ''prepared''"
  "g_attempt (prepared_row req hash) = 0"
  by (simp_all add: prepared_row_def)

lemma mail_ok_insert:
  assumes "mail_ok L s"
  shows "mail_ok L (snd (insert_delivery req hash s))"
proof (cases "find_delivery (md_DeliveryID req) s")
  case None
  let ?i = "md_DeliveryID req" and ?s = "s\<lparr>mail_delivery := mail_delivery s @ [prepared_row req hash]\<rparr>"
  have none: "\<forall>g \<in> set (mail_delivery s). g_deliveryID g \<noteq> ?i" using None by (auto simp: find_delivery_def find_None_iff)
  have find: "find_delivery j ?s = (if j = ?i then Some (prepared_row req hash) else find_delivery j s)" for j
    using None by (auto simp: find_delivery_def find_append split: option.split)
  have "entry_ok (find_delivery j ?s) (flights_of j L) (taken j ?s)" for j
  proof (cases "j = ?i")
    case True
    then show ?thesis using mail_okD [OF assms, of j] None taken_same [of ?s s j]
      by (simp add: find entry_ok_def)
  next
    case False
    then show ?thesis using mail_okD [OF assms, of j] taken_same [of ?s s j] by (simp add: find)
  qed
  then show ?thesis
    using assms none None by (auto simp: mail_ok_def insert_delivery_def)
qed (use assms in \<open>simp add: insert_delivery_def\<close>)

lemma mail_ok_claim:
  assumes "mail_ok L s" "find_delivery i s = Some g" "g_state g \<in> {''prepared'', ''retry_wait''}" "L p = None"
    "\<And>j. j \<noteq> i \<Longrightarrow> find_delivery j s' = find_delivery j s" "submitted s' = submitted s"
    "map g_deliveryID (mail_delivery s') = map g_deliveryID (mail_delivery s)"
    "find_delivery i s' = Some g'" "g_state g' = ''submitting''" "g_attempt g' = g_attempt g + 1"
  shows "mail_ok (L(p \<mapsto> (i, g_attempt g + 1, Clean))) s'"
proof -
  have none: "flights_of i L = {}" "taken i s = 0" "0 \<le> g_attempt g" "g_attempt g < 12"
    using mail_okD [OF assms(1), of i] assms(2,3) by (auto simp: entry_ok_def)
  have fl: "flights_of i (L(p \<mapsto> (i, g_attempt g + 1, Clean))) = {(p, g_attempt g + 1, Clean)}"
    "\<And>j. j \<noteq> i \<Longrightarrow> flights_of j (L(p \<mapsto> (i, g_attempt g + 1, Clean))) = flights_of j L"
    using none(1) assms(4) by (auto simp: flights_of_def split: if_splits)
  show ?thesis
    by (rule mail_ok_step [OF assms(1,7), where i = i])
      (use none assms(5,8-10) fl taken_same [OF assms(6)] in \<open>auto simp: entry_ok_def\<close>)
qed

text \<open>What the first transaction does when it commits.\<close>

lemma take_delivery_ok:
  assumes "mail_ok L s" "L p = None" "find_delivery (md_DeliveryID req) s = Some g" "g_state g \<in> {''prepared'', ''retry_wait''}"
    "mr_DeliveryID out = md_DeliveryID req" "mr_Attempt out = g_attempt g"
    "take_delivery req out now w n s = (Inr (b, out'), n', s')"
  shows "mail_ok (taking_off p (Inr (b, out')) L) s'"
proof -
  let ?i = "md_DeliveryID req"
  define sub where "sub = out\<lparr>mr_State := ''submitting'', mr_Attempt := mr_Attempt out + 1, mr_Revision := mr_Revision out + 1,
                    mr_NextAttempt := now + 5\<rparr>"
  define f :: "mail_row \<Rightarrow> mail_row" where "f = (\<lambda>g. g\<lparr>g_state := ''submitting'', g_attempt := mr_Attempt sub, g_revision := mr_Revision sub, g_startedEpoch := now,
                   g_result := Some sub\<rparr>)"
  define s1 where "s1 = update_delivery (\<lambda>g. g_deliveryID g = ?i) f s"
  have f: "g_deliveryID (f g) = g_deliveryID g" "g_state (f g) = ''submitting''" "g_attempt (f g) = mr_Attempt out + 1" for g
    by (simp_all add: f_def sub_def)
  have res: "b \<and> out' = sub" and s': "mail_delivery s' = mail_delivery s1" "submitted s' = submitted s1"
    using assms(7) unfolding take_delivery_def Let_def sub_def [symmetric] f_def [symmetric]
    by (auto dest!: bindP_ok simp: stmt_def s1_def split: fault.splits if_splits)
  have find: "find_delivery j s' = find_delivery j s1" for j using s'(1) by (simp add: find_delivery_def)
  have g: "g_deliveryID g = ?i" using find_delivery_Some [OF assms(3)] by simp
  have "mail_ok (L(p \<mapsto> (?i, g_attempt g + 1, Clean))) s'"
  proof (rule mail_ok_claim [OF assms(1,3,4,2)])
    show "find_delivery j s' = find_delivery j s" if "j \<noteq> ?i" for j
      using that find_delivery_Some [of j s] by (cases "find_delivery j s") (auto simp: find s1_def find_update f(1))
    show "find_delivery ?i s' = Some (f g)" using assms(3) g by (simp add: find s1_def find_update f(1))
  qed (simp_all add: s' s1_def update_ids f assms(6))
  then show ?thesis using res assms(5,6) by (simp add: taking_off_def sub_def)
qed

lemma decide_delivery_ok:
  assumes "mail_ok L s" "L p = None" "find_delivery (md_DeliveryID req) s = Some g"
    "decide_delivery env req allow g now w n s = (Inr (b, out), n', s')"
  shows "mail_ok (taking_off p (Inr (b, out)) L) s'"
proof -
  have dist: "distinct (map g_deliveryID (mail_delivery s))" using assms(1) by (simp add: mail_ok_def)
  let ?out = "\<lparr>mr_DeliveryID = md_DeliveryID req, mr_State = g_state g, mr_Revision = g_revision g, mr_Attempt = g_attempt g,
                  mr_NextAttempt = g_nextAttempt g, mr_MailerKey = [], mr_MessageID = []\<rparr>"
  have idle: "g_state g \<in> {''prepared'', ''retry_wait''}" if "\<not> terminalDelivery (g_state g)" "g_state g \<noteq> ''submitting''"
    using mail_okD [OF assms(1), of "md_DeliveryID req"] assms(3) that by (auto simp: entry_ok_def terminalDelivery_def split: if_splits)
  have stay: "taking_off p (Inr (False, out)) L = L" for out by (simp add: taking_off_def)
  show ?thesis
  proof (cases "terminalDelivery (g_state g)")
    case True
    then show ?thesis using assms(1,4) by (auto simp: decide_delivery_def stay)
  next
    case live: False
    show ?thesis
    proof (cases "g_state g = ''submitting''")
      case True
      let ?stale = "?out\<lparr>mr_State := ''unknown'', mr_Revision := g_revision g + 1, mr_NextAttempt := 0\<rparr>"
      consider "\<not> b" "s' = s" | u n1 where "\<not> b" "settleStaleSubmission ?stale w n s = (Inr u, n1, s')"
        using assms(4) live True by (auto simp: decide_delivery_def Let_def ret_def dest!: bindP_ok split: if_splits)
      then show ?thesis
        by cases (use assms(1) mail_ok_settle [OF assms(1) bodies_settle(1) [OF dist]] in \<open>auto simp: stay\<close>)
    next
      case False
      note idle = idle [OF live False]
      show ?thesis
      proof (cases "md_Deadline req \<le> now")
        case True
        then show ?thesis using assms(1,4) live False idle
          by (auto simp: decide_delivery_def Let_def stay dest!: bindP_ok split: if_splits
              elim!: mail_ok_settle [OF assms(1) saveDelivery_settles [OF dist]])
      next
        case late: False
        show ?thesis
        proof (cases "g_nextAttempt g > now \<or> \<not> allow \<or> ReadyFor (me_adapters env) (md_MailerKeys req) \<noteq> None")
          case True
          then show ?thesis using assms(1,4) live False late
            by (auto simp: decide_delivery_def Let_def stay split: if_splits option.splits)
        next
          case go: False
          then have "take_delivery req ?out now w n s = (Inr (b, out), n', s')"
            using assms(4) live False late by (simp add: decide_delivery_def Let_def)
          then show ?thesis by (intro take_delivery_ok [OF assms(1-3) idle]) simp_all
        qed
      qed
    qed
  qed
qed

lemma claim_delivery_ok:
  assumes "mail_ok L s" "L p = None" "claim_delivery env req allow w n s = (Inr (b, out), n', s')"
  shows "mail_ok (taking_off p (Inr (b, out)) L) s'"
proof -
  let ?s1 = "snd (insert_delivery req (me_digest env req) s)"
  from assms(3) obtain g now m where "find_delivery (md_DeliveryID req) ?s1 = Some g"
    "decide_delivery env req allow g now w m ?s1 = (Inr (b, out), n', s')"
    unfolding claim_delivery_def by (auto dest!: bindP_ok simp: stmt_def split: fault.splits option.splits if_splits)
  then show ?thesis by (rule decide_delivery_ok [OF mail_ok_insert [OF assms(1)] assms(2)])
qed

lemma mail_tx_cases:
  assumes "mail_tx body w n s = (r, n', s')"
  obtains (undone) e where "s' = s" "r = Inl e"
  | (commit) a n1 where "body w (Suc n) s = (Inr a, n1, s')" "r = Inr a \<or> r = Inl (MailDb ''tx'')"
  using transaction_atomic [OF assms] by blast

text \<open>The bodies of cancellation and of recovery.\<close>

abbreviation kept :: "flights \<Rightarrow> (delivery_error, 'a) mail_prog \<Rightarrow> bool" where
  "kept L m \<equiv> hoare (mail_ok L) m (\<lambda>_. mail_ok L) (\<lambda>_ _. True)"

lemma settling_kept:
  assumes "(old = ''submitting'' \<and> mr_State out = ''unknown'') \<or>
     (old \<in> {''prepared'', ''retry_wait''} \<and> mr_State out \<in> {''expired'', ''cancelled''})"
  shows "kept L (saveDelivery out old)" "old = ''submitting'' \<Longrightarrow> kept L (settleStaleSubmission out)"
proof -
  have dist: "distinct (map g_deliveryID (mail_delivery s))" if "mail_ok L s" for s using that by (simp add: mail_ok_def)
  show "kept L (saveDelivery out old)"
    by (rule hoareI) (auto intro: mail_ok_settle [OF _ saveDelivery_settles [OF dist] assms])
  show "kept L (settleStaleSubmission out)" if "old = ''submitting''"
    by (rule hoareI) (use assms that in \<open>auto intro: mail_ok_settle [OF _ bodies_settle(1) [OF dist]]\<close>)
qed

lemma cancel_body_kept: "kept L (cancel_body i)"
  unfolding cancel_body_def Let_def
proof (rule hoare_bind [where R = "\<lambda>_. mail_ok L"])
  show "hoare (mail_ok L) (if g_state g = ''cancelled'' then ret (case g_result g of None \<Rightarrow> zero_result | Some stored \<Rightarrow> stored)
      else if g_state g \<noteq> ''prepared'' \<and> g_state g \<noteq> ''retry_wait'' then raise ErrDeliveryCancelConflict
      else bindP (saveDelivery \<lparr>mr_DeliveryID = i, mr_State = ''cancelled'', mr_Revision = g_revision g + 1,
          mr_Attempt = g_attempt g, mr_NextAttempt = 0, mr_MailerKey = [], mr_MessageID = []\<rparr> (g_state g))
        (\<lambda>_. ret \<lparr>mr_DeliveryID = i, mr_State = ''cancelled'', mr_Revision = g_revision g + 1,
          mr_Attempt = g_attempt g, mr_NextAttempt = 0, mr_MailerKey = [], mr_MessageID = []\<rparr>)) (\<lambda>_. mail_ok L) (\<lambda>_ _. True)" for g
    by (intro hoare_split_if hoare_bind [OF settling_kept(1)]) (auto simp: hoare_def)
qed (auto simp: hoare_def stmt_def split: fault.split option.split)

lemma recover_body_kept:
  assumes "kind \<in> {''submitting'', ''prepared'', ''retry_wait''}"
  shows "kept L (bindP (stmt (MailDb ''select stale'') (\<lambda>s. (Inr (select_stale locked kind now s), s))) (\<lambda>rows.
        forP rows (\<lambda>g.
          if kind = ''submitting'' then settleStaleSubmission (stale_result kind g) else saveDelivery (stale_result kind g) kind)))"
proof (rule hoare_bind [where R = "\<lambda>_. mail_ok L"])
  have "kept L (if kind = ''submitting'' then settleStaleSubmission (stale_result kind g) else saveDelivery (stale_result kind g) kind)" for g
    using assms by (intro hoare_split_if settling_kept(1) settling_kept(2) [of kind]) (auto simp: stale_result_def)
  then show "kept L (forP rows (\<lambda>g.
      if kind = ''submitting'' then settleStaleSubmission (stale_result kind g) else saveDelivery (stale_result kind g) kind))" for rows
    by (rule hoare_forP)
qed (auto simp: hoare_def stmt_def split: fault.split)

lemma history_mail_ok: "mail_history L s \<Longrightarrow> mail_ok L s"
proof (induction rule: mail_history.induct)
  case Start
  show ?case by (simp add: mail_ok_def empty_mail_def find_delivery_def flights_of_def taken_def entry_ok_def)
next
  case (Claiming L s p env req allow w n r n' s')
  from Claiming(3) show ?case
  proof (cases rule: mail_tx_cases)
    case undone
    then show ?thesis using Claiming.IH by (simp add: taking_off_def)
  next
    case (commit a n1)
    obtain b out where a: "a = (b, out)" by (cases a)
    have ok: "mail_ok (taking_off p (Inr (b, out)) L) s'"
      using claim_delivery_ok [OF Claiming.IH Claiming(2)] commit(1) a by blast
    from commit(2) show ?thesis
    proof
      assume "r = Inr a"
      then show ?thesis using ok a by simp
    next
      assume r: "r = Inl (MailDb ''tx'')"
      show ?thesis
      proof (cases b)
        case True
        define i where "i = mr_DeliveryID out"
        have ok': "mail_ok (L(p \<mapsto> (i, mr_Attempt out, Clean))) s'" using ok True by (simp add: taking_off_def i_def)
        have "mail_ok ((L(p \<mapsto> (i, mr_Attempt out, Clean)))(p := None)) s'"
          using mail_ok_report [OF ok', of p "out\<lparr>mr_State := ''unknown''\<rparr>" Clean s'] by (simp add: reports_def i_def)
        then show ?thesis using r Claiming(2) by (simp add: taking_off_def fun_upd_idem)
      qed (use ok r in \<open>simp add: taking_off_def\<close>)
    qed
  qed
next
  case (Reporting L s p out f w n r n' s')
  have dist: "distinct (map g_deliveryID (mail_delivery s))" using Reporting.IH by (simp add: mail_ok_def)
  from Reporting(4) have "s' = s \<or> settles_row out ''submitting'' s s'"
    by (cases rule: mail_tx_cases) (auto dest: bodies_settle(2) [OF dist])
  then show ?case by (rule mail_ok_report [OF Reporting.IH Reporting(2,3)])
next
  case (Cancelling L s i w n r n' s')
  from Cancelling(2) [unfolded Mail_Cancel_def] show ?case
    by (cases rule: mail_tx_cases) (use Cancelling.IH hoareD_ok [OF cancel_body_kept] in auto)
next
  case (Recovering L s kind locked now w n r n' s')
  from Recovering(3) [unfolded recover_kind_def] show ?case
    by (cases rule: mail_tx_cases) (use Recovering.IH hoareD_ok [OF recover_body_kept [OF Recovering(2)]] in auto)
qed (blast intro: mail_ok_submit)

section \<open>The calls are sequences of steps\<close>

abbreviation flying :: "flights \<Rightarrow> nat \<Rightarrow> string \<times> int \<Rightarrow> flight \<Rightarrow> flights \<Rightarrow> bool" where
  "flying L0 p for f L \<equiv> L = L0(p \<mapsto> (fst for, snd for, f))"

definition stopped :: "flights \<Rightarrow> nat \<Rightarrow> string \<times> int \<Rightarrow> mail_error \<Rightarrow> flights \<Rightarrow> bool" where
  "stopped L0 p for e L \<longleftrightarrow> (\<exists>f. flying L0 p for f L \<and> (safe_error e \<longrightarrow> f = Clean))"

lemma stopped_clean: "flying L0 p for Clean L \<Longrightarrow> stopped L0 p for e L"
  unfolding stopped_def by blast

lemma ctx_walk: "walks mail_history P (ctx_Err env) (\<lambda>_. P) E"
  by (simp add: walks_def ctx_Err_def) blast

lemma gate_walk: "walks mail_history P (run_gate gate) (\<lambda>_. P) E"
  by (simp add: walks_def run_gate_def) blast

lemma time_walk: "walks mail_history P time_now (\<lambda>_. P) E"
  by (simp add: walks_def time_now_def) blast

lemma adapter_walk:
  assumes "honest env"
  shows "walks mail_history (flying L0 p for Clean) (adapter_Send env for na msg) (\<lambda>reply. flying L0 p for (after reply)) E"
proof (rule walksI)
  fix L s w n
  assume h: "mail_history L s" "flying L0 p for Clean L"
  let ?b = "\<lparr>sb_delivery = fst for, sb_attempt = snd for, sb_mailer = na_key na, sb_message = msg, sb_taken = fst (me_provider env n)\<rparr>"
  have "fair (sb_taken ?b, snd (me_provider env n))" using assms by (simp add: honest_def)
  from Submitting [OF h(1) _ this, of p "fst for" "snd for"] h(2)
  have "mail_history (L0(p \<mapsto> (fst for, snd for, after (snd (me_provider env n))))) (s\<lparr>submitted := submitted s @ [?b]\<rparr>)" by simp
  then show "\<exists>L'. mail_history L' (final (adapter_Send env for na msg w n s)) \<and>
     (case result (adapter_Send env for na msg w n s) of Inl e \<Rightarrow> E e L' | Inr reply \<Rightarrow> flying L0 p for (after reply) L')"
    by (auto simp: adapter_Send_def)
qed

lemma attempt_walk:
  assumes "honest env" "\<And>e. CanRetry e \<Longrightarrow> walks mail_history (flying L0 p for Clean) (rest e) (\<lambda>_. flying L0 p for Took) (stopped L0 p for)"
  shows "walks mail_history (flying L0 p for Clean)
     (bindP (ctx_Err env) (\<lambda>ended.
      if ended then raise (SafeRetryError (Plain ''context'') False)
      else
        bindP (run_gate gate) (\<lambda>refused.
        case refused of
          Some e \<Rightarrow> raise (SourceGateError e)
        | None \<Rightarrow>
            bindP (adapter_Send env for na msg) (\<lambda>reply.
            case reply of
              Inr messageID \<Rightarrow> ret messageID
            | Inl e \<Rightarrow> if IsPermanent e \<or> \<not> CanRetry e then raise e else rest e))))
     (\<lambda>_. flying L0 p for Took) (stopped L0 p for)"
  by (intro walks_bind [OF ctx_walk] walks_bind [OF gate_walk] walks_bind [OF adapter_walk [OF assms(1)]] walks_if walks_option
      walks_sum walks_raise walks_ret walks_weaken [OF assms(2)]) (auto simp: after_def stopped_def safe_error_def)

lemma through_walk:
  assumes "honest env"
  shows "walks mail_history (flying L0 p for Clean) (sendThroughAuthorized env for gate na msg k)
     (\<lambda>_. flying L0 p for Took) (stopped L0 p for)"
proof (induction k)
  case 0
  show ?case by (subst sendThroughAuthorized.simps) (rule attempt_walk [OF assms], simp add: walks_raise stopped_clean)
next
  case (Suc k)
  show ?case
    by (subst sendThroughAuthorized.simps)
      (rule attempt_walk [OF assms], unfold nat.case, intro walks_bind [OF ctx_walk] walks_if walks_raise Suc stopped_clean)
qed

lemma adapters_walk:
  assumes "honest env"
  shows "walks mail_history (flying L0 p for Clean) (send_adapters env for gate msg adapters lastErr)
     (\<lambda>_. flying L0 p for Took) (stopped L0 p for)"
proof (induction adapters arbitrary: lastErr)
  case Nil
  show ?case unfolding send_adapters.simps by (intro walks_option walks_raise stopped_clean)
next
  case (Cons na adapters)
  have again: "walks mail_history (stopped L0 p for e) (if isSourceGateError e \<or> IsPermanent e \<or> \<not> CanRetry e then raise e
      else send_adapters env for gate msg adapters (Some e)) (\<lambda>_. flying L0 p for Took) (stopped L0 p for)" for e
    by (intro walks_if walks_raise walks_weaken [OF Cons.IH]) (auto simp: stopped_def safe_error_def)
  have first: "walks mail_history (flying L0 p for Clean)
      (bindP (sendThroughAuthorized env for gate na msg (nat (me_MaxRetries env))) (\<lambda>messageID.
       ret \<lparr>sr_MailerKey = na_key na, sr_MessageID = messageID\<rparr>)) (\<lambda>_. flying L0 p for Took) (stopped L0 p for)"
    by (rule walks_bind [OF through_walk [OF assms]]) (rule walks_ret)
  show ?case unfolding send_adapters.simps
    by (rule walks_bind [OF ctx_walk], rule walks_if, rule walks_raise, erule stopped_clean, rule walks_try [OF first again])
qed

definition sent_flight :: "mail_error + 'a \<Rightarrow> flight \<Rightarrow> bool" where
  "sent_flight sent f \<longleftrightarrow> (case sent of Inr _ \<Rightarrow> f = Took | Inl e \<Rightarrow> safe_error e \<longrightarrow> f = Clean)"

lemma submit_delivery_gated:
  "submit_delivery env req out =
     outcome_prog
       (sendAuthorized env (mr_DeliveryID out, mr_Attempt out) (md_Message req) (md_MailerKeys req)
          (case md_Authorization req of None \<Rightarrow> None | Some _ \<Rightarrow> Some (delivery_gate env)))"
  by (simp add: submit_delivery_def SendAuthorized_def SendWith_def split: option.split)

lemma submit_walk:
  assumes "honest env"
  shows "walks mail_history (flying L0 p (mr_DeliveryID out, mr_Attempt out) Clean) (submit_delivery env req out)
     (\<lambda>sent L. \<exists>f. flying L0 p (mr_DeliveryID out, mr_Attempt out) f L \<and> sent_flight sent f) E"
proof (rule walksI)
  fix L s w n
  let ?for = "(mr_DeliveryID out, mr_Attempt out)"
  let ?m = "sendAuthorized env ?for (md_Message req) (md_MailerKeys req)
      (case md_Authorization req of None \<Rightarrow> None | Some _ \<Rightarrow> Some (delivery_gate env))"
  assume h: "mail_history L s" "flying L0 p ?for Clean L"
  have "walks mail_history (flying L0 p ?for Clean) ?m (\<lambda>_. flying L0 p ?for Took) (stopped L0 p ?for)"
    unfolding sendAuthorized_def by (intro walks_option walks_raise adapters_walk [OF assms] stopped_clean)
  then obtain L' where "mail_history L' (final (?m w n s))"
    "case result (?m w n s) of Inl e \<Rightarrow> stopped L0 p ?for e L' | Inr _ \<Rightarrow> flying L0 p ?for Took L'"
    using h unfolding walks_def by blast
  then show "\<exists>L'. mail_history L' (final (submit_delivery env req out w n s)) \<and>
     (case result (submit_delivery env req out w n s) of Inl e \<Rightarrow> E e L' | Inr sent \<Rightarrow> \<exists>f. flying L0 p ?for f L' \<and> sent_flight sent f)"
    by (auto simp: submit_delivery_gated outcome_prog_def sent_flight_def stopped_def split: sum.splits)
qed

lemma judge_reports:
  assumes "sent_flight sent f"
  shows "reports f (mr_Attempt (judge_outcome env out sent now)) (mr_State (judge_outcome env out sent now))"
    "mr_DeliveryID (judge_outcome env out sent now) = mr_DeliveryID out" "mr_Attempt (judge_outcome env out sent now) = mr_Attempt out"
  using assms by (auto simp: judge_outcome_def Let_def sent_flight_def reports_def safe_error_def split: sum.splits)

lemma report_walk:
  assumes "L0 p = None" "reports f (mr_Attempt out) (mr_State out)"
  shows "walks mail_history (flying L0 p (mr_DeliveryID out, mr_Attempt out) f) (mail_tx (report_delivery out))
     (\<lambda>_ L. L = L0) (\<lambda>_ L. L = L0)"
proof (rule walksI)
  fix L s w n
  assume h: "mail_history L s" "flying L0 p (mr_DeliveryID out, mr_Attempt out) f L"
  obtain r n' s' where run: "mail_tx (report_delivery out) w n s = (r, n', s')" by (cases "mail_tx (report_delivery out) w n s")
  have "mail_history (L(p := None)) s'" by (rule Reporting [OF h(1) _ assms(2) run]) (simp add: h(2))
  then show "\<exists>L'. mail_history L' (final (mail_tx (report_delivery out) w n s)) \<and>
     (case result (mail_tx (report_delivery out) w n s) of Inl e \<Rightarrow> L' = L0 | Inr a \<Rightarrow> L' = L0)"
    using run h(2) assms(1) by (auto simp: fun_upd_idem split: sum.split)
qed

lemma claim_walk:
  assumes "L0 p = None"
  shows "walks mail_history (\<lambda>L. L = L0) (mail_tx (claim_delivery env req allow))
     (\<lambda>(b, out) L. if b then flying L0 p (mr_DeliveryID out, mr_Attempt out) Clean L else L = L0) (\<lambda>_ L. L = L0)"
proof (rule walksI)
  fix L s w n
  assume h: "mail_history L s" "L = L0"
  obtain r n' s' where run: "mail_tx (claim_delivery env req allow) w n s = (r, n', s')"
    by (cases "mail_tx (claim_delivery env req allow) w n s")
  have "mail_history (taking_off p r L0) s'" using Claiming [OF h(1) _ run] h(2) assms by blast
  then show "\<exists>L'. mail_history L' (final (mail_tx (claim_delivery env req allow) w n s)) \<and>
     (case result (mail_tx (claim_delivery env req allow) w n s) of Inl e \<Rightarrow> L' = L0
      | Inr a \<Rightarrow> (case a of (b, out) \<Rightarrow> \<lambda>L. if b then flying L0 p (mr_DeliveryID out, mr_Attempt out) Clean L else L = L0) L')"
    using run by (cases r) (auto simp: taking_off_def simp del: fun_upd_apply split: if_splits bool.splits)
qed

lemma Deliver_walk:
  assumes "honest env" "L0 p = None"
  shows "walks mail_history (\<lambda>L. L = L0) (Deliver env req) (\<lambda>_ L. L = L0) (\<lambda>_ L. L = L0)"
proof -
  have slot: "walks mail_history (\<lambda>L. L = L0) acquire_slot (\<lambda>_ L. L = L0) (\<lambda>_ L. L = L0)"
    by (rule walks_read) (simp add: acquire_slot_def stmt_def split: fault.split)
  have report: "walks mail_history (\<lambda>L. \<exists>f. flying L0 p (mr_DeliveryID out, mr_Attempt out) f L \<and> sent_flight sent f)
      (bindP (mail_tx (report_delivery (judge_outcome env out sent now))) (\<lambda>_. ret (judge_outcome env out sent now)))
      (\<lambda>_ L. L = L0) (\<lambda>_ L. L = L0)" for out sent now
  proof (rule walksI)
    fix L s w n
    assume h: "mail_history L s" and "\<exists>f. flying L0 p (mr_DeliveryID out, mr_Attempt out) f L \<and> sent_flight sent f"
    then obtain f where f: "flying L0 p (mr_DeliveryID out, mr_Attempt out) f L" "sent_flight sent f" by blast
    let ?d = "judge_outcome env out sent now"
    have "walks mail_history (flying L0 p (mr_DeliveryID ?d, mr_Attempt ?d) f)
        (bindP (mail_tx (report_delivery ?d)) (\<lambda>_. ret ?d)) (\<lambda>_ L. L = L0) (\<lambda>_ L. L = L0)"
      by (intro walks_bind [OF report_walk [of L0, OF assms(2) judge_reports(1) [OF f(2)]]] walks_ret)
    then show "\<exists>L'. mail_history L' (final (bindP (mail_tx (report_delivery ?d)) (\<lambda>_. ret ?d) w n s)) \<and>
       (case result (bindP (mail_tx (report_delivery ?d)) (\<lambda>_. ret ?d) w n s) of Inl e \<Rightarrow> L' = L0 | Inr a \<Rightarrow> L' = L0)"
      using h f(1) unfolding walks_def judge_reports(2,3) [OF f(2)] by blast
  qed
  have rest: "walks mail_history (\<lambda>L. if b then flying L0 p (mr_DeliveryID out, mr_Attempt out) Clean L else L = L0)
      (if \<not> b then ret out else bindP (submit_delivery env r out) (\<lambda>sent. bindP time_now (\<lambda>now.
         bindP (mail_tx (report_delivery (judge_outcome env out sent now))) (\<lambda>_. ret (judge_outcome env out sent now)))))
      (\<lambda>_ L. L = L0) (\<lambda>_ L. L = L0)" for b out r
    by (cases b) (simp_all only: if_True if_False not_True_eq_False not_False_eq_True,
      intro walks_bind [OF submit_walk [OF assms(1)]] walks_bind [OF time_walk] report, intro walks_ret)
  show ?thesis unfolding Deliver_def Let_def
    by (intro walks_bind [OF slot] walks_bind [OF claim_walk [of L0, OF assms(2)]]) (simp only: case_prod_beta rest)
qed

lemma Mail_Cancel_walk: "walks mail_history (\<lambda>L. L = L0) (Mail_Cancel i) (\<lambda>_ L. L = L0) (\<lambda>_ L. L = L0)"
proof (rule walksI)
  fix L s w n
  assume h: "mail_history L s" "L = L0"
  obtain r n' s' where run: "Mail_Cancel i w n s = (r, n', s')" by (cases "Mail_Cancel i w n s")
  show "\<exists>L'. mail_history L' (final (Mail_Cancel i w n s)) \<and> (case result (Mail_Cancel i w n s) of Inl e \<Rightarrow> L' = L0 | Inr a \<Rightarrow> L' = L0)"
    using Cancelling [OF h(1) run] h(2) run by (auto split: sum.split)
qed

lemma Recover_walk: "walks mail_history (\<lambda>L. L = L0) (Recover locked) (\<lambda>_ L. L = L0) (\<lambda>_ L. L = L0)"
proof -
  have "walks mail_history (\<lambda>L. L = L0) (recover_kind locked now kind) (\<lambda>_ L. L = L0) (\<lambda>_ L. L = L0)"
    if "kind \<in> set [''submitting'', ''prepared'', ''retry_wait'']" for now kind
  proof (rule walksI)
    fix L s w n
    assume h: "mail_history L s" "L = L0"
    obtain r n' s' where run: "recover_kind locked now kind w n s = (r, n', s')" by (cases "recover_kind locked now kind w n s")
    show "\<exists>L'. mail_history L' (final (recover_kind locked now kind w n s)) \<and>
       (case result (recover_kind locked now kind w n s) of Inl e \<Rightarrow> L' = L0 | Inr a \<Rightarrow> L' = L0)"
      using Recovering [OF h(1) _ run] h(2) run that by (auto split: sum.split)
  qed
  then show ?thesis unfolding Recover_def by (intro walks_bind [OF time_walk] walks_bind [OF walks_for] walks_ret)
qed

lemma history_free:
  assumes "mail_history L s"
  shows "\<exists>p. L p = None"
proof -
  from assms have "finite (dom L)"
    by (induction rule: mail_history.induct) (auto simp: taking_off_def simp del: fun_upd_apply split: sum.splits bool.splits)
  then have "dom L \<noteq> UNIV" using infinite_UNIV_nat by metis
  then show ?thesis by (auto simp: dom_def)
qed

section \<open>Runs without failures\<close>

lemma take_fresh:
  assumes "\<forall>a \<in> set (mail_attempt s). a_deliveryID a \<noteq> md_DeliveryID req" "find_delivery (md_DeliveryID req) s = Some g"
    "mr_Attempt out = 0" "mr_DeliveryID out = md_DeliveryID req" "fine w"
  shows "\<exists>out' n' s' g'. take_delivery req out now w n s = (Inr (True, out'), n', s') \<and> mr_DeliveryID out' = md_DeliveryID req \<and>
     mr_Attempt out' = 1 \<and> submitted s' = submitted s \<and>
     find_delivery (md_DeliveryID req) s' = Some g' \<and> g_state g' = ''submitting'' \<and> g_attempt g' = 1 \<and> g_payloadHash g' = g_payloadHash g \<and>
     map g_deliveryID (mail_delivery s') = map g_deliveryID (mail_delivery s)"
proof -
  have [simp]: "mail_attempt (update_delivery p f x) = mail_attempt x" for p f x by (simp add: update_delivery_def)
  have [simp]: "find_delivery i (x\<lparr>mail_attempt := y\<rparr>) = find_delivery i x" for i x y by (simp add: find_delivery_def)
  have "g_deliveryID g = md_DeliveryID req" using find_delivery_Some [OF assms(2)] by simp
  then show ?thesis using assms unfolding take_delivery_def Let_def
    by (auto simp: bindP_def run_stmt_fine find_update update_ids)
qed

lemma claim_fresh:
  assumes "find_delivery (md_DeliveryID req) s = None" "\<forall>a \<in> set (mail_attempt s). a_deliveryID a \<noteq> md_DeliveryID req"
    "t < md_Deadline req" "0 \<le> t" "ReadyFor (me_adapters env) (md_MailerKeys req) = None"
  shows "\<exists>out n' s' g. mail_tx (claim_delivery env req True) (calm t) n s = (Inr (True, out), n', s') \<and> mr_DeliveryID out = md_DeliveryID req \<and>
     mr_Attempt out = 1 \<and> submitted s' = submitted s \<and> find_delivery (md_DeliveryID req) s' = Some g \<and> g_state g = ''submitting'' \<and>
     g_attempt g = 1 \<and> g_payloadHash g = me_digest env req \<and>
     map g_deliveryID (mail_delivery s') = map g_deliveryID (mail_delivery s) @ [md_DeliveryID req]"
proof -
  define s1 where "s1 = s\<lparr>mail_delivery := mail_delivery s @ [prepared_row req (me_digest env req)]\<rparr>"
  have ins: "snd (insert_delivery req (me_digest env req) s) = s1" using assms(1) by (simp add: insert_delivery_def s1_def)
  have g: "find_delivery (md_DeliveryID req) s1 = Some (prepared_row req (me_digest env req))"
    using assms(1) by (simp add: s1_def find_delivery_def find_append)
  have row: "g_payloadHash (prepared_row req h) = h" "g_nextAttempt (prepared_row req h) = 0" for h by (simp_all add: prepared_row_def)
  let ?out = "\<lparr>mr_DeliveryID = md_DeliveryID req, mr_State = ''prepared'', mr_Revision = g_revision (prepared_row req (me_digest env req)),
     mr_Attempt = 0, mr_NextAttempt = 0, mr_MailerKey = [], mr_MessageID = []\<rparr>"
  have "\<forall>a \<in> set (mail_attempt s1). a_deliveryID a \<noteq> md_DeliveryID req" using assms(2) by (simp add: s1_def)
  from take_fresh [OF this g, of ?out "calm t" t "Suc (Suc (Suc (Suc n)))"] obtain out' n' s' g' where
    take: "take_delivery req ?out t (calm t) (Suc (Suc (Suc (Suc n)))) s1 = (Inr (True, out'), n', s')" "mr_DeliveryID out' = md_DeliveryID req"
      "mr_Attempt out' = 1" "submitted s' = submitted s1" "find_delivery (md_DeliveryID req) s' = Some g'" "g_state g' = ''submitting''"
      "g_attempt g' = 1" "g_payloadHash g' = me_digest env req" "map g_deliveryID (mail_delivery s') = map g_deliveryID (mail_delivery s1)"
    by (auto simp: row)
  have "decide_delivery env req True (prepared_row req (me_digest env req)) t = take_delivery req ?out t"
    using assms(3-5) by (simp add: decide_delivery_def Let_def row terminalDelivery_def)
  then have "claim_delivery env req True (calm t) (Suc n) s = (Inr (True, out'), n', s')"
    using take(1) by (simp add: claim_delivery_def bindP_def run_stmt_fine ins g row insert_delivery_def [THEN arg_cong [of _ _ fst]])
  then have "mail_tx (claim_delivery env req True) (calm t) n s = (Inr (True, out'), Suc n', s')" by (simp add: transaction_def)
  then show ?thesis using take(2-9) by (auto simp: s1_def)
qed

lemma submit_accepted:
  assumes "ReadyFor (me_adapters env) (md_MailerKeys req) = None" "\<forall>m. \<not> me_ended env m"
    "md_Authorization req \<noteq> None \<longrightarrow> (\<exists>auth. me_AuthorizeAttempt env = Some auth \<and> (\<forall>m. auth m = None))"
    "\<forall>m. \<exists>messageID. me_provider env m = (True, Inr messageID)"
  shows "\<exists>b receipt n'. submit_delivery env req out w n s = (Inr (Inr receipt), n', s\<lparr>submitted := submitted s @ [b]\<rparr>) \<and>
     sb_delivery b = mr_DeliveryID out \<and> sb_message b = md_Message req"
proof -
  define as where "as = (if md_MailerKeys req = [] then me_adapters env else filter (\<lambda>a. na_key a \<in> set (md_MailerKeys req)) (me_adapters env))"
  have ready: "Mailer_Ready (me_adapters env) = None" "as \<noteq> []"
    using assms(1) by (auto simp: ReadyFor_def as_def Mailer_Ready_def filter_empty_conv split: if_splits)
  then obtain na rest where as: "as = na # rest" by (cases as) auto
  have gate: "run_gate (case md_Authorization req of None \<Rightarrow> None | Some _ \<Rightarrow> Some (delivery_gate env)) w m s = (Inr None, Suc m, s)" for m
    using assms(3) by (auto simp: run_gate_def delivery_gate_def split: option.split)
  obtain mid where "me_provider env (Suc (Suc (Suc n))) = (True, Inr mid)" using assms(4) by blast
  then have "sendThroughAuthorized env d (case md_Authorization req of None \<Rightarrow> None | Some _ \<Rightarrow> Some (delivery_gate env)) na msg k w (Suc n) s =
     (Inr mid, Suc (Suc (Suc (Suc n))), s\<lparr>submitted := submitted s @ [\<lparr>sb_delivery = fst d, sb_attempt = snd d, sb_mailer = na_key na,
        sb_message = msg, sb_taken = True\<rparr>]\<rparr>)" for d msg k
    by (subst sendThroughAuthorized.simps) (simp add: bindP_def ctx_Err_def assms(2) gate adapter_Send_def)
  then show ?thesis
    unfolding submit_delivery_gated outcome_prog_def sendAuthorized_def ready(1) option.case as_def [symmetric] as send_adapters.simps
    by (intro exI [of _ "\<lparr>sb_delivery = mr_DeliveryID out, sb_attempt = mr_Attempt out, sb_mailer = na_key na,
        sb_message = md_Message req, sb_taken = True\<rparr>"] exI)
      (simp add: bindP_def tryP_def ctx_Err_def assms(2) del: sendThroughAuthorized.simps)
qed

lemma report_accepted:
  assumes "find_delivery (mr_DeliveryID out) s = Some g" "g_state g = ''submitting''" "g_attempt g = mr_Attempt out"
    "distinct (map g_deliveryID (mail_delivery s))" "fine w"
  shows "\<exists>n' s'. mail_tx (report_delivery out) w n s = (Inr (), n', s') \<and> submitted s' = submitted s \<and>
     find_delivery (mr_DeliveryID out) s' = Some (settle_row out g)"
proof -
  have g: "g \<in> set (mail_delivery s)" "fenced out ''submitting'' g"
    using find_delivery_Some [OF assms(1)] assms(2,3) by (auto simp: fenced_def)
  have "filter (fenced out ''submitting'') (mail_delivery s) = filter (\<lambda>r. r = g) (mail_delivery s)"
    using map_of_key_unique [OF assms(4)] g by (intro filter_cong) (auto simp: fenced_def)
  also have "\<dots> = [g]" using assms(4) g(1) by (auto simp: distinct_map intro: filter_only)
  finally have one: "filter (fenced out ''submitting'') (mail_delivery s) = [g]" .
  show ?thesis using assms(1,5) g(2)
    by (simp add: transaction_def report_delivery_def saveDelivery_def bindP_def run_stmt_fine one find_update)
qed

lemma Deliver_again:
  assumes "find_delivery (md_DeliveryID req) s = Some g" "g_payloadHash g = me_digest env (req\<lparr>md_AllowSend := None\<rparr>)"
    "terminalDelivery (g_state g)" "g_result g = Some out" "fine w"
  shows "\<exists>n'. Deliver env req w n s = (Inr out, n', s)"
proof -
  have "mail_tx (claim_delivery env (req\<lparr>md_AllowSend := None\<rparr>) allow) w m s = (Inr (False, out), Suc (Suc (Suc (Suc (Suc m)))), s)" for allow m
    using assms by (simp add: transaction_def claim_delivery_def insert_delivery_def bindP_def run_stmt_fine decide_delivery_def Let_def)
  then show ?thesis using assms(5) by (simp add: Deliver_def acquire_slot_def bindP_def run_stmt_fine Let_def)
qed

end
