(* ===== verification/Mail_Properties.thy ===== *)
theory Mail_Properties
  imports Mail_Facts
begin

text \<open>
  The properties of durable mail delivery and their instances on one provider and one message.
\<close>

section \<open>A small service\<close>

definition demo_mail :: EmailMessage where
  "demo_mail = \<lparr>em_From = \<lparr>ad_Name = [], ad_Address = ''a@x''\<rparr>, em_ReplyTo = None, em_To = [\<lparr>ad_Name = [], ad_Address = ''b@x''\<rparr>],
     em_CC = [], em_Subject = ''s'', em_TextBody = ''t'', em_HTMLBody = [], em_Headers = [], em_Attachments = []\<rparr>"

definition demo_delivery :: MailDeliveryRequest where
  "demo_delivery = \<lparr>md_Authorization = None, md_AllowSend = None, md_SchemaVersion = 1, md_DeliveryID = ''d1'', md_MailID = 1,
     md_Deadline = 1000, md_Message = demo_mail, md_MailerURI = [], md_AdapterKey = [], md_MailerKeys = []\<rparr>"

definition demo_mailers :: "(nat \<Rightarrow> bool \<times> (mail_error + string)) \<Rightarrow> mail_env" where
  "demo_mailers provider = \<lparr>me_adapters = [\<lparr>na_key = ''smtp'', na_priority = 1, na_type = ''smtp''\<rparr>], me_MaxRetries = 1,
     me_provider = provider, me_AuthorizeAttempt = None, me_ended = (\<lambda>_. False), me_digest = (\<lambda>_. ''hash''), me_jitter = 0\<rparr>"

section \<open>Properties\<close>

text \<open>
  C33. Any number of processes may deliver, cancel and recover on one ledger, each call failing anywhere, with
  commits whose reply is lost and processes that die between their claim and their report. If the adapters only call
  an error retryable or permanent when the provider did not take the message, then no message
  is ever taken twice for one delivery, whatever mailers and retries are tried, and the
  ledger is truthful: an accepted delivery was taken exactly once, one that waits, failed, expired
  or was cancelled never, and no delivery has more than twelve attempts.
\<close>

theorem mail_at_most_once:
  assumes "honest env" "mail_history L s"
    and "s' \<in> {s, final (Deliver env req w n s), final (Mail_Cancel i w n s), final (Recover locked w n s)}"
  shows "mail_history L s' \<and> taken j s' \<le> 1 \<and>
     (\<forall>g. find_delivery j s' = Some g \<longrightarrow> g_attempt g \<le> 12 \<and>
        (g_state g = ''accepted'' \<longrightarrow> taken j s' = 1) \<and>
        (g_state g \<in> {''prepared'', ''retry_wait'', ''failed'', ''expired'', ''cancelled''} \<longrightarrow> taken j s' = 0))"
proof -
  obtain p where p: "L p = None" using history_free [OF assms(2)] by blast
  have "mail_history L (final (Deliver env req w n s))"
    by (rule walks_same [where H = mail_history, OF Deliver_walk [of env L p, OF assms(1) p] assms(2)])
  moreover have "mail_history L (final (Mail_Cancel i w n s))" "mail_history L (final (Recover locked w n s))"
    by (rule walks_same [where H = mail_history, OF Mail_Cancel_walk assms(2)]
        walks_same [where H = mail_history, OF Recover_walk assms(2)])+
  ultimately have h: "mail_history L s'" using assms(2,3) by blast
  then have "entry_ok (find_delivery j s') (flights_of j L) (taken j s')" by (intro mail_okD history_mail_ok)
  then show ?thesis using h by (auto simp: entry_ok_def split: option.splits if_splits)
qed

theorem mail_at_most_once_witness:
  "taken ''d1'' (final (Deliver (demo_mailers (\<lambda>_. (False, Inl (SafeRetryError (Plain ''busy'') False)))) demo_delivery (calm 5) 0 empty_mail)) \<le> 1"
proof -
  have "honest (demo_mailers (\<lambda>_. (False, Inl (SafeRetryError (Plain ''busy'') False))))"
    by (simp add: honest_def fair_def demo_mailers_def)
  from mail_at_most_once [OF this mail_history.Start, of _ demo_delivery "calm 5" 0] show ?thesis by blast
qed

text \<open>
  C34. Without failures a new delivery that a provider accepts is submitted once and recorded as accepted, and
  from then on every repetition of the request, whatever its permission to send, whatever the providers
  and the clock say by then, returns the recorded result and submits nothing.
\<close>

theorem mail_delivers_once:
  assumes "find_delivery (md_DeliveryID req) s = None" "\<forall>a \<in> set (mail_attempt s). a_deliveryID a \<noteq> md_DeliveryID req"
    and "distinct (map g_deliveryID (mail_delivery s))"
    and "md_AllowSend req \<noteq> Some False" "0 \<le> t" "t < md_Deadline req" "ReadyFor (me_adapters env) (md_MailerKeys req) = None"
    and "\<forall>m. \<not> me_ended env m" "md_Authorization req \<noteq> None \<longrightarrow> (\<exists>auth. me_AuthorizeAttempt env = Some auth \<and> (\<forall>m. auth m = None))"
    and "\<forall>m. \<exists>messageID. me_provider env m = (True, Inr messageID)"
  shows "\<exists>out n' s' b. Deliver env req (calm t) n s = (Inr out, n', s') \<and> mr_State out = ''accepted'' \<and> mr_Attempt out = 1 \<and>
     submitted s' = submitted s @ [b] \<and> sb_delivery b = md_DeliveryID req \<and> sb_message b = md_Message req \<and>
     (\<forall>env' allow w m. fine w \<and> me_digest env' = me_digest env \<longrightarrow>
        (\<exists>m'. Deliver env' (req\<lparr>md_AllowSend := allow\<rparr>) w m s' = (Inr out, m', s')))"
proof -
  let ?r = "req\<lparr>md_AllowSend := None\<rparr>"
  have allow: "(case md_AllowSend req of None \<Rightarrow> True | Some b \<Rightarrow> b) = True" using assms(4) by (auto split: option.split)
  obtain out n1 s1 g where claim: "mail_tx (claim_delivery env ?r True) (calm t) (Suc n) s = (Inr (True, out), n1, s1)"
      "mr_DeliveryID out = md_DeliveryID req" "mr_Attempt out = 1" "submitted s1 = submitted s" "find_delivery (md_DeliveryID req) s1 = Some g"
      "g_state g = ''submitting''" "g_attempt g = 1" "g_payloadHash g = me_digest env ?r"
      "map g_deliveryID (mail_delivery s1) = map g_deliveryID (mail_delivery s) @ [md_DeliveryID req]"
    using claim_fresh [of ?r s t env "Suc n"] assms(1,2,5-7) by auto
  obtain b receipt n2 where sub: "submit_delivery env ?r out (calm t) n1 s1 = (Inr (Inr receipt), n2, s1\<lparr>submitted := submitted s1 @ [b]\<rparr>)"
      "sb_delivery b = mr_DeliveryID out" "sb_message b = md_Message req"
    using submit_accepted [of env ?r out "calm t" n1 s1] assms(7-10) by auto
  let ?s2 = "s1\<lparr>submitted := submitted s1 @ [b]\<rparr>" and ?d = "judge_outcome env out (Inr receipt) t"
  have d: "mr_DeliveryID ?d = md_DeliveryID req" "mr_Attempt ?d = 1" "mr_State ?d = ''accepted''"
    using claim(2,3) by (simp_all add: judge_outcome_def Let_def)
  have find: "find_delivery i ?s2 = find_delivery i s1" for i by (simp add: find_delivery_def)
  have "distinct (map g_deliveryID (mail_delivery ?s2))"
    using assms(1,3) claim(9) by (auto simp: find_delivery_def find_None_iff)
  with report_accepted [of ?d ?s2 g "calm t" "Suc n2"] obtain n3 s3 where
    rep: "mail_tx (report_delivery ?d) (calm t) (Suc n2) ?s2 = (Inr (), n3, s3)" "submitted s3 = submitted ?s2"
      "find_delivery (md_DeliveryID req) s3 = Some (settle_row ?d g)"
    using claim(5-7) find d by auto
  have run: "Deliver env req (calm t) n s = (Inr ?d, n3, s3)"
    using claim(1) sub(1) rep(1) by (simp add: Deliver_def acquire_slot_def bindP_def run_stmt_fine Let_def allow)
  have again: "\<exists>m'. Deliver env' (req\<lparr>md_AllowSend := a\<rparr>) w m s3 = (Inr ?d, m', s3)" if "fine w" "me_digest env' = me_digest env" for env' a w m
  proof (rule Deliver_again [OF _ _ _ _ that(1)])
    show "g_payloadHash (settle_row ?d g) = me_digest env' (req\<lparr>md_AllowSend := a, md_AllowSend := None\<rparr>)"
      using that(2) claim(8) by (simp add: settle_row_def)
  qed (use rep(3) d(3) in \<open>simp_all add: terminalDelivery_def\<close>)
  show ?thesis
    by (intro exI [of _ ?d] exI [of _ n3] exI [of _ s3] exI [of _ b]) (use run again d rep(2) sub(2,3) claim(2,4) in auto)
qed

theorem mail_delivers_once_witness:
  "\<exists>out n' s' b. Deliver (demo_mailers (\<lambda>_. (True, Inr ''m1''))) demo_delivery (calm 5) 0 empty_mail = (Inr out, n', s') \<and>
     mr_State out = ''accepted'' \<and> submitted s' = [b] \<and> sb_delivery b = ''d1''"
  using mail_delivers_once [of demo_delivery empty_mail 5 "demo_mailers (\<lambda>_. (True, Inr ''m1''))" 0]
  by (auto simp: demo_delivery_def empty_mail_def demo_mailers_def find_delivery_def ReadyFor_def Mailer_Ready_def)

end
