(* ===== verification/Outbox.thy ===== *)
theory Outbox
  imports Worker
begin

text \<open>
  The outbox relay: \<open>src/go/internal/worker/outbox/relay.go\<close>. The source tables are lists of rows by table name;
  the relay meets the queue through the client of the worker. A payload is what it decodes to,
  \<open>None\<close> if it does not decode. The text of an error and whether the context has ended at a look at
  it are parameters.
\<close>

datatype relay_error =
    ErrRepository
  | RelayDb string
  | ErrPayload
  | ErrIdentity
  | ErrQueue worker_error
  | ErrCancelled

record outbox_row =
  ob_id :: int
  ob_eventID :: string
  ob_payload :: "EnqueueEventRequest option"
  ob_attempts :: nat
  ob_nextAttempt :: int
  ob_deliveredEpoch :: "int option"
  ob_queueTaskID :: "int option"
  ob_lastError :: string

record 's relay_state =
  outboxes :: "string \<Rightarrow> outbox_row list"
  fed :: 's

record 's Relay =
  rl_Queue :: "'s queue"
  rl_Client :: Client
  rl_Table :: string
  rl_Error :: "relay_error \<Rightarrow> string"
  rl_ended :: "nat \<Rightarrow> bool"

type_synonym ('s, 'a) relay_prog = "('s relay_state, relay_error, 'a) prog"

definition relay_table :: "'s Relay \<Rightarrow> string" where
  "relay_table r = (if rl_Table r = [] then ''feed_gorgeoutbox'' else rl_Table r)"

definition due_events :: "string \<Rightarrow> int \<Rightarrow> 's relay_state \<Rightarrow> outbox_row list" where
  "due_events table now st =
     take 32 (sort_key ob_id (filter (\<lambda>e. ob_deliveredEpoch e = None \<and> ob_nextAttempt e \<le> now) (outboxes st table)))"

definition update_event :: "string \<Rightarrow> string \<Rightarrow> (outbox_row \<Rightarrow> outbox_row) \<Rightarrow> 's relay_state \<Rightarrow> (relay_error + unit) \<times> 's relay_state" where
  "update_event table i f st =
     (Inr (), st\<lparr>outboxes := (outboxes st)(table :=
        map (\<lambda>e. if ob_eventID e = i \<and> ob_deliveredEpoch e = None then f e else e) (outboxes st table))\<rparr>)"

text \<open>A call of the queue, whose error becomes the relay's.\<close>

definition on_queue :: "('s, worker_error, 'a) prog \<Rightarrow> ('s, 'a) relay_prog" where
  "on_queue m = (\<lambda>w n st.
     case m w n (fed st) of
       (Inl e, n', s') \<Rightarrow> (Inl (ErrQueue e), n', st\<lparr>fed := s'\<rparr>)
     | (Inr a, n', s') \<Rightarrow> (Inr a, n', st\<lparr>fed := s'\<rparr>))"

definition send_event :: "'s Relay \<Rightarrow> outbox_row \<Rightarrow> ('s, Task) relay_prog" where
  "send_event r e =
     (case ob_payload e of
        None \<Rightarrow> raise ErrPayload
      | Some request \<Rightarrow>
          if ev_eventID request \<noteq> ob_eventID e then raise ErrIdentity
          else on_queue (Client_EnqueueEvent (rl_Queue r) (rl_Client r) request))"

definition event_wait :: "nat \<Rightarrow> int" where
  "event_wait attempts = min 3600 (2 ^ min (attempts + 1) 12)"

definition mark_delivered :: "int \<Rightarrow> Task \<Rightarrow> outbox_row \<Rightarrow> outbox_row" where
  "mark_delivered now t e = e\<lparr>ob_deliveredEpoch := Some now, ob_queueTaskID := Some (t_id t), ob_lastError := []\<rparr>"

definition mark_pending :: "int \<Rightarrow> string \<Rightarrow> outbox_row \<Rightarrow> outbox_row" where
  "mark_pending next message e = e\<lparr>ob_attempts := ob_attempts e + 1, ob_nextAttempt := next, ob_lastError := take 1024 message\<rparr>"

definition report_event :: "string \<Rightarrow> (relay_error \<Rightarrow> string) \<Rightarrow> outbox_row \<Rightarrow> relay_error + Task \<Rightarrow> ('s, unit) relay_prog" where
  "report_event table text e res =
     bindP time_now (\<lambda>now.
     case res of
       Inr task \<Rightarrow> stmt (RelayDb ''update'') (update_event table (ob_eventID e) (mark_delivered now task))
     | Inl err \<Rightarrow> stmt (RelayDb ''update'') (update_event table (ob_eventID e) (mark_pending (now + event_wait (ob_attempts e)) (text err))))"

definition relay_event :: "'s Relay \<Rightarrow> outbox_row \<Rightarrow> ('s, unit) relay_prog" where
  "relay_event r e = (\<lambda>w n st.
     if rl_ended r n then (Inl ErrCancelled, Suc n, st)
     else
       bindP (tryP (bindP (send_event r e) (\<lambda>task. ret (Inr task))) (\<lambda>err. ret (Inl err)))
         (report_event (relay_table r) (rl_Error r) e) w (Suc n) st)"

definition Relay_Once :: "'s Relay \<Rightarrow> ('s, unit) relay_prog" where
  "Relay_Once r =
     (if relay_table r \<noteq> ''feed_gorgeoutbox'' \<and> relay_table r \<noteq> ''metamta_gorgeoutbox'' then raise ErrRepository
      else
        bindP time_now (\<lambda>now.
        bindP (stmt (RelayDb ''select'') (\<lambda>st. (Inr (due_events (relay_table r) now st), st))) (\<lambda>events.
        bindP (forP events (relay_event r)) (\<lambda>_. ret ()))))"

end
