(* ===== verification/Outbox_Facts.thy ===== *)
theory Outbox_Facts
  imports Outbox Worker_Facts
begin

text \<open>
  Facts about the outbox relay over the MySQL queue: the steps of any number of relays, producers and clients of the
  queue, that a cycle of a relay is a sequence of them, and that a delivered event has the receipt of its task.
\<close>

section \<open>One event through the client\<close>

lemma serve_event:
  assumes "serve (mysql_deps cfg digest token scheduler) (newRequest c [] (Post_enqueue_event (Some req))) w n s = (r, n', s')"
  obtains (refused) resp where "s' = s" "r = Inr resp" "rs_error resp \<noteq> None"
  | (answered) r0 resp where "EnqueueEvent digest req w n s = (r0, n', s')" "r = Inr resp"
      "\<And>t. rs_error resp = None \<and> rs_data resp = Some (PTask t) \<Longrightarrow> r0 = Inr t"
proof (cases "token_ok token True (newRequest c [] (Post_enqueue_event (Some req))) \<and> ev_eventID req \<noteq> [] \<and>
    length (ev_eventID req) \<le> 128 \<and> er_taskClass (ev_task req) \<noteq> []")
  case True
  obtain r0 m s1 where run: "EnqueueEvent digest req w n s = (r0, m, s1)" by (cases "EnqueueEvent digest req w n s")
  show ?thesis
    by (rule answered [of r0 "case r of Inr resp \<Rightarrow> resp"])
      (use assms True run in \<open>cases r0; auto simp: serve_def newRequest_def mysql_deps_def mysql_ops_def h_enqueue_event_def tryP_def
         bindP_def OK_def HFail_def errorHandler_def Let_def split: if_splits prod.splits\<close>)+
next
  case False
  then show ?thesis using assms
    by (intro refused [of "case r of Inr resp \<Rightarrow> resp"])
      (auto simp: serve_def newRequest_def mysql_deps_def mysql_ops_def h_enqueue_event_def HFail_def tryP_def split: if_splits)
qed

lemma client_event:
  assumes "Client_EnqueueEvent (mysql_queue cfg digest token scheduler interf) c req w n s = (r, n', s')"
  obtains (unserved) e where "s' = interf n s" "r = Inl e"
  | (served) r0 m' where "EnqueueEvent digest req w (Suc n) (interf n s) = (r0, m', s')" "\<And>t. r = Inr t \<Longrightarrow> r0 = Inr t"
proof -
  let ?rq = "newRequest c [] (Post_enqueue_event (Some req))" and ?deps = "mysql_deps cfg digest token scheduler"
  obtain rs m s1 where serve: "serve ?deps ?rq w (Suc n) (interf n s) = (rs, m, s1)"
    by (cases "serve ?deps ?rq w (Suc n) (interf n s)")
  show ?thesis
  proof (cases "w_fault w n = Broken")
    case True
    then show ?thesis using assms
      by (intro unserved) (auto simp: Client_EnqueueEvent_def doJSON_def exchange_def mysql_queue_def bindP_def Let_def)
  next
    case False
    then have s': "s' = s1" and ok: "\<And>t. r = Inr t \<Longrightarrow> \<exists>resp. rs = Inr resp \<and> rs_error resp = None \<and> rs_data resp = Some (PTask t)"
      using assms serve
      by (auto simp: Client_EnqueueEvent_def doJSON_def exchange_def mysql_queue_def bindP_def Let_def decode_def
          split: fault.splits sum.splits option.splits payload.splits if_splits prod.splits)
    from serve show ?thesis
    proof (cases rule: serve_event)
      case (refused resp)
      then obtain e where "r = Inl e" using ok by (cases r) auto
      then show ?thesis using unserved refused(1) s' by blast
    next
      case (answered r0 resp)
      then show ?thesis using served [of r0 m] s' ok by auto
    qed
  qed
qed

section \<open>Interleaved steps\<close>

text \<open>
  The rows that relays have read, the requests the queue has answered to a relay, and the events whose
  task a relay's request created.
\<close>

record relay_ledger =
  lg_seen :: "(string \<times> outbox_row) set"
  lg_tickets :: "(EnqueueEventRequest \<times> Task) set"
  lg_created :: "string list"

definition answer_ledger :: "EnqueueEventRequest \<Rightarrow> queue_error + Task \<Rightarrow> bool \<Rightarrow> relay_ledger \<Rightarrow> relay_ledger" where
  "answer_ledger req r effective L =
     L\<lparr>lg_tickets := (case r of Inr t \<Rightarrow> insert (req, t) (lg_tickets L) | Inl _ \<Rightarrow> lg_tickets L),
       lg_created := (if effective then ev_eventID req # lg_created L else lg_created L)\<rparr>"

abbreviation set_event :: "string \<Rightarrow> string \<Rightarrow> (outbox_row \<Rightarrow> outbox_row) \<Rightarrow> 's relay_state \<Rightarrow> 's relay_state" where
  "set_event table i f st \<equiv> snd (update_event table i f st)"

inductive outbox_history :: "(EnqueueRequest \<Rightarrow> string) \<Rightarrow> relay_ledger \<Rightarrow> sched_db relay_state \<Rightarrow> bool" for digest where
  Start: "tables_ok s \<Longrightarrow> outbox_history digest \<lparr>lg_seen = {}, lg_tickets = {}, lg_created = []\<rparr> \<lparr>outboxes = (\<lambda>_. []), fed = s\<rparr>"
| Producing: "outbox_history digest L st \<Longrightarrow> ob_deliveredEpoch e = None \<Longrightarrow> ob_eventID e \<notin> ob_eventID ` set (outboxes st table) \<Longrightarrow>
    outbox_history digest L (st\<lparr>outboxes := (outboxes st)(table := outboxes st table @ [e])\<rparr>)"
| Acting: "outbox_history digest L st \<Longrightarrow> good (fed st) s \<Longrightarrow> outbox_history digest L (st\<lparr>fed := s\<rparr>)"
| Reading: "outbox_history digest L st \<Longrightarrow>
    outbox_history digest (L\<lparr>lg_seen := lg_seen L \<union> Pair table ` set (outboxes st table)\<rparr>) st"
| Sending: "outbox_history digest L st \<Longrightarrow> EnqueueEvent digest req w n (fed st) = (r, n', s') \<Longrightarrow>
    outbox_history digest (answer_ledger req r (\<not> same_tables (fed st) s') L) (st\<lparr>fed := s'\<rparr>)"
| Delivering: "outbox_history digest L st \<Longrightarrow> (table, e) \<in> lg_seen L \<Longrightarrow> ob_payload e = Some req \<Longrightarrow> ev_eventID req = ob_eventID e \<Longrightarrow>
    (req, t) \<in> lg_tickets L \<Longrightarrow> outbox_history digest L (set_event table (ob_eventID e) (mark_delivered now t) st)"
| Pending: "outbox_history digest L st \<Longrightarrow> outbox_history digest L (set_event table i (mark_pending nxt text) st)"

section \<open>The invariant\<close>

definition delivered_ok :: "(EnqueueRequest \<Rightarrow> string) \<Rightarrow> sched_db \<Rightarrow> outbox_row \<Rightarrow> bool" where
  "delivered_ok digest s e \<longleftrightarrow> ob_deliveredEpoch e = None \<or>
     (\<exists>req task. ob_payload e = Some req \<and> ev_eventID req = ob_eventID e \<and> event_answer digest req s = Some task \<and>
        ob_queueTaskID e = Some (t_id task))"

definition rows_ok :: "(EnqueueRequest \<Rightarrow> string) \<Rightarrow> sched_db \<Rightarrow> outbox_row list \<Rightarrow> bool" where
  "rows_ok digest s es \<longleftrightarrow> distinct (map ob_eventID es) \<and> (\<forall>e \<in> set es. delivered_ok digest s e)"

definition seen_ok :: "outbox_row list \<Rightarrow> outbox_row \<Rightarrow> bool" where
  "seen_ok es e \<longleftrightarrow> (\<exists>e' \<in> set es. ob_eventID e' = ob_eventID e \<and> ob_payload e' = ob_payload e)"

definition created_ok :: "sched_db \<Rightarrow> string list \<Rightarrow> bool" where
  "created_ok s is \<longleftrightarrow> distinct is \<and> (\<forall>i \<in> set is. \<exists>x. gorgeinbox s i = Some x \<and> in_response x \<noteq> None)"

definition outbox_ok :: "(EnqueueRequest \<Rightarrow> string) \<Rightarrow> relay_ledger \<Rightarrow> sched_db relay_state \<Rightarrow> bool" where
  "outbox_ok digest L st \<longleftrightarrow> tables_ok (fed st) \<and> (\<forall>table. rows_ok digest (fed st) (outboxes st table)) \<and>
     (\<forall>(table, e) \<in> lg_seen L. seen_ok (outboxes st table) e) \<and>
     (\<forall>(req, t) \<in> lg_tickets L. event_answer digest req (fed st) = Some t) \<and> created_ok (fed st) (lg_created L)"

lemma good_receipts:
  assumes "good s s'"
  shows "event_answer digest req s = Some t \<Longrightarrow> event_answer digest req s' = Some t"
    "gorgeinbox s i = Some x \<Longrightarrow> in_response x \<noteq> None \<Longrightarrow> gorgeinbox s' i = Some x"
  using assms by (fastforce simp: event_answer_def good_def evolves_def split: option.splits if_splits)+

lemma good_keeps:
  assumes "good s s'"
  shows "rows_ok digest s es \<Longrightarrow> rows_ok digest s' es" "created_ok s is \<Longrightarrow> created_ok s' is"
proof -
  show "rows_ok digest s' es" if "rows_ok digest s es"
    using that good_receipts(1) [OF assms] by (fastforce simp: rows_ok_def delivered_ok_def)
  show "created_ok s' is" if "created_ok s is"
    using that good_receipts(2) [OF assms] by (fastforce simp: created_ok_def)
qed

lemma outbox_acts:
  assumes "outbox_ok digest L st" "good (fed st) s"
  shows "outbox_ok digest L (st\<lparr>fed := s\<rparr>)"
  using assms good_keeps [OF assms(2)] good_receipts(1) [OF assms(2)] good_ok [OF assms(2)]
  by (fastforce simp: outbox_ok_def)

lemma event_step:
  assumes "tables_ok s" "EnqueueEvent digest req w n s = (r, n', s')"
  shows "good s s'" "r = Inr t \<Longrightarrow> event_answer digest req s' = Some t"
    "\<not> same_tables s s' \<Longrightarrow> (\<forall>x. gorgeinbox s (ev_eventID req) = Some x \<longrightarrow> in_response x = None) \<and>
       (\<exists>x. gorgeinbox s' (ev_eventID req) = Some x \<and> in_response x \<noteq> None)"
proof -
  show "good s s'" by (rule any_call_good [OF assms(1) EnqueueEvent_any_call [OF assms(2)]])
  from assms(2) show "r = Inr t \<Longrightarrow> event_answer digest req s' = Some t"
    by (cases rule: EnqueueEvent_cases) (auto simp: event_answer_def event_effect_def)
  from assms(2) show "\<not> same_tables s s' \<Longrightarrow> (\<forall>x. gorgeinbox s (ev_eventID req) = Some x \<longrightarrow> in_response x = None) \<and>
       (\<exists>x. gorgeinbox s' (ev_eventID req) = Some x \<and> in_response x \<noteq> None)"
    by (cases rule: EnqueueEvent_cases) (auto simp: event_effect_def)
qed

lemma outbox_sends:
  assumes "outbox_ok digest L st" "EnqueueEvent digest req w n (fed st) = (r, n', s')"
  shows "outbox_ok digest (answer_ledger req r (\<not> same_tables (fed st) s') L) (st\<lparr>fed := s'\<rparr>)"
proof -
  have ok: "tables_ok (fed st)" "created_ok (fed st) (lg_created L)" using assms(1) by (simp_all add: outbox_ok_def)
  note step = event_step [OF ok(1) assms(2)]
  have "outbox_ok digest L (st\<lparr>fed := s'\<rparr>)" by (rule outbox_acts [OF assms(1) step(1)])
  moreover have "created_ok s' (ev_eventID req # lg_created L)" if "\<not> same_tables (fed st) s'"
    using good_keeps(2) [OF step(1) ok(2)] step(3) [OF that] ok(2) by (fastforce simp: created_ok_def)
  ultimately show ?thesis using step(2)
    by (auto simp: outbox_ok_def answer_ledger_def split: sum.split)
qed

text \<open>Updates of rows keep their identity.\<close>

lemma set_event_sel [simp]:
  "fed (set_event table i f st) = fed st"
  "outboxes (set_event table i f st) t = (if t = table then
     map (\<lambda>e. if ob_eventID e = i \<and> ob_deliveredEpoch e = None then f e else e) (outboxes st table) else outboxes st t)"
  by (simp_all add: update_event_def)

lemma event_mark_sel [simp]:
  "ob_eventID (mark_delivered now t e) = ob_eventID e" "ob_payload (mark_delivered now t e) = ob_payload e"
  "ob_deliveredEpoch (mark_delivered now t e) = Some now" "ob_queueTaskID (mark_delivered now t e) = Some (t_id t)"
  "ob_eventID (mark_pending nxt text e) = ob_eventID e" "ob_payload (mark_pending nxt text e) = ob_payload e"
  "ob_deliveredEpoch (mark_pending nxt text e) = ob_deliveredEpoch e" "ob_id (mark_delivered now t e) = ob_id e"
  "ob_id (mark_pending nxt text e) = ob_id e"
  by (simp_all add: mark_delivered_def mark_pending_def)

lemma outbox_marks:
  assumes "outbox_ok digest L st" "\<And>e. ob_eventID (f e) = ob_eventID e" "\<And>e. ob_payload (f e) = ob_payload e"
    "\<And>e. e \<in> set (outboxes st table) \<Longrightarrow> ob_eventID e = i \<Longrightarrow> ob_deliveredEpoch e = None \<Longrightarrow> delivered_ok digest (fed st) (f e)"
  shows "outbox_ok digest L (set_event table i f st)"
proof -
  have ids: "map ob_eventID (outboxes (set_event table i f st) t) = map ob_eventID (outboxes st t)" for t
    using assms(2) by simp
  have "rows_ok digest (fed st) (outboxes st t)" for t using assms(1) by (simp add: outbox_ok_def)
  then have "rows_ok digest (fed st) (outboxes (set_event table i f st) t)" for t
    using assms(4) unfolding rows_ok_def ids by auto
  moreover have "seen_ok (outboxes (set_event table i f st) t) e" if seen: "seen_ok (outboxes st t) e" for t e
  proof -
    obtain e' where e': "e' \<in> set (outboxes st t)" "ob_eventID e' = ob_eventID e" "ob_payload e' = ob_payload e"
      using seen by (auto simp: seen_ok_def)
    let ?g = "\<lambda>e. if t = table \<and> ob_eventID e = i \<and> ob_deliveredEpoch e = None then f e else e"
    have "?g e' \<in> set (outboxes (set_event table i f st) t)" using e'(1) by auto
    then show ?thesis unfolding seen_ok_def using e'(2,3) assms(2,3) by (intro bexI [of _ "?g e'"]) auto
  qed
  ultimately show ?thesis using assms(1) unfolding outbox_ok_def set_event_sel(1) by blast
qed

lemma history_outbox_ok: "outbox_history digest L st \<Longrightarrow> outbox_ok digest L st"
proof (induction rule: outbox_history.induct)
  case (Producing L st e table)
  then show ?case by (auto simp: outbox_ok_def rows_ok_def delivered_ok_def seen_ok_def split: if_splits)
next
  case (Delivering L st table e req t now)
  have ticket: "event_answer digest req (fed st) = Some t" "seen_ok (outboxes st table) e" "rows_ok digest (fed st) (outboxes st table)"
    using Delivering.IH Delivering(2,5) by (auto simp: outbox_ok_def)
  show ?case
  proof (rule outbox_marks [OF Delivering.IH])
    fix e' assume e': "e' \<in> set (outboxes st table)" "ob_eventID e' = ob_eventID e"
    obtain e2 where "e2 \<in> set (outboxes st table)" "ob_eventID e2 = ob_eventID e" "ob_payload e2 = ob_payload e"
      using ticket(2) by (auto simp: seen_ok_def)
    then have "ob_payload e' = ob_payload e"
      using map_of_key_unique [of ob_eventID "outboxes st table" e' e2] ticket(3) e' by (simp add: rows_ok_def)
    then show "delivered_ok digest (fed st) (mark_delivered now t e')"
      using ticket(1) Delivering(3,4) e' by (auto simp: delivered_ok_def)
  qed simp_all
next
  case (Reading L st table)
  then show ?case by (fastforce simp: outbox_ok_def seen_ok_def)
next
  case (Pending L st table i nxt msg)
  show ?case by (rule outbox_marks [OF Pending.IH]) (simp_all add: delivered_ok_def)
next
  case (Start s)
  then show ?case by (simp add: outbox_ok_def rows_ok_def created_ok_def)
qed ((rule outbox_acts outbox_sends, assumption+)+)

section \<open>A cycle is a sequence of steps\<close>

text \<open>What the ledger still has: rows in \<open>X\<close> were read, and of the tasks those in \<open>c0\<close> were created first.\<close>

definition sofar :: "(string \<times> outbox_row) set \<Rightarrow> string list \<Rightarrow> relay_ledger \<Rightarrow> bool" where
  "sofar X c0 L \<longleftrightarrow> X \<subseteq> lg_seen L \<and> (\<exists>k. lg_created L = k @ c0)"

abbreviation ticketed :: "(string \<times> outbox_row) set \<Rightarrow> string list \<Rightarrow> outbox_row \<Rightarrow> relay_error + Task \<Rightarrow> relay_ledger \<Rightarrow> bool" where
  "ticketed X c0 e res L \<equiv> sofar X c0 L \<and>
     (case res of Inl _ \<Rightarrow> True
      | Inr t \<Rightarrow> \<exists>req. ob_payload e = Some req \<and> ev_eventID req = ob_eventID e \<and> (req, t) \<in> lg_tickets L)"

lemma queue_walk:
  assumes "others_act interf"
  shows "walks (outbox_history digest) (\<lambda>L. sofar X c0 L)
     (on_queue (Client_EnqueueEvent (mysql_queue cfg digest token scheduler interf) c req))
     (\<lambda>t L. sofar X c0 L \<and> (req, t) \<in> lg_tickets L) (\<lambda>_ L. sofar X c0 L)"
proof (rule walksI)
  fix L st w n
  assume h: "outbox_history digest L st" and x: "sofar X c0 L"
  let ?m = "Client_EnqueueEvent (mysql_queue cfg digest token scheduler interf) c req"
  obtain r n' s' where run: "?m w n (fed st) = (r, n', s')" by (cases "?m w n (fed st)")
  have "good (fed st) (interf n (fed st))" using assms history_outbox_ok [OF h] by (simp add: others_act_def outbox_ok_def)
  then have act: "outbox_history digest L (st\<lparr>fed := interf n (fed st)\<rparr>)" by (rule Acting [OF h])
  have fin: "final (on_queue ?m w n st) = st\<lparr>fed := s'\<rparr>" "\<And>t. result (on_queue ?m w n st) = Inr t \<Longrightarrow> r = Inr t"
    using run by (auto simp: on_queue_def split: sum.splits)
  from run have "\<exists>L'. outbox_history digest L' (st\<lparr>fed := s'\<rparr>) \<and> sofar X c0 L' \<and> (\<forall>t. r = Inr t \<longrightarrow> (req, t) \<in> lg_tickets L')"
  proof (cases rule: client_event)
    case (unserved e)
    then show ?thesis using act x by auto
  next
    case (served r0 m')
    have "outbox_history digest (answer_ledger req r0 (\<not> same_tables (interf n (fed st)) s') L) (st\<lparr>fed := s'\<rparr>)"
      using Sending [OF act, of req w "Suc n" r0 m' s'] served(1) by simp
    then show ?thesis using x served(2)
      by (intro exI [of _ "answer_ledger req r0 (\<not> same_tables (interf n (fed st)) s') L"]) (auto simp: sofar_def answer_ledger_def split: sum.split)
  qed
  then show "\<exists>L'. outbox_history digest L' (final (on_queue ?m w n st)) \<and>
     (case result (on_queue ?m w n st) of Inl _ \<Rightarrow> sofar X c0 L' | Inr t \<Rightarrow> sofar X c0 L' \<and> (req, t) \<in> lg_tickets L')"
    using fin by (auto split: sum.split)
qed

abbreviation mysql_relay :: "sched_db Relay \<Rightarrow> (EnqueueRequest \<Rightarrow> string) \<Rightarrow> bool" where
  "mysql_relay r digest \<equiv> (\<exists>cfg token scheduler interf. others_act interf \<and> rl_Queue r = mysql_queue cfg digest token scheduler interf)"

lemma send_walk:
  assumes "mysql_relay r digest"
  shows "walks (outbox_history digest) (\<lambda>L. sofar X c0 L) (send_event r e)
     (\<lambda>t. ticketed X c0 e (Inr t)) (\<lambda>err. ticketed X c0 e (Inl err))"
proof -
  obtain cfg token scheduler interf where q: "others_act interf" "rl_Queue r = mysql_queue cfg digest token scheduler interf"
    using assms by blast
  show ?thesis unfolding send_event_def q(2)
    by (intro walks_option walks_if walks_raise walks_weaken [OF queue_walk [OF q(1)]]) auto
qed

lemma report_walk_event:
  assumes "(table, e) \<in> X"
  shows "walks (outbox_history digest) (ticketed X c0 e res) (report_event table msg e res)
     (\<lambda>_. sofar X c0) (\<lambda>_. sofar X c0)"
  unfolding report_event_def
proof (rule walks_bind [where R = "\<lambda>_. ticketed X c0 e res"])
  show "walks (outbox_history digest) (ticketed X c0 e res) time_now (\<lambda>_. ticketed X c0 e res) (\<lambda>_. sofar X c0)"
    by (rule walks_reading) simp_all
next
  fix now
  show "walks (outbox_history digest) (ticketed X c0 e res)
      (case res of Inr task \<Rightarrow> stmt (RelayDb ''update'') (update_event table (ob_eventID e) (mark_delivered now task))
       | Inl err \<Rightarrow> stmt (RelayDb ''update'') (update_event table (ob_eventID e) (mark_pending (now + event_wait (ob_attempts e)) (msg err))))
      (\<lambda>_. sofar X c0) (\<lambda>_. sofar X c0)"
  proof (rule walksI)
    fix L st w n
    assume h: "outbox_history digest L st" and t: "ticketed X c0 e res L"
    have "outbox_history digest L (set_event table (ob_eventID e) (case res of Inr task \<Rightarrow> mark_delivered now task
        | Inl err \<Rightarrow> mark_pending (now + event_wait (ob_attempts e)) (msg err)) st)"
      using t assms by (cases res) (auto simp: sofar_def intro: Pending [OF h] Delivering [OF h])
    then show "\<exists>L'. outbox_history digest L' (final ((case res of
          Inr task \<Rightarrow> stmt (RelayDb ''update'') (update_event table (ob_eventID e) (mark_delivered now task))
        | Inl err \<Rightarrow> stmt (RelayDb ''update'') (update_event table (ob_eventID e) (mark_pending (now + event_wait (ob_attempts e)) (msg err)))) w n st)) \<and>
       (case result ((case res of
          Inr task \<Rightarrow> stmt (RelayDb ''update'') (update_event table (ob_eventID e) (mark_delivered now task))
        | Inl err \<Rightarrow> stmt (RelayDb ''update'') (update_event table (ob_eventID e) (mark_pending (now + event_wait (ob_attempts e)) (msg err)))) w n st) of
          Inl _ \<Rightarrow> sofar X c0 L' | Inr _ \<Rightarrow> sofar X c0 L')"
      using h t by (intro exI [of _ L]) (auto simp: stmt_def split: sum.split fault.split)
  qed
qed

lemma event_walk:
  assumes "mysql_relay r digest" "(relay_table r, e) \<in> X"
  shows "walks (outbox_history digest) (\<lambda>L. sofar X c0 L) (relay_event r e) (\<lambda>_. sofar X c0) (\<lambda>_. sofar X c0)"
proof (rule walksI)
  fix L st w n
  assume h: "outbox_history digest L st" "sofar X c0 L"
  let ?m = "bindP (tryP (bindP (send_event r e) (\<lambda>task. ret (Inr task))) (\<lambda>err. ret (Inl err))) (report_event (relay_table r) (rl_Error r) e)"
  have "walks (outbox_history digest) (\<lambda>L. sofar X c0 L) ?m (\<lambda>_. sofar X c0) (\<lambda>_. sofar X c0)"
    by (intro walks_bind [where R = "ticketed X c0 e"] report_walk_event [OF assms(2)] walks_try [where R = "\<lambda>err. ticketed X c0 e (Inl err)"]
        walks_bind [OF send_walk [OF assms(1)]] walks_ret)
  then show "\<exists>L'. outbox_history digest L' (final (relay_event r e w n st)) \<and>
     (case result (relay_event r e w n st) of Inl _ \<Rightarrow> sofar X c0 L' | Inr _ \<Rightarrow> sofar X c0 L')"
    using h unfolding relay_event_def walks_def by (auto split: if_splits)
qed

lemma Relay_Once_walk:
  assumes "mysql_relay r digest"
  shows "walks (outbox_history digest) (sofar {} c0) (Relay_Once r) (\<lambda>_. sofar {} c0) (\<lambda>_. sofar {} c0)"
proof -
  let ?X = "\<lambda>es. Pair (relay_table r) ` set es"
  have read: "walks (outbox_history digest) (sofar {} c0)
      (stmt (RelayDb ''select'') (\<lambda>st. (Inr (due_events (relay_table r) now st), st))) (\<lambda>es L. sofar (?X es) c0 L) (\<lambda>_. sofar {} c0)" for now
  proof (rule walksI)
    fix L st w n
    assume h: "outbox_history digest L st" and c: "sofar {} c0 L"
    from h have "outbox_history digest (L\<lparr>lg_seen := lg_seen L \<union> ?X (outboxes st (relay_table r))\<rparr>) st" by (rule Reading)
    moreover have "set (due_events (relay_table r) now st) \<subseteq> set (outboxes st (relay_table r))"
      by (auto simp: due_events_def dest: in_set_takeD)
    ultimately show "\<exists>L'. outbox_history digest L' (final (stmt (RelayDb ''select'') (\<lambda>st. (Inr (due_events (relay_table r) now st), st)) w n st)) \<and>
       (case result (stmt (RelayDb ''select'') (\<lambda>st. (Inr (due_events (relay_table r) now st), st)) w n st) of
          Inl _ \<Rightarrow> sofar {} c0 L' | Inr es \<Rightarrow> sofar (?X es) c0 L')"
      by (intro exI [of _ "L\<lparr>lg_seen := lg_seen L \<union> ?X (outboxes st (relay_table r))\<rparr>"]) (use c in \<open>auto simp: stmt_def sofar_def split: fault.split\<close>)
  qed
  have loop: "walks (outbox_history digest) (\<lambda>L. sofar (?X es) c0 L) (forP es (relay_event r)) (\<lambda>_ L. sofar (?X es) c0 L) (\<lambda>_. sofar {} c0)" for es
    by (intro walks_weaken [OF walks_for [where E = "\<lambda>_. sofar (?X es) c0", OF event_walk [OF assms]]]) (auto simp: sofar_def)
  have clock: "walks (outbox_history digest) (sofar {} c0) time_now (\<lambda>_. sofar {} c0) (\<lambda>_. sofar {} c0)"
    by (rule walks_read) simp
  have ends: "walks (outbox_history digest) (sofar (?X es) c0) (ret ()) (\<lambda>_. sofar {} c0) (\<lambda>_. sofar {} c0)" for es
    by (rule walks_ret) (simp add: sofar_def)
  show ?thesis unfolding Relay_Once_def
    by (intro walks_if walks_raise walks_bind [OF clock] walks_bind [OF read] walks_bind [OF loop] ends)
qed

section \<open>A cycle without failures\<close>

definition settled_event :: "int \<Rightarrow> (relay_error \<Rightarrow> string) \<Rightarrow> outbox_row \<Rightarrow> outbox_row \<Rightarrow> bool" where
  "settled_event t msg e e' \<longleftrightarrow> (\<exists>task. e' = mark_delivered t task e) \<or> (\<exists>err. e' = mark_pending (t + event_wait (ob_attempts e)) (msg err) e)"

lemma settled_sel: "settled_event t msg e e' \<Longrightarrow> ob_eventID e' = ob_eventID e"
  by (auto simp: settled_event_def)

lemma event_calm:
  assumes "\<not> rl_ended r n"
  shows "\<exists>n' f s'. relay_event r e (calm t) n st = (Inr (), n', (set_event (relay_table r) (ob_eventID e) f st)\<lparr>fed := s'\<rparr>) \<and>
     (\<forall>x. ob_eventID (f x) = ob_eventID x) \<and> settled_event t (rl_Error r) e (f e)"
proof -
  have sent: "\<exists>res n1 s'. tryP (bindP (send_event r e) (\<lambda>task. ret (Inr task))) (\<lambda>err. ret (Inl err)) (calm t) (Suc n) st =
      (Inr res, n1, st\<lparr>fed := s'\<rparr>)"
    by (auto simp: send_event_def on_queue_def tryP_def bindP_def split: option.split prod.split sum.split)
      (metis relay_state.surjective relay_state.update_convs(2) surj_pair)+
  then obtain res n1 s' where sent: "tryP (bindP (send_event r e) (\<lambda>task. ret (Inr task))) (\<lambda>err. ret (Inl err)) (calm t) (Suc n) st =
      (Inr res, n1, st\<lparr>fed := s'\<rparr>)" by blast
  let ?f = "case res of Inr task \<Rightarrow> mark_delivered t task | Inl err \<Rightarrow> mark_pending (t + event_wait (ob_attempts e)) (rl_Error r err)"
  have "relay_event r e (calm t) n st = (Inr (), Suc (Suc n1), (set_event (relay_table r) (ob_eventID e) ?f st)\<lparr>fed := s'\<rparr>)"
    using assms sent by (simp add: relay_event_def bindP_def report_event_def run_stmt_fine update_event_def split: sum.split)
  moreover have "settled_event t (rl_Error r) e (?f e)" "\<forall>x. ob_eventID (?f x) = ob_eventID x"
    by (auto simp: settled_event_def split: sum.split)
  ultimately show ?thesis by blast
qed

lemma batch_calm:
  assumes "\<And>m. \<not> rl_ended r m" "distinct (map ob_eventID es)" "\<forall>e \<in> set es. ob_deliveredEpoch e = None"
  shows "\<exists>us n' st' g. forP es (relay_event r) (calm t) n st = (Inr us, n', st') \<and>
     outboxes st' (relay_table r) = map g (outboxes st (relay_table r)) \<and>
     (\<forall>x. ob_eventID x \<notin> ob_eventID ` set es \<longrightarrow> g x = x) \<and> (\<forall>e \<in> set es. settled_event t (rl_Error r) e (g e))"
  using assms(2,3)
proof (induction es arbitrary: n st)
  case Nil
  show ?case by (intro exI [of _ "[]"] exI [of _ n] exI [of _ st] exI [of _ id]) simp
next
  case (Cons e es)
  let ?T = "relay_table r"
  obtain n1 f s1 where one: "relay_event r e (calm t) n st = (Inr (), n1, (set_event ?T (ob_eventID e) f st)\<lparr>fed := s1\<rparr>)"
    "\<And>x. ob_eventID (f x) = ob_eventID x" "settled_event t (rl_Error r) e (f e)" using event_calm [of r n e t st] assms(1) by blast
  let ?st = "(set_event ?T (ob_eventID e) f st)\<lparr>fed := s1\<rparr>"
  obtain us n' st' g where rest: "forP es (relay_event r) (calm t) n1 ?st = (Inr us, n', st')"
    "outboxes st' ?T = map g (outboxes ?st ?T)" "\<And>x. ob_eventID x \<notin> ob_eventID ` set es \<Longrightarrow> g x = x"
    "\<And>e. e \<in> set es \<Longrightarrow> settled_event t (rl_Error r) e (g e)"
    using Cons.IH [of n1 ?st] Cons.prems unfolding distinct.simps list.map list.set ball_simps by blast
  let ?h = "\<lambda>x. if ob_eventID x = ob_eventID e \<and> ob_deliveredEpoch x = None then f x else x"
  have "forP (e # es) (relay_event r) (calm t) n st = (Inr (() # us), n', st')"
    using one(1) rest(1) by (simp add: bindP_def)
  moreover have "outboxes st' ?T = map (g \<circ> ?h) (outboxes st ?T)" using rest(2) by simp
  moreover have "(g \<circ> ?h) x = x" if "ob_eventID x \<notin> ob_eventID ` set (e # es)" for x
    using that rest(3) [of x] by auto
  moreover have "settled_event t (rl_Error r) x ((g \<circ> ?h) x)" if "x \<in> set (e # es)" for x
  proof (cases "x = e")
    case True
    then show ?thesis using rest(3) [of "f e"] one(2,3) Cons.prems by simp
  next
    case False
    then have "x \<in> set es" "ob_eventID x \<noteq> ob_eventID e" using that Cons.prems(1) by (auto simp: image_iff)
    then show ?thesis using rest(4) by simp
  qed
  ultimately show ?case by blast
qed

section \<open>No event is lost\<close>

definition outbox_kept :: "'s relay_state \<Rightarrow> 's relay_state \<Rightarrow> bool" where
  "outbox_kept st0 st \<longleftrightarrow> (\<forall>table. map ob_eventID (outboxes st table) = map ob_eventID (outboxes st0 table) \<and>
     map ob_payload (outboxes st table) = map ob_payload (outboxes st0 table) \<and>
     (\<forall>e \<in> set (outboxes st0 table). ob_deliveredEpoch e \<noteq> None \<longrightarrow> e \<in> set (outboxes st table)))"

lemma kept_set_event:
  assumes "outbox_kept st0 st" "\<And>e. ob_eventID (f e) = ob_eventID e" "\<And>e. ob_payload (f e) = ob_payload e"
  shows "outbox_kept st0 (set_event table i f st)"
proof -
  have ids: "map ob_eventID (outboxes (set_event table i f st) t) = map ob_eventID (outboxes st t)"
    "map ob_payload (outboxes (set_event table i f st) t) = map ob_payload (outboxes st t)" for t using assms(2,3) by simp_all
  moreover have "e \<in> set (outboxes (set_event table i f st) t)" if "e \<in> set (outboxes st t)" "ob_deliveredEpoch e \<noteq> None" for e t
    using that by auto
  ultimately show ?thesis using assms(1) unfolding outbox_kept_def ids by blast
qed

lemma Relay_Once_keeps: "outbox_kept st (final (Relay_Once r w n st))"
proof -
  let ?I = "outbox_kept st"
  have queue: "preserves ?I (on_queue m)" for m :: "('a, worker_error, 'b) prog"
    by (auto simp: hoare_def on_queue_def outbox_kept_def split: prod.split sum.split)
  have send: "preserves ?I (send_event r e)" for e
    unfolding send_event_def by (intro hoare_split_option hoare_split_if queue) (simp_all add: hoare_def)
  have report: "preserves ?I (report_event table msg e res)" for table msg e res
    unfolding report_event_def
    by (rule hoare_bind [where R = "\<lambda>_. ?I"])
      (auto simp: hoare_def stmt_def kept_set_event fst_conv update_event_def [THEN arg_cong [of _ _ fst]] split: sum.split fault.split)
  have event: "preserves ?I (relay_event r e)" for e
  proof (rule hoareI)
    let ?m = "bindP (tryP (bindP (send_event r e) (\<lambda>task. ret (Inr task))) (\<lambda>err. ret (Inl err))) (report_event (relay_table r) (rl_Error r) e)"
    have m: "preserves ?I ?m"
      by (rule hoare_bind [where R = "\<lambda>_. ?I", OF hoare_tryP [OF hoare_bind [OF send]] report]) (simp_all add: hoare_def)
    show "relay_event r e w n s = (Inr a, n', s') \<Longrightarrow> ?I s'" if "?I s" for w n s a n' s'
      using hoareD_ok [OF m that] that unfolding relay_event_def by (auto split: if_splits)
    show "relay_event r e w n s = (Inl err, n', s') \<Longrightarrow> ?I s'" if "?I s" for w n s err n' s'
      using hoareD_err [OF m that] that unfolding relay_event_def by (auto split: if_splits)
  qed
  have "preserves ?I (Relay_Once r)"
    unfolding Relay_Once_def
    by (intro hoare_split_if hoare_bind [where R = "\<lambda>_. ?I"] hoare_forP event) (auto simp: hoare_def stmt_def split: fault.split)
  moreover have "?I st" by (simp add: outbox_kept_def)
  ultimately show ?thesis by (rule hoareD_inv)
qed

end
