(* ===== verification/Outbox_Properties.thy ===== *)
theory Outbox_Properties
  imports Outbox_Facts Worker_Properties
begin

text \<open>
  The properties of the outbox relay and their instances on one event.
\<close>

section \<open>One event\<close>

definition relay_request :: EnqueueEventRequest where
  "relay_request = \<lparr>ev_eventID = ''ev1'', ev_task = \<lparr>er_taskClass = ''A'', er_data = ''x'', er_priority = None, er_objectPHID = [],
     er_containerPHID = [], er_delayUntil = None\<rparr>\<rparr>"

definition relay_row :: outbox_row where
  "relay_row = \<lparr>ob_id = 1, ob_eventID = ''ev1'', ob_payload = Some relay_request, ob_attempts = 0, ob_nextAttempt = 0,
     ob_deliveredEpoch = None, ob_queueTaskID = None, ob_lastError = []\<rparr>"

definition relay_start :: "sched_db relay_state" where
  "relay_start = \<lparr>outboxes = (\<lambda>_. [])(''feed_gorgeoutbox'' := [relay_row]), fed = worker_db\<rparr>"

definition sample_relay :: "sched_db Relay" where
  "sample_relay = \<lparr>rl_Queue = sample_queue, rl_Client = sample_client, rl_Table = [], rl_Error = (\<lambda>_. ''error''),
     rl_ended = (\<lambda>_. False)\<rparr>"

lemma relay_start_history: "\<exists>L. outbox_history sample_digest L relay_start"
  using Producing [OF Start [OF worker_db_ok], of relay_row "''feed_gorgeoutbox''" sample_digest]
  by (auto simp: relay_start_def relay_row_def)

lemma sample_relay_mysql: "mysql_relay sample_relay sample_digest"
  using alone_acts by (auto simp: sample_relay_def)

section \<open>Properties\<close>

text \<open>
  C35. Any number of relays may feed one queue from their tables, next to the producers of events and every other
  client of the queue, with requests and replies lost, statements failing and cycles ending anywhere: a cycle
  of a relay is a sequence of steps of such a history, no event is dropped or altered, and what
  is marked as delivered stays so. An event is marked as delivered only when the queue has recorded this very request
  with its answer, the row names the task of that answer, and over all cycles of all relays
  no event creates a second task.
\<close>

theorem outbox_exactly_once:
  assumes "mysql_relay r digest" "outbox_history digest L st"
  shows "\<exists>L'. outbox_history digest L' (final (Relay_Once r w n st)) \<and> distinct (lg_created L') \<and> (\<exists>new. lg_created L' = new @ lg_created L) \<and>
     outbox_kept st (final (Relay_Once r w n st)) \<and>
     (\<forall>table e. e \<in> set (outboxes (final (Relay_Once r w n st)) table) \<and> ob_deliveredEpoch e \<noteq> None \<longrightarrow>
        (\<exists>req x task. ob_payload e = Some req \<and> ev_eventID req = ob_eventID e \<and>
           gorgeinbox (fed (final (Relay_Once r w n st))) (ob_eventID e) = Some x \<and> in_payloadHash x = digest (ev_task req) \<and>
           in_response x = Some task \<and> ob_queueTaskID e = Some (t_id task)))"
proof -
  obtain L' where h: "outbox_history digest L' (final (Relay_Once r w n st))" "sofar {} (lg_created L) L'"
    by (rule walksD [OF Relay_Once_walk [OF assms(1), of "lg_created L"] assms(2), of w n])
      (simp_all add: sofar_def split: sum.splits)
  note ok = history_outbox_ok [OF h(1)]
  have "\<exists>req x task. ob_payload e = Some req \<and> ev_eventID req = ob_eventID e \<and>
      gorgeinbox (fed (final (Relay_Once r w n st))) (ob_eventID e) = Some x \<and> in_payloadHash x = digest (ev_task req) \<and>
      in_response x = Some task \<and> ob_queueTaskID e = Some (t_id task)"
    if "e \<in> set (outboxes (final (Relay_Once r w n st)) table)" "ob_deliveredEpoch e \<noteq> None" for table e
  proof -
    have "delivered_ok digest (fed (final (Relay_Once r w n st))) e"
      using ok that(1) by (auto simp: outbox_ok_def rows_ok_def)
    then show ?thesis using that(2) by (auto simp: delivered_ok_def event_answer_def split: option.splits if_splits)
  qed
  moreover have "distinct (lg_created L')" "\<exists>new. lg_created L' = new @ lg_created L"
    using ok h(2) by (simp_all add: outbox_ok_def created_ok_def sofar_def)
  ultimately show ?thesis using h(1) Relay_Once_keeps by blast
qed

theorem outbox_exactly_once_witness:
  "outbox_kept relay_start (final (Relay_Once sample_relay lossy_report 0 relay_start)) \<and>
   (\<exists>L. outbox_history sample_digest L (final (Relay_Once sample_relay lossy_report 0 relay_start)))"
proof -
  obtain L where "outbox_history sample_digest L relay_start" using relay_start_history by blast
  from outbox_exactly_once [OF sample_relay_mysql this, of lossy_report 0] show ?thesis by blast
qed

text \<open>
  C36. One bad event does not hold up the others: in a cycle in which no statement fails and the context does not end, every
  event that was due, at most thirty-two of them, is either delivered or put off by a delay that doubles with each attempt up to an
  hour, and no other row changes.
\<close>

theorem outbox_batch_settles:
  assumes "\<forall>m. \<not> rl_ended r m" "relay_table r \<in> {''feed_gorgeoutbox'', ''metamta_gorgeoutbox''}"
    and "distinct (map ob_eventID (outboxes st (relay_table r)))"
  shows "\<exists>n' st' g. Relay_Once r (calm t) n st = (Inr (), n', st') \<and> outboxes st' (relay_table r) = map g (outboxes st (relay_table r)) \<and>
     (\<forall>e \<in> set (outboxes st (relay_table r)).
        if e \<in> set (due_events (relay_table r) t st)
        then (\<exists>task. g e = mark_delivered t task e) \<or>
             (\<exists>err. g e = mark_pending (t + min 3600 (2 ^ min (ob_attempts e + 1) 12)) (rl_Error r err) e)
        else g e = e)"
proof -
  let ?T = "relay_table r" and ?es = "due_events (relay_table r) t st"
  have sub: "set ?es \<subseteq> set (outboxes st ?T)" "\<forall>e \<in> set ?es. ob_deliveredEpoch e = None"
    by (auto simp: due_events_def dest!: in_set_takeD)
  have "distinct (map ob_eventID (filter p (outboxes st ?T)))" for p using assms(3) by (simp add: distinct_map inj_on_def)
  then have "distinct (map ob_eventID (sort_key ob_id (filter p (outboxes st ?T))))" for p by (simp add: distinct_map)
  then have "distinct (map ob_eventID ?es)" by (simp add: due_events_def take_map [symmetric])
  from batch_calm [OF _ this sub(2), of r t "Suc (Suc n)" st] assms(1) obtain us n' st' g where
    run: "forP ?es (relay_event r) (calm t) (Suc (Suc n)) st = (Inr us, n', st')" "outboxes st' ?T = map g (outboxes st ?T)"
      "\<And>x. ob_eventID x \<notin> ob_eventID ` set ?es \<Longrightarrow> g x = x" "\<And>e. e \<in> set ?es \<Longrightarrow> settled_event t (rl_Error r) e (g e)" by blast
  have "Relay_Once r (calm t) n st = (Inr (), n', st')"
    using assms(2) run(1) by (auto simp: Relay_Once_def bindP_def run_stmt_fine)
  moreover have "g e = e" if "e \<in> set (outboxes st ?T)" "e \<notin> set ?es" for e
    using that map_of_key_unique [OF assms(3) that(1)] sub(1) by (intro run(3)) (auto simp: image_iff)
  moreover have "(\<exists>task. g e = mark_delivered t task e) \<or>
      (\<exists>err. g e = mark_pending (t + min 3600 (2 ^ min (ob_attempts e + 1) 12)) (rl_Error r err) e)" if "e \<in> set ?es" for e
    using run(4) [OF that] by (simp add: settled_event_def event_wait_def)
  ultimately show ?thesis using run(2) by (intro exI [of _ n'] exI [of _ st'] exI [of _ g]) simp
qed

theorem outbox_batch_settles_witness:
  "\<exists>n' st' g. Relay_Once sample_relay (calm 5) 0 relay_start = (Inr (), n', st') \<and> outboxes st' ''feed_gorgeoutbox'' = [g relay_row]"
proof -
  have "\<forall>m. \<not> rl_ended sample_relay m" "relay_table sample_relay = ''feed_gorgeoutbox''"
    "outboxes relay_start ''feed_gorgeoutbox'' = [relay_row]"
    by (simp_all add: sample_relay_def relay_table_def relay_start_def)
  with outbox_batch_settles [of sample_relay relay_start 5 0] show ?thesis by fastforce
qed

end
