(* ===== verification/Cleanup.thy ===== *)
theory Cleanup
  imports Prelude
begin

text \<open>
  Fenced cleanup of registered tables: \<open>src/go/internal/maintenance/cleanup/policy.go\<close>, \<open>store.go\<close>, \<open>scheduler.go\<close> and
  \<open>schema.go\<close>. There is a control table per role and a list of rows per cleaned table; a column of a row that is \<open>NULL\<close>
  is \<open>None\<close>. The encoding of a policy, its digest, what the catalog and \<open>EXPLAIN\<close> say, the
  microseconds of the database clock and the ends of contexts are parameters.
\<close>

section \<open>Policies\<close>

record Spec =
  sp_ID :: string
  sp_Role :: string
  sp_Table :: string
  sp_Column :: string

definition specs :: "Spec list" where
  "specs =
     [\<lparr>sp_ID = ''cache.general.ttl'', sp_Role = ''cache'', sp_Table = ''cache_general'', sp_Column = ''cacheExpires''\<rparr>,
      \<lparr>sp_ID = ''cache.general'', sp_Role = ''cache'', sp_Table = ''cache_general'', sp_Column = ''cacheCreated''\<rparr>,
      \<lparr>sp_ID = ''cache.markup'', sp_Role = ''cache'', sp_Table = ''cache_markupcache'', sp_Column = ''dateCreated''\<rparr>,
      \<lparr>sp_ID = ''conduit.logs'', sp_Role = ''conduit'', sp_Table = ''conduit_methodcalllog'', sp_Column = ''dateCreated''\<rparr>,
      \<lparr>sp_ID = ''daemon.processes'', sp_Role = ''daemon'', sp_Table = ''daemon_logevent'', sp_Column = ''epoch''\<rparr>,
      \<lparr>sp_ID = ''daemon.lock-log'', sp_Role = ''daemon'', sp_Table = ''daemon_locklog'', sp_Column = ''dateCreated''\<rparr>,
      \<lparr>sp_ID = ''differential.parse'', sp_Role = ''differential'', sp_Table = ''differential_changeset_parse_cache'',
        sp_Column = ''dateCreated''\<rparr>,
      \<lparr>sp_ID = ''differential.viewstate'', sp_Role = ''differential'', sp_Table = ''differential_viewstate'', sp_Column = ''dateModified''\<rparr>,
      \<lparr>sp_ID = ''multimeter.events'', sp_Role = ''multimeter'', sp_Table = ''multimeter_event'', sp_Column = ''epoch''\<rparr>]"

definition Lookup :: "string \<Rightarrow> Spec option" where
  "Lookup i = find (\<lambda>s. sp_ID s = i) specs"

record Policy =
  po_ID :: string
  po_Mode :: string
  po_RetentionSeconds :: int
  po_IntervalSeconds :: int
  po_BatchRows :: int
  po_BatchTimeoutMS :: int
  po_RunSeconds :: int
  po_RunRows :: int
  po_Revision :: string

record Export =
  xp_Version :: int
  xp_GuardEnabled :: bool
  xp_ReadOnly :: bool
  xp_Policies :: "Policy list"

definition Validate :: "Policy \<Rightarrow> bool" where
  "Validate p =
     (case Lookup (po_ID p) of
        None \<Rightarrow> False
      | Some s \<Rightarrow>
          if length (po_Revision p) = 0 \<or> length (po_Revision p) > 64 then False
          else if po_Mode p \<noteq> ''retention_seconds'' \<and> po_Mode p \<noteq> ''expires_at'' \<and> po_Mode p \<noteq> ''indefinite'' then False
          else if sp_Column s = ''cacheExpires'' \<and> po_Mode p \<noteq> ''expires_at'' \<or>
                  sp_Column s \<noteq> ''cacheExpires'' \<and> po_Mode p = ''expires_at'' then False
          else if po_RetentionSeconds p < 0 \<or> po_RetentionSeconds p > 3153600000 \<or>
                  po_Mode p = ''retention_seconds'' \<and> po_RetentionSeconds p = 0 \<or>
                  po_Mode p \<noteq> ''retention_seconds'' \<and> po_RetentionSeconds p \<noteq> 0 then False
          else if po_IntervalSeconds p < 60 \<or> po_IntervalSeconds p > 604800 \<or> po_BatchRows p < 1 \<or> po_BatchRows p > 100 \<or>
                  po_BatchTimeoutMS p < 100 \<or> po_BatchTimeoutMS p > 2000 \<or> po_RunSeconds p < 1 \<or> po_RunSeconds p > 30 \<or>
                  po_RunRows p < 1 \<or> po_RunRows p > 10000 then False
          else True)"

fun unseen_valid :: "string list \<Rightarrow> Policy list \<Rightarrow> bool" where
  "unseen_valid seen [] = True"
| "unseen_valid seen (p # ps) = (if po_ID p \<in> set seen then False else if \<not> Validate p then False else unseen_valid (po_ID p # seen) ps)"

text \<open>\<open>body\<close> is the first JSON value of the text with no unknown field, \<open>trailing\<close> whether anything but the end follows it.\<close>

definition Decode :: "Export option \<Rightarrow> bool \<Rightarrow> Export option" where
  "Decode body trailing =
     (case body of
        None \<Rightarrow> None
      | Some e \<Rightarrow>
          if trailing then None
          else if xp_Version e \<noteq> 1 \<or> \<not> xp_GuardEnabled e \<or> xp_ReadOnly e then None
          else if length (xp_Policies e) = 0 \<or> length (xp_Policies e) > length specs then None
          else if unseen_valid [] (xp_Policies e) then Some e else None)"

section \<open>State\<close>

datatype cleanup_error =
    CleanupDb string
  | ErrConflict
  | ErrRateLimited
  | ErrBusy
  | CleanupInvalid string
  | CleanupCancelled

record State =
  gs_Owner :: string
  gs_Epoch :: nat
  gs_Fence :: nat
  gs_Policy :: string
  gs_Hash :: string
  gs_LeaseOwner :: string
  gs_LeaseExpires :: int
  gs_NextRun :: int
  gs_Cutoff :: int
  gs_Deleted :: nat
  gs_LastSuccess :: int
  gs_Status :: string
  gs_Failures :: nat
  gs_LastError :: string

record target_row =
  tr_id :: nat
  tr_column :: "string \<Rightarrow> int option"

record cleanup_db =
  gc_control :: "string \<Rightarrow> string \<Rightarrow> State option"
  gc_target :: "string \<Rightarrow> target_row list"

record catalog =
  cg_read_only :: int
  cg_engine :: "string \<Rightarrow> string option"
  cg_controlPK :: int
  cg_pk :: "string \<Rightarrow> int"
  cg_visibilityColumn :: int
  cg_indexed :: "bool \<Rightarrow> string \<Rightarrow> string \<Rightarrow> int"
  cg_type :: "string \<Rightarrow> string \<Rightarrow> string option"

record cleanup_env =
  ce_DBs :: "string list"
  ce_marshal :: "Policy \<Rightarrow> string"
  ce_unmarshal :: "string \<Rightarrow> Policy option"
  ce_sha :: "string \<Rightarrow> string"
  ce_micros :: "nat \<Rightarrow> int"
  ce_explain :: "nat \<Rightarrow> (string \<times> string) list"
  ce_catalog :: catalog
  ce_ended :: "nat \<Rightarrow> bool"

type_synonym 'a cleanup_prog = "(cleanup_db, cleanup_error, 'a) prog"

abbreviation cleanup_tx :: "'a cleanup_prog \<Rightarrow> 'a cleanup_prog" where
  "cleanup_tx \<equiv> transaction (CleanupDb ''tx'') (\<lambda>s0 s. s0)"

definition Store_db :: "cleanup_env \<Rightarrow> string \<Rightarrow> Spec cleanup_prog" where
  "Store_db env i =
     (case Lookup i of
        None \<Rightarrow> raise (CleanupInvalid ''unknown collector'')
      | Some spec \<Rightarrow>
          if sp_Role spec \<notin> set (ce_DBs env) then raise (CleanupInvalid ''database not configured'') else ret spec)"

definition decodeState :: "cleanup_env \<Rightarrow> string \<Rightarrow> State \<Rightarrow> cleanup_error + Policy" where
  "decodeState env i st =
     (case ce_unmarshal env (gs_Policy st) of
        None \<Rightarrow> Inl (CleanupInvalid ''policy'')
      | Some p \<Rightarrow>
          if po_ID p \<noteq> i then Inl (CleanupInvalid ''policy identity mismatch'')
          else if ce_sha env (gs_Policy st) \<noteq> gs_Hash st then Inl (CleanupInvalid ''policy hash mismatch'')
          else if \<not> Validate p then Inl (CleanupInvalid ''invalid policy'')
          else Inr p)"

definition gc_lock :: "string \<Rightarrow> string \<Rightarrow> State cleanup_prog" where
  "gc_lock role i = stmt (CleanupDb ''select'') (\<lambda>s.
     (case gc_control s role i of None \<Rightarrow> Inl (CleanupDb ''no rows'') | Some st \<Rightarrow> Inr st, s))"

definition gc_now :: "int cleanup_prog" where
  "gc_now = bindP (stmt (CleanupDb ''clock'') (\<lambda>s. (Inr (), s))) (\<lambda>_. time_now)"

definition gc_Status :: "cleanup_env \<Rightarrow> string \<Rightarrow> State cleanup_prog" where
  "gc_Status env i = bindP (Store_db env i) (\<lambda>spec. gc_lock (sp_Role spec) i)"

definition set_control :: "string \<Rightarrow> string \<Rightarrow> (State \<Rightarrow> State) \<Rightarrow> cleanup_db \<Rightarrow> cleanup_db" where
  "set_control role i f s =
     s\<lparr>gc_control := (gc_control s)(role := (gc_control s role)(i := map_option f (gc_control s role i)))\<rparr>"

definition update_control :: "string \<Rightarrow> string \<Rightarrow> (State \<Rightarrow> State) \<Rightarrow> unit cleanup_prog" where
  "update_control role i f = stmt (CleanupDb ''update'') (\<lambda>s. (Inr (), set_control role i f s))"

definition insert_control :: "string \<Rightarrow> string \<Rightarrow> State \<Rightarrow> unit cleanup_prog" where
  "insert_control role i st = stmt (CleanupDb ''insert'') (\<lambda>s.
     (Inr (), case gc_control s role i of
        Some _ \<Rightarrow> s
      | None \<Rightarrow> s\<lparr>gc_control := (gc_control s)(role := (gc_control s role)(i \<mapsto> st))\<rparr>))"

definition fresh_State :: "string \<Rightarrow> string \<Rightarrow> string \<Rightarrow> State" where
  "fresh_State owner policy hash =
     \<lparr>gs_Owner = owner, gs_Epoch = 0, gs_Fence = 0, gs_Policy = policy, gs_Hash = hash, gs_LeaseOwner = [], gs_LeaseExpires = 0,
      gs_NextRun = 0, gs_Cutoff = 0, gs_Deleted = 0, gs_LastSuccess = 0, gs_Status = ''idle'', gs_Failures = 0, gs_LastError = []\<rparr>"

section \<open>Ownership\<close>

definition import_state :: "string \<Rightarrow> string \<Rightarrow> State \<Rightarrow> State" where
  "import_state policy hash st =
     st\<lparr>gs_Policy := policy, gs_Hash := hash, gs_Epoch := gs_Epoch st + 1, gs_Fence := gs_Fence st + 1, gs_LeaseOwner := [],
        gs_LeaseExpires := 0, gs_NextRun := 0, gs_Status := ''idle'', gs_Failures := 0, gs_LastError := []\<rparr>"

definition import_body :: "Spec \<Rightarrow> string \<Rightarrow> string \<Rightarrow> string \<Rightarrow> unit cleanup_prog" where
  "import_body spec i b hash =
     bindP (insert_control (sp_Role spec) i (fresh_State ''php'' b hash)) (\<lambda>_.
     bindP (gc_lock (sp_Role spec) i) (\<lambda>st.
     if gs_Status st = ''policy_changing'' then raise (CleanupInvalid ''policy change in progress'')
     else if gs_Owner st \<noteq> ''php'' \<and> gs_Owner st \<noteq> ''paused'' then raise (CleanupInvalid ''pause before policy import'')
     else update_control (sp_Role spec) i (import_state b hash)))"

definition gc_Import :: "cleanup_env \<Rightarrow> Policy \<Rightarrow> unit cleanup_prog" where
  "gc_Import env p =
     (if \<not> Validate p then raise (CleanupInvalid ''invalid policy'')
      else
        bindP (Store_db env (po_ID p)) (\<lambda>spec.
        let b = ce_marshal env p; hash = ce_sha env b in
        cleanup_tx (import_body spec (po_ID p) b hash)))"

definition owner_state :: "string \<Rightarrow> State \<Rightarrow> State" where
  "owner_state owner st =
     st\<lparr>gs_Owner := owner, gs_Epoch := gs_Epoch st + 1, gs_Fence := gs_Fence st + 1, gs_LeaseOwner := [], gs_LeaseExpires := 0,
        gs_NextRun := 0, gs_Status := owner\<rparr>"

definition owner_body :: "cleanup_env \<Rightarrow> Spec \<Rightarrow> string \<Rightarrow> string \<Rightarrow> unit cleanup_prog" where
  "owner_body env spec i owner =
     bindP (gc_lock (sp_Role spec) i) (\<lambda>st.
     if owner \<noteq> ''paused'' \<and> gs_Owner st \<noteq> ''paused'' then raise (CleanupInvalid ''pause and drain before ownership transfer'')
     else
       case (if owner = ''gorge'' then map_sum id (\<lambda>_. ()) (decodeState env i st) else Inr ()) of
         Inl e \<Rightarrow> raise e
       | Inr _ \<Rightarrow> update_control (sp_Role spec) i (owner_state owner))"

definition gc_SetOwner :: "cleanup_env \<Rightarrow> string \<Rightarrow> string \<Rightarrow> unit cleanup_prog" where
  "gc_SetOwner env i owner =
     (if owner \<noteq> ''paused'' \<and> owner \<noteq> ''php'' \<and> owner \<noteq> ''gorge'' then raise (CleanupInvalid ''invalid owner'')
      else bindP (Store_db env i) (\<lambda>spec. cleanup_tx (owner_body env spec i owner)))"

section \<open>Leases and batches\<close>

record CleanupLease =
  le_ID :: string
  le_Owner :: string
  le_Epoch :: nat
  le_Fence :: nat
  le_Cutoff :: int
  le_Policy :: Policy

definition cutoff_of :: "Policy \<Rightarrow> int \<Rightarrow> int" where
  "cutoff_of p n =
     (let cutoff = (if po_Mode p = ''retention_seconds'' then n - po_RetentionSeconds p else n) in
      if cutoff < 0 then 0 else cutoff)"

definition claim_state :: "string \<Rightarrow> int \<Rightarrow> int \<Rightarrow> State \<Rightarrow> State" where
  "claim_state owner expires cutoff st =
     st\<lparr>gs_LeaseOwner := owner, gs_LeaseExpires := expires, gs_Fence := gs_Fence st + 1, gs_Cutoff := cutoff, gs_Status := ''running''\<rparr>"

definition claim_body :: "cleanup_env \<Rightarrow> Spec \<Rightarrow> string \<Rightarrow> string \<Rightarrow> bool \<Rightarrow> CleanupLease cleanup_prog" where
  "claim_body env spec i owner force =
     bindP (gc_lock (sp_Role spec) i) (\<lambda>st.
     case decodeState env i st of
       Inl e \<Rightarrow> raise e
     | Inr p \<Rightarrow>
         bindP gc_now (\<lambda>n.
         if gs_Owner st \<noteq> ''gorge'' then raise ErrConflict
         else if po_Mode p = ''indefinite'' \<or> gs_LeaseExpires st > n \<or> \<not> force \<and> gs_NextRun st > n then raise ErrBusy
         else
           bindP (update_control (sp_Role spec) i (claim_state owner (n + 15) (cutoff_of p n))) (\<lambda>_.
           ret \<lparr>le_ID = i, le_Owner = owner, le_Epoch = gs_Epoch st, le_Fence = gs_Fence st + 1,
                le_Cutoff = cutoff_of p n, le_Policy = p\<rparr>)))"

definition gc_Claim :: "cleanup_env \<Rightarrow> string \<Rightarrow> string \<Rightarrow> bool \<Rightarrow> CleanupLease cleanup_prog" where
  "gc_Claim env i owner force =
     (if owner = [] \<or> length owner > 64 then raise (CleanupInvalid ''invalid lease owner'')
      else bindP (Store_db env i) (\<lambda>spec. cleanup_tx (claim_body env spec i owner force)))"

definition checkLease :: "State \<Rightarrow> CleanupLease \<Rightarrow> int \<Rightarrow> bool" where
  "checkLease st l n \<longleftrightarrow>
     \<not> (gs_Owner st \<noteq> ''gorge'' \<or> gs_Epoch st \<noteq> le_Epoch l \<or> gs_Fence st \<noteq> le_Fence l \<or> gs_LeaseOwner st \<noteq> le_Owner l \<or>
        gs_LeaseExpires st \<le> n \<or> gs_Cutoff st \<noteq> le_Cutoff l)"

fun plan_rows :: "(string \<times> string) list \<Rightarrow> bool \<Rightarrow> cleanup_error + unit" where
  "plan_rows [] found = (if found then Inr () else Inl (CleanupInvalid ''missing deletion plan''))"
| "plan_rows ((key, access) # rows) found =
     (if key = [] \<or> access \<noteq> ''range'' then Inl (CleanupInvalid ''deletion requires an indexed range plan'') else plan_rows rows True)"

definition validateDeletePlan :: "cleanup_env \<Rightarrow> unit cleanup_prog" where
  "validateDeletePlan env = (\<lambda>w n s. stmt (CleanupDb ''explain'') (\<lambda>s. (plan_rows (ce_explain env n) False, s)) w n s)"

definition expired_row :: "string \<Rightarrow> int \<Rightarrow> target_row \<Rightarrow> bool" where
  "expired_row column cutoff r \<longleftrightarrow> (case tr_column r column of None \<Rightarrow> False | Some v \<Rightarrow> v < cutoff)"

text \<open>\<open>ORDER BY column, id LIMIT ?\<close>; the rows of a table have different ids.\<close>

definition first_expired :: "Spec \<Rightarrow> int \<Rightarrow> nat \<Rightarrow> target_row list \<Rightarrow> target_row list" where
  "first_expired spec cutoff limit rows =
     take limit (sort_key (\<lambda>r. the (tr_column r (sp_Column spec))) (sort_key tr_id (filter (expired_row (sp_Column spec) cutoff) rows)))"

definition delete_expired :: "Spec \<Rightarrow> int \<Rightarrow> nat \<Rightarrow> cleanup_db \<Rightarrow> (cleanup_error + nat) \<times> cleanup_db" where
  "delete_expired spec cutoff limit s =
     (let gone = map tr_id (first_expired spec cutoff limit (gc_target s (sp_Table spec))) in
      (Inr (length gone), s\<lparr>gc_target := (gc_target s)(sp_Table spec :=
         filter (\<lambda>r. tr_id r \<notin> set gone) (gc_target s (sp_Table spec)))\<rparr>))"

definition batch_state :: "nat \<Rightarrow> int \<Rightarrow> State \<Rightarrow> State" where
  "batch_state rows n st =
     st\<lparr>gs_Deleted := gs_Deleted st + rows, gs_LeaseExpires := n + 15, gs_LastSuccess := n, gs_Failures := 0, gs_LastError := []\<rparr>"

definition budget_row :: string where
  "budget_row = ''__database_budget__''"

definition db_micros :: "cleanup_env \<Rightarrow> int cleanup_prog" where
  "db_micros env = (\<lambda>w n s. stmt (CleanupDb ''clock'') (\<lambda>s. (Inr (w_clock w n * 1000000 + ce_micros env n), s)) w n s)"

definition batch_body :: "cleanup_env \<Rightarrow> Spec \<Rightarrow> CleanupLease \<Rightarrow> int \<Rightarrow> nat cleanup_prog" where
  "batch_body env spec l limit =
     bindP (gc_lock (sp_Role spec) (le_ID l)) (\<lambda>st.
     bindP gc_now (\<lambda>n.
     if \<not> checkLease st l n then raise ErrConflict
     else
       case decodeState env (le_ID l) st of
         Inl e \<Rightarrow> raise e
       | Inr p \<Rightarrow>
           if p \<noteq> le_Policy l then raise ErrConflict
           else
             bindP (insert_control (sp_Role spec) budget_row (fresh_State ''paused'' ''{}'' [])) (\<lambda>_.
             bindP (gc_lock (sp_Role spec) budget_row) (\<lambda>budget.
             bindP (db_micros env) (\<lambda>clock.
             if gs_Cutoff budget > clock then raise ErrRateLimited
             else
               bindP (validateDeletePlan env) (\<lambda>_.
               bindP (stmt (CleanupDb ''delete'') (delete_expired spec (le_Cutoff l) (nat limit))) (\<lambda>rows.
               bindP (update_control (sp_Role spec) (le_ID l) (batch_state rows n)) (\<lambda>_.
               bindP (db_micros env) (\<lambda>clock'.
               bindP (update_control (sp_Role spec) budget_row (\<lambda>b. b\<lparr>gs_Cutoff := clock' + 200000\<rparr>)) (\<lambda>_.
               ret rows))))))))))"

definition gc_Batch :: "cleanup_env \<Rightarrow> CleanupLease \<Rightarrow> int \<Rightarrow> nat cleanup_prog" where
  "gc_Batch env l limit =
     (if \<not> Validate (le_Policy l) then raise (CleanupInvalid ''invalid policy'')
      else if limit < 1 \<or> limit > po_BatchRows (le_Policy l) then raise (CleanupInvalid ''invalid batch limit'')
      else bindP (Store_db env (le_ID l)) (\<lambda>spec. cleanup_tx (batch_body env spec l limit)))"

definition finish_state :: "CleanupLease \<Rightarrow> string \<Rightarrow> bool \<Rightarrow> int \<Rightarrow> State \<Rightarrow> State" where
  "finish_state l status failed n st =
     (let failures = (if failed then gs_Failures st + 1 else 0);
          delay = (if failed then 2 ^ min failures 6 * 5
                   else if status = ''budget_exhausted'' then 30 else po_IntervalSeconds (le_Policy l)) in
      st\<lparr>gs_LeaseOwner := [], gs_LeaseExpires := 0, gs_NextRun := n + delay, gs_Status := status, gs_Failures := failures,
         gs_LastError := (if failed then ''batch failed; inspect service logs'' else [])\<rparr>)"

definition finish_body :: "Spec \<Rightarrow> CleanupLease \<Rightarrow> string \<Rightarrow> bool \<Rightarrow> unit cleanup_prog" where
  "finish_body spec l status failed =
     bindP (gc_lock (sp_Role spec) (le_ID l)) (\<lambda>st.
     bindP gc_now (\<lambda>n.
     if \<not> checkLease st l n then raise ErrConflict
     else update_control (sp_Role spec) (le_ID l) (finish_state l status failed n)))"

definition gc_Finish :: "cleanup_env \<Rightarrow> CleanupLease \<Rightarrow> string \<Rightarrow> bool \<Rightarrow> unit cleanup_prog" where
  "gc_Finish env l status failed =
     (if status \<noteq> ''exhausted'' \<and> status \<noteq> ''budget_exhausted'' \<and> status \<noteq> ''retryable_failure''
      then raise (CleanupInvalid ''invalid finish status'')
      else bindP (Store_db env (le_ID l)) (\<lambda>spec. cleanup_tx (finish_body spec l status failed)))"

definition gc_DryRun :: "cleanup_env \<Rightarrow> string \<Rightarrow> nat list cleanup_prog" where
  "gc_DryRun env i =
     bindP (Store_db env i) (\<lambda>spec.
     bindP (gc_Status env i) (\<lambda>st.
     case decodeState env i st of
       Inl e \<Rightarrow> raise e
     | Inr p \<Rightarrow>
         if po_Mode p = ''indefinite'' then ret []
         else
           bindP gc_now (\<lambda>n.
           stmt (CleanupDb ''select'') (\<lambda>s.
             (Inr (map tr_id (first_expired spec (if po_Mode p = ''retention_seconds'' then n - po_RetentionSeconds p else n)
                (nat (po_BatchRows p)) (gc_target s (sp_Table spec)))), s)))))"

section \<open>The live schema\<close>

definition ask :: "(catalog \<Rightarrow> 'a) \<Rightarrow> cleanup_env \<Rightarrow> 'a cleanup_prog" where
  "ask f env = stmt (CleanupDb ''catalog'') (\<lambda>s. (Inr (f (ce_catalog env)), s))"

definition require :: "bool \<Rightarrow> string \<Rightarrow> unit cleanup_prog" where
  "require b message = (if b then ret () else raise (CleanupInvalid message))"

definition lower :: "char \<Rightarrow> char" where
  "lower c = (let n = (of_char c :: nat) in if 65 \<le> n \<and> n \<le> 90 then char_of (n + 32) else c)"

definition check_engine :: "cleanup_env \<Rightarrow> string \<Rightarrow> unit cleanup_prog" where
  "check_engine env name =
     bindP (ask (\<lambda>c. cg_engine c name) env) (\<lambda>engine.
     case engine of
       None \<Rightarrow> raise (CleanupInvalid ''schema missing'')
     | Some e \<Rightarrow> require (map lower e = ''innodb'') ''requires InnoDB'')"

definition ValidateSchema :: "cleanup_env \<Rightarrow> string \<Rightarrow> unit cleanup_prog" where
  "ValidateSchema env i =
     bindP (Store_db env i) (\<lambda>spec.
     bindP (ask cg_read_only env) (\<lambda>readonly.
     bindP (require (readonly = 0) ''database is read-only'') (\<lambda>_.
     bindP (forP [''gorge_gc_control'', sp_Table spec] (check_engine env)) (\<lambda>_.
     bindP (ask cg_controlPK env) (\<lambda>controlPK.
     bindP (require (controlPK = 1) ''control table requires collectorID primary key'') (\<lambda>_.
     bindP (ask (\<lambda>c. cg_pk c (sp_Table spec)) env) (\<lambda>pk.
     bindP (require (pk = 1) ''requires id primary key'') (\<lambda>_.
     bindP (ask cg_visibilityColumn env) (\<lambda>visibilityColumn.
     bindP (ask (\<lambda>c. cg_indexed c (visibilityColumn \<noteq> 0) (sp_Table spec) (sp_Column spec)) env) (\<lambda>indexed.
     bindP (require (indexed \<noteq> 0) ''requires leading index'') (\<lambda>_.
     bindP (ask (\<lambda>c. cg_type c (sp_Table spec) (sp_Column spec)) env) (\<lambda>dataType.
     bindP (require (dataType = Some ''int'' \<or> dataType = Some ''bigint'') ''unsupported timestamp type'') (\<lambda>_.
     bindP time_now (\<lambda>_.
     validateDeletePlan env))))))))))))))"

definition check_collector :: "cleanup_env \<Rightarrow> Spec \<Rightarrow> unit cleanup_prog" where
  "check_collector env spec =
     (if sp_Role spec \<notin> set (ce_DBs env) then ret ()
      else
        bindP (ValidateSchema env (sp_ID spec)) (\<lambda>_.
        bindP (gc_Status env (sp_ID spec)) (\<lambda>st.
        bindP (require (gs_Owner st = ''php'' \<or> gs_Owner st = ''gorge'' \<or> gs_Owner st = ''paused'') ''invalid cleanup owner'') (\<lambda>_.
        case decodeState env (sp_ID spec) st of Inl e \<Rightarrow> raise e | Inr _ \<Rightarrow> ret ()))))"

definition gc_Ready :: "cleanup_env \<Rightarrow> unit cleanup_prog" where
  "gc_Ready env =
     bindP (require (ce_DBs env \<noteq> []) ''no databases configured'') (\<lambda>_.
     bindP (forP specs (check_collector env)) (\<lambda>_. ret ()))"

section \<open>Running collectors\<close>

record progress =
  pg_lease :: CleanupLease
  pg_start :: int
  pg_rows :: int

definition outcome_of_call :: "'a cleanup_prog \<Rightarrow> (cleanup_error + 'a) cleanup_prog" where
  "outcome_of_call m = tryP (bindP m (\<lambda>a. ret (Inr a))) (\<lambda>e. ret (Inl e))"

definition gc_finish :: "cleanup_env \<Rightarrow> CleanupLease \<Rightarrow> string \<Rightarrow> bool \<Rightarrow> unit cleanup_prog" where
  "gc_finish env l status failed = bindP (outcome_of_call (gc_Finish env l status failed)) (\<lambda>_. ret ())"

definition gc_wait :: "cleanup_env \<Rightarrow> bool cleanup_prog" where
  "gc_wait env = (\<lambda>w n s. (Inr (\<not> ce_ended env n), Suc n, s))"

definition next_limit :: "Policy \<Rightarrow> int \<Rightarrow> int" where
  "next_limit p rows = (let left = po_RunRows p - rows in if left < po_BatchRows p then left else po_BatchRows p)"

type_synonym lanes = "string \<Rightarrow> progress option"

text \<open>One look at an active collector: the lanes afterwards, and whether the pass goes on.\<close>

definition advance :: "cleanup_env \<Rightarrow> lanes \<Rightarrow> string \<Rightarrow> progress \<Rightarrow> (lanes \<times> bool) cleanup_prog" where
  "advance env active i p =
     (let policy = le_Policy (pg_lease p) in
      bindP time_now (\<lambda>t.
      if t - pg_start p \<ge> po_RunSeconds policy \<or> pg_rows p \<ge> po_RunRows policy
      then bindP (gc_finish env (pg_lease p) ''budget_exhausted'' False) (\<lambda>_. ret (active(i := None), True))
      else
        let limit = next_limit policy (pg_rows p) in
        bindP (outcome_of_call (gc_Batch env (pg_lease p) limit)) (\<lambda>res.
        case res of
          Inl e \<Rightarrow>
            if e = ErrRateLimited then ret (active, True)
            else
              bindP (if e \<noteq> ErrConflict then gc_finish env (pg_lease p) ''retryable_failure'' True else ret ()) (\<lambda>_.
              bindP (gc_wait env) (\<lambda>go. ret (active(i := None), go)))
        | Inr rows \<Rightarrow>
            if int rows < limit
            then
              bindP (gc_finish env (pg_lease p) ''exhausted'' False) (\<lambda>_.
              bindP (gc_wait env) (\<lambda>go. ret (active(i := None), go)))
            else bindP (gc_wait env) (\<lambda>go. ret (active(i \<mapsto> p\<lparr>pg_rows := pg_rows p + int rows\<rparr>), go)))))"

definition begin_run :: "cleanup_env \<Rightarrow> string \<Rightarrow> lanes \<Rightarrow> string \<Rightarrow> (lanes \<times> bool) cleanup_prog" where
  "begin_run env owner active i =
     bindP (outcome_of_call (gc_Status env i)) (\<lambda>res.
     case res of
       Inl _ \<Rightarrow> ret (active, True)
     | Inr st \<Rightarrow>
         if gs_Owner st \<noteq> ''gorge'' then ret (active, True)
         else
           bindP (outcome_of_call (gc_Claim env i owner False)) (\<lambda>claimed.
           case claimed of
             Inl _ \<Rightarrow> ret (active, True)
           | Inr lease \<Rightarrow>
               bindP time_now (\<lambda>t.
               let p = \<lparr>pg_lease = lease, pg_start = t, pg_rows = 0\<rparr> in
               bindP (outcome_of_call (ValidateSchema env i)) (\<lambda>valid.
               case valid of
                 Inl _ \<Rightarrow> bindP (gc_finish env lease ''retryable_failure'' True) (\<lambda>_. ret (active(i := None), True))
               | Inr _ \<Rightarrow> advance env (active(i \<mapsto> p)) i p))))"

definition run_spec :: "cleanup_env \<Rightarrow> string \<Rightarrow> lanes \<Rightarrow> Spec \<Rightarrow> (lanes \<times> bool) cleanup_prog" where
  "run_spec env owner active spec =
     (if sp_Role spec \<notin> set (ce_DBs env) then ret (active, True)
      else
        bindP (gc_wait env) (\<lambda>go.
        if \<not> go then ret (active, False)
        else
          case active (sp_ID spec) of
            None \<Rightarrow> begin_run env owner active (sp_ID spec)
          | Some p \<Rightarrow> advance env active (sp_ID spec) p))"

text \<open>One pass of \<open>Run\<close> over the registry; \<open>Run\<close> repeats it until its context ends.\<close>

fun run_pass :: "cleanup_env \<Rightarrow> string \<Rightarrow> Spec list \<Rightarrow> lanes \<Rightarrow> lanes cleanup_prog" where
  "run_pass env owner [] active = ret active"
| "run_pass env owner (spec # rest) active =
     bindP (run_spec env owner active spec) (\<lambda>(active', go). if go then run_pass env owner rest active' else ret active')"

definition finished :: "cleanup_env \<Rightarrow> CleanupLease \<Rightarrow> string \<Rightarrow> int \<Rightarrow> (int \<times> cleanup_error option) option cleanup_prog" where
  "finished env l status rows =
     bindP (outcome_of_call (gc_Finish env l status False)) (\<lambda>res.
     ret (Some (rows, case res of Inl e \<Rightarrow> Some e | Inr _ \<Rightarrow> None)))"

text \<open>The loop of \<open>RunOnce\<close>: the rows and the error it returns, \<open>None\<close> if \<open>k\<close> rounds are not enough.\<close>

fun once_loop :: "cleanup_env \<Rightarrow> CleanupLease \<Rightarrow> int \<Rightarrow> nat \<Rightarrow> int \<Rightarrow> (int \<times> cleanup_error option) option cleanup_prog" where
  "once_loop env l start 0 rows = ret None"
| "once_loop env l start (Suc k) rows =
     bindP time_now (\<lambda>t.
     let limit = next_limit (le_Policy l) rows in
     if limit = 0 \<or> t - start \<ge> po_RunSeconds (le_Policy l) then finished env l ''budget_exhausted'' rows
     else
       bindP (outcome_of_call (gc_Batch env l limit)) (\<lambda>res.
       case res of
         Inl e \<Rightarrow>
           if e = ErrRateLimited
           then bindP (gc_wait env) (\<lambda>go. if \<not> go then ret (Some (rows, Some CleanupCancelled)) else once_loop env l start k rows)
           else bindP (gc_finish env l ''retryable_failure'' True) (\<lambda>_. ret (Some (rows, Some e)))
       | Inr n \<Rightarrow>
           if int n < limit then finished env l ''exhausted'' (rows + int n)
           else
             bindP (gc_wait env) (\<lambda>go.
             if \<not> go then ret (Some (rows + int n, Some CleanupCancelled)) else once_loop env l start k (rows + int n))))"

definition RunOnce :: "cleanup_env \<Rightarrow> string \<Rightarrow> nat \<Rightarrow> string \<Rightarrow> (int \<times> cleanup_error option) option cleanup_prog" where
  "RunOnce env token k i =
     tryP
       (bindP (ValidateSchema env i) (\<lambda>_.
        bindP (gc_Claim env i token True) (\<lambda>l.
        bindP time_now (\<lambda>start. once_loop env l start k 0))))
       (\<lambda>e. ret (Some (0, Some e)))"

end
