(* ===== verification/Cleanup_Facts.thy ===== *)
theory Cleanup_Facts
  imports Cleanup
begin

text \<open>
  Facts about cleanup: what a batch that commits has done, the steps of any number of instances next to the
  application, that the fence of a collector only rises, and that a run is a bounded sequence of such steps.
\<close>

section \<open>What the calls do\<close>

lemma cleanup_tx_cases:
  assumes "cleanup_tx body w n s = (r, n', s')"
  obtains (undone) e where "s' = s" "r = Inl e"
  | (commit) a n1 where "body w (Suc n) s = (Inr a, n1, s')" "r = Inr a \<or> r = Inl (CleanupDb ''tx'')"
  using transaction_atomic [OF assms] by blast

text \<open>Taking a successful run of a body apart.\<close>

lemma lockE:
  assumes "bindP (gc_lock role i) f w n s = (Inr a, n', s')"
  obtains st where "gc_control s role i = Some st" "f st w (Suc n) s = (Inr a, n', s')"
  using assms by (auto simp: gc_lock_def stmt_def bindP_def split: fault.splits option.splits)

lemma nowE:
  assumes "bindP gc_now f w n s = (Inr a, n', s')"
  obtains "f (w_clock w (Suc n)) w (Suc (Suc n)) s = (Inr a, n', s')"
  using assms by (auto simp: gc_now_def stmt_def bindP_def split: fault.splits)

lemma updateE:
  assumes "update_control role i f w n s = (Inr u, n', s')"
  obtains "s' = set_control role i f s"
  using assms by (auto simp: update_control_def stmt_def split: fault.splits)

lemma update_bindE:
  assumes "bindP (update_control role i f) g w n s = (Inr a, n', s')"
  obtains "g () w (Suc n) (set_control role i f s) = (Inr a, n', s')"
  using assms by (auto simp: update_control_def stmt_def bindP_def split: fault.splits)

lemma insert_bindE:
  assumes "bindP (insert_control role i st) g w n s = (Inr a, n', s')"
  obtains "gc_control s role i \<noteq> None" "g () w (Suc n) s = (Inr a, n', s')"
  | "gc_control s role i = None"
    "g () w (Suc n) (s\<lparr>gc_control := (gc_control s)(role := (gc_control s role)(i \<mapsto> st))\<rparr>) = (Inr a, n', s')"
  using assms by (auto simp: insert_control_def stmt_def bindP_def split: fault.splits option.splits)

lemma read_bindE:
  assumes "bindP m f w n s = (Inr a, n', s')" "\<And>n. final (m w n s) = s"
  obtains b n1 where "f b w n1 s = (Inr a, n', s')"
  using assms bindP_ok [OF assms(1)] by (metis snd_conv)

lemma guardE:
  assumes "(if b then raise e else m) w n s = (Inr a, n', s')"
  obtains "\<not> b" "m w n s = (Inr a, n', s')"
  using assms by (auto split: if_splits)

lemma decodedE:
  assumes "(case x of Inl e \<Rightarrow> raise e | Inr p \<Rightarrow> f p) w n s = (Inr a, n', s')"
  obtains p where "x = Inr p" "f p w n s = (Inr a, n', s')"
  using assms by (cases x) auto

lemmas body_elims = lockE nowE update_bindE guardE decodedE

lemma Store_db_cases:
  assumes "bindP (Store_db env i) f w n s = (r, n', s')"
  obtains (missing) e where "s' = s" "r = Inl e"
  | (found) spec where "Lookup i = Some spec" "f spec w n s = (r, n', s')"
  using assms by (auto simp: Store_db_def bindP_def split: option.splits if_splits)

lemma claim_body_ok:
  assumes "claim_body env spec i owner force w n s = (Inr a, n', s')"
  obtains st p t where "gc_control s (sp_Role spec) i = Some st" "decodeState env i st = Inr p" "gs_Owner st = ''gorge''"
    "po_Mode p \<noteq> ''indefinite''" "gs_LeaseExpires st \<le> t" "s' = set_control (sp_Role spec) i (claim_state owner (t + 15) (cutoff_of p t)) s"
    "a = \<lparr>le_ID = i, le_Owner = owner, le_Epoch = gs_Epoch st, le_Fence = gs_Fence st + 1, le_Cutoff = cutoff_of p t, le_Policy = p\<rparr>"
    "t = w_clock w (n + 2)"
  using assms unfolding claim_body_def by (elim body_elims) (rule that [where t = "w_clock w (Suc (Suc n))"], assumption+, simp_all)

text \<open>A call on a lease or a collector either leaves everything as it was, or is a committed body.\<close>

lemma cleanup_call_cases:
  assumes "(if early then raise e0 else bindP (Store_db env i) (\<lambda>spec. cleanup_tx (body spec))) w n s = (r, n', s')"
  obtains (undone) e where "s' = s" "r = Inl e"
  | (commit) spec a n1 where "Lookup i = Some spec" "\<not> early" "body spec w (Suc n) s = (Inr a, n1, s')" "r = Inr a \<or> r = Inl (CleanupDb ''tx'')"
proof (cases early)
  case True
  then show ?thesis using assms undone by auto
next
  case False
  then have "bindP (Store_db env i) (\<lambda>spec. cleanup_tx (body spec)) w n s = (r, n', s')" using assms by simp
  then show ?thesis
  proof (cases rule: Store_db_cases)
    case (found spec)
    from found(2) show ?thesis by (cases rule: cleanup_tx_cases) (use undone commit [OF found(1) False] in blast)+
  qed (use undone in blast)
qed

lemma gc_Claim_cases:
  assumes "gc_Claim env i owner force w n s = (r, n', s')"
  obtains (failed) e where "s' = s" "r = Inl e"
  | (claimed) spec st p t where "Lookup i = Some spec" "gc_control s (sp_Role spec) i = Some st" "decodeState env i st = Inr p"
      "gs_Owner st = ''gorge''" "po_Mode p \<noteq> ''indefinite''" "gs_LeaseExpires st \<le> t"
      "s' = set_control (sp_Role spec) i (claim_state owner (t + 15) (cutoff_of p t)) s"
      "r = Inr \<lparr>le_ID = i, le_Owner = owner, le_Epoch = gs_Epoch st, le_Fence = gs_Fence st + 1, le_Cutoff = cutoff_of p t, le_Policy = p\<rparr> \<or>
       r = Inl (CleanupDb ''tx'')"
      "t = w_clock w (n + 3)"
  using assms [unfolded gc_Claim_def]
proof (cases rule: cleanup_call_cases)
  case (commit spec a n1)
  from commit(3) show ?thesis by (cases rule: claim_body_ok) (use claimed [OF commit(1)] commit(4) in \<open>simp add: eval_nat_numeral\<close>)
qed (use failed in blast)

section \<open>Batches\<close>

abbreviation gone_ids :: "Spec \<Rightarrow> int \<Rightarrow> int \<Rightarrow> cleanup_db \<Rightarrow> nat set" where
  "gone_ids spec cutoff limit s \<equiv> tr_id ` set (first_expired spec cutoff (nat limit) (gc_target s (sp_Table spec)))"

definition fences_up :: "cleanup_db \<Rightarrow> cleanup_db \<Rightarrow> bool" where
  "fences_up s s' \<longleftrightarrow> (\<forall>role i st. gc_control s role i = Some st \<longrightarrow> (\<exists>st'. gc_control s' role i = Some st' \<and> gs_Fence st \<le> gs_Fence st'))"

lemma fences_refl [simp]: "fences_up s s"
  by (simp add: fences_up_def)

lemma fences_trans: "fences_up s s' \<Longrightarrow> fences_up s' s'' \<Longrightarrow> fences_up s s''"
  unfolding fences_up_def by (meson le_trans)

lemma fences_set: "(\<And>st. gs_Fence st \<le> gs_Fence (f st)) \<Longrightarrow> fences_up s (set_control role i f s)"
  by (auto simp: fences_up_def set_control_def)

lemma fences_insert:
  "gc_control s role i = None \<Longrightarrow> fences_up s (s\<lparr>gc_control := (gc_control s)(role := (gc_control s role)(i \<mapsto> st))\<rparr>)"
  by (auto simp: fences_up_def)

lemma fences_target [simp]: "fences_up s (s\<lparr>gc_target := x\<rparr>)"
  by (simp add: fences_up_def)

lemma state_fences [simp]:
  "gs_Fence (batch_state rows n st) = gs_Fence st" "gs_Fence (finish_state l status failed n st) = gs_Fence st"
  "gs_Fence (claim_state owner e c st) = gs_Fence st + 1" "gs_Fence (owner_state owner st) = gs_Fence st + 1"
  "gs_Fence (import_state b h st) = gs_Fence st + 1"
  by (simp_all add: batch_state_def finish_state_def Let_def claim_state_def owner_state_def import_state_def)

lemma target_set [simp]: "gc_target (set_control role i f s) = gc_target s"
  by (simp add: set_control_def)

lemma deleteE:
  assumes "bindP (stmt err (delete_expired spec c k)) f w n s = (Inr a, n', s')"
  obtains "f (length (first_expired spec c k (gc_target s (sp_Table spec)))) w (Suc n) (snd (delete_expired spec c k s)) = (Inr a, n', s')"
  using assms by (auto simp: stmt_def bindP_def delete_expired_def Let_def split: fault.splits)

lemma delete_sel:
  "gc_control (snd (delete_expired spec c k s)) = gc_control s"
  "gc_target (snd (delete_expired spec c k s)) = (gc_target s)(sp_Table spec :=
     filter (\<lambda>r. tr_id r \<notin> tr_id ` set (first_expired spec c k (gc_target s (sp_Table spec)))) (gc_target s (sp_Table spec)))"
  by (simp_all add: delete_expired_def Let_def)

lemma db_micros_reads: "final (db_micros env w n s) = s"
  by (simp add: db_micros_def stmt_def split: fault.split)

lemma validateDeletePlan_reads: "final (validateDeletePlan env w n s) = s"
  by (simp add: validateDeletePlan_def stmt_def split: fault.split)

definition batch_effect :: "Spec \<Rightarrow> CleanupLease \<Rightarrow> int \<Rightarrow> cleanup_db \<Rightarrow> cleanup_db \<Rightarrow> bool" where
  "batch_effect spec l limit s s' \<longleftrightarrow> fences_up s s' \<and>
     gc_target s' = (gc_target s)(sp_Table spec :=
       filter (\<lambda>r. tr_id r \<notin> gone_ids spec (le_Cutoff l) limit s) (gc_target s (sp_Table spec)))"

lemma batch_tail:
  assumes "bindP (db_micros env) (\<lambda>clock.
     if gs_Cutoff budget > clock then raise ErrRateLimited
     else
       bindP (validateDeletePlan env) (\<lambda>_.
       bindP (stmt (CleanupDb ''delete'') (delete_expired spec (le_Cutoff l) (nat limit))) (\<lambda>rows.
       bindP (update_control role (le_ID l) (batch_state rows t)) (\<lambda>_.
       bindP (db_micros env) (\<lambda>clock'.
       bindP (update_control role budget_row (\<lambda>b. b\<lparr>gs_Cutoff := clock' + 200000\<rparr>)) (\<lambda>_.
       ret rows)))))) w n s = (Inr a, n', s')"
  shows "batch_effect spec l limit s s' \<and> a = length (first_expired spec (le_Cutoff l) (nat limit) (gc_target s (sp_Table spec)))"
  using assms
  by (elim read_bindE [OF _ db_micros_reads] guardE read_bindE [OF _ validateDeletePlan_reads] deleteE update_bindE)
    (auto simp: batch_effect_def delete_sel intro!: fences_trans [OF _ fences_set] simp: delete_expired_def Let_def)

lemma batch_body_ok:
  assumes "batch_body env spec l limit w n s = (Inr a, n', s')"
  obtains st t where "gc_control s (sp_Role spec) (le_ID l) = Some st" "checkLease st l t" "decodeState env (le_ID l) st = Inr (le_Policy l)"
    "batch_effect spec l limit s s'" "a = length (first_expired spec (le_Cutoff l) (nat limit) (gc_target s (sp_Table spec)))"
    "t = w_clock w (n + 2)"
proof -
  let ?row = "fresh_State ''paused'' ''{}'' []"
  let ?s = "\<lambda>s. s\<lparr>gc_control := (gc_control s)(sp_Role spec := (gc_control s (sp_Role spec))(budget_row \<mapsto> ?row))\<rparr>"
  obtain st where st: "gc_control s (sp_Role spec) (le_ID l) = Some st" "checkLease st l (w_clock w (Suc (Suc n)))"
      "decodeState env (le_ID l) st = Inr (le_Policy l)"
    and eff: "batch_effect spec l limit s s' \<and> a = length (first_expired spec (le_Cutoff l) (nat limit) (gc_target s (sp_Table spec))) \<or>
      gc_control s (sp_Role spec) budget_row = None \<and> batch_effect spec l limit (?s s) s' \<and>
      a = length (first_expired spec (le_Cutoff l) (nat limit) (gc_target s (sp_Table spec)))"
    using assms unfolding batch_body_def
    by (elim body_elims insert_bindE) (auto dest!: batch_tail)
  then have "batch_effect spec l limit s s'" "a = length (first_expired spec (le_Cutoff l) (nat limit) (gc_target s (sp_Table spec)))"
    by (auto simp: batch_effect_def intro: fences_trans [OF fences_insert])
  then show ?thesis using that [of st "w_clock w (n + 2)"] st by simp
qed

lemma first_expired_sub:
  "set (first_expired spec c k rows) \<subseteq> {r \<in> set rows. expired_row (sp_Column spec) c r}" "length (first_expired spec c k rows) \<le> k"
  by (auto simp: first_expired_def dest!: in_set_takeD)

lemma first_expired_oldest:
  assumes "r \<in> set (first_expired spec c k rows)" "r' \<in> set rows" "expired_row (sp_Column spec) c r'" "r' \<notin> set (first_expired spec c k rows)"
  shows "the (tr_column r (sp_Column spec)) \<le> the (tr_column r' (sp_Column spec))"
  using assms sort_key_take_le [of r k "\<lambda>r. the (tr_column r (sp_Column spec))" "sort_key tr_id (filter (expired_row (sp_Column spec) c) rows)" r']
  unfolding first_expired_def by simp

lemma removed_length:
  assumes "distinct (map f xs)" "set ys \<subseteq> set xs" "distinct (map f ys)"
  shows "length (filter (\<lambda>x. f x \<notin> f ` set ys) xs) + length ys = length xs"
proof -
  have inj: "inj_on f (set xs)" and dx: "distinct xs" and dy: "distinct ys" using assms(1,3) by (simp_all add: distinct_map)
  have "f x \<in> f ` set ys \<longleftrightarrow> x \<in> set ys" if "x \<in> set xs" for x
    using inj assms(2) that by (auto dest: inj_onD)
  then have "filter (\<lambda>x. f x \<notin> f ` set ys) xs = filter (\<lambda>x. x \<notin> set ys) xs" by (auto cong: filter_cong)
  moreover have "length (filter (\<lambda>x. x \<notin> set ys) xs) + length (filter (\<lambda>x. x \<in> set ys) xs) = length xs"
    using sum_length_filter_compl [of "\<lambda>x. x \<in> set ys" xs] by simp
  moreover have "length (filter (\<lambda>x. x \<in> set ys) xs) = length ys"
  proof -
    have "set (filter (\<lambda>x. x \<in> set ys) xs) = set ys" using assms(2) by auto
    then show ?thesis using distinct_card [OF dy] distinct_card [OF distinct_filter [OF dx]] by metis
  qed
  ultimately show ?thesis by simp
qed

lemma first_expired_distinct:
  "distinct (map tr_id rows) \<Longrightarrow> distinct (map tr_id (first_expired spec c k rows))"
  unfolding first_expired_def take_map [symmetric]
  by (intro distinct_take) (simp add: distinct_map inj_on_def)

section \<open>Interleaved steps\<close>

text \<open>The calls of the instances of the service.\<close>

inductive service_step :: "cleanup_env \<Rightarrow> cleanup_db \<Rightarrow> cleanup_db \<Rightarrow> bool" for env where
  Claiming: "gc_Claim env i owner force w n s = (r, n', s') \<Longrightarrow> service_step env s s'"
| Batching: "gc_Batch env l limit w n s = (r, n', s') \<Longrightarrow> service_step env s s'"
| Finishing: "gc_Finish env l status failed w n s = (r, n', s') \<Longrightarrow> service_step env s s'"
| Owning: "gc_SetOwner env i owner w n s = (r, n', s') \<Longrightarrow> service_step env s s'"
| Importing: "gc_Import env p w n s = (r, n', s') \<Longrightarrow> service_step env s s'"

text \<open>
  What happens next to them: the application writes the cleaned tables, and the other owner of the control rows may
  change them but never takes a fence back.
\<close>

inductive cleanup_step :: "cleanup_env \<Rightarrow> cleanup_db \<Rightarrow> cleanup_db \<Rightarrow> bool" for env where
  Service: "service_step env s s' \<Longrightarrow> cleanup_step env s s'"
| Outside: "fences_up s s' \<Longrightarrow> cleanup_step env s s'"

lemma gc_Batch_cases:
  assumes "gc_Batch env l limit w n s = (r, n', s')"
  obtains (undone) e where "s' = s" "r = Inl e"
  | (commit) spec st t where "Lookup (le_ID l) = Some spec" "1 \<le> limit" "limit \<le> po_BatchRows (le_Policy l)" "Validate (le_Policy l)"
      "gc_control s (sp_Role spec) (le_ID l) = Some st" "checkLease st l t" "batch_effect spec l limit s s'"
      "r = Inr (length (first_expired spec (le_Cutoff l) (nat limit) (gc_target s (sp_Table spec)))) \<or> r = Inl (CleanupDb ''tx'')"
      "t = w_clock w (n + 3)"
proof (cases "Validate (le_Policy l)")
  case True
  then have "(if limit < 1 \<or> limit > po_BatchRows (le_Policy l) then raise (CleanupInvalid ''invalid batch limit'')
      else bindP (Store_db env (le_ID l)) (\<lambda>spec. cleanup_tx (batch_body env spec l limit))) w n s = (r, n', s')"
    using assms by (simp add: gc_Batch_def)
  then show ?thesis
  proof (cases rule: cleanup_call_cases)
    case (commit spec a n1)
    from commit(3) show ?thesis
      by (cases rule: batch_body_ok) (use that(2) [OF commit(1)] commit(2,4) True in \<open>force simp: eval_nat_numeral\<close>)
  qed (use undone in blast)
qed (use assms undone in \<open>auto simp: gc_Batch_def\<close>)

lemma gc_Finish_cases:
  assumes "gc_Finish env l status failed w n s = (r, n', s')"
  obtains (undone) e where "s' = s" "r = Inl e"
  | (commit) spec st t where "Lookup (le_ID l) = Some spec" "gc_control s (sp_Role spec) (le_ID l) = Some st" "checkLease st l t"
      "s' = set_control (sp_Role spec) (le_ID l) (finish_state l status failed t) s"
  using assms [unfolded gc_Finish_def]
proof (cases rule: cleanup_call_cases)
  case (commit spec a n1)
  from commit(3) show ?thesis
    unfolding finish_body_def by (elim body_elims updateE) (use that(2) [OF commit(1)] in blast)
qed (use undone in blast)

lemma gc_SetOwner_cases:
  assumes "gc_SetOwner env i owner w n s = (r, n', s')"
  obtains (undone) e where "s' = s" "r = Inl e"
  | (commit) spec st where "Lookup i = Some spec" "gc_control s (sp_Role spec) i = Some st"
      "s' = set_control (sp_Role spec) i (owner_state owner) s"
  using assms [unfolded gc_SetOwner_def]
proof (cases rule: cleanup_call_cases)
  case (commit spec a n1)
  from commit(3) show ?thesis
    unfolding owner_body_def by (elim body_elims updateE) (use that(2) [OF commit(1)] in blast)
qed (use undone in blast)

lemma gc_Import_cases:
  assumes "gc_Import env p w n s = (r, n', s')"
  obtains (undone) e where "s' = s" "r = Inl e"
  | (commit) spec st s1 b h where "Lookup (po_ID p) = Some spec" "fences_up s s1" "gc_control s1 (sp_Role spec) (po_ID p) = Some st"
      "s' = set_control (sp_Role spec) (po_ID p) (import_state b h) s1"
  using assms [unfolded gc_Import_def Let_def]
proof (cases rule: cleanup_call_cases)
  case (commit spec a n1)
  from commit(3) show ?thesis
    unfolding import_body_def
    by (elim insert_bindE body_elims updateE) ((rule that(2) [OF commit(1) fences_refl], assumption, assumption) |
      (rule that(2) [OF commit(1) fences_insert], assumption, assumption, assumption))+
qed (use undone in blast)

lemma service_fences: "service_step env s s' \<Longrightarrow> fences_up s s'"
proof (induction rule: service_step.induct)
  case (Claiming i owner force w n s r n' s')
  then show ?case by (cases rule: gc_Claim_cases) (simp_all add: fences_set)
next
  case (Batching l limit w n s r n' s')
  then show ?case by (cases rule: gc_Batch_cases) (simp_all add: batch_effect_def)
next
  case (Finishing l status failed w n s r n' s')
  then show ?case by (cases rule: gc_Finish_cases) (simp_all add: fences_set)
next
  case (Owning i owner w n s r n' s')
  then show ?case by (cases rule: gc_SetOwner_cases) (simp_all add: fences_set)
next
  case (Importing p w n s r n' s')
  then show ?case by (cases rule: gc_Import_cases) (auto intro: fences_trans [OF _ fences_set])
qed

lemma step_fences: "cleanup_step env s s' \<Longrightarrow> fences_up s s'"
  by (auto elim: cleanup_step.cases intro: service_fences)

lemma steps_fences: "(cleanup_step env)\<^sup>*\<^sup>* s s' \<Longrightarrow> fences_up s s'"
  by (induction rule: rtranclp_induct) (auto intro: fences_trans step_fences)

section \<open>Overtaken leases\<close>

definition fence_at :: "string \<Rightarrow> cleanup_db \<Rightarrow> nat option" where
  "fence_at i s = (case Lookup i of None \<Rightarrow> None | Some spec \<Rightarrow> map_option gs_Fence (gc_control s (sp_Role spec) i))"

lemma fence_at_up: "fences_up s s' \<Longrightarrow> fence_at i s = Some f \<Longrightarrow> \<exists>f'. fence_at i s' = Some f' \<and> f \<le> f'"
  by (fastforce simp: fence_at_def fences_up_def split: option.splits)

lemma fence_at_set:
  "Lookup i = Some spec \<Longrightarrow> gc_control s (sp_Role spec) i = Some st \<Longrightarrow>
   fence_at i (set_control (sp_Role spec) i f s) = Some (gs_Fence (f st))"
  by (simp add: fence_at_def set_control_def)

text \<open>A claim, a change of owner and an import raise the fence.\<close>

definition fence_rises :: "cleanup_env \<Rightarrow> string \<Rightarrow> cleanup_db \<Rightarrow> cleanup_db \<Rightarrow> bool" where
  "fence_rises env i s s' \<longleftrightarrow> (\<exists>owner force l w n n'. gc_Claim env i owner force w n s = (Inr l, n', s')) \<or>
     (\<exists>owner w n n'. gc_SetOwner env i owner w n s = (Inr (), n', s')) \<or>
     (\<exists>p w n n'. po_ID p = i \<and> gc_Import env p w n s = (Inr (), n', s'))"

lemma rises_fence:
  assumes "fence_rises env i s s'" "fence_at i s = Some f"
  shows "\<exists>f'. fence_at i s' = Some f' \<and> f < f'"
  using assms(1) unfolding fence_rises_def
proof (elim disjE exE conjE)
  fix owner force l w n n' assume "gc_Claim env i owner force w n s = (Inr l, n', s')"
  then show ?thesis by (cases rule: gc_Claim_cases) (use assms(2) in \<open>auto simp: fence_at_def set_control_def\<close>)
next
  fix owner w n n' assume "gc_SetOwner env i owner w n s = (Inr (), n', s')"
  then show ?thesis by (cases rule: gc_SetOwner_cases) (use assms(2) in \<open>auto simp: fence_at_def set_control_def\<close>)
next
  fix p w n n' assume p: "po_ID p = i" "gc_Import env p w n s = (Inr (), n', s')"
  from p(2) show ?thesis
  proof (cases rule: gc_Import_cases)
    case (commit spec st s1 b h)
    obtain f1 where f1: "fence_at i s1 = Some f1" "f \<le> f1" using fence_at_up [OF commit(2) assms(2)] by blast
    then have "gs_Fence st = f1" using commit(1,3) p(1) by (simp add: fence_at_def)
    then show ?thesis using commit(4) fence_at_set [OF commit(1,3)] p(1) f1(2) by simp
  qed simp
qed

lemma claimed_fence: "gc_Claim env i owner force w n s = (Inr l, n', s') \<Longrightarrow> fence_at i s' = Some (le_Fence l) \<and> le_ID l = i"
  by (erule gc_Claim_cases) (auto simp: fence_at_set)

lemma overtaken_stuck:
  assumes "fence_at (le_ID l) s = Some f" "le_Fence l < f"
  shows "\<exists>e n'. gc_Batch env l limit w n s = (Inl e, n', s)" "\<exists>e n'. gc_Finish env l status failed w n s = (Inl e, n', s)"
proof -
  have no: "\<not> checkLease st l t" if "Lookup (le_ID l) = Some spec" "gc_control s (sp_Role spec) (le_ID l) = Some st" for spec st t
    using assms that by (auto simp: fence_at_def checkLease_def)
  obtain r n' s' where b: "gc_Batch env l limit w n s = (r, n', s')" by (cases "gc_Batch env l limit w n s")
  then show "\<exists>e n'. gc_Batch env l limit w n s = (Inl e, n', s)" by (cases rule: gc_Batch_cases) (use no b in auto)
  obtain r n' s' where b: "gc_Finish env l status failed w n s = (r, n', s')" by (cases "gc_Finish env l status failed w n s")
  then show "\<exists>e n'. gc_Finish env l status failed w n s = (Inl e, n', s)" by (cases rule: gc_Finish_cases) (use no b in auto)
qed

section \<open>Runs\<close>

abbreviation stepping :: "cleanup_env \<Rightarrow> cleanup_db \<Rightarrow> 'a cleanup_prog \<Rightarrow> bool" where
  "stepping env s0 m \<equiv> preserves ((service_step env)\<^sup>*\<^sup>* s0) m"

lemma stepping_call:
  assumes "\<And>w n s r n' s'. m w n s = (r, n', s') \<Longrightarrow> service_step env s s'"
  shows "stepping env s0 m"
  by (rule hoareI) (use assms in \<open>auto intro: rtranclp.rtrancl_into_rtrancl\<close>)

lemma stepping_read: "(\<And>w n s. final (m w n s) = s) \<Longrightarrow> stepping env s0 m"
  unfolding hoare_def by (auto split: prod.splits sum.splits) (metis snd_conv)+

lemma stepping_calls:
  "stepping env s0 (gc_Claim env i owner force)" "stepping env s0 (gc_Batch env l limit)" "stepping env s0 (gc_Finish env l status failed)"
  by (rule stepping_call, erule Claiming Batching Finishing)+

abbreviation runs :: "('s \<Rightarrow> bool) \<Rightarrow> ('s, 'e, 'a) prog \<Rightarrow> ('a \<Rightarrow> bool) \<Rightarrow> bool" where
  "runs I m Q \<equiv> hoare I m (\<lambda>a s. I s \<and> Q a) (\<lambda>_ _. False)"

lemma runs_ret: "Q a \<Longrightarrow> runs I (ret a) Q"
  by (simp add: hoare_def)

lemma runs_bind:
  assumes "runs I m R" "\<And>a. R a \<Longrightarrow> runs I (f a) Q"
  shows "runs I (bindP m f) Q"
  by (rule hoare_bind [OF assms(1)]) (rule hoare_assume, erule assms(2))

lemma runs_outcome:
  assumes "hoare I m (\<lambda>a s. I s \<and> Q a) (\<lambda>_. I)"
  shows "runs I (outcome_of_call m) (\<lambda>res. \<forall>a. res = Inr a \<longrightarrow> Q a)"
  unfolding outcome_of_call_def by (rule hoare_tryP [OF hoare_bind [OF assms]]) (auto simp: hoare_def)

lemma runs_outcome': "preserves I m \<Longrightarrow> runs I (outcome_of_call m) (\<lambda>_. True)"
  by (rule hoare_weaken [OF runs_outcome [where Q = "\<lambda>_. True"]]) (auto elim: hoare_weaken)

lemma runs_read: "(\<And>w n s. \<exists>a n'. m w n s = (Inr a, n', s)) \<Longrightarrow> runs I m (\<lambda>_. True)"
  unfolding hoare_def by (auto split: prod.splits sum.splits) (metis Pair_inject sum.distinct(1) snd_conv)+

lemma reads:
  "final (Store_db env i w n s) = s" "final (ask f env w n s) = s" "final (require b msg w n s) = s" "final (gc_lock role i w n s) = s"
  "final (gc_wait env w n s) = s" "final (time_now w n s) = s" "final (validateDeletePlan env w n s) = s"
  by (simp_all add: Store_db_def ask_def require_def gc_lock_def gc_wait_def validateDeletePlan_def stmt_def split: option.split fault.split)

lemma gc_Status_steps: "stepping env s0 (gc_Status env i)"
  unfolding gc_Status_def by (intro preserves_rules stepping_read reads)

lemma check_engine_steps: "stepping env s0 (check_engine env name)"
  unfolding check_engine_def by (intro preserves_rules stepping_read reads)

lemma ValidateSchema_steps: "stepping env s0 (ValidateSchema env i)"
  unfolding ValidateSchema_def
  by (intro preserves_bind preserves_forP check_engine_steps stepping_read reads)

abbreviation stepped :: "cleanup_env \<Rightarrow> cleanup_db \<Rightarrow> cleanup_db \<Rightarrow> bool" where
  "stepped env \<equiv> (service_step env)\<^sup>*\<^sup>*"

lemma gc_finish_runs: "runs (stepped env s0) (gc_finish env l status failed) (\<lambda>_. True)"
  unfolding gc_finish_def by (rule runs_bind [OF runs_outcome' [OF stepping_calls(3)]]) (rule runs_ret, simp)

lemma batch_runs:
  "runs (stepped env s0) (outcome_of_call (gc_Batch env l limit)) (\<lambda>res. \<forall>k. res = Inr k \<longrightarrow> 1 \<le> limit \<and> int k \<le> limit)"
proof (rule runs_outcome, rule hoareI)
  fix w n s k n' s'
  assume s: "stepped env s0 s" and run: "gc_Batch env l limit w n s = (Inr k, n', s')"
  from run have "1 \<le> limit \<and> int k \<le> limit"
    by (cases rule: gc_Batch_cases) (use first_expired_sub(2) [of _ "le_Cutoff l" "nat limit"] in \<open>auto simp: le_nat_iff\<close>)
  then show "stepped env s0 s' \<and> 1 \<le> limit \<and> int k \<le> limit"
    using s Batching [OF run] by (auto intro: rtranclp.rtrancl_into_rtrancl)
next
  fix w n s e n' s'
  assume "stepped env s0 s" "gc_Batch env l limit w n s = (Inl e, n', s')"
  then show "stepped env s0 s'" by (auto intro: rtranclp.rtrancl_into_rtrancl Batching)
qed

lemma quiet_runs: "runs I time_now (\<lambda>_. True)" "runs I (gc_wait env) (\<lambda>_. True)"
  by (rule runs_read, simp add: gc_wait_def)+

lemma finished_runs:
  "runs (stepped env s0) (finished env l status rows) (\<lambda>res. \<exists>err. res = Some (rows, err))"
  unfolding finished_def by (rule runs_bind [OF runs_outcome' [OF stepping_calls(3)]]) (rule runs_ret, simp)

text \<open>The rows of a run stay within its budget.\<close>

definition within :: "CleanupLease \<Rightarrow> int \<Rightarrow> (int \<times> cleanup_error option) option \<Rightarrow> bool" where
  "within l rows res \<longleftrightarrow> (case res of None \<Rightarrow> True | Some (tally, _) \<Rightarrow> rows \<le> tally \<and> tally \<le> po_RunRows (le_Policy l))"

lemma within_more: "within l (rows + int k) res \<Longrightarrow> within l rows res"
  by (auto simp: within_def split: option.splits)

lemma once_loop_runs:
  "rows \<le> po_RunRows (le_Policy l) \<Longrightarrow> runs (stepped env s0) (once_loop env l start k rows) (within l rows)"
proof (induction k arbitrary: rows)
  case 0
  show ?case unfolding once_loop.simps by (rule runs_ret) (simp add: within_def)
next
  case (Suc k)
  let ?limit = "next_limit (le_Policy l) rows"
  have room: "?limit \<le> po_RunRows (le_Policy l) - rows" by (simp add: next_limit_def Let_def)
  have stop: "runs (stepped env s0) (finished env l status (rows + int n)) (within l rows)" if "int n \<le> ?limit \<or> n = 0" for status n
    by (rule hoare_weaken [OF finished_runs]) (use that room Suc.prems in \<open>auto simp: within_def\<close>)
  have again: "runs (stepped env s0) (once_loop env l start k (rows + int n)) (within l rows)" if "int n \<le> ?limit \<or> n = 0" for n
    by (rule hoare_weaken [OF Suc.IH [of "rows + int n"]]) (use that room Suc.prems in \<open>auto intro: within_more\<close>)
  have ended: "within l rows (Some (rows + int n, e))" if "int n \<le> ?limit \<or> n = 0" for n e
    using that room Suc.prems by (auto simp: within_def)
  note now = stop [of 0, simplified] again [of 0, simplified] ended [of 0, simplified]
  show ?case unfolding once_loop.simps Let_def
    apply (rule runs_bind [OF quiet_runs(1)])
    apply (rule hoare_split_if)
     apply (rule now(1))
    apply (rule runs_bind [OF batch_runs])
    subgoal for t res
      by (cases res)
        (auto intro!: runs_bind [OF quiet_runs(2)] runs_bind [OF gc_finish_runs] runs_ret stop again ended now hoare_split_if
          simp del: of_nat_less_iff)
    done
qed

section \<open>Runs end\<close>

definition forward :: "('s, 'e, 'a) prog \<Rightarrow> bool" where
  "forward m \<longleftrightarrow> (\<forall>w n s. n \<le> fst (snd (m w n s)))"

lemma forwardD: "forward m \<Longrightarrow> m w n s = (r, n', s') \<Longrightarrow> n \<le> n'"
  unfolding forward_def by (metis fst_conv snd_conv)

lemma forward_basic:
  "forward (ret a)" "forward (raise e)" "forward time_now" "forward (stmt err f)" "forward (gc_wait env)"
  by (simp_all add: forward_def stmt_def gc_wait_def split: fault.split)

lemma forwardI: "(\<And>w n s r n' s'. m w n s = (r, n', s') \<Longrightarrow> n \<le> n') \<Longrightarrow> forward m"
  unfolding forward_def by (metis prod.collapse)

lemma forward_bind:
  assumes "forward m" "\<And>a. forward (f a)"
  shows "forward (bindP m f)"
proof (rule forwardI)
  fix w n s r n' s'
  assume "bindP m f w n s = (r, n', s')"
  then show "n \<le> n'" by (cases rule: bindP_cases) (auto dest!: forwardD [OF assms(1)] forwardD [OF assms(2)])
qed

lemma forward_try:
  assumes "forward m" "\<And>e. forward (h e)"
  shows "forward (tryP m h)"
proof (rule forwardI)
  fix w n s r n' s'
  assume "tryP m h w n s = (r, n', s')"
  then show "n \<le> n'" by (cases rule: tryP_cases) (auto dest!: forwardD [OF assms(1)] forwardD [OF assms(2)])
qed

lemma forward_tx:
  assumes "forward m"
  shows "forward (transaction e f m)"
proof (rule forwardI)
  fix w n s r n' s'
  assume run: "transaction e f m w n s = (r, n', s')"
  obtain a n1 s1 where m: "m w (Suc n) s = (a, n1, s1)" by (cases "m w (Suc n) s")
  then have "Suc n \<le> n1" by (rule forwardD [OF assms])
  then show "n \<le> n'" using run m by (auto simp: transaction_def split: sum.splits fault.splits if_splits)
qed

lemma forward_cases:
  "(b \<Longrightarrow> forward m) \<Longrightarrow> (\<not> b \<Longrightarrow> forward m') \<Longrightarrow> forward (if b then m else m')"
  "forward m'' \<Longrightarrow> (\<And>x. forward (g x)) \<Longrightarrow> forward (case v of None \<Rightarrow> m'' | Some x \<Rightarrow> g x)"
  "(\<And>x. forward (h x)) \<Longrightarrow> (\<And>x. forward (h' x)) \<Longrightarrow> forward (case u of Inl x \<Rightarrow> h x | Inr x \<Rightarrow> h' x)"
  by (simp_all split: option.split sum.split)

lemma forward_clock: "forward (db_micros env)" "forward (validateDeletePlan env)"
  by (simp_all add: forward_def db_micros_def validateDeletePlan_def stmt_def split: fault.split)

lemmas forward_rules = forward_basic forward_bind forward_try forward_tx forward_cases forward_clock

lemma forward_Batch: "forward (gc_Batch env l limit)"
  unfolding gc_Batch_def Store_db_def batch_body_def gc_lock_def gc_now_def insert_control_def update_control_def
  by (intro forward_rules)

lemma forward_outcome: "forward m \<Longrightarrow> forward (outcome_of_call m)"
  unfolding outcome_of_call_def by (intro forward_rules)

lemma once_loop_ends:
  assumes "\<forall>m \<ge> N. start + po_RunSeconds (le_Policy l) \<le> w_clock w m" "N - n < k"
  shows "result (once_loop env l start k rows w n s) \<noteq> Inr None"
  using assms(2)
proof (induction k arbitrary: n rows s)
  case (Suc k)
  let ?limit = "next_limit (le_Policy l) rows"
  obtain res n1 s1 where b: "outcome_of_call (gc_Batch env l ?limit) w (Suc n) s = (res, n1, s1)"
    by (cases "outcome_of_call (gc_Batch env l ?limit) w (Suc n) s")
  have n1: "Suc n \<le> n1" by (rule forwardD [OF forward_outcome [OF forward_Batch] b])
  show ?case
  proof (cases "?limit = 0 \<or> w_clock w n - start \<ge> po_RunSeconds (le_Policy l)")
    case True
    then show ?thesis
      by (auto simp: bindP_def Let_def finished_def split: prod.split sum.split)
  next
    case False
    then have "n < N" using assms(1) by (cases "N \<le> n") auto
    then have "N - Suc n1 < k" using Suc.prems n1 by simp
    note later = Suc.IH [OF this]
    show ?thesis
    proof (cases res)
      case (Inl e)
      then show ?thesis using False b by (auto simp: bindP_def Let_def)
    next
      case (Inr out)
      show ?thesis
      proof (cases "ce_ended env n1")
        case True
        then show ?thesis using False b Inr
          by (auto simp: bindP_def Let_def gc_wait_def finished_def gc_finish_def split: sum.split prod.split)
      next
        case go: False
        then show ?thesis using False b Inr later
          by (auto simp: bindP_def Let_def gc_wait_def finished_def gc_finish_def split: sum.split prod.split)
      qed
    qed
  qed
qed simp

section \<open>Passes\<close>

definition progress_ok :: "progress \<Rightarrow> bool" where
  "progress_ok p \<longleftrightarrow> 0 \<le> pg_rows p \<and> pg_rows p \<le> po_RunRows (le_Policy (pg_lease p)) \<and> Validate (le_Policy (pg_lease p))"

definition lanes_ok :: "lanes \<Rightarrow> bool" where
  "lanes_ok active \<longleftrightarrow> (\<forall>i p. active i = Some p \<longrightarrow> progress_ok p)"

lemma lanes_drop: "lanes_ok active \<Longrightarrow> lanes_ok (active(i := None))"
  by (simp add: lanes_ok_def)

lemma lanes_set: "lanes_ok active \<Longrightarrow> progress_ok p \<Longrightarrow> lanes_ok (active(i \<mapsto> p))"
  by (simp add: lanes_ok_def)

lemma Validate_bounds:
  "Validate p \<Longrightarrow> 1 \<le> po_RunRows p \<and> po_RunRows p \<le> 10000 \<and> 1 \<le> po_BatchRows p \<and> po_BatchRows p \<le> 100 \<and> 1 \<le> po_RunSeconds p \<and>
     po_RunSeconds p \<le> 30 \<and> 0 \<le> po_RetentionSeconds p"
  by (auto simp: Validate_def split: option.splits if_splits)

lemma decodeState_valid: "decodeState env i st = Inr p \<Longrightarrow> Validate p \<and> po_ID p = i"
  by (auto simp: decodeState_def split: option.splits if_splits)

lemma claim_hoare: "hoare (stepped env s0) (gc_Claim env i owner force) (\<lambda>l s. stepped env s0 s \<and> Validate (le_Policy l)) (\<lambda>_. stepped env s0)"
proof (rule hoareI)
  fix w n s l n' s'
  assume s: "stepped env s0 s" and run: "gc_Claim env i owner force w n s = (Inr l, n', s')"
  from run have "Validate (le_Policy l)" by (cases rule: gc_Claim_cases) (auto dest: decodeState_valid)
  then show "stepped env s0 s' \<and> Validate (le_Policy l)" using s Claiming [OF run] by (auto intro: rtranclp.rtrancl_into_rtrancl)
next
  fix w n s e n' s'
  assume "stepped env s0 s" "gc_Claim env i owner force w n s = (Inl e, n', s')"
  then show "stepped env s0 s'" by (auto intro: rtranclp.rtrancl_into_rtrancl Claiming)
qed

abbreviation sound_lanes :: "lanes \<times> bool \<Rightarrow> bool" where
  "sound_lanes out \<equiv> lanes_ok (fst out)"

lemma waits: "lanes_ok active \<Longrightarrow> runs I (bindP (gc_wait env) (\<lambda>go. ret (active, go))) sound_lanes"
  by (intro runs_bind [OF quiet_runs(2)] runs_ret) simp

lemma advance_runs:
  assumes "lanes_ok active" "progress_ok p"
  shows "runs (stepped env s0) (advance env active i p) sound_lanes"
proof -
  let ?limit = "next_limit (le_Policy (pg_lease p)) (pg_rows p)"
  have room: "?limit \<le> po_RunRows (le_Policy (pg_lease p)) - pg_rows p" by (simp add: next_limit_def Let_def)
  have more: "progress_ok (p\<lparr>pg_rows := pg_rows p + int k\<rparr>)" if "int k \<le> ?limit" for k
    using that room assms(2) by (auto simp: progress_ok_def)
  have drop: "lanes_ok (active(i := None))" by (rule lanes_drop [OF assms(1)])
  show ?thesis unfolding advance_def Let_def
    apply (rule runs_bind [OF quiet_runs(1)])
    apply (rule hoare_split_if)
     apply (rule runs_bind [OF gc_finish_runs], rule runs_ret, simp add: drop)
    apply (rule runs_bind [OF batch_runs])
    subgoal for t res
      by (cases res)
        (auto intro!: hoare_split_if runs_bind [OF gc_finish_runs] runs_bind [OF runs_ret [of "\<lambda>_. True"]] waits drop lanes_set [OF assms(1) more]
          runs_ret assms(1) simp del: fun_upd_apply)
    done
qed

lemma begin_runs:
  assumes "lanes_ok active"
  shows "runs (stepped env s0) (begin_run env owner active i) sound_lanes"
  unfolding begin_run_def Let_def
  apply (rule runs_bind [OF runs_outcome' [OF gc_Status_steps]])
  subgoal for res
  proof (cases res)
    case (Inr st)
    have start: "progress_ok \<lparr>pg_lease = l, pg_start = t, pg_rows = 0\<rparr>" if "Validate (le_Policy l)" for l t
      using that Validate_bounds [OF that] by (simp add: progress_ok_def)
    show ?thesis unfolding Inr sum.case
      apply (rule hoare_split_if)
       apply (rule runs_ret, simp add: assms)
      apply (rule runs_bind [OF runs_outcome [OF claim_hoare]])
      subgoal for claimed
        by (cases claimed)
          (auto intro!: runs_ret runs_bind [OF quiet_runs(1)] runs_bind [OF runs_outcome' [OF ValidateSchema_steps]] runs_bind [OF gc_finish_runs]
            advance_runs lanes_set start lanes_drop assms simp del: fun_upd_apply split: sum.split)
      done
  qed (simp add: runs_ret assms)
  done

lemma run_spec_runs: "lanes_ok active \<Longrightarrow> runs (stepped env s0) (run_spec env owner active spec) sound_lanes"
  unfolding run_spec_def
  by (intro hoare_split_if hoare_split_option runs_ret runs_bind [OF quiet_runs(2)] begin_runs advance_runs) (auto simp: lanes_ok_def)

lemma run_pass_runs: "lanes_ok active \<Longrightarrow> runs (stepped env s0) (run_pass env owner specs' active) lanes_ok"
proof (induction specs' arbitrary: active)
  case (Cons spec rest)
  show ?case unfolding run_pass.simps
    by (rule runs_bind [OF run_spec_runs [OF Cons.prems]]) (auto intro!: Cons.IH runs_ret hoare_split_if split: prod.split)
qed (unfold run_pass.simps, rule runs_ret)

text \<open>A single run.\<close>

lemma RunOnce_runs:
  "runs (stepped env s0) (RunOnce env token k i)
     (\<lambda>res. \<forall>rows err. res = Some (rows, err) \<longrightarrow> 0 \<le> rows \<and> rows \<le> 10000)"
proof -
  let ?Q = "\<lambda>res :: (int \<times> cleanup_error option) option. \<forall>rows err. res = Some (rows, err) \<longrightarrow> 0 \<le> rows \<and> rows \<le> 10000"
  have loop: "hoare (\<lambda>s. stepped env s0 s \<and> Validate (le_Policy l)) (bindP time_now (\<lambda>start. once_loop env l start k 0))
      (\<lambda>res s. stepped env s0 s \<and> ?Q res) (\<lambda>_. stepped env s0)" for l
  proof (rule hoare_assume)
    assume v: "Validate (le_Policy l)"
    have "runs (stepped env s0) (bindP time_now (\<lambda>start. once_loop env l start k 0)) (within l 0)"
      by (rule runs_bind [OF quiet_runs(1)], rule once_loop_runs) (use Validate_bounds [OF v] in simp)
    then show "hoare (stepped env s0) (bindP time_now (\<lambda>start. once_loop env l start k 0)) (\<lambda>res s. stepped env s0 s \<and> ?Q res) (\<lambda>_. stepped env s0)"
      by (rule hoare_weaken) (use Validate_bounds [OF v] in \<open>auto simp: within_def\<close>)
  qed
  show ?thesis unfolding RunOnce_def
    by (rule hoare_tryP [OF hoare_bind [OF ValidateSchema_steps hoare_bind [OF claim_hoare loop]]]) (auto simp: hoare_def)
qed

lemma RunOnce_ends:
  assumes "\<forall>m0. \<exists>N. \<forall>m \<ge> N. w_clock w m0 + 30 \<le> w_clock w m"
  shows "\<exists>k0. \<forall>k \<ge> k0. result (RunOnce env token k i w n s) \<noteq> Inr None"
proof (cases "bindP (ValidateSchema env i) (\<lambda>_. gc_Claim env i token True) w n s" rule: prod_cases3)
  case (fields r n1 s1)
  have split: "bindP (ValidateSchema env i) (\<lambda>_. bindP (gc_Claim env i token True) f) w n s =
      bindP (bindP (ValidateSchema env i) (\<lambda>_. gc_Claim env i token True)) f w n s" for f :: "CleanupLease \<Rightarrow> (int \<times> cleanup_error option) option cleanup_prog"
    by (auto simp: bindP_def split: prod.split sum.split)
  show ?thesis
  proof (cases r)
    case (Inl e)
    then show ?thesis using fields by (simp add: RunOnce_def split tryP_def run_bind_Inl)
  next
    case (Inr l)
    have "Validate (le_Policy l)"
      using fields Inr hoareD_ok [OF claim_hoare [of env s1 i token True]] by (auto dest!: bindP_ok elim!: gc_Claim_cases dest: decodeState_valid)
    then have sec: "po_RunSeconds (le_Policy l) \<le> 30" using Validate_bounds by blast
    obtain N where N: "\<forall>m \<ge> N. w_clock w n1 + 30 \<le> w_clock w m" using assms by blast
    then have late: "\<forall>m \<ge> N. w_clock w n1 + po_RunSeconds (le_Policy l) \<le> w_clock w m" using sec by force
    have start: "bindP (bindP (ValidateSchema env i) (\<lambda>_. gc_Claim env i token True)) f w n s = f l w n1 s1"
      for f :: "CleanupLease \<Rightarrow> (int \<times> cleanup_error option) option cleanup_prog"
      using fields Inr by (simp add: bindP_def [of "bindP _ _"])
    have "result (RunOnce env token k i w n s) \<noteq> Inr None" if "Suc N \<le> k" for k
      using once_loop_ends [OF late, of "Suc n1" k env 0 s1] that fields Inr
      by (auto simp: RunOnce_def split tryP_def start bindP_def [of time_now] split: prod.split sum.split)
    then show ?thesis by blast
  qed
qed

section \<open>The budget of a run\<close>

text \<open>The rows of the table of a lease that one step takes away.\<close>

definition rows_gone :: "CleanupLease \<Rightarrow> cleanup_db \<Rightarrow> cleanup_db \<Rightarrow> int" where
  "rows_gone l s s' =
     (case Lookup (le_ID l) of
        None \<Rightarrow> 0
      | Some spec \<Rightarrow> int (length (gc_target s (sp_Table spec))) - int (length (gc_target s' (sp_Table spec))))"

definition rows_distinct :: "cleanup_db \<Rightarrow> bool" where
  "rows_distinct s \<longleftrightarrow> (\<forall>table. distinct (map tr_id (gc_target s table)))"

definition only_table :: "CleanupLease \<Rightarrow> cleanup_db \<Rightarrow> cleanup_db \<Rightarrow> bool" where
  "only_table l s s' \<longleftrightarrow> (\<forall>table. (\<forall>spec. Lookup (le_ID l) = Some spec \<longrightarrow> table \<noteq> sp_Table spec) \<longrightarrow> gc_target s' table = gc_target s table)"

lemma gone_same:
  "gc_target s2 = gc_target s1 \<Longrightarrow> rows_gone l s s2 = rows_gone l s s1 \<and> (only_table l s s2 \<longleftrightarrow> only_table l s s1)"
  "rows_gone l s s = 0" "only_table l s s"
  by (simp_all add: rows_gone_def only_table_def split: option.split)

lemma batch_gone:
  assumes "rows_distinct s" "gc_Batch env l limit w n s = (r, n', s')"
  shows "only_table l s s' \<and> 0 \<le> rows_gone l s s' \<and> (rows_gone l s s' \<noteq> 0 \<longrightarrow> rows_gone l s s' \<le> limit) \<and>
    (case r of Inr k \<Rightarrow> int k = rows_gone l s s' | Inl e \<Rightarrow> e = ErrRateLimited \<longrightarrow> rows_gone l s s' = 0)"
  using assms(2)
proof (cases rule: gc_Batch_cases)
  case (commit spec st t)
  let ?rows = "gc_target s (sp_Table spec)"
  let ?gone = "first_expired spec (le_Cutoff l) (nat limit) ?rows"
  have target: "gc_target s' = (gc_target s)(sp_Table spec := filter (\<lambda>r. tr_id r \<notin> tr_id ` set ?gone) ?rows)"
    using commit(7) by (simp add: batch_effect_def)
  have dist: "distinct (map tr_id ?rows)" using assms(1) by (simp add: rows_distinct_def)
  have "length (gc_target s' (sp_Table spec)) + length ?gone = length ?rows"
    using removed_length [OF dist, of ?gone] first_expired_sub(1) [of spec "le_Cutoff l" "nat limit" ?rows]
      first_expired_distinct [OF dist] target by auto
  then have "rows_gone l s s' = int (length ?gone)" using commit(1) by (simp add: rows_gone_def)
  moreover have "int (length ?gone) \<le> limit" using first_expired_sub(2) [of spec "le_Cutoff l" "nat limit" ?rows] commit(2) by simp
  ultimately show ?thesis using commit(1,8) target by (auto simp: only_table_def)
qed (simp add: gone_same)

lemma outcome_run: "m w n s = (r, n', s') \<Longrightarrow> outcome_of_call m w n s = (Inr r, n', s')"
  by (cases r) (simp_all add: outcome_of_call_def tryP_def bindP_def)

lemma gc_finish_run: "\<exists>n' s'. gc_finish env l status failed w n s = (Inr (), n', s') \<and> gc_target s' = gc_target s"
proof -
  obtain r n' s' where run: "gc_Finish env l status failed w n s = (r, n', s')" by (cases "gc_Finish env l status failed w n s")
  from run have "gc_target s' = gc_target s" by (cases rule: gc_Finish_cases) simp_all
  then show ?thesis using outcome_run [of "gc_Finish env l status failed", OF run] by (simp add: gc_finish_def bindP_def)
qed

text \<open>
  One look at an active collector. It deletes only rows of its own table, never more than the run has left and only within
  the run's seconds; a run that goes on has counted every row that is gone.
\<close>

definition look_ok :: "string \<Rightarrow> progress \<Rightarrow> lanes \<Rightarrow> int \<Rightarrow> cleanup_db \<Rightarrow> cleanup_db \<Rightarrow> lanes \<Rightarrow> bool" where
  "look_ok i p active now s s' active' \<longleftrightarrow>
     (let l = pg_lease p; gone = rows_gone l s s' in
      only_table l s s' \<and> 0 \<le> gone \<and> pg_rows p + gone \<le> po_RunRows (le_Policy l) \<and> gone \<le> po_BatchRows (le_Policy l) \<and>
      (gone \<noteq> 0 \<longrightarrow> now < pg_start p + po_RunSeconds (le_Policy l)) \<and>
      (\<forall>j. j \<noteq> i \<longrightarrow> active' j = active j) \<and>
      (\<forall>p'. active' i = Some p' \<longrightarrow> p' = p\<lparr>pg_rows := pg_rows p + gone\<rparr>))"

lemma look_idle:
  assumes "progress_ok p" "gc_target s' = gc_target s" "\<forall>j. j \<noteq> i \<longrightarrow> active' j = active j" "\<forall>p'. active' i = Some p' \<longrightarrow> p' = p"
  shows "look_ok i p active now s s' active'"
  using assms gone_same(1) [OF assms(2), of "pg_lease p" s] gone_same(2,3) [of "pg_lease p" s] Validate_bounds [of "le_Policy (pg_lease p)"]
  by (cases p) (auto simp: look_ok_def progress_ok_def Let_def)

lemma advance_look:
  assumes "progress_ok p" "rows_distinct s" "active i = Some p" "advance env active i p w n s = (r, n', s')"
  shows "\<exists>active' go. r = Inr (active', go) \<and> look_ok i p active (w_clock w n) s s' active'"
proof (cases "w_clock w n - pg_start p \<ge> po_RunSeconds (le_Policy (pg_lease p)) \<or> pg_rows p \<ge> po_RunRows (le_Policy (pg_lease p))")
  case True
  obtain n2 s2 where fin: "gc_finish env (pg_lease p) ''budget_exhausted'' False w (Suc n) s = (Inr (), n2, s2)" "gc_target s2 = gc_target s"
    using gc_finish_run by blast
  then show ?thesis using assms(4) True look_idle [OF assms(1) fin(2), of i "active(i := None)" active]
    by (auto simp: advance_def bindP_def Let_def)
next
  case False
  let ?l = "pg_lease p" and ?limit = "next_limit (le_Policy (pg_lease p)) (pg_rows p)"
  obtain res n1 s1 where batch: "gc_Batch env ?l ?limit w (Suc n) s = (res, n1, s1)" by (cases "gc_Batch env ?l ?limit w (Suc n) s")
  note gone = batch_gone [OF assms(2) batch]
  have room: "pg_rows p + rows_gone ?l s s1 \<le> po_RunRows (le_Policy ?l)" "rows_gone ?l s s1 \<le> po_BatchRows (le_Policy ?l)"
    using gone assms(1) False Validate_bounds [of "le_Policy ?l"] by (auto simp: next_limit_def Let_def progress_ok_def split: if_splits)
  have ok: "look_ok i p active (w_clock w n) s s2 active'" if "gc_target s2 = gc_target s1" "\<forall>j. j \<noteq> i \<longrightarrow> active' j = active j"
      "\<forall>p'. active' i = Some p' \<longrightarrow> p' = p\<lparr>pg_rows := pg_rows p + rows_gone ?l s s1\<rparr>" for s2 active'
    using that gone room False gone_same(1) [OF that(1), of ?l s] by (auto simp: look_ok_def Let_def)
  have fin: "\<exists>n2 s2. gc_finish env ?l status failed w n1 s1 = (Inr (), n2, s2) \<and> gc_target s2 = gc_target s1" for status failed
    by (rule gc_finish_run)
  show ?thesis
  proof (cases res)
    case (Inl e)
    then show ?thesis
      using assms(3,4) False batch outcome_run [of "gc_Batch env ?l ?limit", OF batch] fin [of "''retryable_failure''" True] gone
      by (auto simp: advance_def bindP_def Let_def gc_wait_def intro!: ok split: if_splits)
  next
    case (Inr k)
    then show ?thesis
      using assms(3,4) False batch outcome_run [of "gc_Batch env ?l ?limit", OF batch] fin [of "''exhausted''" False] gone
      by (auto simp: advance_def bindP_def Let_def gc_wait_def intro!: ok split: if_splits)
  qed
qed

text \<open>
  The looks of one run, from its claim on, over any number of passes, with anything happening in between; \<open>d\<close> is the number of rows
  that are gone through them.
\<close>

inductive lane_looks :: "cleanup_env \<Rightarrow> string \<Rightarrow> progress \<Rightarrow> int \<Rightarrow> progress \<Rightarrow> bool" for env i p0 where
  Begin: "lane_looks env i p0 0 p0"
| Look: "lane_looks env i p0 d p \<Longrightarrow> rows_distinct s \<Longrightarrow> active i = Some p \<Longrightarrow>
    advance env active i p w n s = (Inr (active', go), n', s') \<Longrightarrow> active' i = Some p' \<Longrightarrow>
    lane_looks env i p0 (d + rows_gone (pg_lease p) s s') p'"

lemma lane_counts:
  assumes "lane_looks env i p0 d p" "progress_ok p0" "pg_rows p0 = 0"
  shows "progress_ok p \<and> pg_rows p = d \<and> pg_lease p = pg_lease p0 \<and> pg_start p = pg_start p0"
  using assms
proof (induction rule: lane_looks.induct)
  case (Look d p s active w n active' go n' s' p')
  then have p: "progress_ok p" "pg_rows p = d" "pg_lease p = pg_lease p0" "pg_start p = pg_start p0" by blast+
  have "look_ok i p active (w_clock w n) s s' active'" using advance_look [OF p(1) Look.hyps(2-4)] by simp
  then have "p' = p\<lparr>pg_rows := pg_rows p + rows_gone (pg_lease p) s s'\<rparr>" "0 \<le> rows_gone (pg_lease p) s s'"
    "pg_rows p + rows_gone (pg_lease p) s s' \<le> po_RunRows (le_Policy (pg_lease p))"
    using Look.hyps(5) by (simp_all add: look_ok_def Let_def)
  then show ?case using p by (simp add: progress_ok_def)
qed simp

end
