(* ===== verification/Cleanup_Properties.thy ===== *)
theory Cleanup_Properties
  imports Cleanup_Facts
begin

text \<open>
  The properties of cleanup and their instances on one collector that owns three rows.
\<close>

section \<open>One collector\<close>

definition markup_policy :: Policy where
  "markup_policy = \<lparr>po_ID = ''cache.markup'', po_Mode = ''retention_seconds'', po_RetentionSeconds = 100, po_IntervalSeconds = 60,
     po_BatchRows = 2, po_BatchTimeoutMS = 100, po_RunSeconds = 1, po_RunRows = 10, po_Revision = ''r''\<rparr>"

definition markup_env :: cleanup_env where
  "markup_env = \<lparr>ce_DBs = [''cache''], ce_marshal = (\<lambda>_. ''p''), ce_unmarshal = (\<lambda>_. Some markup_policy), ce_sha = (\<lambda>t. t),
     ce_micros = (\<lambda>_. 0), ce_explain = (\<lambda>_. [(''key'', ''range'')]),
     ce_catalog = \<lparr>cg_read_only = 0, cg_engine = (\<lambda>_. Some ''InnoDB''), cg_controlPK = 1, cg_pk = (\<lambda>_. 1), cg_visibilityColumn = 0,
       cg_indexed = (\<lambda>_ _ _. 1), cg_type = (\<lambda>_ _. Some ''int'')\<rparr>, ce_ended = (\<lambda>_. False)\<rparr>"

definition markup_row :: "nat \<Rightarrow> int option \<Rightarrow> target_row" where
  "markup_row i created = \<lparr>tr_id = i, tr_column = (\<lambda>_. created)\<rparr>"

definition markup_db :: cleanup_db where
  "markup_db = \<lparr>gc_control = (\<lambda>role. if role = ''cache'' then [''cache.markup'' \<mapsto> fresh_State ''gorge'' ''p'' ''p''] else Map.empty),
     gc_target = (\<lambda>_. [markup_row 1 (Some 50), markup_row 2 None, markup_row 3 (Some 950)])\<rparr>"

lemma markup_spec: "Lookup ''cache.markup'' =
    Some \<lparr>sp_ID = ''cache.markup'', sp_Role = ''cache'', sp_Table = ''cache_markupcache'', sp_Column = ''dateCreated''\<rparr>"
  by (simp add: Lookup_def specs_def)

lemma markup_valid: "Validate markup_policy"
  by (simp add: Validate_def markup_spec markup_policy_def)

lemmas markup_defs = markup_env_def markup_db_def markup_policy_def fresh_State_def

lemma markup_decode: "gs_Policy st = ''p'' \<Longrightarrow> gs_Hash st = ''p'' \<Longrightarrow> decodeState markup_env ''cache.markup'' st = Inr markup_policy"
  using markup_valid by (simp add: decodeState_def markup_env_def) (simp add: markup_policy_def)

text \<open>The lease of a claim at second 1000, the state it leaves, and a batch at second 1001: the row of second 50 goes.\<close>

definition markup_lease :: CleanupLease where
  "markup_lease = \<lparr>le_ID = ''cache.markup'', le_Owner = ''w1'', le_Epoch = 0, le_Fence = 1, le_Cutoff = 900, le_Policy = markup_policy\<rparr>"

definition markup_claimed :: cleanup_db where
  "markup_claimed = set_control ''cache'' ''cache.markup'' (claim_state ''w1'' 1015 900) markup_db"

lemma markup_claim:
  "\<exists>n'. gc_Claim markup_env ''cache.markup'' ''w1'' False (calm 1000) 0 markup_db = (Inr markup_lease, n', markup_claimed)"
proof -
  have st: "gc_control markup_db ''cache'' ''cache.markup'' = Some (fresh_State ''gorge'' ''p'' ''p'')" by (simp add: markup_db_def)
  have "decodeState markup_env ''cache.markup'' (fresh_State ''gorge'' ''p'' ''p'') = Inr markup_policy"
    by (rule markup_decode) (simp_all add: fresh_State_def)
  moreover have "''cache'' \<in> set (ce_DBs markup_env)" by (simp add: markup_env_def)
  moreover have "cutoff_of markup_policy 1000 = 900" "po_Mode markup_policy \<noteq> ''indefinite''"
    by (simp_all add: cutoff_of_def Let_def markup_policy_def)
  ultimately show ?thesis using st
    by (simp add: gc_Claim_def Store_db_def markup_spec claim_body_def transaction_def bindP_def gc_lock_def gc_now_def update_control_def
        run_stmt_fine markup_lease_def markup_claimed_def)
      (simp add: fresh_State_def)
qed

lemma markup_batch: "\<exists>n' s'. gc_Batch markup_env markup_lease 2 (calm 1001) n markup_claimed = (Inr 1, n', s')"
proof -
  have st: "gc_control markup_claimed ''cache'' ''cache.markup'' = Some (claim_state ''w1'' 1015 900 (fresh_State ''gorge'' ''p'' ''p''))"
    by (simp add: markup_claimed_def markup_db_def set_control_def)
  have "decodeState markup_env ''cache.markup'' (claim_state ''w1'' 1015 900 (fresh_State ''gorge'' ''p'' ''p'')) = Inr markup_policy"
    by (rule markup_decode) (simp_all add: fresh_State_def claim_state_def)
  moreover have "checkLease (claim_state ''w1'' 1015 900 (fresh_State ''gorge'' ''p'' ''p'')) markup_lease 1001"
    by (simp add: checkLease_def claim_state_def fresh_State_def markup_lease_def)
  moreover have "''cache'' \<in> set (ce_DBs markup_env)" by (simp add: markup_env_def)
  moreover have "gc_control markup_claimed ''cache'' budget_row = None" "gc_target markup_claimed = gc_target markup_db"
    by (simp_all add: markup_claimed_def markup_db_def set_control_def budget_row_def)
  moreover have "po_BatchRows markup_policy = 2" "ce_micros markup_env = (\<lambda>_. 0)" "ce_explain markup_env = (\<lambda>_. [(''key'', ''range'')])"
    by (simp_all add: markup_policy_def markup_env_def)
  moreover have "length (first_expired \<lparr>sp_ID = ''cache.markup'', sp_Role = ''cache'', sp_Table = ''cache_markupcache'', sp_Column = ''dateCreated''\<rparr>
      900 2 (gc_target markup_db ''cache_markupcache'')) = 1"
    by (simp add: first_expired_def expired_row_def markup_db_def markup_row_def)
  moreover have "gs_Cutoff (fresh_State ''paused'' ''{}'' []) = 0" by (simp add: fresh_State_def)
  ultimately show ?thesis using st markup_valid
    by (simp add: gc_Batch_def Store_db_def markup_spec batch_body_def transaction_def bindP_def gc_lock_def gc_now_def db_micros_def
        validateDeletePlan_def delete_expired_def update_control_def insert_control_def run_stmt_fine markup_lease_def Let_def)
qed

section \<open>Properties\<close>

text \<open>
  C37. Whatever fails, a batch either changes nothing and reports an error, or it deletes in one step, under a lease that is live: the control row
  still names this owner, epoch and fence, and the database clock read in the batch's own transaction, at its third tick, is before the row's expiry.
  It then deletes only rows of the registered table of its collector: at most the
  limit and never more than a hundred, each with a time strictly before the cutoff, which lies the whole retention of the policy before the
  database clock that the claim read in its transaction; rows without a time stay, the oldest go first, and the number it returns is the
  number of rows that are gone.
\<close>

theorem cleanup_batch_safe:
  assumes "gc_Claim env i owner force w0 n0 s0 = (Inr l, n1, s1)" "gc_Batch env l limit w n s = (r, n', s')"
    and "\<forall>table. distinct (map tr_id (gc_target s table))"
  shows "(s' = s \<and> (\<exists>e. r = Inl e)) \<or>
     (\<exists>spec st. Lookup i = Some spec \<and> gc_control s (sp_Role spec) i = Some st \<and>
        gs_Owner st = ''gorge'' \<and> gs_Epoch st = le_Epoch l \<and> gs_Fence st = le_Fence l \<and> gs_LeaseOwner st = owner \<and>
        w_clock w (n + 3) < gs_LeaseExpires st \<and>
        le_Cutoff l = max 0 (w_clock w0 (n0 + 3) - po_RetentionSeconds (le_Policy l)) \<and> limit \<le> 100 \<and>
        (\<forall>table. table \<noteq> sp_Table spec \<longrightarrow> gc_target s' table = gc_target s table) \<and>
        (\<forall>row \<in> set (gc_target s (sp_Table spec)) - set (gc_target s' (sp_Table spec)).
           \<exists>v. tr_column row (sp_Column spec) = Some v \<and> v < le_Cutoff l \<and>
             (\<forall>row' \<in> set (gc_target s' (sp_Table spec)). \<forall>v'. tr_column row' (sp_Column spec) = Some v' \<longrightarrow> v' < le_Cutoff l \<longrightarrow> v \<le> v')) \<and>
        (\<exists>rows. length (gc_target s' (sp_Table spec)) + rows = length (gc_target s (sp_Table spec)) \<and> int rows \<le> limit \<and>
           (r = Inr rows \<or> r = Inl (CleanupDb ''tx''))))"
  using assms(2)
proof (cases rule: gc_Batch_cases)
  case (commit spec st t)
  have l: "le_ID l = i" "le_Owner l = owner" "le_Cutoff l = cutoff_of (le_Policy l) (w_clock w0 (n0 + 3))" "Validate (le_Policy l)"
    using assms(1) by (cases rule: gc_Claim_cases; auto dest: decodeState_valid)+
  let ?rows = "gc_target s (sp_Table spec)" and ?gone = "first_expired spec (le_Cutoff l) (nat limit) (gc_target s (sp_Table spec))"
  have cut: "le_Cutoff l = max 0 (w_clock w0 (n0 + 3) - po_RetentionSeconds (le_Policy l))"
    using l(3,4) by (auto simp: cutoff_of_def Let_def Validate_def split: option.splits if_splits)
  have target: "gc_target s' = (gc_target s)(sp_Table spec := filter (\<lambda>r. tr_id r \<notin> tr_id ` set ?gone) ?rows)"
    using commit(7) by (simp add: batch_effect_def)
  have dist: "distinct (map tr_id ?rows)" using assms(3) by blast
  have gone: "row \<in> set ?gone" if row: "row \<in> set ?rows - set (gc_target s' (sp_Table spec))" for row
  proof -
    obtain g where "g \<in> set ?gone" "tr_id g = tr_id row" using row target by auto
    then show ?thesis using map_of_key_unique [OF dist, of g row] row first_expired_sub(1) [of spec "le_Cutoff l" "nat limit" ?rows] by auto
  qed
  have old: "\<exists>v. tr_column row (sp_Column spec) = Some v \<and> v < le_Cutoff l \<and>
      (\<forall>row' \<in> set (gc_target s' (sp_Table spec)). \<forall>v'. tr_column row' (sp_Column spec) = Some v' \<longrightarrow> v' < le_Cutoff l \<longrightarrow> v \<le> v')"
    if "row \<in> set ?rows - set (gc_target s' (sp_Table spec))" for row
  proof -
    have "expired_row (sp_Column spec) (le_Cutoff l) row" using gone [OF that] first_expired_sub(1) by blast
    then obtain v where v: "tr_column row (sp_Column spec) = Some v" "v < le_Cutoff l" by (auto simp: expired_row_def split: option.splits)
    have "v \<le> v'" if "row' \<in> set (gc_target s' (sp_Table spec))" "tr_column row' (sp_Column spec) = Some v'" "v' < le_Cutoff l" for row' v'
    proof -
      have "row' \<in> set ?rows" "row' \<notin> set ?gone" using that(1) target by auto
      then show ?thesis using first_expired_oldest [OF gone [OF \<open>row \<in> _\<close>], of row'] that(2,3) v(1) by (simp add: expired_row_def)
    qed
    then show ?thesis using v by blast
  qed
  have "length (gc_target s' (sp_Table spec)) + length ?gone = length ?rows"
    using removed_length [OF dist, of ?gone] first_expired_sub(1) [of spec "le_Cutoff l" "nat limit" ?rows]
      first_expired_distinct [OF dist] target by auto
  moreover have "int (length ?gone) \<le> limit" using first_expired_sub(2) [of spec "le_Cutoff l" "nat limit" ?rows] commit(2) by simp
  moreover have "limit \<le> 100" using commit(3) Validate_bounds [OF commit(4)] by simp
  moreover have "gs_Owner st = ''gorge'' \<and> gs_Epoch st = le_Epoch l \<and> gs_Fence st = le_Fence l \<and> gs_LeaseOwner st = owner \<and>
      w_clock w (n + 3) < gs_LeaseExpires st"
    using commit(6,9) l(2) by (simp add: checkLease_def)
  ultimately show ?thesis using commit(1,5,8) l(1) cut target old by auto
qed blast

theorem cleanup_batch_safe_witness:
  "\<exists>l n1 s1 n' s'. gc_Claim markup_env ''cache.markup'' ''w1'' False (calm 1000) 0 markup_db = (Inr l, n1, s1) \<and>
     gc_Batch markup_env l 2 (calm 1001) 0 s1 = (Inr 1, n', s') \<and> le_Cutoff l = 900 \<and>
     Suc (length (gc_target s' ''cache_markupcache'')) = length (gc_target s1 ''cache_markupcache'')"
proof -
  obtain n1 where claim: "gc_Claim markup_env ''cache.markup'' ''w1'' False (calm 1000) 0 markup_db = (Inr markup_lease, n1, markup_claimed)"
    using markup_claim by blast
  obtain n' s' where run: "gc_Batch markup_env markup_lease 2 (calm 1001) 0 markup_claimed = (Inr 1, n', s')" using markup_batch by blast
  have "\<forall>table. distinct (map tr_id (gc_target markup_claimed table))" by (simp add: markup_claimed_def markup_db_def markup_row_def)
  from cleanup_batch_safe [OF claim run this]
  have "le_Cutoff markup_lease = 900 \<and> Suc (length (gc_target s' ''cache_markupcache'')) = length (gc_target markup_claimed ''cache_markupcache'')"
    by (auto simp: markup_spec markup_lease_def)
  then show ?thesis using claim run by blast
qed

text \<open>
  C38. The fence orders the owners of a collector: once a claim has been followed by another claim, a change of owner or an import for
  the same collector, with anything else in between and after, the lease of the first claim deletes nothing and settles nothing
  any more, whatever clocks say.
\<close>

theorem cleanup_overtaken:
  assumes "gc_Claim env i owner force w0 n0 s0 = (Inr l, n1, s1)" "(cleanup_step env)\<^sup>*\<^sup>* s1 s2" "fence_rises env i s2 s3"
    and "(cleanup_step env)\<^sup>*\<^sup>* s3 s4"
  shows "(\<exists>e n'. gc_Batch env l limit w n s4 = (Inl e, n', s4)) \<and> (\<exists>e n'. gc_Finish env l status failed w n s4 = (Inl e, n', s4))"
proof -
  have l: "fence_at i s1 = Some (le_Fence l)" "le_ID l = i" using claimed_fence [OF assms(1)] by simp_all
  obtain f2 where "fence_at i s2 = Some f2" "le_Fence l \<le> f2" using fence_at_up [OF steps_fences [OF assms(2)] l(1)] by blast
  then obtain f3 where f3: "fence_at i s3 = Some f3" "le_Fence l < f3" using rises_fence [OF assms(3)] by fastforce
  then obtain f4 where "fence_at i s4 = Some f4" "le_Fence l < f4" using fence_at_up [OF steps_fences [OF assms(4)] f3(1)] by fastforce
  then show ?thesis using overtaken_stuck [of l s4 f4] l(2) by blast
qed

theorem cleanup_overtaken_witness:
  "\<exists>l n1 s1 s3. gc_Claim markup_env ''cache.markup'' ''w1'' False (calm 1000) 0 markup_db = (Inr l, n1, s1) \<and>
     (\<exists>n3. gc_SetOwner markup_env ''cache.markup'' ''paused'' (calm 1001) 0 s1 = (Inr (), n3, s3)) \<and>
     (\<exists>e n'. gc_Batch markup_env l 2 (calm 1002) 0 s3 = (Inl e, n', s3))"
proof -
  obtain l n1 s1 where claim: "gc_Claim markup_env ''cache.markup'' ''w1'' False (calm 1000) 0 markup_db = (Inr l, n1, s1)"
    using markup_claim by blast
  then obtain st where "gc_control s1 ''cache'' ''cache.markup'' = Some st"
    by (cases rule: gc_Claim_cases) (auto simp: markup_spec set_control_def)
  then have "\<exists>n3 s3. gc_SetOwner markup_env ''cache.markup'' ''paused'' (calm 1001) 0 s1 = (Inr (), n3, s3)"
    by (simp add: gc_SetOwner_def Store_db_def markup_spec markup_env_def owner_body_def transaction_def bindP_def gc_lock_def
        update_control_def run_stmt_fine)
  then obtain n3 s3 where own: "gc_SetOwner markup_env ''cache.markup'' ''paused'' (calm 1001) 0 s1 = (Inr (), n3, s3)" by blast
  then have "fence_rises markup_env ''cache.markup'' s1 s3" unfolding fence_rises_def by blast
  from cleanup_overtaken [OF claim rtranclp.rtrancl_refl this rtranclp.rtrancl_refl] show ?thesis using claim own by blast
qed

text \<open>
  C39. A single run comes to an end when time passes, whatever fails and however often the database is busy: there is a number of rounds after which
  more rounds make no difference to its having ended. It has then made only
  calls of the service and reports at most ten thousand rows.
\<close>

theorem cleanup_run_ends:
  assumes "\<forall>m0. \<exists>N. \<forall>m \<ge> N. w_clock w m0 + 30 \<le> w_clock w m"
  shows "\<exists>k0. \<forall>k \<ge> k0. \<exists>rows err. result (RunOnce env token k i w n s) = Inr (Some (rows, err)) \<and> 0 \<le> rows \<and> rows \<le> 10000 \<and>
     (service_step env)\<^sup>*\<^sup>* s (final (RunOnce env token k i w n s))"
proof -
  obtain k0 where k0: "\<forall>k \<ge> k0. result (RunOnce env token k i w n s) \<noteq> Inr None" using RunOnce_ends [OF assms] by blast
  have "\<exists>rows err. result (RunOnce env token k i w n s) = Inr (Some (rows, err)) \<and> 0 \<le> rows \<and> rows \<le> 10000 \<and>
      (service_step env)\<^sup>*\<^sup>* s (final (RunOnce env token k i w n s))" if "k \<ge> k0" for k
  proof -
    obtain r n' s' where run: "RunOnce env token k i w n s = (r, n', s')" by (cases "RunOnce env token k i w n s")
    note runs = RunOnce_runs [of env s token k i]
    obtain out where r: "r = Inr out" using hoareD_err [OF runs, of s w n] run by (cases r) auto
    then show ?thesis using hoareD_ok [OF runs, of s w n out n' s'] run k0 that by (cases out) auto
  qed
  then show ?thesis by blast
qed

theorem cleanup_run_ends_witness:
  "\<exists>k rows err. result (RunOnce markup_env ''w1'' k ''cache.markup'' \<lparr>w_fault = (\<lambda>_. Fine), w_clock = int\<rparr> 0 markup_db) = Inr (Some (rows, err)) \<and>
     rows \<le> 10000"
proof -
  have "\<exists>N. \<forall>m \<ge> N. int m0 + 30 \<le> int m" for m0 by (rule exI [of _ "m0 + 30"]) simp
  then have "\<forall>m0. \<exists>N. \<forall>m \<ge> N. w_clock \<lparr>w_fault = (\<lambda>_. Fine), w_clock = int\<rparr> m0 + 30 \<le> w_clock \<lparr>w_fault = (\<lambda>_. Fine), w_clock = int\<rparr> m"
    by simp
  from cleanup_run_ends [OF this, of markup_env "''w1''" "''cache.markup''" 0 markup_db] show ?thesis by blast
qed

text \<open>A pass of the background loop over the registry never fails and makes only calls of the service.\<close>

lemma cleanup_pass_refines:
  assumes "lanes_ok active"
  shows "\<exists>active'. result (run_pass env owner specs active w n s) = Inr active' \<and> lanes_ok active' \<and>
     (service_step env)\<^sup>*\<^sup>* s (final (run_pass env owner specs active w n s))"
proof -
  obtain r n' s' where run: "run_pass env owner specs active w n s = (r, n', s')" by (cases "run_pass env owner specs active w n s")
  note runs = run_pass_runs [OF assms, of env s owner specs]
  obtain out where r: "r = Inr out" using hoareD_err [OF runs, of s w n] run by (cases r) auto
  then show ?thesis using hoareD_ok [OF runs, of s w n out n' s'] run by auto
qed

text \<open>
  C40. The background loop keeps a run within its budget. Over all the looks that its passes take at a collector since the claim, whatever fails and
  whatever happens in between, the rows that are gone from the table, those of a batch whose reply was lost included, never exceed the
  rows the policy allows one run; each look takes at most one batch and touches no other
  table and no other collector's progress, no row goes once the seconds of the run have passed, and while the run goes on its progress has
  counted every row that is gone.
\<close>

theorem cleanup_run_budget:
  assumes "lane_looks env i p0 d p" "pg_rows p0 = 0" "Validate (le_Policy (pg_lease p0))" "Lookup (le_ID (pg_lease p0)) = Some spec"
    and "\<forall>table. distinct (map tr_id (gc_target s table))" "active i = Some p" "advance env active i p w n s = (r, n', s')"
  shows "\<exists>active' go. r = Inr (active', go) \<and>
     (\<exists>k. int (length (gc_target s (sp_Table spec))) = int (length (gc_target s' (sp_Table spec))) + k \<and> 0 \<le> k \<and>
        d + k \<le> po_RunRows (le_Policy (pg_lease p0)) \<and> k \<le> po_BatchRows (le_Policy (pg_lease p0)) \<and>
        (k \<noteq> 0 \<longrightarrow> w_clock w n < pg_start p0 + po_RunSeconds (le_Policy (pg_lease p0))) \<and>
        (\<forall>p'. active' i = Some p' \<longrightarrow> pg_lease p' = pg_lease p0 \<and> pg_rows p' = d + k)) \<and>
     (\<forall>table. table \<noteq> sp_Table spec \<longrightarrow> gc_target s' table = gc_target s table) \<and> (\<forall>j. j \<noteq> i \<longrightarrow> active' j = active j)"
proof -
  have "progress_ok p0" using assms(2,3) Validate_bounds [OF assms(3)] by (simp add: progress_ok_def)
  from lane_counts [OF assms(1) this assms(2)]
  have p: "progress_ok p" "pg_rows p = d" "pg_lease p = pg_lease p0" "pg_start p = pg_start p0" by simp_all
  have "rows_distinct s" using assms(5) by (simp add: rows_distinct_def)
  from advance_look [OF p(1) this assms(6,7)] obtain active' go where look: "r = Inr (active', go)"
    "look_ok i p active (w_clock w n) s s' active'" by blast
  then show ?thesis using p assms(4)
    by (intro exI [of _ active'] exI [of _ go] conjI exI [of _ "rows_gone (pg_lease p0) s s'"])
       (auto simp: look_ok_def Let_def only_table_def rows_gone_def)
qed

text \<open>The run of the lease above: its first look takes the one row that has expired.\<close>

definition markup_progress :: progress where
  "markup_progress = \<lparr>pg_lease = markup_lease, pg_start = 1001, pg_rows = 0\<rparr>"

lemma markup_rows: "\<forall>table. distinct (map tr_id (gc_target markup_claimed table))"
  by (simp add: markup_claimed_def markup_db_def markup_row_def)

lemma markup_look:
  assumes "advance markup_env active ''cache.markup'' markup_progress (calm 1001) n markup_claimed = (r, n', s')"
  shows "rows_gone markup_lease markup_claimed s' = 1"
proof -
  obtain n1 s1 where batch: "gc_Batch markup_env markup_lease 2 (calm 1001) (Suc n) markup_claimed = (Inr 1, n1, s1)" using markup_batch by blast
  have "rows_gone markup_lease markup_claimed s1 = 1"
    using batch_gone [OF _ batch] markup_rows by (simp add: rows_distinct_def)
  moreover have "gc_target s' = gc_target s1"
  proof -
    have p: "pg_lease markup_progress = markup_lease" "le_Policy markup_lease = markup_policy" "pg_start markup_progress = 1001"
      "pg_rows markup_progress = 0" "po_RunSeconds markup_policy = 1" "po_RunRows markup_policy = 10" "next_limit markup_policy 0 = 2"
      by (simp_all add: markup_progress_def markup_lease_def markup_policy_def next_limit_def)
    obtain n2 s2 where "gc_finish markup_env markup_lease ''exhausted'' False (calm 1001) n1 s1 = (Inr (), n2, s2)" "gc_target s2 = gc_target s1"
      using gc_finish_run by blast
    then show ?thesis using assms outcome_run [of "gc_Batch markup_env markup_lease 2", OF batch]
      by (simp add: advance_def bindP_def gc_wait_def p)
  qed
  ultimately show ?thesis using gone_same(1) by metis
qed

theorem cleanup_run_budget_witness:
  "\<exists>active' go n' s'. advance markup_env [''cache.markup'' \<mapsto> markup_progress] ''cache.markup'' markup_progress (calm 1001) 0 markup_claimed =
       (Inr (active', go), n', s') \<and>
     length (gc_target markup_claimed ''cache_markupcache'') = Suc (length (gc_target s' ''cache_markupcache'')) \<and>
     gc_target s' ''cache_general'' = gc_target markup_claimed ''cache_general''"
proof -
  obtain r n' s' where run:
    "advance markup_env [''cache.markup'' \<mapsto> markup_progress] ''cache.markup'' markup_progress (calm 1001) 0 markup_claimed = (r, n', s')"
    by (cases "advance markup_env [''cache.markup'' \<mapsto> markup_progress] ''cache.markup'' markup_progress (calm 1001) 0 markup_claimed")
  have p: "pg_rows markup_progress = 0" "Validate (le_Policy (pg_lease markup_progress))"
    "Lookup (le_ID (pg_lease markup_progress)) = Some \<lparr>sp_ID = ''cache.markup'', sp_Role = ''cache'', sp_Table = ''cache_markupcache'', sp_Column = ''dateCreated''\<rparr>"
    using markup_valid markup_spec by (simp_all add: markup_progress_def markup_lease_def)
  have lane: "[''cache.markup'' \<mapsto> markup_progress] ''cache.markup'' = Some markup_progress" by simp
  note budget = cleanup_run_budget [OF lane_looks.Begin p markup_rows lane run]
  then obtain active' go where r: "r = Inr (active', go)" by blast
  have "gc_target s' ''cache_general'' = gc_target markup_claimed ''cache_general''"
    using budget by (elim exE conjE) simp
  moreover have "length (gc_target markup_claimed ''cache_markupcache'') = Suc (length (gc_target s' ''cache_markupcache''))"
    using markup_look [OF run] p(3) by (simp add: rows_gone_def markup_progress_def)
  ultimately show ?thesis using run r by blast
qed

end
