(* ===== verification/Spec2Isabelle.thy ===== *)
theory Spec2Isabelle
  imports Unified Prose_Properties MySQL_Properties Redis_Properties Scheduler_Properties Queue_Http_Properties Worker_Properties Uploads_Properties Webhook_Properties Mail_Properties Outbox_Properties Cleanup_Properties
begin

text \<open>
  A verification of the Go services under \<open>src/go\<close>.

  \<^bold>\<open>The program.\<close> The repository is a set of services that take over background work of a Phorge
  installation. A task queue (\<open>internal/taskqueue\<close>) keeps tasks in MySQL or in Redis and hands them out under
  leases; its routes are served over HTTP, and a scheduler in the same process fires triggers into the queue.
  Workers (\<open>internal/worker\<close>) lease tasks over HTTP, run handlers and report the outcome. Next to the queue stand services
  with tables or directories of their own: two diff engines (\<open>internal/diff\<close>), resumable uploads
  (\<open>internal/filestorage\<close>), the delivery of webhooks (\<open>internal/webhook\<close>) and of mail (\<open>internal/mailer\<close>), and the cleanup of
  old rows (\<open>internal/maintenance\<close>).

  \<^bold>\<open>How programs are modelled.\<close> Theory \<open>Prelude\<close> holds the vocabulary. A program over a state is a function
  that takes a world, a tick and the state and returns an error or a value, the next tick and the new state. The world says for every
  tick what becomes of the statement made there, \<open>Fine\<close>, \<open>Broken\<close> (no effect and an error) or
  \<open>Lost\<close> (the effect takes place and the caller sees an error), and what the clock shows. \<open>stmt\<close> is one statement,
  \<open>transaction\<close> a sequence that is undone unless its commit takes effect, \<open>tryP\<close> the handling of an
  error. A statement over every world therefore covers failing statements, lost replies of commits, clocks that
  jump, and crashes between two statements, since everything after a crash is a run that never happened.
  Three calculi serve the proofs: \<open>hoare\<close> for invariants of one program, \<open>preserves\<close> for relations between the first
  and the last state, and \<open>walks\<close> for programs whose runs are sequences of steps of an inductive history with other
  processes.
  Go's slices, strings, integers and errors are lists, bytes, \<open>int\<close> (with the conversions the code
  makes) and datatypes. Code outside the repository, such as hash functions, providers and remote planners, is
  a parameter.

  \<^bold>\<open>The task queue.\<close>
  \<^item> \<open>Queue_Contracts\<close>: the structures of \<open>internal/contracts/taskqueue.go\<close>, \<open>taskqueue_execution.go\<close> and \<open>scheduler.go\<close>.
  \<^item> \<open>MySQL_Store\<close>: \<open>mysql_store.go\<close>, \<open>execution_mysql.go\<close> and \<open>inbox_mysql.go\<close>; the record \<open>queue_db\<close> has one field per table,
    and every method of \<open>MySQLStore\<close> is a definition of its name. \<open>MySQL_Facts\<close> has the invariant of the tables and
    that every call keeps it; \<open>MySQL_Properties\<close> shows that no call but those of its holder and the unfenced calls on its task ends a live
    window, stale windows change nothing, repeated finalizations and events take effect at most once, and what a lease grants.
  \<^item> \<open>Redis_Store\<close>, \<open>Redis_Facts\<close>, \<open>Redis_Properties\<close>: the same for \<open>redis_store.go\<close>, \<open>execution_redis.go\<close> and
    \<open>inbox_redis.go\<close>, with every script as one atomic command over hashes and sorted sets, and with the rounding of the
    floating-point score written out.
  \<^item> \<open>Exactly_Once\<close> (locale \<open>repeatable\<close>) and \<open>Store_Interface\<close> (locale \<open>leasing_store\<close>): the contracts
    that both backends implement, with the consequences proved once.
  \<^item> \<open>Queue_Http\<close>, \<open>Queue_Http_Facts\<close>, \<open>Queue_Http_Properties\<close>: \<open>http.go\<close>, \<open>execution.go\<close>, \<open>inbox.go\<close> and the envelope and the error
    handler of \<open>platform/httpx\<close>, over any store (locale \<open>served_store\<close>); every request is refused without
    effect or is exactly one store call.
  \<^item> \<open>Scheduler\<close>, \<open>Scheduler_Facts\<close>, \<open>Scheduler_Properties\<close>: \<open>scheduler.go\<close> and \<open>scheduler_mysql.go\<close>, whose tables extend those
    of the queue; no occurrence of a trigger fires twice, and a cycle is a sequence of steps of the history that says so.
  \<^item> \<open>Worker\<close>, \<open>Worker_Facts\<close>, \<open>Worker_Properties\<close>: the client, the registry, the heartbeat and the consumer of \<open>internal/worker\<close>, which
    talk to the queue through the model of its routes; a worker counts only what the queue recorded,
    ends no execution of another worker, even one that took its task over meanwhile, and completes its tasks when nothing fails.
  \<^item> \<open>Outbox\<close>, \<open>Outbox_Facts\<close>, \<open>Outbox_Properties\<close>: the relay of \<open>worker/outbox/relay.go\<close>, which feeds events of source tables
    into the queue through the worker's client; no event is lost or enqueued twice, whatever fails on the way.

  \<^bold>\<open>The diff engines.\<close> \<open>Unified\<close> is \<open>diff/unified/unified.go\<close>: the edit script is shortest, and both
  texts can be read back from the rendered diff. \<open>Prose\<close>, \<open>Prose_Facts\<close> and \<open>Prose_Properties\<close> are \<open>diff/prose/prose.go\<close>:
  every answer for well-formed UTF-8 reassembles to both texts, its segments are in normal form, and the alignment is optimal.

  \<^bold>\<open>Uploads.\<close> \<open>Uploads\<close>, \<open>Uploads_Facts\<close> and \<open>Uploads_Properties\<close> are \<open>filestorage/uploads.go\<close>, with the volume as a
  list of directories and every file operation a statement that can fail: no call takes back a chunk, a digest
  or a state, reads agree, a cancellation is final, and an upload without failures is read back.

  \<^bold>\<open>Webhooks.\<close> \<open>Webhook\<close>, \<open>Webhook_Facts\<close> and \<open>Webhook_Properties\<close> are \<open>webhook/model.go\<close>, \<open>store.go\<close> and \<open>dispatcher.go\<close>. The
  history has whole runs of dispatchers, single calls of others and the application. A run posts only after a claim of its own, no version
  of a request is posted twice unless a clock was behind, a claim
  excludes others for the length of a lease, and the payload is JSON (\<open>Json_Valid\<close> is \<open>json.Valid\<close>).
  A refusal within the second in which a request was queued sets the version back, and the request can be posted again at once.

  \<^bold>\<open>Mail.\<close> \<open>Mail\<close>, \<open>Mail_Facts\<close> and \<open>Mail_Properties\<close> are \<open>mailer/delivery.go\<close>, \<open>dispatch.go\<close>, \<open>outcome.go\<close> and the
  classification in \<open>adapter.go\<close>. The state of the model has, besides the ledger, the submissions that reached a provider.
  If adapters call an error safe only when the provider did not take the message, nothing is taken twice for one
  delivery and the states of the ledger are true.

  \<^bold>\<open>Cleanup.\<close> \<open>Cleanup\<close>, \<open>Cleanup_Facts\<close> and \<open>Cleanup_Properties\<close> are \<open>policy.go\<close>, \<open>store.go\<close>, \<open>schema.go\<close> and \<open>scheduler.go\<close> of
  \<open>maintenance/cleanup\<close>, with a control table per role and the cleaned tables as lists of rows. A batch deletes only rows before the
  cutoff of its claim and under a lease that is live on the database's clock, a lease that was overtaken deletes nothing, a single
  run ends when time passes, and the background loop keeps every run within its budget of rows and seconds.

  \<^bold>\<open>Bounds.\<close> Recursion follows the data or a measure. \<open>json_valid\<close> runs with fuel twice the length of the
  text plus two, one unit for each value and each separator, and the facts about it hold for that fuel. A report of a worker
  makes at most five attempts, as \<open>resultReportAttempts\<close> says; the heartbeat and the poll loop run for as many
  rounds as their argument says, and the theorems hold for every number. The loop of a single cleanup run has a number of rounds as
  its argument, and some number is shown to be enough. The retries of a mailer are the configured number.

  \<^bold>\<open>Not modelled.\<close>
  \<^item> Process start-up, configuration from the environment, connection pools, logging and health probes: they have no
    state that the properties speak of.
  \<^item> Loops that repeat a modelled cycle on a ticker: the cycle is modelled.
  \<^item> Rendering of mail, provider clients, object storage clients, search engines, Gitea and Conduit forwarding,
    syntax highlighting and image codecs: they translate structures into requests to services or libraries that are not part
    of the repository.
  \<^item> The inspection of database servers by \<open>dbapi\<close>, the statement router of \<open>dbproxy\<close>, the integrations, the
    notification hub and the rebuild of search projections: components of their own that no
    modelled component calls.
\<close>

end
